(* ===== verification/Prelude.thy ===== *)
theory Prelude
  imports Main "HOL-Library.AList" "HOL-Library.Word" "HOL-Library.Multiset" "HOL-Library.Sublist"
    "HOL-Library.Char_ord" "HOL-Library.List_Lexorder"
begin

text \<open>
  Shared vocabulary of the development: Go strings as byte strings and the white-space
  trimming of the standard library's \<^verbatim>\<open>strings.TrimSpace\<close>, Go maps as
  association lists with their lookup laws, and the generic facts on lists and maps that
  the component theories use.
\<close>

named_theorems map_laws \<open>lookups after an update of a Go map\<close>

section \<open>Integers and bytes\<close>

type_synonym u64 = "64 word"
type_synonym i64 = "64 word"
type_synonym i32 = "32 word"
type_synonym bytes = string

abbreviation byte :: "char \<Rightarrow> nat" where
  "byte c \<equiv> of_char c"

section \<open>UTF-8\<close>

text \<open>
  \<^verbatim>\<open>utf8.DecodeRune\<close> and \<^verbatim>\<open>utf8.Valid\<close>: the ranges of the second byte exclude
  overlong forms, surrogates and code points above U+10FFFF. The width of the code point at
  the head of a string is 0 where the head is no code point; a loop over a string then goes
  on after one byte.
\<close>

definition cont :: "char \<Rightarrow> bool" where
  "cont c \<longleftrightarrow> 0x80 \<le> byte c \<and> byte c \<le> 0xBF"

definition second_ok :: "char \<Rightarrow> char \<Rightarrow> bool" where
  "second_ok a b \<longleftrightarrow>
     (if byte a = 0xE0 then 0xA0 else if byte a = 0xF0 then 0x90 else 0x80) \<le> byte b \<and>
     byte b \<le> (if byte a = 0xED then 0x9F else if byte a = 0xF4 then 0x8F else 0xBF)"

fun rune_width :: "bytes \<Rightarrow> nat" where
  "rune_width [] = 0"
| "rune_width (a # s) =
     (if byte a < 0x80 then 1
      else if 0xC2 \<le> byte a \<and> byte a \<le> 0xDF then
        (case s of b # _ \<Rightarrow> if second_ok a b then 2 else 0 | _ \<Rightarrow> 0)
      else if 0xE0 \<le> byte a \<and> byte a \<le> 0xEF then
        (case s of b # c # _ \<Rightarrow> if second_ok a b \<and> cont c then 3 else 0 | _ \<Rightarrow> 0)
      else if 0xF0 \<le> byte a \<and> byte a \<le> 0xF4 then
        (case s of b # c # d # _ \<Rightarrow> if second_ok a b \<and> cont c \<and> cont d then 4 else 0 | _ \<Rightarrow> 0)
      else 0)"

declare rune_width.simps [simp del]

function runes :: "bytes \<Rightarrow> bytes list" where
  "runes [] = []"
| "runes (a # s) = (a # take (rune_width (a # s) - 1) s) # runes (drop (rune_width (a # s) - 1) s)"
  by pat_completeness auto
termination
  by (relation "measure length") auto

definition utf8_valid :: "bytes \<Rightarrow> bool" where
  "utf8_valid s \<longleftrightarrow> (\<forall>t \<in> set (runes s). rune_width t \<noteq> 0)"

section \<open>White space as \<^verbatim>\<open>strings.TrimSpace\<close> sees it\<close>

text \<open>
  A Go string is a byte sequence; \<^verbatim>\<open>unicode.IsSpace\<close> holds of the ASCII spaces,
  of U+0085 and U+00A0 (two bytes in UTF-8), and of U+1680, U+2000 to U+200A, U+2028,
  U+2029, U+202F, U+205F and U+3000 (three bytes).
\<close>

definition ascii_space :: "nat \<Rightarrow> bool" where
  "ascii_space b \<longleftrightarrow> b = 32 \<or> (9 \<le> b \<and> b \<le> 13)"

definition space2 :: "nat \<Rightarrow> nat \<Rightarrow> bool" where
  "space2 a b \<longleftrightarrow> a = 0xC2 \<and> (b = 0x85 \<or> b = 0xA0)"

definition space3 :: "nat \<Rightarrow> nat \<Rightarrow> nat \<Rightarrow> bool" where
  "space3 a b c \<longleftrightarrow>
     a = 0xE1 \<and> b = 0x9A \<and> c = 0x80 \<or>
     a = 0xE2 \<and> b = 0x80 \<and> (0x80 \<le> c \<and> c \<le> 0x8A \<or> c = 0xA8 \<or> c = 0xA9 \<or> c = 0xAF) \<or>
     a = 0xE2 \<and> b = 0x81 \<and> c = 0x9F \<or>
     a = 0xE3 \<and> b = 0x80 \<and> c = 0x80"

fun trim_left :: "string \<Rightarrow> string" where
  "trim_left (a # b # c # s) =
     (if ascii_space (byte a) then trim_left (b # c # s)
      else if space2 (byte a) (byte b) then trim_left (c # s)
      else if space3 (byte a) (byte b) (byte c) then trim_left s
      else a # b # c # s)"
| "trim_left [a, b] =
     (if ascii_space (byte a) then trim_left [b]
      else if space2 (byte a) (byte b) then [] else [a, b])"
| "trim_left [a] = (if ascii_space (byte a) then [] else [a])"
| "trim_left [] = []"

text \<open>The right end, read from the last byte backwards.\<close>

fun trim_rev :: "string \<Rightarrow> string" where
  "trim_rev (c # b # a # s) =
     (if ascii_space (byte c) then trim_rev (b # a # s)
      else if space2 (byte b) (byte c) then trim_rev (a # s)
      else if space3 (byte a) (byte b) (byte c) then trim_rev s
      else c # b # a # s)"
| "trim_rev [c, b] =
     (if ascii_space (byte c) then trim_rev [b]
      else if space2 (byte b) (byte c) then [] else [c, b])"
| "trim_rev [c] = (if ascii_space (byte c) then [] else [c])"
| "trim_rev [] = []"

definition trim_space :: "string \<Rightarrow> string" where
  "trim_space s = rev (trim_rev (rev (trim_left s)))"

text \<open>The test the code writes as \<^verbatim>\<open>strings.TrimSpace(s) == ""\<close>.\<close>

definition blank :: "string \<Rightarrow> bool" where
  "blank s \<longleftrightarrow> trim_space s = []"

lemma blank_Nil [simp]: "blank []"
  by (simp add: blank_def trim_space_def)

lemma not_blank_not_Nil: "\<not> blank s \<Longrightarrow> s \<noteq> []"
  by auto

section \<open>Go maps\<close>

text \<open>
  A Go map is an association list with distinct keys. Go ranges over a map in an
  unspecified order; here a range goes over the list, and the step relations of the
  stateful components let the list be permuted before every step.
\<close>

type_synonym ('k, 'v) gomap = "('k \<times> 'v) list"

abbreviation mget :: "('k, 'v) gomap \<Rightarrow> 'k \<Rightarrow> 'v option" where
  "mget \<equiv> map_of"

abbreviation mput :: "'k \<Rightarrow> 'v \<Rightarrow> ('k, 'v) gomap \<Rightarrow> ('k, 'v) gomap" where
  "mput \<equiv> AList.update"

abbreviation mdel :: "'k \<Rightarrow> ('k, 'v) gomap \<Rightarrow> ('k, 'v) gomap" where
  "mdel \<equiv> AList.delete"

abbreviation keys :: "('k, 'v) gomap \<Rightarrow> 'k list" where
  "keys m \<equiv> map fst m"

text \<open>Lookups stay lookups: they are not rewritten to membership of pairs.\<close>

declare map_of_eq_Some_iff [simp del]
declare Some_eq_map_of_iff [simp del]

text \<open>Mutation through the pointer stored under one key.\<close>

definition madjust :: "'k \<Rightarrow> ('v \<Rightarrow> 'v) \<Rightarrow> ('k, 'v) gomap \<Rightarrow> ('k, 'v) gomap" where
  "madjust k f m = map (\<lambda>(k', v). (k', if k' = k then f v else v)) m"

text \<open>A range loop whose body mutates only the entry it is at.\<close>

definition mapvals :: "('k \<Rightarrow> 'v \<Rightarrow> 'w) \<Rightarrow> ('k, 'v) gomap \<Rightarrow> ('k, 'w) gomap" where
  "mapvals f m = map (\<lambda>(k, v). (k, f k v)) m"

definition same_map :: "('k, 'v) gomap \<Rightarrow> ('k, 'v) gomap \<Rightarrow> bool" where
  "same_map m m' \<longleftrightarrow> mset m = mset m'"

lemma mget_mput [map_laws]: "mget (mput k v m) k' = (if k' = k then Some v else mget m k')"
  by (simp add: update_conv')

lemma mget_mdel [map_laws]: "mget (mdel k m) k' = (if k' = k then None else mget m k')"
  by (simp add: delete_conv')

lemma mget_madjust [map_laws]:
  "mget (madjust k f m) k' = (if k' = k then map_option f (mget m k) else mget m k')"
  by (induction m) (auto simp: madjust_def)

lemma mget_mapvals [map_laws]: "mget (mapvals f m) k = map_option (f k) (mget m k)"
  by (induction m) (auto simp: mapvals_def)

lemma keys_madjust [simp]: "keys (madjust k f m) = keys m"
  by (induction m) (auto simp: madjust_def)

lemma keys_mapvals [simp]: "keys (mapvals f m) = keys m"
  by (induction m) (auto simp: mapvals_def)

lemma distinct_keys_mput [simp]: "distinct (keys m) \<Longrightarrow> distinct (keys (mput k v m))"
  by (rule distinct_update)

lemma distinct_keys_mdel [simp]: "distinct (keys m) \<Longrightarrow> distinct (keys (mdel k m))"
  by (rule distinct_delete)

lemma set_keys_mput [simp]: "set (keys (mput k v m)) = insert k (set (keys m))"
  using dom_update [of k v m] by simp

lemma set_keys_mdel [simp]: "set (keys (mdel k m)) = set (keys m) - {k}"
  by (simp add: delete_keys)

lemma mget_None_iff: "mget m k = None \<longleftrightarrow> k \<notin> set (keys m)"
  by (simp add: map_of_eq_None_iff)

lemma mget_SomeD: "mget m k = Some v \<Longrightarrow> k \<in> set (keys m)"
  by (metis mget_None_iff option.distinct(1))

lemma mget_set: "distinct (keys m) \<Longrightarrow> mget m k = Some v \<longleftrightarrow> (k, v) \<in> set m"
  by (simp add: map_of_eq_Some_iff)

lemma in_keysE:
  assumes "k \<in> set (keys m)"
  obtains v where "mget m k = Some v"
  using assms by (metis mget_None_iff option.exhaust)

lemma mput_fresh: "k \<notin> set (keys m) \<Longrightarrow> mput k v m = m @ [(k, v)]"
  by (induction m) auto

lemma same_map_get:
  assumes "same_map m m'" "distinct (keys m)"
  shows "mget m' = mget m"
proof -
  from assms have "distinct (keys m')"
    by (metis mset_eq_imp_distinct_iff mset_map same_map_def)
  moreover from assms have "set m = set m'"
    by (metis mset_eq_setD same_map_def)
  ultimately show ?thesis
    using assms(2) by (simp add: map_of_inject_set)
qed

lemma same_map_keys: "same_map m m' \<Longrightarrow> distinct (keys m) \<longleftrightarrow> distinct (keys m')"
  by (metis mset_eq_imp_distinct_iff mset_map same_map_def)

lemma same_map_set: "same_map m m' \<Longrightarrow> set m = set m'"
  by (metis mset_eq_setD same_map_def)

lemma same_map_refl [simp]: "same_map m m"
  by (simp add: same_map_def)

lemma same_map_sym: "same_map m m' \<Longrightarrow> same_map m' m"
  by (simp add: same_map_def)

section \<open>Sums over a map\<close>

definition map_sum :: "('v \<Rightarrow> 'a::comm_monoid_add) \<Rightarrow> ('k, 'v) gomap \<Rightarrow> 'a" where
  "map_sum g m = sum_list (map (g \<circ> snd) m)"

lemma map_sum_Nil [simp]: "map_sum g [] = 0"
  by (simp add: map_sum_def)

lemma map_sum_Cons [simp]: "map_sum g (p # m) = g (snd p) + map_sum g m"
  by (simp add: map_sum_def)

lemma map_sum_append [simp]: "map_sum g (m @ m') = map_sum g m + map_sum g m'"
  by (simp add: map_sum_def)

lemma madjust_Nil [simp]: "madjust k f [] = []"
  by (simp add: madjust_def)

lemma madjust_Cons [simp]:
  "madjust k f (p # m) = (fst p, if fst p = k then f (snd p) else snd p) # madjust k f m"
  by (simp add: madjust_def split_def)

lemma madjust_other: "k \<notin> set (keys m) \<Longrightarrow> madjust k f m = m"
  by (induction m) auto

lemma mdel_other: "k \<notin> set (keys m) \<Longrightarrow> mdel k m = m"
  by (induction m) auto

lemma madjust_append [simp]: "madjust k f (m @ m') = madjust k f m @ madjust k f m'"
  by (simp add: madjust_def)

lemma madjust_mput_fresh: "k \<notin> set (keys m) \<Longrightarrow> madjust k f (mput k v m) = mput k (f v) m"
  by (simp add: mput_fresh madjust_other)

lemma madjust_madjust: "madjust k f (madjust k g m) = madjust k (f \<circ> g) m"
  by (induction m) simp_all

lemma madjust_cong:
  "distinct (keys m) \<Longrightarrow> (\<And>v. mget m k = Some v \<Longrightarrow> f v = g v) \<Longrightarrow> madjust k f m = madjust k g m"
  by (induction m) (auto simp: madjust_other)

lemma madjust_id: "distinct (keys m) \<Longrightarrow> (\<And>v. mget m k = Some v \<Longrightarrow> f v = v) \<Longrightarrow> madjust k f m = m"
  by (induction m) (auto simp: madjust_other)

lemma map_sum_madjust:
  "distinct (keys m) \<Longrightarrow> mget m k = Some v \<Longrightarrow>
     map_sum g (madjust k f m) + g v = map_sum g m + g (f v)"
  by (induction m) (auto simp: madjust_other ac_simps split: if_splits)

lemma map_sum_madjust_same:
  "(\<And>v. mget m k = Some v \<Longrightarrow> g (f v) = g v) \<Longrightarrow> distinct (keys m) \<Longrightarrow>
     map_sum g (madjust k f m) = map_sum g m"
  by (induction m) (auto simp: madjust_other split: if_splits)

lemma map_sum_mdel:
  "distinct (keys m) \<Longrightarrow> mget m k = Some v \<Longrightarrow> map_sum g (mdel k m) + g v = map_sum g m"
  by (induction m) (auto simp: mdel_other ac_simps split: if_splits)

lemma map_sum_mput_fresh: "mget m k = None \<Longrightarrow> map_sum g (mput k v m) = map_sum g m + g v"
  by (simp add: mget_None_iff mput_fresh)

lemma map_sum_mapvals_same:
  "(\<And>k v. (k, v) \<in> set m \<Longrightarrow> g (f k v) = g v) \<Longrightarrow> map_sum g (mapvals f m) = map_sum g m"
  by (induction m) (auto simp: mapvals_def)

lemma map_sum_zero: "\<forall>p \<in> set m. g (snd p) = 0 \<Longrightarrow> map_sum g m = 0"
  by (induction m) auto

lemma map_sum_same_map: "same_map m m' \<Longrightarrow> map_sum g m = map_sum g m'"
  unfolding map_sum_def same_map_def by (metis mset_map sum_mset_sum_list)

section \<open>Readers\<close>

text \<open>
  A reader is the list of the results of its successive \<^verbatim>\<open>Read\<close> calls; after the
  list every call returns \<^verbatim>\<open>0, io.EOF\<close>.
\<close>

datatype read_error = EOF | ReadError string

type_synonym reader = "(bytes \<times> read_error option) list"

section \<open>Files\<close>

text \<open>What \<^verbatim>\<open>os.Stat\<close> and \<^verbatim>\<open>os.ReadFile\<close> find at a path.\<close>

datatype file_node =
    Absent string
  | Irregular
  | RegularFile "string + bytes"

type_synonym files = "string \<Rightarrow> file_node"

section \<open>Results and loops\<close>

text \<open>
  An error return is a value of a sum, \<^term>\<open>Inl\<close> the error, or of an option where the
  Go function returns only an \<^verbatim>\<open>error\<close> (\<^term>\<open>None\<close> is \<^verbatim>\<open>nil\<close>).
\<close>

named_theorems guards \<open>chains of early returns that end in no error\<close>

lemma guard_None [guards]: "(if P then Some e else x) = None \<longleftrightarrow> \<not> P \<and> x = None"
  by simp

lemma guard_option_None [guards]:
  "(case x of None \<Rightarrow> y | Some e \<Rightarrow> Some e) = None \<longleftrightarrow> x = None \<and> y = None"
  by (cases x) auto

lemma guard_Inr [guards]: "(if P then Inl e else x) = Inr y \<longleftrightarrow> \<not> P \<and> x = Inr y"
  by simp

lemma guard_option_Inr [guards]:
  "(case x of None \<Rightarrow> y | Some e \<Rightarrow> Inl e) = Inr z \<longleftrightarrow> x = None \<and> y = Inr z"
  by (cases x) auto

lemma apfstE:
  assumes "apfst f p = (r, t)"
  obtains e where "p = (e, t)" "r = f e"
  using assms by (cases p) auto

lemma fold_invariant_set:
  assumes "P s" "\<And>x s. x \<in> set xs \<Longrightarrow> P s \<Longrightarrow> P (f x s)"
  shows "P (fold f xs s)"
  using assms by (induction xs arbitrary: s) auto

end
