(* ===== verification/Protocol.thy ===== *)
theory Protocol
  imports Prelude
begin

text \<open>
  Scanner Protocol v1, \<^verbatim>\<open>src/pkg/protocol/protocol.go\<close>: the message struct, its
  validation, the wire struct (the same message with pointers for the fields whose
  presence matters) and the two conversions between them. The JSON text of a wire struct is
  the matter of \<^verbatim>\<open>Wire\<close>: \<^term>\<open>decode_wire\<close> below is \<^verbatim>\<open>Unmarshal\<close>
  from the decoded wire struct on.
\<close>

section \<open>Constants\<close>

abbreviation ProtocolVersion :: i64 where "ProtocolVersion \<equiv> 1"

abbreviation "TypeHello \<equiv> ''HELLO''"
abbreviation "TypeHealthCheck \<equiv> ''HEALTH_CHECK''"
abbreviation "TypeScan \<equiv> ''SCAN''"
abbreviation "TypeReload \<equiv> ''RELOAD''"
abbreviation "TypeShutdown \<equiv> ''SHUTDOWN''"
abbreviation "TypeHelloAck \<equiv> ''HELLO_ACK''"
abbreviation "TypeHealthResult \<equiv> ''HEALTH_RESULT''"
abbreviation "TypeScanResult \<equiv> ''SCAN_RESULT''"
abbreviation "TypeReloadResult \<equiv> ''RELOAD_RESULT''"
abbreviation "TypeShutdownAck \<equiv> ''SHUTDOWN_ACK''"

type_synonym Verdict = string

abbreviation "VerdictClean \<equiv> ''CLEAN''"
abbreviation "VerdictMalware \<equiv> ''MALWARE''"
abbreviation "VerdictError \<equiv> ''ERROR''"
abbreviation "VerdictTimeout \<equiv> ''TIMEOUT''"
abbreviation "VerdictUnavailable \<equiv> ''UNAVAILABLE''"

section \<open>Messages\<close>

text \<open>
  \<^verbatim>\<open>Capabilities\<close> is a slice, and \<^verbatim>\<open>nil\<close> differs from an empty one:
  \<^term>\<open>None\<close> is \<^verbatim>\<open>nil\<close>.
\<close>

record Message =
  mVersion :: i64
  mType :: string
  mRequestID :: u64
  mScannerID :: string
  mWorkerVersion :: string
  mCapabilities :: "string list option"
  mFilePath :: string
  mSignaturePath :: string
  mStatus :: string
  mVerdict :: Verdict
  mSignature :: string
  mDurationMs :: i64
  mSuccess :: bool
  mSignatureCount :: i64
  mError :: string

definition emptyMessage :: Message where
  "emptyMessage = \<lparr>mVersion = 0, mType = '''', mRequestID = 0, mScannerID = '''',
     mWorkerVersion = '''', mCapabilities = None, mFilePath = '''', mSignaturePath = '''',
     mStatus = '''', mVerdict = '''', mSignature = '''', mDurationMs = 0, mSuccess = False,
     mSignatureCount = 0, mError = ''''\<rparr>"

record wireMessage =
  wVersion :: i64
  wType :: string
  wRequestID :: "u64 option"
  wScannerID :: string
  wWorkerVersion :: string
  wCapabilities :: "string list option"
  wFilePath :: string
  wSignaturePath :: string
  wStatus :: string
  wVerdict :: Verdict
  wSignature :: string
  wDurationMs :: "i64 option"
  wSuccess :: "bool option"
  wSignatureCount :: "i64 option"
  wError :: string

text \<open>One constructor per error return, with the values its text quotes.\<close>

datatype protocol_error =
    BadVersion i64
  | RequiresNonZero string string
  | RequiresNonEmpty string string
  | RequiresField string string
  | EmptyCapability
  | DuplicateCapability string
  | BadStatus
  | BadVerdict string
  | NegativeField string string
  | FailureWithoutError
  | TypeRequired
  | UnknownType string
  | FieldNotAllowed string string

section \<open>Validation\<close>

definition validVerdict :: "Verdict \<Rightarrow> bool" where
  "validVerdict v \<longleftrightarrow> v = VerdictClean \<or> v = VerdictMalware \<or> v = VerdictError \<or>
     v = VerdictTimeout \<or> v = VerdictUnavailable"

definition fieldAllowed :: "string \<Rightarrow> string \<Rightarrow> bool" where
  "fieldAllowed messageType field =
     (if messageType = TypeScan then field = ''request_id'' \<or> field = ''file_path''
      else if messageType = TypeReload then field = ''signature_path''
      else if messageType = TypeHelloAck then
        field = ''scanner_id'' \<or> field = ''worker_version'' \<or> field = ''capabilities''
      else if messageType = TypeHealthResult then field = ''status'' \<or> field = ''error''
      else if messageType = TypeScanResult then
        field = ''request_id'' \<or> field = ''verdict'' \<or> field = ''signature'' \<or>
        field = ''duration_ms'' \<or> field = ''error''
      else if messageType = TypeReloadResult then
        field = ''success'' \<or> field = ''signature_count'' \<or> field = ''error''
      else False)"

text \<open>The loop both placement checks run over their table of fields.\<close>

fun checkFields :: "string \<Rightarrow> (string \<times> bool) list \<Rightarrow> protocol_error option" where
  "checkFields t [] = None"
| "checkFields t ((name, isset) # rest) =
     (if isset \<and> \<not> fieldAllowed t name then Some (FieldNotAllowed t name)
      else checkFields t rest)"

definition validateAllowedFields :: "Message \<Rightarrow> protocol_error option" where
  "validateAllowedFields m = checkFields (mType m)
     [(''request_id'', mRequestID m \<noteq> 0),
      (''scanner_id'', mScannerID m \<noteq> ''''),
      (''worker_version'', mWorkerVersion m \<noteq> ''''),
      (''capabilities'', mCapabilities m \<noteq> None),
      (''file_path'', mFilePath m \<noteq> ''''),
      (''signature_path'', mSignaturePath m \<noteq> ''''),
      (''status'', mStatus m \<noteq> ''''),
      (''verdict'', mVerdict m \<noteq> ''''),
      (''signature'', mSignature m \<noteq> ''''),
      (''duration_ms'', mDurationMs m \<noteq> 0),
      (''success'', mSuccess m),
      (''signature_count'', mSignatureCount m \<noteq> 0),
      (''error'', mError m \<noteq> '''')]"

fun checkCapabilities :: "string list \<Rightarrow> string list \<Rightarrow> protocol_error option" where
  "checkCapabilities seen [] = None"
| "checkCapabilities seen (c # cs) =
     (if blank c then Some EmptyCapability
      else if c \<in> set seen then Some (DuplicateCapability c)
      else checkCapabilities (c # seen) cs)"

definition Validate :: "Message \<Rightarrow> protocol_error option" where
  "Validate m =
     (if mVersion m \<noteq> ProtocolVersion then Some (BadVersion (mVersion m))
      else if mType m \<in> {TypeHello, TypeHealthCheck, TypeShutdown, TypeShutdownAck} then
        validateAllowedFields m
      else if mType m = TypeScan then
        (if mRequestID m = 0 then Some (RequiresNonZero TypeScan ''request_id'')
         else if blank (mFilePath m) then Some (RequiresNonEmpty TypeScan ''file_path'')
         else validateAllowedFields m)
      else if mType m = TypeReload then
        (if blank (mSignaturePath m) then Some (RequiresNonEmpty TypeReload ''signature_path'')
         else validateAllowedFields m)
      else if mType m = TypeHelloAck then
        (if blank (mScannerID m) then Some (RequiresNonEmpty TypeHelloAck ''scanner_id'')
         else if blank (mWorkerVersion m) then
           Some (RequiresNonEmpty TypeHelloAck ''worker_version'')
         else case mCapabilities m of
           None \<Rightarrow> Some (RequiresField TypeHelloAck ''capabilities'')
         | Some cs \<Rightarrow>
             (case checkCapabilities [] cs of
                Some e \<Rightarrow> Some e
              | None \<Rightarrow> validateAllowedFields m))
      else if mType m = TypeHealthResult then
        (if mStatus m \<noteq> ''ok'' \<and> mStatus m \<noteq> ''error'' then Some BadStatus
         else validateAllowedFields m)
      else if mType m = TypeScanResult then
        (if mRequestID m = 0 then Some (RequiresNonZero TypeScanResult ''request_id'')
         else if \<not> validVerdict (mVerdict m) then Some (BadVerdict (mVerdict m))
         else if sint (mDurationMs m) < 0 then
           Some (NegativeField TypeScanResult ''duration_ms'')
         else validateAllowedFields m)
      else if mType m = TypeReloadResult then
        (if sint (mSignatureCount m) < 0 then
           Some (NegativeField TypeReloadResult ''signature_count'')
         else if \<not> mSuccess m \<and> blank (mError m) then Some FailureWithoutError
         else validateAllowedFields m)
      else if blank (mType m) then Some TypeRequired
      else Some (UnknownType (mType m)))"

section \<open>The wire struct\<close>

definition toWire :: "Message \<Rightarrow> wireMessage" where
  "toWire m =
     \<lparr>wVersion = mVersion m, wType = mType m,
      wRequestID = (if mType m = TypeScan \<or> mType m = TypeScanResult
                    then Some (mRequestID m) else None),
      wScannerID = mScannerID m, wWorkerVersion = mWorkerVersion m,
      wCapabilities = mCapabilities m, wFilePath = mFilePath m,
      wSignaturePath = mSignaturePath m, wStatus = mStatus m, wVerdict = mVerdict m,
      wSignature = mSignature m,
      wDurationMs = (if mType m = TypeScanResult then Some (mDurationMs m) else None),
      wSuccess = (if mType m = TypeReloadResult then Some (mSuccess m) else None),
      wSignatureCount = (if mType m = TypeReloadResult \<and> (mSuccess m \<or> mSignatureCount m \<noteq> 0)
                         then Some (mSignatureCount m) else None),
      wError = mError m\<rparr>"

definition fromWire :: "wireMessage \<Rightarrow> Message" where
  "fromWire w =
     \<lparr>mVersion = wVersion w, mType = wType w,
      mRequestID = (case wRequestID w of Some i \<Rightarrow> i | None \<Rightarrow> 0),
      mScannerID = wScannerID w, mWorkerVersion = wWorkerVersion w,
      mCapabilities = wCapabilities w, mFilePath = wFilePath w,
      mSignaturePath = wSignaturePath w, mStatus = wStatus w, mVerdict = wVerdict w,
      mSignature = wSignature w,
      mDurationMs = (case wDurationMs w of Some d \<Rightarrow> d | None \<Rightarrow> 0),
      mSuccess = (case wSuccess w of Some b \<Rightarrow> b | None \<Rightarrow> False),
      mSignatureCount = (case wSignatureCount w of Some n \<Rightarrow> n | None \<Rightarrow> 0),
      mError = wError w\<rparr>"

definition validateWireFieldPlacement :: "wireMessage \<Rightarrow> protocol_error option" where
  "validateWireFieldPlacement w = checkFields (wType w)
     [(''request_id'', wRequestID w \<noteq> None),
      (''duration_ms'', wDurationMs w \<noteq> None),
      (''success'', wSuccess w \<noteq> None),
      (''signature_count'', wSignatureCount w \<noteq> None)]"

definition validateRequiredWireFields :: "wireMessage \<Rightarrow> protocol_error option" where
  "validateRequiredWireFields w =
     (if (wType w = TypeScan \<or> wType w = TypeScanResult) \<and> wRequestID w = None then
        Some (RequiresField (wType w) ''request_id'')
      else if wType w = TypeScanResult then
        (if wDurationMs w = None then Some (RequiresField TypeScanResult ''duration_ms'') else None)
      else if wType w = TypeReloadResult then
        (if wSuccess w = None then Some (RequiresField TypeReloadResult ''success'')
         else if wSuccess w = Some True \<and> wSignatureCount w = None then
           Some (RequiresField TypeReloadResult ''signature_count'')
         else None)
      else None)"

text \<open>
  \<^verbatim>\<open>Marshal\<close> up to the JSON encoder, and \<^verbatim>\<open>Unmarshal\<close> from the JSON decoder's
  wire struct on.
\<close>

definition encode_wire :: "Message \<Rightarrow> protocol_error + wireMessage" where
  "encode_wire m = (case Validate m of Some e \<Rightarrow> Inl e | None \<Rightarrow> Inr (toWire m))"

definition decode_wire :: "wireMessage \<Rightarrow> protocol_error + Message" where
  "decode_wire w =
     (case validateWireFieldPlacement w of Some e \<Rightarrow> Inl e | None \<Rightarrow>
      (case validateRequiredWireFields w of Some e \<Rightarrow> Inl e | None \<Rightarrow>
       (case Validate (fromWire w) of Some e \<Rightarrow> Inl e | None \<Rightarrow> Inr (fromWire w))))"

section \<open>The messages as an algebraic type\<close>

text \<open>
  What the protocol means by a message: one constructor per type, with that type's fields
  only. \<^term>\<open>embed\<close> writes it as the code's flat struct, with every other field zero.
\<close>

datatype message_form =
    Hello
  | HealthCheck
  | Shutdown
  | ShutdownAck
  | Scan u64 string
  | Reload string
  | HelloAck string string "string list"
  | HealthResult string string
  | ScanResult u64 Verdict string i64 string
  | ReloadResult bool i64 string

fun embed :: "message_form \<Rightarrow> Message" where
  "embed Hello = emptyMessage\<lparr>mVersion := 1, mType := TypeHello\<rparr>"
| "embed HealthCheck = emptyMessage\<lparr>mVersion := 1, mType := TypeHealthCheck\<rparr>"
| "embed Shutdown = emptyMessage\<lparr>mVersion := 1, mType := TypeShutdown\<rparr>"
| "embed ShutdownAck = emptyMessage\<lparr>mVersion := 1, mType := TypeShutdownAck\<rparr>"
| "embed (Scan i p) = emptyMessage\<lparr>mVersion := 1, mType := TypeScan, mRequestID := i,
     mFilePath := p\<rparr>"
| "embed (Reload p) = emptyMessage\<lparr>mVersion := 1, mType := TypeReload, mSignaturePath := p\<rparr>"
| "embed (HelloAck sc v cs) = emptyMessage\<lparr>mVersion := 1, mType := TypeHelloAck,
     mScannerID := sc, mWorkerVersion := v, mCapabilities := Some cs\<rparr>"
| "embed (HealthResult st e) = emptyMessage\<lparr>mVersion := 1, mType := TypeHealthResult,
     mStatus := st, mError := e\<rparr>"
| "embed (ScanResult i v sg d e) = emptyMessage\<lparr>mVersion := 1, mType := TypeScanResult,
     mRequestID := i, mVerdict := v, mSignature := sg, mDurationMs := d, mError := e\<rparr>"
| "embed (ReloadResult ok n e) = emptyMessage\<lparr>mVersion := 1, mType := TypeReloadResult,
     mSuccess := ok, mSignatureCount := n, mError := e\<rparr>"

fun well_formed :: "message_form \<Rightarrow> bool" where
  "well_formed (Scan i p) \<longleftrightarrow> i \<noteq> 0 \<and> \<not> blank p"
| "well_formed (Reload p) \<longleftrightarrow> \<not> blank p"
| "well_formed (HelloAck sc v cs) \<longleftrightarrow>
     \<not> blank sc \<and> \<not> blank v \<and> distinct cs \<and> (\<forall>c \<in> set cs. \<not> blank c)"
| "well_formed (HealthResult st e) \<longleftrightarrow> st = ''ok'' \<or> st = ''error''"
| "well_formed (ScanResult i v sg d e) \<longleftrightarrow> i \<noteq> 0 \<and> validVerdict v \<and> 0 \<le> sint d"
| "well_formed (ReloadResult ok n e) \<longleftrightarrow> 0 \<le> sint n \<and> (ok \<or> \<not> blank e)"
| "well_formed _ \<longleftrightarrow> True"

section \<open>Lemmas\<close>

lemma checkCapabilities_None_iff:
  "checkCapabilities seen cs = None \<longleftrightarrow>
     distinct cs \<and> set cs \<inter> set seen = {} \<and> (\<forall>c \<in> set cs. \<not> blank c)"
  by (induction cs arbitrary: seen) auto

lemma checkFields_None_iff:
  "checkFields t table = None \<longleftrightarrow> (\<forall>(name, isset) \<in> set table. isset \<longrightarrow> fieldAllowed t name)"
  by (induction table) (auto split: if_splits)

lemma Message_eq_iff:
  "m = m' \<longleftrightarrow> mVersion m = mVersion m' \<and> mType m = mType m' \<and> mRequestID m = mRequestID m' \<and>
     mScannerID m = mScannerID m' \<and> mWorkerVersion m = mWorkerVersion m' \<and>
     mCapabilities m = mCapabilities m' \<and> mFilePath m = mFilePath m' \<and>
     mSignaturePath m = mSignaturePath m' \<and> mStatus m = mStatus m' \<and>
     mVerdict m = mVerdict m' \<and> mSignature m = mSignature m' \<and>
     mDurationMs m = mDurationMs m' \<and> mSuccess m = mSuccess m' \<and>
     mSignatureCount m = mSignatureCount m' \<and> mError m = mError m'"
  for m m' :: Message
  by (cases m; cases m') simp

lemmas validation = Validate_def validateAllowedFields_def checkFields_None_iff
  fieldAllowed_def checkCapabilities_None_iff guards Message_eq_iff emptyMessage_def

lemma Validate_Hello:
  "mType m = TypeHello \<Longrightarrow>
     Validate m = None \<longleftrightarrow> well_formed Hello \<and> m = embed Hello"
  by (auto simp: validation)

lemma Validate_HealthCheck:
  "mType m = TypeHealthCheck \<Longrightarrow>
     Validate m = None \<longleftrightarrow> well_formed HealthCheck \<and> m = embed HealthCheck"
  by (auto simp: validation)

lemma Validate_Shutdown:
  "mType m = TypeShutdown \<Longrightarrow>
     Validate m = None \<longleftrightarrow> well_formed Shutdown \<and> m = embed Shutdown"
  by (auto simp: validation)

lemma Validate_ShutdownAck:
  "mType m = TypeShutdownAck \<Longrightarrow>
     Validate m = None \<longleftrightarrow> well_formed ShutdownAck \<and> m = embed ShutdownAck"
  by (auto simp: validation)

lemma Validate_Scan:
  "mType m = TypeScan \<Longrightarrow>
     Validate m = None \<longleftrightarrow> well_formed (Scan (mRequestID m) (mFilePath m)) \<and> m = embed (Scan (mRequestID m) (mFilePath m))"
  by (auto simp: validation)

lemma Validate_Reload:
  "mType m = TypeReload \<Longrightarrow>
     Validate m = None \<longleftrightarrow> well_formed (Reload (mSignaturePath m)) \<and> m = embed (Reload (mSignaturePath m))"
  by (auto simp: validation)

lemma Validate_HelloAck:
  "mType m = TypeHelloAck \<Longrightarrow>
     Validate m = None \<longleftrightarrow> well_formed (HelloAck (mScannerID m) (mWorkerVersion m) (the (mCapabilities m))) \<and> m = embed (HelloAck (mScannerID m) (mWorkerVersion m) (the (mCapabilities m)))"
  by (auto simp: validation split: option.splits)

lemma Validate_HealthResult:
  "mType m = TypeHealthResult \<Longrightarrow>
     Validate m = None \<longleftrightarrow> well_formed (HealthResult (mStatus m) (mError m)) \<and> m = embed (HealthResult (mStatus m) (mError m))"
  by (auto simp: validation)

lemma Validate_ScanResult:
  "mType m = TypeScanResult \<Longrightarrow>
     Validate m = None \<longleftrightarrow> well_formed (ScanResult (mRequestID m) (mVerdict m) (mSignature m) (mDurationMs m) (mError m)) \<and> m = embed (ScanResult (mRequestID m) (mVerdict m) (mSignature m) (mDurationMs m) (mError m))"
  by (auto simp: validation)

lemma Validate_ReloadResult:
  "mType m = TypeReloadResult \<Longrightarrow>
     Validate m = None \<longleftrightarrow> well_formed (ReloadResult (mSuccess m) (mSignatureCount m) (mError m)) \<and> m = embed (ReloadResult (mSuccess m) (mSignatureCount m) (mError m))"
  by (auto simp: validation)

lemmas Validate_by_type = Validate_Hello
  Validate_HealthCheck
  Validate_Shutdown
  Validate_ShutdownAck
  Validate_Scan
  Validate_Reload
  Validate_HelloAck
  Validate_HealthResult
  Validate_ScanResult
  Validate_ReloadResult

lemma Validate_known_type:
  "Validate m = None \<Longrightarrow>
     mType m \<in> {TypeHello, TypeHealthCheck, TypeShutdown, TypeShutdownAck, TypeScan, TypeReload,
       TypeHelloAck, TypeHealthResult, TypeScanResult, TypeReloadResult}"
  unfolding Validate_def by (rule ccontr) (simp add: guards)

lemma Validate_embed: "well_formed f \<Longrightarrow> Validate (embed f) = None"
  by (cases f) (simp_all add: emptyMessage_def Validate_by_type [THEN iffD2])

lemma Validate_None_form:
  assumes "Validate m = None"
  shows "\<exists>f. well_formed f \<and> m = embed f"
  using Validate_known_type [OF assms] assms
  by (elim insertE) (auto simp only: Validate_by_type intro: exI)

lemma valid_formE:
  assumes "Validate m = None"
  obtains f where "well_formed f" "m = embed f"
  using Validate_None_form [OF assms] by blast

lemma fromWire_toWire:
  assumes "Validate m = None"
  shows "fromWire (toWire m) = m"
proof -
  from assms obtain f where "m = embed f" by (rule valid_formE)
  then show ?thesis
    by (cases f) (simp_all add: toWire_def fromWire_def emptyMessage_def)
qed

lemma placement_toWire: "validateWireFieldPlacement (toWire m) = None"
  by (simp add: validateWireFieldPlacement_def toWire_def fieldAllowed_def)

lemma required_toWire: "validateRequiredWireFields (toWire m) = None"
  by (simp add: validateRequiredWireFields_def toWire_def)

lemma decode_encode_wire: "encode_wire m = Inr w \<Longrightarrow> decode_wire w = Inr m"
  by (auto simp: encode_wire_def decode_wire_def placement_toWire required_toWire fromWire_toWire
    split: option.splits)

lemma encode_wire_embed: "well_formed f \<Longrightarrow> encode_wire (embed f) = Inr (toWire (embed f))"
  by (simp only: encode_wire_def Validate_embed option.case)

lemma decode_wire_sound:
  "decode_wire w = Inr m \<Longrightarrow> Validate m = None \<and> m = fromWire w"
  by (auto simp: decode_wire_def split: option.splits)

section \<open>Properties\<close>

text \<open>
  C34. Validation accepts exactly the ten message forms of the protocol: a struct passes if
  and only if it is the flat form of one of them, its required fields present and well
  formed, and every field that its type does not carry zero.
\<close>

theorem Validate_exact:
  "Validate m = None \<longleftrightarrow> (\<exists>f. well_formed f \<and> m = embed f)"
proof
  assume "\<exists>f. well_formed f \<and> m = embed f"
  then show "Validate m = None" by (elim exE conjE) (simp only: Validate_embed)
qed (rule Validate_None_form)

text \<open>
  Round trip through the wire struct: whatever \<^verbatim>\<open>Marshal\<close> accepts, the decoding
  side rebuilds field by field, so the pointers that mark presence lose nothing.
\<close>

theorem wire_roundtrip:
  assumes "encode_wire m = Inr w"
  shows "decode_wire w = Inr m"
  using assms by (rule decode_encode_wire)

theorem wire_roundtrip_witness:
  "decode_wire (toWire (embed (ScanResult 7 VerdictMalware ''sig'' 0 ''''))) =
     Inr (embed (ScanResult 7 VerdictMalware ''sig'' 0 ''''))"
proof (rule wire_roundtrip)
  have "well_formed (ScanResult 7 VerdictMalware ''sig'' 0 '''')"
    by (simp add: validVerdict_def)
  then show "encode_wire (embed (ScanResult 7 VerdictMalware ''sig'' 0 '''')) =
      Inr (toWire (embed (ScanResult 7 VerdictMalware ''sig'' 0 '''')))"
    by (rule encode_wire_embed)
qed

text \<open>
  What the decoding side accepts is valid and is determined by the message: encoding it
  again gives the same wire struct, except that a failed reload drops an explicit signature
  count of zero.
\<close>

theorem decode_wire_canonical:
  assumes "decode_wire w = Inr m"
  shows "encode_wire m =
    Inr (if wSuccess w = Some False \<and> wSignatureCount w = Some 0
         then w\<lparr>wSignatureCount := None\<rparr> else w)"
proof -
  from assms have m: "m = fromWire w" "Validate m = None"
    and placed: "validateWireFieldPlacement w = None" "validateRequiredWireFields w = None"
    by (auto simp: decode_wire_def split: option.splits)
  have "toWire m = (if wSuccess w = Some False \<and> wSignatureCount w = Some 0
         then w\<lparr>wSignatureCount := None\<rparr> else w)"
    using placed
    by (cases w)
      (auto simp: m(1) toWire_def fromWire_def validateWireFieldPlacement_def fieldAllowed_def
        validateRequiredWireFields_def checkFields_None_iff guards split: if_splits option.splits)
  with m(2) show ?thesis by (simp add: encode_wire_def)
qed

theorem decode_wire_canonical_witness:
  "encode_wire (embed (Scan 7 ''f'')) = Inr (toWire (embed (Scan 7 ''f'')))"
proof -
  have "well_formed (Scan 7 ''f'')" by (simp add: blank_def trim_space_def ascii_space_def)
  then have "decode_wire (toWire (embed (Scan 7 ''f''))) = Inr (embed (Scan 7 ''f''))"
    by (rule decode_encode_wire [OF encode_wire_embed])
  from decode_wire_canonical [OF this] show ?thesis
    by (simp add: toWire_def emptyMessage_def)
qed

end
