(* ===== verification/Aggregator.thy ===== *)
theory Aggregator
  imports Protocol
begin

text \<open>
  The result policy, \<^verbatim>\<open>src/pkg/aggregator/aggregator.go\<close>: \<^verbatim>\<open>Aggregate\<close> with
  its loop over the verdicts and its two error returns, and the policy it implements.
\<close>

abbreviation "CombinedClean \<equiv> ''CLEAN''"
abbreviation "CombinedMalware \<equiv> ''MALWARE''"
abbreviation "CombinedInconclusive \<equiv> ''INCONCLUSIVE''"

datatype aggregator_error = NoVerdicts | InvalidVerdict nat string

text \<open>The loop, with its index and its two flags.\<close>

fun aggregateLoop ::
  "nat \<Rightarrow> bool \<Rightarrow> bool \<Rightarrow> Verdict list \<Rightarrow> aggregator_error + (bool \<times> bool)" where
  "aggregateLoop index hasMalware hasFailure [] = Inr (hasMalware, hasFailure)"
| "aggregateLoop index hasMalware hasFailure (v # vs) =
     (if v = VerdictClean then aggregateLoop (Suc index) hasMalware hasFailure vs
      else if v = VerdictMalware then aggregateLoop (Suc index) True hasFailure vs
      else if v = VerdictError \<or> v = VerdictTimeout \<or> v = VerdictUnavailable then
        aggregateLoop (Suc index) hasMalware True vs
      else Inl (InvalidVerdict index v))"

definition Aggregate :: "Verdict list \<Rightarrow> aggregator_error + string" where
  "Aggregate vs =
     (if vs = [] then Inl NoVerdicts
      else case aggregateLoop 0 False False vs of
        Inl e \<Rightarrow> Inl e
      | Inr (hasMalware, hasFailure) \<Rightarrow>
          Inr (if hasMalware then CombinedMalware
               else if hasFailure then CombinedInconclusive else CombinedClean))"

section \<open>The policy\<close>

definition any_malicious :: "Verdict set \<Rightarrow> string" where
  "any_malicious V =
     (if VerdictMalware \<in> V then CombinedMalware
      else if V \<subseteq> {VerdictClean} then CombinedClean else CombinedInconclusive)"

section \<open>Lemmas\<close>

lemma aggregateLoop_valid:
  "\<forall>v \<in> set vs. validVerdict v \<Longrightarrow>
     aggregateLoop i m f vs =
       Inr (m \<or> VerdictMalware \<in> set vs,
            f \<or> (\<exists>v \<in> set vs. v \<noteq> VerdictClean \<and> v \<noteq> VerdictMalware))"
  by (induction vs arbitrary: i m f) (auto simp: validVerdict_def)

lemma aggregateLoop_first_invalid:
  assumes "\<forall>v \<in> set us. validVerdict v" "\<not> validVerdict v"
  shows "aggregateLoop i m f (us @ v # vs) = Inl (InvalidVerdict (i + length us) v)"
  using assms by (induction us arbitrary: i m f) (auto simp: validVerdict_def)

lemma split_first_invalid:
  assumes "\<not> (\<forall>v \<in> set vs. validVerdict v)"
  obtains us v ws where "vs = us @ v # ws" "\<forall>u \<in> set us. validVerdict u" "\<not> validVerdict v"
proof -
  from assms have "\<exists>v \<in> set vs. \<not> validVerdict v" by blast
  then show ?thesis using split_list_first_prop [of vs "\<lambda>v. \<not> validVerdict v"] that by blast
qed

lemma Aggregate_valid:
  "vs \<noteq> [] \<Longrightarrow> \<forall>v \<in> set vs. validVerdict v \<Longrightarrow> Aggregate vs = Inr (any_malicious (set vs))"
  by (auto simp: Aggregate_def aggregateLoop_valid any_malicious_def)

lemma Aggregate_invalid:
  assumes "\<forall>v \<in> set us. validVerdict v" "\<not> validVerdict v"
  shows "Aggregate (us @ v # vs) = Inl (InvalidVerdict (length us) v)"
  by (simp add: Aggregate_def aggregateLoop_first_invalid assms)

lemma Aggregate_Inr_iff:
  "Aggregate vs = Inr c \<longleftrightarrow>
     vs \<noteq> [] \<and> (\<forall>v \<in> set vs. validVerdict v) \<and> c = any_malicious (set vs)"
proof (cases "\<forall>v \<in> set vs. validVerdict v")
  case True
  then show ?thesis
    by (cases "vs = []") (auto simp: Aggregate_valid, simp add: Aggregate_def)
next
  case False
  then show ?thesis
    by (rule split_first_invalid) (auto simp: Aggregate_invalid)
qed

section \<open>Properties\<close>

text \<open>
  C39. \<^verbatim>\<open>Aggregate\<close> is the \<^verbatim>\<open>ANY_MALICIOUS\<close> policy of the documentation: it fails on
  an empty list; on a list with an unknown or pending verdict it fails naming the first one
  and its position; and otherwise the combined verdict is \<^verbatim>\<open>MALWARE\<close> if some verdict
  is, else \<^verbatim>\<open>CLEAN\<close> if all are, else \<^verbatim>\<open>INCONCLUSIVE\<close>, so it depends on the set of
  verdicts only and not on their order.
\<close>

theorem Aggregate_policy:
  "Aggregate vs =
     (let i = length (takeWhile validVerdict vs) in
      if vs = [] then Inl NoVerdicts
      else if i < length vs then Inl (InvalidVerdict i (vs ! i))
      else Inr (if VerdictMalware \<in> set vs then CombinedMalware
                else if set vs \<subseteq> {VerdictClean} then CombinedClean
                else CombinedInconclusive))"
proof (cases "\<forall>v \<in> set vs. validVerdict v")
  case True
  then have "length (takeWhile validVerdict vs) = length vs"
    by (simp add: takeWhile_eq_all_conv [THEN iffD2])
  with True show ?thesis
    by (cases "vs = []") (simp_all add: Aggregate_def [of "[]"] Aggregate_valid any_malicious_def Let_def)
next
  case False
  then show ?thesis
    by (rule split_first_invalid) (simp add: Aggregate_invalid takeWhile_append2 nth_append Let_def)
qed

end
