(* ===== verification/Signatures.thy ===== *)
theory Signatures
  imports Prelude
begin

text \<open>
  The signature engine, \<^verbatim>\<open>src/pkg/signatures/signatures.go\<close>: loading a database from a
  file, publishing it in a store, and matching a stream of content against it with a
  window that keeps the tail of what was read. The file system is a parameter: a function
  from paths to what \<^verbatim>\<open>os.Stat\<close> and \<^verbatim>\<open>os.ReadFile\<close> find there.
\<close>

section \<open>Loading a database\<close>

record database =
  patterns :: "string list"
  patternSet :: "string list"
  maxPatternLength :: nat

datatype load_error = StatFailed string | NotRegular | ReadFailed string | NotUTF8

text \<open>\<^verbatim>\<open>bytes.Split\<close> at newlines, and one carriage return cut off the end of a line.\<close>

fun split_lines :: "bytes \<Rightarrow> bytes list" where
  "split_lines [] = [[]]"
| "split_lines (c # s) =
     (if byte c = 10 then [] # split_lines s
      else case split_lines s of l # ls \<Rightarrow> (c # l) # ls | [] \<Rightarrow> [[c]])"

definition trim_cr :: "bytes \<Rightarrow> bytes" where
  "trim_cr l = (if l \<noteq> [] \<and> byte (last l) = 13 then butlast l else l)"

definition skip_line :: "bytes \<Rightarrow> bool" where
  "skip_line l \<longleftrightarrow> l = [] \<or> hd l = CHR ''#''"

fun loadLoop :: "bytes list \<Rightarrow> database \<Rightarrow> database" where
  "loadLoop [] db = db"
| "loadLoop (raw # rest) db =
     (let line = trim_cr raw in
      if skip_line line then loadLoop rest db
      else if line \<in> set (patternSet db) then loadLoop rest db
      else loadLoop rest
        (db\<lparr>patternSet := line # patternSet db,
           patterns := patterns db @ [line],
           maxPatternLength :=
             (if length line > maxPatternLength db then length line else maxPatternLength db)\<rparr>))"

definition emptyDatabase :: database where
  "emptyDatabase = \<lparr>patterns = [], patternSet = [], maxPatternLength = 0\<rparr>"

definition load :: "files \<Rightarrow> string \<Rightarrow> load_error + database" where
  "load fs path =
     (case fs path of
        Absent e \<Rightarrow> Inl (StatFailed e)
      | Irregular \<Rightarrow> Inl NotRegular
      | RegularFile (Inl e) \<Rightarrow> Inl (ReadFailed e)
      | RegularFile (Inr content) \<Rightarrow>
          if \<not> utf8_valid content then Inl NotUTF8
          else Inr (loadLoop (split_lines content) emptyDatabase))"

section \<open>Matching a stream\<close>

datatype match_result =
    Found string
  | NotFound
  | MatchFailed string
  | NoProgress

fun bytes_contains :: "bytes \<Rightarrow> bytes \<Rightarrow> bool" where
  "bytes_contains [] p \<longleftrightarrow> p = []"
| "bytes_contains (c # w) p \<longleftrightarrow> prefix p (c # w) \<or> bytes_contains w p"

text \<open>The tail that \<^verbatim>\<open>match\<close> keeps: the last \<^verbatim>\<open>maxPatternLength - 1\<close> bytes.\<close>

definition keep_tail :: "nat \<Rightarrow> bytes \<Rightarrow> bytes" where
  "keep_tail m window = drop (length window - min (m - 1) (length window)) window"

fun match_loop :: "database \<Rightarrow> bytes \<Rightarrow> reader \<Rightarrow> match_result" where
  "match_loop db tail [] = NotFound"
| "match_loop db tail ((chunk, err) # rest) =
     (case (if chunk = [] then None else find (bytes_contains (tail @ chunk)) (patterns db)) of
        Some p \<Rightarrow> Found p
      | None \<Rightarrow>
          (case err of
             Some EOF \<Rightarrow> NotFound
           | Some (ReadError e) \<Rightarrow> MatchFailed e
           | None \<Rightarrow>
               if chunk = [] then NoProgress
               else match_loop db (keep_tail (maxPatternLength db) (tail @ chunk)) rest))"

definition match :: "database \<Rightarrow> reader \<Rightarrow> match_result" where
  "match db reader = match_loop db [] reader"

section \<open>The store\<close>

text \<open>\<^verbatim>\<open>Store.current\<close> is an atomic pointer, \<^term>\<open>None\<close> while it is \<^verbatim>\<open>nil\<close>.\<close>

record Store =
  current :: "database option"

datatype store_error = LoadError load_error | NilReader | NotInitialized

definition NewStore :: "files \<Rightarrow> string \<Rightarrow> load_error + Store" where
  "NewStore fs path =
     (case load fs path of Inl e \<Rightarrow> Inl e | Inr db \<Rightarrow> Inr \<lparr>current = Some db\<rparr>)"

definition Reload :: "files \<Rightarrow> Store \<Rightarrow> string \<Rightarrow> (load_error option \<times> nat) \<times> Store" where
  "Reload fs store path =
     (case load fs path of
        Inl e \<Rightarrow> ((Some e, 0), store)
      | Inr db \<Rightarrow> ((None, length (patternSet db)), store\<lparr>current := Some db\<rparr>))"

definition Count :: "Store \<Rightarrow> nat" where
  "Count store = (case current store of None \<Rightarrow> 0 | Some db \<Rightarrow> length (patternSet db))"

definition Match :: "Store \<Rightarrow> reader option \<Rightarrow> store_error + match_result" where
  "Match store reader =
     (case reader of
        None \<Rightarrow> Inl NilReader
      | Some r \<Rightarrow>
          (case current store of
             None \<Rightarrow> Inl NotInitialized
           | Some db \<Rightarrow> Inr (match db r)))"

section \<open>What a stream delivers\<close>

text \<open>
  The bytes a reader delivers before the loop stops asking, and the answer the loop gives
  there when nothing matched.
\<close>

fun stream_content :: "reader \<Rightarrow> bytes" where
  "stream_content [] = []"
| "stream_content ((chunk, err) # rest) =
     (if err = None \<and> chunk \<noteq> [] then chunk @ stream_content rest else chunk)"

fun stream_end :: "reader \<Rightarrow> match_result" where
  "stream_end [] = NotFound"
| "stream_end ((chunk, err) # rest) =
     (case err of
        Some EOF \<Rightarrow> NotFound
      | Some (ReadError e) \<Rightarrow> MatchFailed e
      | None \<Rightarrow> if chunk = [] then NoProgress else stream_end rest)"

text \<open>The invariant of a loaded database.\<close>

definition database_ok :: "database \<Rightarrow> bool" where
  "database_ok db \<longleftrightarrow>
     distinct (patterns db) \<and> distinct (patternSet db) \<and> set (patternSet db) = set (patterns db) \<and>
     (\<forall>p \<in> set (patterns db). p \<noteq> [] \<and> length p \<le> maxPatternLength db) \<and>
     (maxPatternLength db = 0 \<and> patterns db = [] \<or>
      (\<exists>p \<in> set (patterns db). length p = maxPatternLength db))"

section \<open>Lemmas on loading\<close>

lemma split_lines_not_Nil [simp]: "split_lines s \<noteq> []"
  by (cases s) (auto split: list.splits)

lemma split_lines_no_newline: "l \<in> set (split_lines s) \<Longrightarrow> c \<in> set l \<Longrightarrow> byte c \<noteq> 10"
  by (induction s arbitrary: l) (fastforce split: if_splits list.splits)+

fun join_lines :: "bytes list \<Rightarrow> bytes" where
  "join_lines [] = []"
| "join_lines [l] = l"
| "join_lines (l # ls) = l @ CHR 0x0A # join_lines ls"

lemma join_lines_Cons: "ls \<noteq> [] \<Longrightarrow> join_lines (l # ls) = l @ CHR 0x0A # join_lines ls"
  by (cases ls) auto

lemma byte_newline: "byte c = 10 \<longleftrightarrow> c = CHR 0x0A"
proof -
  have "byte (CHR 0x0A) = (10 :: nat)" by simp
  then show ?thesis by (metis of_char_eq_iff)
qed

lemma join_split_lines: "join_lines (split_lines s) = s"
proof (induction s)
  case Nil
  then show ?case by simp
next
  case (Cons c s)
  show ?case
  proof (cases "split_lines s")
    case Nil
    then show ?thesis by simp
  next
    case ls: (Cons l ls)
    with Cons.IH show ?thesis
      by (cases ls) (auto simp: byte_newline join_lines_Cons)
  qed
qed

text \<open>The lines that count, in the file's order.\<close>

definition signature_lines :: "bytes \<Rightarrow> bytes list" where
  "signature_lines content = filter (\<lambda>l. \<not> skip_line l) (map trim_cr (split_lines content))"

lemma database_ok_empty: "database_ok emptyDatabase"
  by (simp add: database_ok_def emptyDatabase_def)

lemma database_ok_add:
  assumes "database_ok db" "\<not> skip_line l" "l \<notin> set (patternSet db)"
  shows "database_ok
    (db\<lparr>patternSet := l # patternSet db, patterns := patterns db @ [l],
       maxPatternLength :=
         (if length l > maxPatternLength db then length l else maxPatternLength db)\<rparr>)"
  using assms by (fastforce simp: database_ok_def skip_line_def)

lemma loadLoop_ok: "database_ok db \<Longrightarrow> database_ok (loadLoop ls db)"
  by (induction ls arbitrary: db) (auto simp: Let_def database_ok_add)

lemma loadLoop_patterns:
  "set (patternSet db) = set (patterns db) \<Longrightarrow>
     patterns (loadLoop ls db) =
       fold (\<lambda>l ps. if l \<in> set ps then ps else ps @ [l])
         (filter (\<lambda>l. \<not> skip_line l) (map trim_cr ls)) (patterns db)"
  by (induction ls arbitrary: db) (simp_all add: Let_def)

text \<open>The first occurrence of each line, in order.\<close>

fun first_occurrences :: "'a list \<Rightarrow> 'a list" where
  "first_occurrences [] = []"
| "first_occurrences (x # xs) = x # filter (\<lambda>y. y \<noteq> x) (first_occurrences xs)"

lemma set_first_occurrences [simp]: "set (first_occurrences xs) = set xs"
  by (induction xs) auto

lemma fold_append_unseen:
  "fold (\<lambda>l ps. if l \<in> set ps then ps else ps @ [l]) ls ps =
     ps @ filter (\<lambda>l. l \<notin> set ps) (first_occurrences ls)"
proof (induction ls arbitrary: ps)
  case Nil
  then show ?case by simp
next
  case (Cons l ls)
  then show ?case
    by (auto intro!: filter_cong)
qed

lemma load_patterns:
  "patterns (loadLoop (split_lines content) emptyDatabase) =
     first_occurrences (signature_lines content)"
  by (simp add: loadLoop_patterns emptyDatabase_def fold_append_unseen signature_lines_def)

text \<open>The other two fields are determined by the patterns.\<close>

fun longest :: "string list \<Rightarrow> nat" where
  "longest [] = 0"
| "longest (p # ps) = max (length p) (longest ps)"

lemma longest_snoc [simp]: "longest (ps @ [p]) = max (length p) (longest ps)"
  by (induction ps) auto

definition derived_fields :: "database \<Rightarrow> bool" where
  "derived_fields db \<longleftrightarrow>
     patternSet db = rev (patterns db) \<and> maxPatternLength db = longest (patterns db)"

lemma loadLoop_derived: "derived_fields db \<Longrightarrow> derived_fields (loadLoop ls db)"
proof (induction ls arbitrary: db)
  case Nil
  then show ?case by simp
next
  case (Cons l ls)
  then have "derived_fields
      (db\<lparr>patternSet := trim_cr l # patternSet db, patterns := patterns db @ [trim_cr l],
         maxPatternLength :=
           (if length (trim_cr l) > maxPatternLength db then length (trim_cr l)
            else maxPatternLength db)\<rparr>)"
    by (simp add: derived_fields_def max_def)
  with Cons show ?case by (simp add: Let_def)
qed

lemma loadLoop_unique:
  "db = loadLoop (split_lines content) emptyDatabase \<longleftrightarrow>
     patterns db = first_occurrences (signature_lines content) \<and> derived_fields db"
proof -
  have "derived_fields (loadLoop (split_lines content) emptyDatabase)"
    by (rule loadLoop_derived) (simp add: derived_fields_def emptyDatabase_def)
  then show ?thesis
    using load_patterns [of content]
    by (auto simp: derived_fields_def intro: database.equality)
qed

lemma load_InrE:
  assumes "load fs path = Inr db"
  obtains content where "fs path = RegularFile (Inr content)" "utf8_valid content"
    "db = loadLoop (split_lines content) emptyDatabase"
  using assms by (auto simp: load_def split: file_node.splits sum.splits if_splits)

lemma load_ok: "load fs path = Inr db \<Longrightarrow> database_ok db"
  by (erule load_InrE) (simp add: loadLoop_ok database_ok_empty)

lemma database_count: "database_ok db \<Longrightarrow> length (patternSet db) = length (patterns db)"
  by (metis database_ok_def distinct_card)

section \<open>Lemmas on matching\<close>

lemma bytes_contains_sublist: "bytes_contains w p \<longleftrightarrow> sublist p w"
  by (induction w) (auto simp: sublist_Cons_right)

lemma keep_tail_eq: "keep_tail m x = drop (length x - (m - 1)) x"
  by (simp add: keep_tail_def min_def)

lemma keep_tail_append: "keep_tail m (keep_tail m c @ chunk) = keep_tail m (c @ chunk)"
proof -
  let ?k = "length c - (m - 1)"
  have "keep_tail m c @ chunk = drop ?k (c @ chunk)" by (simp add: keep_tail_eq)
  moreover have "length (c @ chunk) - ?k - (m - 1) + ?k = length (c @ chunk) - (m - 1)" by auto
  ultimately show ?thesis
    by (simp only: keep_tail_eq length_drop drop_drop)
qed

lemma sublist_window:
  assumes "p \<noteq> []" "length p \<le> m" "\<not> sublist p c"
  shows "sublist p (keep_tail m c @ chunk) \<longleftrightarrow> sublist p (c @ chunk)"
proof
  let ?k = "length c - (m - 1)"
  have c: "c = take ?k c @ keep_tail m c" by (simp add: keep_tail_eq)
  {
    assume "sublist p (keep_tail m c @ chunk)"
    then show "sublist p (c @ chunk)" by (metis append.assoc c sublist_appendI sublist_order.order_trans append_Nil2)
  }
  assume "sublist p (c @ chunk)"
  then obtain u v where uv: "c @ chunk = u @ p @ v" by (auto simp: sublist_def)
  show "sublist p (keep_tail m c @ chunk)"
  proof (cases "?k \<le> length u")
    case True
    have "keep_tail m c @ chunk = drop ?k (c @ chunk)" by (simp add: keep_tail_eq)
    also have "\<dots> = drop ?k u @ p @ v" using True by (simp add: uv)
    finally show ?thesis by (metis sublist_appendI)
  next
    case False
    with assms(2) have "length (u @ p) \<le> length c" by auto
    then have "take (length (u @ p)) (c @ chunk) = take (length (u @ p)) c" by simp
    with uv have "u @ p = take (length (u @ p)) c"
      by (metis append.assoc append_eq_conv_conj)
    then have "sublist p c" by (metis append_take_drop_id append.assoc sublist_appendI)
    with assms(3) show ?thesis by simp
  qed
qed


lemma database_window:
  assumes "database_ok db" "p \<in> set (patterns db)" "\<forall>q \<in> set (patterns db). \<not> sublist q c"
  shows "sublist p (keep_tail (maxPatternLength db) c @ chunk) \<longleftrightarrow> sublist p (c @ chunk)"
  using assms by (intro sublist_window) (auto simp: database_ok_def)

text \<open>
  The right answer for a content and an ending: some pattern that occurs in the content, or
  the ending where none does.
\<close>

definition match_answer :: "database \<Rightarrow> bytes \<Rightarrow> match_result \<Rightarrow> match_result \<Rightarrow> bool" where
  "match_answer db content ending r \<longleftrightarrow>
     (\<exists>p. r = Found p \<and> p \<in> set (patterns db) \<and> sublist p content) \<or>
     r = ending \<and> (\<forall>p \<in> set (patterns db). \<not> sublist p content)"

text \<open>
  The loop after the bytes \<^term>\<open>c\<close>, none of whose parts is a pattern: it finds a
  pattern exactly if one occurs in all that the stream delivers.
\<close>

lemma match_loop_spec:
  assumes "database_ok db" "\<forall>q \<in> set (patterns db). \<not> sublist q c"
  shows "match_answer db (c @ stream_content rs) (stream_end rs)
     (match_loop db (keep_tail (maxPatternLength db) c) rs)"
  using assms(2)
proof (induction rs arbitrary: c)
  case Nil
  then show ?case by (simp add: match_answer_def)
next
  case (Cons read rs)
  obtain chunk err where read: "read = (chunk, err)" by (cases read)
  let ?tail = "keep_tail (maxPatternLength db) c"
  have window: "bytes_contains (?tail @ chunk) p \<longleftrightarrow> sublist p (c @ chunk)"
    if "p \<in> set (patterns db)" for p
    using database_window [OF assms(1) that Cons.prems] by (simp add: bytes_contains_sublist)
  show ?case
  proof (cases "if chunk = [] then None else find (bytes_contains (?tail @ chunk)) (patterns db)")
    case (Some p)
    then have "p \<in> set (patterns db)" "bytes_contains (?tail @ chunk) p"
      by (auto simp: find_Some_iff split: if_splits)
    then have p: "p \<in> set (patterns db)" "sublist p (c @ chunk)" by (simp_all add: window)
    then have "sublist p (c @ stream_content (read # rs))"
      by (metis append.assoc append_Nil read stream_content.simps(2) sublist_appendI
          sublist_order.order_trans)
    with p Some show ?thesis by (simp add: read match_answer_def)
  next
    case None
    have clean: "\<forall>p \<in> set (patterns db). \<not> sublist p (c @ chunk)"
    proof (cases "chunk = []")
      case True
      with Cons.prems show ?thesis by simp
    next
      case False
      with None show ?thesis by (auto simp: find_None_iff window)
    qed
    show ?thesis
    proof (cases "err = None \<and> chunk \<noteq> []")
      case True
      with None Cons.IH [OF clean] show ?thesis by (simp add: read keep_tail_append)
    next
      case False
      with None clean show ?thesis
        by (auto simp: read match_answer_def split: option.splits read_error.splits)
    qed
  qed
qed

lemma match_spec:
  assumes "database_ok db"
  shows "match_answer db (stream_content rs) (stream_end rs) (match db rs)"
proof -
  have "\<forall>q \<in> set (patterns db). \<not> sublist q []"
    using assms by (auto simp: database_ok_def)
  from match_loop_spec [OF assms this, of rs] show ?thesis
    by (simp add: match_def keep_tail_def)
qed

lemma stream_end_not_Found: "stream_end rs \<noteq> Found p"
  by (induction rs rule: stream_end.induct) (auto split: option.splits read_error.splits)

section \<open>Properties\<close>

text \<open>
  C28. The streaming matcher is exact. For a database loaded from a file, whatever the
  sizes of the chunks the reader delivers: it reports a pattern if and only if some
  significant line of the file occurs as a contiguous part of the delivered bytes, also
  across chunk boundaries; a reported pattern is such a line and does occur; and where
  none occurs the answer is how the stream ended (clean, a read error, no progress).
\<close>

theorem match_exact:
  assumes "load fs path = Inr db" "fs path = RegularFile (Inr file)"
  shows "((\<exists>p. match db rs = Found p) \<longleftrightarrow>
            (\<exists>p \<in> set (signature_lines file). sublist p (stream_content rs))) \<and>
         (\<forall>p. match db rs = Found p \<longrightarrow>
            p \<in> set (signature_lines file) \<and> sublist p (stream_content rs)) \<and>
         ((\<forall>p \<in> set (signature_lines file). \<not> sublist p (stream_content rs)) \<longrightarrow>
            match db rs = stream_end rs)"
proof -
  have lines: "set (patterns db) = set (signature_lines file)"
    by (rule load_InrE [OF assms(1)]) (simp add: assms(2) load_patterns)
  from match_spec [OF load_ok [OF assms(1)], of rs, unfolded match_answer_def lines]
  show ?thesis
  proof
    assume "\<exists>p. match db rs = Found p \<and> p \<in> set (signature_lines file) \<and> sublist p (stream_content rs)"
    then show ?thesis by force
  next
    assume "match db rs = stream_end rs \<and>
      (\<forall>p \<in> set (signature_lines file). \<not> sublist p (stream_content rs))"
    then show ?thesis by (simp add: stream_end_not_Found)
  qed
qed

text \<open>A needle split over two reads is found.\<close>

definition demo_files :: files where
  "demo_files path =
     (if path = ''db'' then RegularFile (Inr (''# c'' @ [CHR 0x0A] @ ''abc'' @ [CHR 0x0D, CHR 0x0A] @ ''abc''))
      else if path = ''dir'' then Irregular else Absent ''ENOENT'')"

lemma demo_load:
  "load demo_files ''db'' =
     Inr \<lparr>patterns = [''abc''], patternSet = [''abc''], maxPatternLength = 3\<rparr>"
  by (simp add: load_def demo_files_def emptyDatabase_def trim_cr_def skip_line_def Let_def utf8_valid_def
      rune_width.simps)

theorem match_exact_witness:
  "match \<lparr>patterns = [''abc''], patternSet = [''abc''], maxPatternLength = 3\<rparr>
     [(''xxa'', None), (''bcy'', Some EOF)] = Found ''abc'' \<and>
   ''abc'' \<in> set (signature_lines (''# c'' @ [CHR 0x0A] @ ''abc'' @ [CHR 0x0D, CHR 0x0A] @ ''abc''))"
proof -
  have at: "demo_files ''db'' =
    RegularFile (Inr (''# c'' @ [CHR 0x0A] @ ''abc'' @ [CHR 0x0D, CHR 0x0A] @ ''abc''))"
    by (simp add: demo_files_def)
  have "match \<lparr>patterns = [''abc''], patternSet = [''abc''], maxPatternLength = 3\<rparr>
     [(''xxa'', None), (''bcy'', Some EOF)] = Found ''abc''"
    by (simp add: match_def keep_tail_def)
  with match_exact [OF demo_load at, of "[(''xxa'', None), (''bcy'', Some EOF)]"]
  show ?thesis by blast
qed

text \<open>
  How the content is cut into reads does not matter: two readers that deliver the same
  bytes and end the same way are both matched or both answered with that ending.
\<close>

theorem match_chunking:
  assumes "load fs path = Inr db"
    and "stream_content rs = stream_content rs'" "stream_end rs = stream_end rs'"
  shows "(\<exists>p q. match db rs = Found p \<and> match db rs' = Found q) \<or> match db rs = match db rs'"
  using match_spec [OF load_ok [OF assms(1)], of rs] match_spec [OF load_ok [OF assms(1)], of rs']
    assms(2,3)
  by (auto simp: match_answer_def)

theorem match_chunking_witness:
  "(\<exists>p q. match \<lparr>patterns = [''abc''], patternSet = [''abc''], maxPatternLength = 3\<rparr>
       [(''a'', None), (''b'', None), (''c'', Some EOF)] = Found p \<and>
     match \<lparr>patterns = [''abc''], patternSet = [''abc''], maxPatternLength = 3\<rparr>
       [(''abc'', Some EOF)] = Found q) \<or>
   match \<lparr>patterns = [''abc''], patternSet = [''abc''], maxPatternLength = 3\<rparr>
       [(''a'', None), (''b'', None), (''c'', Some EOF)] =
     match \<lparr>patterns = [''abc''], patternSet = [''abc''], maxPatternLength = 3\<rparr>
       [(''abc'', Some EOF)]"
  by (rule match_chunking [OF demo_load]) simp_all

text \<open>
  A database loads exactly from a regular, readable, valid UTF-8 file, and holds the
  first occurrence of every line that is neither empty nor a comment, in the file's order,
  after cutting one carriage return off its end; its pattern set and its maximal length
  agree with its patterns.
\<close>

theorem load_exact:
  "load fs path = Inr db \<longleftrightarrow>
   (\<exists>file. fs path = RegularFile (Inr file) \<and> utf8_valid file \<and>
      patterns db = first_occurrences (signature_lines file) \<and>
      patternSet db = rev (patterns db) \<and> maxPatternLength db = longest (patterns db))"
proof -
  have "load fs path = Inr db \<longleftrightarrow>
      (\<exists>file. fs path = RegularFile (Inr file) \<and> utf8_valid file \<and>
        db = loadLoop (split_lines file) emptyDatabase)"
    by (auto simp: load_def split: file_node.splits sum.splits)
  then show ?thesis by (simp add: loadLoop_unique derived_fields_def)
qed

text \<open>
  A reload is atomic: when loading fails the store keeps its database and answers every
  match as before, and reports 0; when it succeeds the store answers every match from the
  new file alone, and reports and counts the number of that file's distinct patterns.
\<close>

theorem Reload_atomic:
  assumes "Reload fs store path = ((err, n), store')"
  shows "case err of
      Some e \<Rightarrow> load fs path = Inl e \<and> n = 0 \<and> store' = store
    | None \<Rightarrow> \<exists>db. load fs path = Inr db \<and> Count store' = n \<and> n = length (patterns db) \<and>
        (\<forall>r. Match store' (Some r) = Inr (match db r))"
  using assms
  by (auto simp: Reload_def Count_def Match_def database_count load_ok split: sum.splits)

theorem Reload_atomic_witness:
  "Reload demo_files \<lparr>current = None\<rparr> ''dir'' = ((Some NotRegular, 0), \<lparr>current = None\<rparr>) \<and>
   load demo_files ''dir'' = Inl NotRegular"
proof -
  have "Reload demo_files \<lparr>current = None\<rparr> ''dir'' = ((Some NotRegular, 0), \<lparr>current = None\<rparr>)"
    by (simp add: Reload_def load_def demo_files_def)
  from this Reload_atomic [OF this] show ?thesis by simp
qed

end
