(* ===== verification/Process.thy ===== *)
theory Process
  imports Prelude
begin

text \<open>
  Child processes, \<^verbatim>\<open>src/pkg/process/process.go\<close>. The operating system is a
  parameter: the answers of the pipe and start calls, and of \<^verbatim>\<open>os.Process.Kill\<close>. The
  goroutine that waits for the process sends one \<^verbatim>\<open>Exit\<close>.
\<close>

datatype process_error =
    ExecutableEmpty
  | StdinPipe string
  | StdoutPipe string
  | StartFailed string string
  | ProcessDone
  | KillFailed string

record Exit =
  ePID :: int
  eCode :: int
  eErr :: "string option"

text \<open>\<^verbatim>\<open>terminate\<close> is the \<^verbatim>\<open>sync.Once\<close>: whether its function has run.\<close>

record Child =
  pid :: int
  terminate :: bool
  terminateErr :: "process_error option"

section \<open>Starting\<close>

record os_start =
  osStdin :: "string option"
  osStdout :: "string option"
  osStart :: "string + int"

definition Start :: "os_start \<Rightarrow> string \<Rightarrow> process_error + Child" where
  "Start os executable =
     (if blank executable then Inl ExecutableEmpty
      else case osStdin os of Some e \<Rightarrow> Inl (StdinPipe e) | None \<Rightarrow>
       (case osStdout os of Some e \<Rightarrow> Inl (StdoutPipe e) | None \<Rightarrow>
        (case osStart os of
           Inl e \<Rightarrow> Inl (StartFailed executable e)
         | Inr p \<Rightarrow> Inr \<lparr>pid = p, terminate = False, terminateErr = None\<rparr>)))"

section \<open>Terminating\<close>

type_synonym kill = "int \<Rightarrow> process_error option"

definition Terminate :: "kill \<Rightarrow> Child \<Rightarrow> process_error option \<times> Child" where
  "Terminate kill child =
     (if terminate child then (terminateErr child, child)
      else let err = (if kill (pid child) = Some ProcessDone then None else kill (pid child))
           in (err, child\<lparr>terminate := True, terminateErr := err\<rparr>))"

lemma Terminate_pid [simp]: "pid (snd (Terminate kill child)) = pid child"
  by (simp add: Terminate_def Let_def)

lemma Terminate_done [simp]: "terminate (snd (Terminate kill child))"
  by (simp add: Terminate_def Let_def)

text \<open>Only the first call reaches the operating system; later ones repeat its answer.\<close>

lemma Terminate_again:
  "Terminate kill' (snd (Terminate kill child)) = (terminateErr (snd (Terminate kill child)),
     snd (Terminate kill child))"
  by (simp add: Terminate_def Let_def)

end
