(* ===== verification/Lifecycle.thy ===== *)
theory Lifecycle
  imports Prelude
begin

text \<open>
  The worker lifecycle that the two control planes share
  (\<^verbatim>\<open>WorkerState\<close> and \<^verbatim>\<open>WorkerKey\<close> of \<^verbatim>\<open>src/pkg/coordinator/coordinator.go\<close>,
  and the diagram of \<^verbatim>\<open>src/docs/architecture.md\<close>): the states in their order, the
  edges of the diagram, runs of a transition system, and two contracts as locales. A
  \<open>lifecycle_system\<close> moves its workers along the edges only; a \<open>routed_system\<close> also
  routes each scanner to its one active worker. Both \<^verbatim>\<open>Coordinator\<close> and
  \<^verbatim>\<open>Runtime\<close> are shown to be such systems in their own theories.
\<close>

section \<open>States and keys\<close>

datatype WorkerState =
    WorkerStarting
  | WorkerHealthy
  | WorkerActive
  | WorkerDraining
  | WorkerRetired
  | WorkerFailed

record WorkerKey =
  ScannerID :: string
  Version :: string

definition key_string :: "WorkerKey \<Rightarrow> string" where
  "key_string key = ScannerID key @ ''@'' @ Version key"

record WorkerSnapshot =
  sKey :: WorkerKey
  sPID :: int
  sTransport :: string
  sState :: WorkerState
  sFailureReason :: string
  sExitCode :: int
  sExitError :: string

text \<open>The order of the lifecycle; a failed worker comes after all others.\<close>

primrec rank :: "WorkerState \<Rightarrow> nat" where
  "rank WorkerStarting = 0"
| "rank WorkerHealthy = 1"
| "rank WorkerActive = 2"
| "rank WorkerDraining = 3"
| "rank WorkerRetired = 4"
| "rank WorkerFailed = 5"

lemma rank_inject [simp]: "rank a = rank b \<longleftrightarrow> a = b"
  by (cases a; cases b) auto

instantiation WorkerState :: linorder
begin

definition less_eq_WorkerState :: "WorkerState \<Rightarrow> WorkerState \<Rightarrow> bool" where
  "a \<le> b \<longleftrightarrow> rank a \<le> rank b"

definition less_WorkerState :: "WorkerState \<Rightarrow> WorkerState \<Rightarrow> bool" where
  "a < b \<longleftrightarrow> rank a < rank b"

instance
  by standard (auto simp: less_eq_WorkerState_def less_WorkerState_def)

end

text \<open>A candidate exists but does not receive scans; a terminal state is never left.\<close>

definition candidate :: "WorkerState \<Rightarrow> bool" where
  "candidate a \<longleftrightarrow> a = WorkerStarting \<or> a = WorkerHealthy"

definition terminal :: "WorkerState \<Rightarrow> bool" where
  "terminal a \<longleftrightarrow> a = WorkerRetired \<or> a = WorkerFailed"

section \<open>The edges of the diagram\<close>

inductive lifecycle_edge :: "WorkerState \<Rightarrow> WorkerState \<Rightarrow> bool" where
  became_healthy: "lifecycle_edge WorkerStarting WorkerHealthy"
| activated: "lifecycle_edge WorkerHealthy WorkerActive"
| superseded: "lifecycle_edge WorkerActive WorkerDraining"
| retired: "lifecycle_edge WorkerDraining WorkerRetired"
| failed: "\<not> terminal a \<Longrightarrow> lifecycle_edge a WorkerFailed"

code_pred lifecycle_edge .

inductive_simps edge_from_Starting: "lifecycle_edge WorkerStarting b"
inductive_simps edge_from_Retired: "lifecycle_edge WorkerRetired b"
inductive_simps edge_from_Failed: "lifecycle_edge WorkerFailed b"
inductive_simps edge_to_Active: "lifecycle_edge a WorkerActive"
inductive_simps edge_to_Healthy: "lifecycle_edge a WorkerHealthy"
inductive_simps edge_to_Draining: "lifecycle_edge a WorkerDraining"
inductive_simps edge_to_Retired: "lifecycle_edge a WorkerRetired"
inductive_simps edge_to_Failed: "lifecycle_edge a WorkerFailed"

lemmas edges = edge_from_Starting edge_from_Retired edge_from_Failed edge_to_Active
  edge_to_Healthy edge_to_Draining edge_to_Retired edge_to_Failed

text \<open>One step of the lifecycle, or none.\<close>

definition moves :: "WorkerState \<Rightarrow> WorkerState \<Rightarrow> bool" where
  "moves a b \<longleftrightarrow> b = a \<or> lifecycle_edge a b"

lemma moves_refl [simp]: "moves a a"
  by (simp add: moves_def)

lemma edge_less: "lifecycle_edge a b \<Longrightarrow> a < b"
  by (cases a; cases b) (auto simp: less_WorkerState_def terminal_def edges elim: lifecycle_edge.cases)

lemma moves_le: "moves a b \<Longrightarrow> a \<le> b"
  by (auto simp: moves_def dest: edge_less)

lemma moves_from_terminal: "moves a b \<Longrightarrow> terminal a \<Longrightarrow> b = a"
  by (auto simp: moves_def terminal_def edges)

lemma moves_to_Active: "moves a WorkerActive \<longleftrightarrow> a = WorkerActive \<or> a = WorkerHealthy"
  by (auto simp: moves_def edges)

section \<open>Runs of a transition system\<close>

inductive reach :: "('s \<Rightarrow> bool) \<Rightarrow> ('s \<Rightarrow> 'e \<Rightarrow> 's \<Rightarrow> bool) \<Rightarrow> 's \<Rightarrow> bool"
  for init :: "'s \<Rightarrow> bool" and step :: "'s \<Rightarrow> 'e \<Rightarrow> 's \<Rightarrow> bool" where
  reach_init: "init s \<Longrightarrow> reach init step s"
| reach_step: "reach init step s \<Longrightarrow> step s e t \<Longrightarrow> reach init step t"

inductive runs :: "('s \<Rightarrow> 'e \<Rightarrow> 's \<Rightarrow> bool) \<Rightarrow> 's \<Rightarrow> 'e list \<Rightarrow> 's \<Rightarrow> bool"
  for step :: "'s \<Rightarrow> 'e \<Rightarrow> 's \<Rightarrow> bool" where
  run_nil: "runs step s [] s"
| run_cons: "step s e t \<Longrightarrow> runs step t es u \<Longrightarrow> runs step s (e # es) u"

inductive_cases runs_NilE: "runs step s [] t"
inductive_cases runs_ConsE: "runs step s (e # es) t"

lemma runs_Nil_iff [simp]: "runs step s [] t \<longleftrightarrow> t = s"
  by (auto elim: runs_NilE intro: run_nil)

lemma runs_Cons_iff: "runs step s (e # es) u \<longleftrightarrow> (\<exists>t. step s e t \<and> runs step t es u)"
  by (auto elim: runs_ConsE intro: run_cons)

lemma run_one: "step s e t \<Longrightarrow> runs step s [e] t"
  by (simp add: runs_Cons_iff)

lemma reach_runs: "runs step s es t \<Longrightarrow> reach init step s \<Longrightarrow> reach init step t"
proof (induction rule: runs.induct)
  case (run_nil s)
  then show ?case .
next
  case (run_cons s e t es u)
  from run_cons.prems run_cons.hyps(1) have "reach init step t" by (rule reach_step)
  then show ?case by (rule run_cons.IH)
qed

lemma reach_invariant [consumes 1, case_names Init Step]:
  assumes "reach init step s"
    and "\<And>s. init s \<Longrightarrow> I s"
    and "\<And>s e t. reach init step s \<Longrightarrow> I s \<Longrightarrow> step s e t \<Longrightarrow> I t"
  shows "I s"
  using assms(1)
proof (induction rule: reach.induct)
  case (reach_init s)
  then show ?case by (rule assms(2))
next
  case (reach_step s e t)
  show ?case by (rule assms(3) [OF reach_step.hyps(1) reach_step.IH reach_step.hyps(2)])
qed

section \<open>The contract of a control plane\<close>

locale lifecycle_system =
  fixes init :: "'s \<Rightarrow> bool"
    and step :: "'s \<Rightarrow> 'e \<Rightarrow> 's \<Rightarrow> bool"
    and states :: "'s \<Rightarrow> WorkerKey \<Rightarrow> WorkerState option"
  assumes no_worker: "init s \<Longrightarrow> states s k = None"
    and new_worker: "reach init step s \<Longrightarrow> step s e t \<Longrightarrow> states s k = None \<Longrightarrow>
        states t k = Some b \<Longrightarrow> b = WorkerStarting"
    and worker_moves: "reach init step s \<Longrightarrow> step s e t \<Longrightarrow> states s k = Some a \<Longrightarrow>
        \<exists>b. states t k = Some b \<and> moves a b"
begin

lemma run_forward:
  assumes "runs step s es t" "reach init step s" "states s k = Some a"
  shows "\<exists>b. states t k = Some b \<and> a \<le> b \<and> (terminal a \<longrightarrow> b = a)"
  using assms
proof (induction arbitrary: a rule: runs.induct)
  case (run_nil s)
  then show ?case by simp
next
  case (run_cons s e t es u)
  from worker_moves [OF run_cons.prems(1) run_cons.hyps(1) run_cons.prems(2)]
  obtain b where b: "states t k = Some b" "moves a b" by blast
  have "reach init step t" using run_cons.prems(1) run_cons.hyps(1) by (rule reach_step)
  from run_cons.IH [OF this b(1)] obtain c where
    c: "states u k = Some c" "b \<le> c" "terminal b \<longrightarrow> c = b" by blast
  with b(2) have "a \<le> c" by (auto dest: moves_le)
  moreover from b(2) c(3) have "terminal a \<longrightarrow> c = a" by (auto dest: moves_from_terminal)
  ultimately show ?case using c(1) by blast
qed

text \<open>A worker that is active now was healthy at some moment before.\<close>

lemma active_was_healthy:
  assumes "runs step s es t" "init s" "states t k = Some WorkerActive"
  shows "\<exists>es' es'' u. es = es' @ es'' \<and> runs step s es' u \<and> runs step u es'' t \<and>
    states u k = Some WorkerHealthy"
proof -
  have "reach init step s" using assms(2) by (rule reach_init)
  moreover have "states s k \<noteq> Some WorkerActive" using no_worker [OF assms(2)] by simp
  ultimately show ?thesis using assms(1,3)
  proof (induction es arbitrary: s)
    case Nil
    then show ?case by simp
  next
    case (Cons e es)
    from Cons.prems(3) obtain u where u: "step s e u" "runs step u es t"
      by (auto simp: runs_Cons_iff)
    have "reach init step u" using Cons.prems(1) u(1) by (rule reach_step)
    show ?case
    proof (cases "states u k = Some WorkerActive")
      case True
      have "states s k = Some WorkerHealthy"
      proof (cases "states s k")
        case None
        from new_worker [OF Cons.prems(1) u(1) None True] show ?thesis by simp
      next
        case (Some a)
        from worker_moves [OF Cons.prems(1) u(1) Some] True Some Cons.prems(2)
        show ?thesis by (auto simp: moves_to_Active)
      qed
      then show ?thesis using Cons.prems(3)
        by (intro exI [of _ "[]"] exI [of _ "e # es"] exI [of _ s]) simp
    next
      case False
      from Cons.IH [OF \<open>reach init step u\<close> False u(2) Cons.prems(4)] obtain es' es'' v where
        "es = es' @ es''" "runs step u es' v" "runs step v es'' t" "states v k = Some WorkerHealthy"
        by blast
      with u(1) show ?thesis
        by (intro exI [of _ "e # es'"] exI [of _ es''] exI [of _ v]) (auto intro: run_cons)
    qed
  qed
qed

end

locale routed_system = lifecycle_system +
  fixes route :: "'s \<Rightarrow> string \<Rightarrow> WorkerKey option"
  assumes route_active: "reach init step s \<Longrightarrow>
      route s scanner = Some k \<longleftrightarrow> states s k = Some WorkerActive \<and> ScannerID k = scanner"
begin

lemma one_active:
  assumes "reach init step s" "states s k = Some WorkerActive" "states s k' = Some WorkerActive"
    "ScannerID k = ScannerID k'"
  shows "k = k'"
  using assms route_active [OF assms(1), of "ScannerID k'"] by (metis option.inject)

text \<open>Once a scanner's route has left a worker it never comes back to it.\<close>

lemma route_never_returns:
  assumes "reach init step s" "route s scanner = Some k" "runs step s es t"
    "route t scanner \<noteq> Some k" "runs step t es' u"
  shows "route u scanner \<noteq> Some k"
proof
  assume "route u scanner = Some k"
  have rt: "reach init step t" using assms(3,1) by (rule reach_runs)
  have ru: "reach init step u" using assms(5) rt by (rule reach_runs)
  from assms(1,2) have "states s k = Some WorkerActive" "ScannerID k = scanner"
    by (simp_all add: route_active)
  with run_forward [OF assms(3,1)] obtain b where b: "states t k = Some b" "WorkerActive \<le> b"
    by blast
  with assms(4) \<open>ScannerID k = scanner\<close> rt have "WorkerActive < b"
    by (auto simp: route_active order.order_iff_strict)
  moreover from run_forward [OF assms(5) rt b(1)] obtain c where "states u k = Some c" "b \<le> c"
    by blast
  ultimately show False using \<open>route u scanner = Some k\<close> ru by (auto simp: route_active)
qed

end

end
