(* ===== verification/Coordinator.thy ===== *)
theory Coordinator
  imports Lifecycle Process Protocol
begin

text \<open>
  The coordinator actor, \<^verbatim>\<open>src/pkg/coordinator/coordinator.go\<close>: one goroutine owns the
  registry of workers, the active route of each scanner and the tracked requests, and
  handles one command at a time. Each handler is a function from the state to its reply
  and the new state; \<^term>\<open>coord_step\<close> is one turn of the \<^verbatim>\<open>run\<close> loop. A step here is a
  received command; the callers, their channels and their contexts are in \<open>Clients\<close>.
\<close>

section \<open>State\<close>

record worker =
  key :: WorkerKey
  child :: Child
  wpid :: int
  wstate :: WorkerState
  failureReason :: string
  exitCode :: int
  exitError :: string

text \<open>A result is the empty string until the worker has answered.\<close>

record request =
  requestID :: u64
  results :: "(WorkerKey, Verdict) gomap"

record state =
  workers :: "(WorkerKey, worker) gomap"
  active :: "(string, WorkerKey) gomap"
  requests :: "(u64, request) gomap"

abbreviation pending :: Verdict where
  "pending \<equiv> ''''"

datatype coord_error =
    ScannerIDEmpty
  | VersionEmpty
  | ChildNil
  | AlreadyRegistered WorkerKey
  | HasCandidate string WorkerKey
  | NotRegistered WorkerKey
  | InvalidTransition WorkerKey WorkerState WorkerState
  | CannotFail WorkerKey WorkerState
  | ReasonEmpty
  | TerminateFailed WorkerKey process_error
  | InvalidRoute string WorkerKey
  | InFlight WorkerKey u64
  | RequestIDZero
  | AlreadyTracked u64
  | NoWorkers u64
  | DuplicateWorker WorkerKey u64
  | CannotReceive WorkerKey WorkerState
  | NotTracked u64
  | NotAssigned WorkerKey u64
  | AlreadyAnswered WorkerKey u64
  | VerdictInvalid string

section \<open>Handlers\<close>

definition validateWorkerKey :: "WorkerKey \<Rightarrow> coord_error option" where
  "validateWorkerKey k =
     (if blank (ScannerID k) then Some ScannerIDEmpty
      else if blank (Version k) then Some VersionEmpty else None)"

definition adjust_worker :: "WorkerKey \<Rightarrow> (worker \<Rightarrow> worker) \<Rightarrow> state \<Rightarrow> state" where
  "adjust_worker k f s = s\<lparr>workers := madjust k f (workers s)\<rparr>"

definition registerWorker :: "WorkerKey \<Rightarrow> Child option \<Rightarrow> state \<Rightarrow> coord_error option \<times> state" where
  "registerWorker k c s =
     (case validateWorkerKey k of Some e \<Rightarrow> (Some e, s) | None \<Rightarrow>
      (case c of None \<Rightarrow> (Some ChildNil, s) | Some ch \<Rightarrow>
       if mget (workers s) k \<noteq> None then (Some (AlreadyRegistered k), s)
       else case find (\<lambda>(_, w). ScannerID (key w) = ScannerID k \<and> candidate (wstate w)) (workers s) of
         Some (_, w) \<Rightarrow> (Some (HasCandidate (ScannerID k) (key w)), s)
       | None \<Rightarrow>
           (None, s\<lparr>workers := mput k
              \<lparr>key = k, child = ch, wpid = pid ch, wstate = WorkerStarting,
               failureReason = '''', exitCode = 0, exitError = ''''\<rparr> (workers s)\<rparr>)))"

definition markHealthy :: "WorkerKey \<Rightarrow> state \<Rightarrow> coord_error option \<times> state" where
  "markHealthy k s =
     (case mget (workers s) k of None \<Rightarrow> (Some (NotRegistered k), s) | Some w \<Rightarrow>
      if wstate w \<noteq> WorkerStarting then (Some (InvalidTransition k (wstate w) WorkerHealthy), s)
      else (None, adjust_worker k (wstate_update (\<lambda>_. WorkerHealthy)) s))"

definition markPendingUnavailable ::
  "WorkerKey \<Rightarrow> (u64, request) gomap \<Rightarrow> (u64, request) gomap" where
  "markPendingUnavailable k rs = mapvals (\<lambda>_ r.
     if mget (results r) k = Some pending
     then r\<lparr>results := mput k VerdictUnavailable (results r)\<rparr> else r) rs"

definition failWorker :: "kill \<Rightarrow> WorkerKey \<Rightarrow> string \<Rightarrow> state \<Rightarrow> coord_error option \<times> state" where
  "failWorker kill k reason s =
     (case mget (workers s) k of None \<Rightarrow> (Some (NotRegistered k), s) | Some w \<Rightarrow>
      if wstate w \<noteq> WorkerStarting \<and> wstate w \<noteq> WorkerHealthy then
        (Some (CannotFail k (wstate w)), s)
      else if blank reason then (Some ReasonEmpty, s)
      else let (err, c) = Terminate kill (child w);
               s' = adjust_worker k
                 (\<lambda>w. w\<lparr>wstate := WorkerFailed, failureReason := reason, child := c\<rparr>) s;
               s'' = s'\<lparr>requests := markPendingUnavailable k (requests s')\<rparr>
           in (map_option (TerminateFailed k) err, s''))"

definition activateWorker :: "WorkerKey \<Rightarrow> state \<Rightarrow> coord_error option \<times> state" where
  "activateWorker k s =
     (case mget (workers s) k of None \<Rightarrow> (Some (NotRegistered k), s) | Some w \<Rightarrow>
      if wstate w \<noteq> WorkerHealthy then (Some (InvalidTransition k (wstate w) WorkerActive), s)
      else
        let promote = (\<lambda>s. (adjust_worker k (wstate_update (\<lambda>_. WorkerActive)) s)
                             \<lparr>active := mput (ScannerID k) k (active s)\<rparr>)
        in case mget (active s) (ScannerID k) of
          None \<Rightarrow> (None, promote s)
        | Some old \<Rightarrow>
            (case mget (workers s) old of
               None \<Rightarrow> (Some (InvalidRoute (ScannerID k) old), s)
             | Some a \<Rightarrow>
                 if wstate a \<noteq> WorkerActive then (Some (InvalidRoute (ScannerID k) old), s)
                 else (None, promote (adjust_worker old (wstate_update (\<lambda>_. WorkerDraining)) s))))"

definition retireWorker :: "WorkerKey \<Rightarrow> state \<Rightarrow> coord_error option \<times> state" where
  "retireWorker k s =
     (case mget (workers s) k of None \<Rightarrow> (Some (NotRegistered k), s) | Some w \<Rightarrow>
      if wstate w \<noteq> WorkerDraining then (Some (InvalidTransition k (wstate w) WorkerRetired), s)
      else case find (\<lambda>(_, r). mget (results r) k = Some pending) (requests s) of
        Some (i, _) \<Rightarrow> (Some (InFlight k i), s)
      | None \<Rightarrow> (None, adjust_worker k (wstate_update (\<lambda>_. WorkerRetired)) s))"

text \<open>The loop of \<^verbatim>\<open>trackRequest\<close> over the worker keys.\<close>

fun assignResults ::
  "u64 \<Rightarrow> (WorkerKey, worker) gomap \<Rightarrow> WorkerKey list \<Rightarrow> (WorkerKey, Verdict) gomap
     \<Rightarrow> coord_error + (WorkerKey, Verdict) gomap" where
  "assignResults i ws [] res = Inr res"
| "assignResults i ws (k # ks) res =
     (case mget ws k of None \<Rightarrow> Inl (NotRegistered k) | Some w \<Rightarrow>
      if mget res k \<noteq> None then Inl (DuplicateWorker k i)
      else if wstate w = WorkerActive then assignResults i ws ks (mput k pending res)
      else if wstate w = WorkerFailed then assignResults i ws ks (mput k VerdictUnavailable res)
      else Inl (CannotReceive k (wstate w)))"

definition trackRequest :: "u64 \<Rightarrow> WorkerKey list \<Rightarrow> state \<Rightarrow> coord_error option \<times> state" where
  "trackRequest i ks s =
     (if i = 0 then (Some RequestIDZero, s)
      else if mget (requests s) i \<noteq> None then (Some (AlreadyTracked i), s)
      else if ks = [] then (Some (NoWorkers i), s)
      else case assignResults i (workers s) ks [] of
        Inl e \<Rightarrow> (Some e, s)
      | Inr res \<Rightarrow>
          (None, s\<lparr>requests := mput i \<lparr>requestID = i, results = res\<rparr> (requests s)\<rparr>))"

definition recordResult ::
  "u64 \<Rightarrow> WorkerKey \<Rightarrow> Verdict \<Rightarrow> state \<Rightarrow> coord_error option \<times> state" where
  "recordResult i k v s =
     (case mget (requests s) i of None \<Rightarrow> (Some (NotTracked i), s) | Some r \<Rightarrow>
      (case mget (results r) k of None \<Rightarrow> (Some (NotAssigned k i), s) | Some old \<Rightarrow>
       if old \<noteq> pending then (Some (AlreadyAnswered k i), s)
       else if \<not> validVerdict v then (Some (VerdictInvalid v), s)
       else (None, s\<lparr>requests :=
              madjust i (\<lambda>r. r\<lparr>results := mput k v (results r)\<rparr>) (requests s)\<rparr>)))"

text \<open>The two groups of assignments to the worker of \<^verbatim>\<open>recordWorkerExit\<close>.\<close>

definition noteExit :: "Exit \<Rightarrow> worker \<Rightarrow> worker" where
  "noteExit e w = w\<lparr>exitCode := eCode e,
     exitError := (case eErr e of Some t \<Rightarrow> t | None \<Rightarrow> exitError w)\<rparr>"

definition noteFailure :: "worker \<Rightarrow> worker" where
  "noteFailure w = w\<lparr>wstate := WorkerFailed,
     failureReason := (if failureReason w = '''' then ''worker exited unexpectedly''
                       else failureReason w)\<rparr>"

definition recordWorkerExit :: "WorkerKey \<Rightarrow> Exit \<Rightarrow> state \<Rightarrow> state" where
  "recordWorkerExit k e s =
     (case mget (workers s) k of None \<Rightarrow> s | Some w \<Rightarrow>
      if wpid w \<noteq> ePID e then s
      else
        let s1 = adjust_worker k (noteExit e) s
        in if wstate w = WorkerRetired then s1
           else
             let s2 = adjust_worker k noteFailure s1;
                 s3 = (if mget (active s2) (ScannerID k) = Some k
                       then s2\<lparr>active := mdel (ScannerID k) (active s2)\<rparr> else s2)
             in s3\<lparr>requests := markPendingUnavailable k (requests s3)\<rparr>)"

section \<open>Snapshots\<close>

record Snapshot =
  sWorkers :: "(WorkerKey, WorkerSnapshot) gomap"
  sActive :: "(string, WorkerKey) gomap"
  sRequests :: "(u64, request) gomap"

definition makeSnapshot :: "state \<Rightarrow> Snapshot" where
  "makeSnapshot s =
     \<lparr>sWorkers = mapvals (\<lambda>_ w. \<lparr>sKey = key w, sPID = wpid w, sTransport = '''',
        sState = wstate w, sFailureReason = failureReason w, sExitCode = exitCode w,
        sExitError = exitError w\<rparr>) (workers s),
      sActive = active s,
      sRequests = mapvals (\<lambda>_ r. \<lparr>requestID = requestID r, results = results r\<rparr>) (requests s)\<rparr>"

section \<open>The command loop\<close>

datatype command =
    RegisterWorker WorkerKey "Child option"
  | MarkHealthy WorkerKey
  | FailWorker WorkerKey string
  | ActivateWorker WorkerKey
  | RetireWorker WorkerKey
  | TrackRequest u64 "WorkerKey list"
  | RecordResult u64 WorkerKey Verdict
  | TakeSnapshot
  | WorkerExited WorkerKey Exit

datatype reply = ErrorReply "coord_error option" | SnapshotReply Snapshot | NoReply

definition initial :: state where
  "initial = \<lparr>workers = [], active = [], requests = []\<rparr>"

fun coord_step :: "kill \<Rightarrow> command \<Rightarrow> state \<Rightarrow> reply \<times> state" where
  "coord_step kill (RegisterWorker k c) s = apfst ErrorReply (registerWorker k c s)"
| "coord_step kill (MarkHealthy k) s = apfst ErrorReply (markHealthy k s)"
| "coord_step kill (FailWorker k reason) s = apfst ErrorReply (failWorker kill k reason s)"
| "coord_step kill (ActivateWorker k) s = apfst ErrorReply (activateWorker k s)"
| "coord_step kill (RetireWorker k) s = apfst ErrorReply (retireWorker k s)"
| "coord_step kill (TrackRequest i ks) s = apfst ErrorReply (trackRequest i ks s)"
| "coord_step kill (RecordResult i k v) s = apfst ErrorReply (recordResult i k v s)"
| "coord_step kill TakeSnapshot s = (SnapshotReply (makeSnapshot s), s)"
| "coord_step kill (WorkerExited k e) s = (NoReply, recordWorkerExit k e s)"

text \<open>
  A turn of the loop. Go ranges over a map in any order, so the maps may be permuted before
  the handler runs; the answer of \<^verbatim>\<open>Kill\<close> is the operating system's.
\<close>

definition same_state :: "state \<Rightarrow> state \<Rightarrow> bool" where
  "same_state s s' \<longleftrightarrow> same_map (workers s) (workers s') \<and> same_map (active s) (active s') \<and>
     same_map (requests s) (requests s')"

inductive coord_trans :: "state \<Rightarrow> command \<times> reply \<Rightarrow> state \<Rightarrow> bool" where
  turn: "same_state s s' \<Longrightarrow> coord_step kill c s' = (r, t) \<Longrightarrow> coord_trans s (c, r) t"

inductive_cases coord_transE: "coord_trans s (c, r) t"

definition coord_init :: "state \<Rightarrow> bool" where
  "coord_init s \<longleftrightarrow> s = initial"

definition coord_states :: "state \<Rightarrow> WorkerKey \<Rightarrow> WorkerState option" where
  "coord_states s k = map_option wstate (mget (workers s) k)"

abbreviation coord_reach :: "state \<Rightarrow> bool" where
  "coord_reach \<equiv> reach coord_init coord_trans"

abbreviation coord_runs :: "state \<Rightarrow> (command \<times> reply) list \<Rightarrow> state \<Rightarrow> bool" where
  "coord_runs \<equiv> runs coord_trans"

end
