(* ===== verification/CoordinatorInv.thy ===== *)
theory CoordinatorInv
  imports Coordinator
begin

text \<open>
  The invariant of the coordinator of \<^verbatim>\<open>src/pkg/coordinator/coordinator.go\<close> and its
  preservation by every handler; and the interpretation of the lifecycle contract on the
  coordinator's loop.
\<close>

section \<open>The invariant\<close>

definition keys_ok :: "state \<Rightarrow> bool" where
  "keys_ok s \<longleftrightarrow>
     distinct (keys (workers s)) \<and> distinct (keys (active s)) \<and> distinct (keys (requests s))"

definition workers_ok :: "state \<Rightarrow> bool" where
  "workers_ok s \<longleftrightarrow> (\<forall>k w. mget (workers s) k = Some w \<longrightarrow>
     key w = k \<and> wpid w = pid (child w) \<and> validateWorkerKey k = None \<and>
     (wstate w = WorkerFailed \<longleftrightarrow> failureReason w \<noteq> ''''))"

definition routes_ok :: "state \<Rightarrow> bool" where
  "routes_ok s \<longleftrightarrow> (\<forall>scanner k. mget (active s) scanner = Some k \<longleftrightarrow>
     coord_states s k = Some WorkerActive \<and> ScannerID k = scanner)"

definition candidates_ok :: "state \<Rightarrow> bool" where
  "candidates_ok s \<longleftrightarrow> (\<forall>k k' a b. coord_states s k = Some a \<longrightarrow> coord_states s k' = Some b \<longrightarrow>
     candidate a \<longrightarrow> candidate b \<longrightarrow> ScannerID k = ScannerID k' \<longrightarrow> k = k')"

definition result_ok :: "state \<Rightarrow> WorkerKey \<Rightarrow> Verdict \<Rightarrow> bool" where
  "result_ok s k v \<longleftrightarrow>
     (if v = pending then coord_states s k \<in> {Some WorkerActive, Some WorkerDraining}
      else validVerdict v \<and> coord_states s k \<noteq> None)"

definition requests_ok :: "state \<Rightarrow> bool" where
  "requests_ok s \<longleftrightarrow> (\<forall>i r. mget (requests s) i = Some r \<longrightarrow>
     i \<noteq> 0 \<and> requestID r = i \<and> results r \<noteq> [] \<and>
     (\<forall>k v. mget (results r) k = Some v \<longrightarrow> result_ok s k v))"

definition coord_inv :: "state \<Rightarrow> bool" where
  "coord_inv s \<longleftrightarrow> keys_ok s \<and> workers_ok s \<and> routes_ok s \<and> candidates_ok s \<and> requests_ok s"

section \<open>Views of the updates\<close>

lemma coord_states_adjust [map_laws]:
  "coord_states (adjust_worker k f s) k' =
     (if k' = k then map_option (wstate \<circ> f) (mget (workers s) k) else coord_states s k')"
  by (simp add: coord_states_def adjust_worker_def map_laws option.map_comp)

lemma workers_adjust [simp]: "workers (adjust_worker k f s) = madjust k f (workers s)"
  by (simp add: adjust_worker_def)

lemma active_adjust [simp]: "active (adjust_worker k f s) = active s"
  by (simp add: adjust_worker_def)

lemma requests_adjust [simp]: "requests (adjust_worker k f s) = requests s"
  by (simp add: adjust_worker_def)

lemma coord_states_other [simp]:
  "coord_states (s\<lparr>active := x\<rparr>) = coord_states s"
  "coord_states (s\<lparr>requests := y\<rparr>) = coord_states s"
  by (simp_all add: coord_states_def fun_eq_iff)

lemma mget_coord_states: "mget (workers s) k = Some w \<Longrightarrow> coord_states s k = Some (wstate w)"
  by (simp add: coord_states_def)

lemma coord_statesE:
  assumes "coord_states s k = Some a"
  obtains w where "mget (workers s) k = Some w" "wstate w = a"
  using assms by (auto simp: coord_states_def)

lemma keys_markPending [simp]: "keys (markPendingUnavailable k rs) = keys rs"
  by (simp add: markPendingUnavailable_def)

lemma mget_markPending:
  "mget (markPendingUnavailable k rs) i = map_option (\<lambda>r.
     if mget (results r) k = Some pending
     then r\<lparr>results := mput k VerdictUnavailable (results r)\<rparr> else r) (mget rs i)"
  by (simp add: markPendingUnavailable_def map_laws)

text \<open>What the loop of \<^verbatim>\<open>trackRequest\<close> builds.\<close>

lemma assignResults_spec:
  assumes "assignResults i ws ks res = Inr res'"
  shows "keys res' = keys res @ ks \<and> distinct ks \<and> set ks \<inter> set (keys res) = {} \<and>
    (\<forall>k v. mget res' k = Some v \<longrightarrow> mget res k = Some v \<or>
       k \<in> set ks \<and> (\<exists>w. mget ws k = Some w \<and>
         (wstate w = WorkerActive \<and> v = pending \<or> wstate w = WorkerFailed \<and> v = VerdictUnavailable)))"
  using assms
proof (induction ks arbitrary: res)
  case Nil
  then show ?case by simp
next
  case (Cons k ks)
  from Cons.prems obtain w v where w: "mget ws k = Some w" "mget res k = None"
    "assignResults i ws ks (mput k v res) = Inr res'"
    "wstate w = WorkerActive \<and> v = pending \<or> wstate w = WorkerFailed \<and> v = VerdictUnavailable"
    by (auto split: option.splits if_splits)
  from w(2) have "keys (mput k v res) = keys res @ [k]"
    by (simp add: mget_None_iff mput_fresh)
  note IH = Cons.IH [OF w(3), unfolded this]
  have "mget res k' = Some v' \<or>
       k' \<in> set (k # ks) \<and> (\<exists>w. mget ws k' = Some w \<and>
         (wstate w = WorkerActive \<and> v' = pending \<or> wstate w = WorkerFailed \<and> v' = VerdictUnavailable))"
    if "mget res' k' = Some v'" for k' v'
  proof -
    from IH that have "mget (mput k v res) k' = Some v' \<or>
       k' \<in> set ks \<and> (\<exists>w. mget ws k' = Some w \<and>
         (wstate w = WorkerActive \<and> v' = pending \<or> wstate w = WorkerFailed \<and> v' = VerdictUnavailable))"
      by blast
    then show ?thesis
    proof
      assume "mget (mput k v res) k' = Some v'"
      with w(1,4) show ?thesis by (auto simp: map_laws split: if_splits)
    qed simp
  qed
  with IH w(2) show ?case by (auto simp: mget_None_iff)
qed

section \<open>Permuted maps\<close>

lemma same_state_views:
  assumes "same_state s s'" "keys_ok s"
  shows "mget (workers s') = mget (workers s)" "mget (active s') = mget (active s)"
    "mget (requests s') = mget (requests s)" "coord_states s' = coord_states s"
proof -
  show *: "mget (workers s') = mget (workers s)" "mget (active s') = mget (active s)"
    "mget (requests s') = mget (requests s)"
    using assms by (simp_all add: same_state_def keys_ok_def same_map_get)
  show "coord_states s' = coord_states s" by (simp add: coord_states_def * fun_eq_iff)
qed

lemma coord_inv_same:
  assumes "same_state s s'" "coord_inv s"
  shows "coord_inv s'"
proof -
  have keys: "keys_ok s" "keys_ok s'"
    using assms by (auto simp: coord_inv_def keys_ok_def same_state_def same_map_keys)
  note views = same_state_views [OF assms(1) keys(1)]
  have "workers_ok s' = workers_ok s" "routes_ok s' = routes_ok s"
    "candidates_ok s' = candidates_ok s" "requests_ok s' = requests_ok s"
    by (simp_all only: workers_ok_def routes_ok_def candidates_ok_def requests_ok_def
        result_ok_def views)
  with assms(2) keys(2) show ?thesis by (simp add: coord_inv_def)
qed

section \<open>Every handler preserves the invariant\<close>

lemma find_None_map: "find (\<lambda>(_, v). P v) m = None \<Longrightarrow> mget m k = Some v \<Longrightarrow> \<not> P v"
  by (auto simp: find_None_iff dest: map_of_SomeD)

text \<open>
  Two rules for steps that do not register a worker: no worker becomes a candidate, and
  every result is still right.
\<close>

lemma candidates_okI:
  assumes "candidates_ok s"
    and "\<And>k b. coord_states t k = Some b \<Longrightarrow> candidate b \<Longrightarrow>
      \<exists>a. coord_states s k = Some a \<and> candidate a"
  shows "candidates_ok t"
  using assms unfolding candidates_ok_def by metis

lemma requests_okI:
  assumes "requests_ok s" "requests t = requests s"
    and "\<And>k v. result_ok s k v \<Longrightarrow> result_ok t k v"
  shows "requests_ok t"
  using assms unfolding requests_ok_def by metis

lemma requests_okD:
  "requests_ok s \<Longrightarrow> mget (requests s) i = Some r \<Longrightarrow> mget (results r) k = Some v \<Longrightarrow> result_ok s k v"
  by (simp add: requests_ok_def)

lemma registerWorker_cases:
  "registerWorker k c s = (err, t) \<Longrightarrow>
     (err \<noteq> None \<and> t = s) \<or>
     (\<exists>ch w. err = None \<and> c = Some ch \<and> validateWorkerKey k = None \<and> mget (workers s) k = None \<and>
       (\<forall>k' w'. mget (workers s) k' = Some w' \<longrightarrow> candidate (wstate w') \<longrightarrow>
          ScannerID (key w') \<noteq> ScannerID k) \<and>
       w = \<lparr>key = k, child = ch, wpid = pid ch, wstate = WorkerStarting, failureReason = '''',
            exitCode = 0, exitError = ''''\<rparr> \<and>
       t = s\<lparr>workers := mput k w (workers s)\<rparr>)"
  unfolding registerWorker_def
  by (auto split: option.splits if_splits dest: find_None_map)

lemma registerWorker_inv:
  assumes "coord_inv s" "registerWorker k c s = (err, t)"
  shows "coord_inv t"
  using registerWorker_cases [OF assms(2)]
proof (elim disjE exE conjE)
  assume "t = s"
  with assms(1) show ?thesis by simp
next
  fix ch w
  assume valid: "validateWorkerKey k = None" and fresh: "mget (workers s) k = None"
    and alone: "\<forall>k' w'. mget (workers s) k' = Some w' \<longrightarrow> candidate (wstate w') \<longrightarrow>
          ScannerID (key w') \<noteq> ScannerID k"
    and w: "w = \<lparr>key = k, child = ch, wpid = pid ch, wstate = WorkerStarting,
          failureReason = '''', exitCode = 0, exitError = ''''\<rparr>"
    and t: "t = s\<lparr>workers := mput k w (workers s)\<rparr>"
  have states: "coord_states t k' = (if k' = k then Some WorkerStarting else coord_states s k')" for k'
    by (simp add: coord_states_def t w map_laws)
  have old: "coord_states s k = None" by (simp add: coord_states_def fresh)
  have inv: "keys_ok s" "workers_ok s" "routes_ok s" "candidates_ok s" "requests_ok s"
    using assms(1) by (simp_all add: coord_inv_def)
  have "keys_ok t" using inv(1) by (simp add: keys_ok_def t)
  moreover have "workers_ok t" using inv(2) valid by (simp add: workers_ok_def t w map_laws)
  moreover have "routes_ok t" using inv(3) old by (auto simp: routes_ok_def states) (auto simp: t)
  moreover have "candidates_ok t"
    unfolding candidates_ok_def
  proof (intro allI impI)
    fix k1 k2 a b
    assume h: "coord_states t k1 = Some a" "coord_states t k2 = Some b" "candidate a" "candidate b"
      "ScannerID k1 = ScannerID k2"
    have other: False if "coord_states s k' = Some x" "candidate x" "ScannerID k' = ScannerID k" for k' x
      using that alone inv(2) by (auto simp: workers_ok_def elim: coord_statesE)
    show "k1 = k2"
    proof (cases "k1 = k \<or> k2 = k")
      case True
      with h other show ?thesis by (auto simp: states split: if_splits)
    next
      case False
      with h inv(4) show ?thesis by (simp add: states candidates_ok_def)
    qed
  qed
  moreover have "requests_ok t"
    by (rule requests_okI [OF inv(5)])
      (simp add: t, auto simp: result_ok_def states old split: if_splits)
  ultimately show ?thesis by (simp add: coord_inv_def)
qed

text \<open>
  A handler that moves one registered worker along the lifecycle and leaves routes and
  requests alone.
\<close>

lemma keys_ok_adjust [simp]: "keys_ok (adjust_worker k f s) = keys_ok s"
  by (simp add: keys_ok_def)

lemma workers_ok_adjust:
  assumes "workers_ok s"
    and "\<And>w. mget (workers s) k = Some w \<Longrightarrow> key (f w) = key w \<and> wpid (f w) = wpid w \<and>
      pid (child (f w)) = pid (child w) \<and> (wstate (f w) = WorkerFailed \<longleftrightarrow> failureReason (f w) \<noteq> '''')"
  shows "workers_ok (adjust_worker k f s)"
  using assms by (auto simp: workers_ok_def map_laws)

lemma workers_ok_other [simp]:
  "workers_ok (s\<lparr>active := x\<rparr>) = workers_ok s"
  "workers_ok (s\<lparr>requests := y\<rparr>) = workers_ok s"
  by (simp_all add: workers_ok_def)

lemma candidates_ok_other [simp]:
  "candidates_ok (s\<lparr>active := x\<rparr>) = candidates_ok s"
  "candidates_ok (s\<lparr>requests := y\<rparr>) = candidates_ok s"
  by (simp_all add: candidates_ok_def)

lemma result_ok_other [simp]:
  "result_ok (s\<lparr>active := x\<rparr>) = result_ok s"
  "result_ok (s\<lparr>requests := y\<rparr>) = result_ok s"
  by (simp_all add: result_ok_def fun_eq_iff)

lemma routes_ok_requests [simp]: "routes_ok (s\<lparr>requests := y\<rparr>) = routes_ok s"
  by (simp add: routes_ok_def)

lemma requests_ok_active [simp]: "requests_ok (s\<lparr>active := x\<rparr>) = requests_ok s"
  by (simp add: requests_ok_def)

lemma keys_ok_requests [simp]:
  "distinct (keys y) \<Longrightarrow> keys_ok s \<Longrightarrow> keys_ok (s\<lparr>requests := y\<rparr>)"
  by (simp add: keys_ok_def)

lemma coord_invD:
  assumes "coord_inv s"
  shows "keys_ok s" "workers_ok s" "routes_ok s" "candidates_ok s" "requests_ok s"
  using assms by (simp_all add: coord_inv_def)

lemma coord_invI:
  "keys_ok s \<Longrightarrow> workers_ok s \<Longrightarrow> routes_ok s \<Longrightarrow> candidates_ok s \<Longrightarrow> requests_ok s \<Longrightarrow> coord_inv s"
  by (simp add: coord_inv_def)

lemma workers_okD:
  "workers_ok s \<Longrightarrow> mget (workers s) k = Some w \<Longrightarrow>
     key w = k \<and> wpid w = pid (child w) \<and> validateWorkerKey k = None \<and>
     (wstate w = WorkerFailed \<longleftrightarrow> failureReason w \<noteq> '''')"
  by (simp add: workers_ok_def)

lemma routes_okD: "routes_ok s \<Longrightarrow>
    mget (active s) scanner = Some k \<longleftrightarrow> coord_states s k = Some WorkerActive \<and> ScannerID k = scanner"
  by (simp add: routes_ok_def)

lemma routes_ok_unique:
  "routes_ok s \<Longrightarrow> coord_states s k = Some WorkerActive \<Longrightarrow> coord_states s k' = Some WorkerActive \<Longrightarrow>
     ScannerID k = ScannerID k' \<Longrightarrow> k = k'"
  by (metis option.inject routes_okD)

lemma move_inv:
  assumes "coord_inv s" "mget (workers s) k = Some w"
    and "wstate w = a" "a \<noteq> WorkerActive" "b \<noteq> WorkerActive" "a \<noteq> WorkerFailed" "b \<noteq> WorkerFailed"
      "candidate b \<Longrightarrow> candidate a"
      "\<And>i r. mget (requests s) i = Some r \<Longrightarrow> mget (results r) k = Some pending \<Longrightarrow> b = WorkerDraining"
  shows "coord_inv (adjust_worker k (wstate_update (\<lambda>_. b)) s)" (is "coord_inv ?t")
proof (rule coord_invI)
  note inv = coord_invD [OF assms(1)]
  have states: "coord_states ?t k' = (if k' = k then Some b else coord_states s k')" for k'
    by (simp add: coord_states_adjust assms(2))
  have old: "coord_states s k = Some a" using assms(2,3) by (simp add: mget_coord_states)
  show "keys_ok ?t" using inv(1) by simp
  show "workers_ok ?t"
    using inv(2) assms(2,3,6,7) workers_okD [OF inv(2) assms(2)]
    by (intro workers_ok_adjust) auto
  show "routes_ok ?t"
    using inv(3) old assms(4,5) by (auto simp: routes_ok_def states)
  show "candidates_ok ?t"
    by (rule candidates_okI [OF inv(4)]) (use old assms(8) in \<open>auto simp: states split: if_splits\<close>)
  show "requests_ok ?t"
    unfolding requests_ok_def
  proof (intro allI impI conjI)
    fix i r k' v
    assume r: "mget (requests ?t) i = Some r" "mget (results r) k' = Some v"
    with inv(5) have "result_ok s k' v" by (auto simp: requests_ok_def)
    with assms(9) [of i r] r show "result_ok ?t k' v"
      by (auto simp: result_ok_def states split: if_splits)
  qed (use inv(5) in \<open>auto simp: requests_ok_def\<close>)
qed

lemma markHealthy_inv:
  assumes "coord_inv s" "markHealthy k s = (err, t)"
  shows "coord_inv t"
proof (cases "\<exists>w. mget (workers s) k = Some w \<and> wstate w = WorkerStarting")
  case True
  then obtain w where w: "mget (workers s) k = Some w" "wstate w = WorkerStarting" by blast
  with assms(2) have "t = adjust_worker k (wstate_update (\<lambda>_. WorkerHealthy)) s"
    by (simp add: markHealthy_def)
  moreover have "coord_inv (adjust_worker k (wstate_update (\<lambda>_. WorkerHealthy)) s)"
    using requests_okD [OF coord_invD(5) [OF assms(1)], of _ _ k pending] w
    by (intro move_inv [OF assms(1) w]) (auto simp: candidate_def result_ok_def mget_coord_states)
  ultimately show ?thesis by simp
next
  case False
  with assms show ?thesis by (auto simp: markHealthy_def split: option.splits if_splits)
qed

lemma retireWorker_cases:
  "retireWorker k s = (err, t) \<Longrightarrow>
     (err \<noteq> None \<and> t = s) \<or>
     (\<exists>w. err = None \<and> mget (workers s) k = Some w \<and> wstate w = WorkerDraining \<and>
       (\<forall>i r. mget (requests s) i = Some r \<longrightarrow> mget (results r) k \<noteq> Some pending) \<and>
       t = adjust_worker k (wstate_update (\<lambda>_. WorkerRetired)) s)"
  unfolding retireWorker_def
  by (auto split: option.splits if_splits dest: find_None_map)

lemma retireWorker_inv:
  assumes "coord_inv s" "retireWorker k s = (err, t)"
  shows "coord_inv t"
  using retireWorker_cases [OF assms(2)]
proof (elim disjE exE conjE)
  fix w
  assume w: "mget (workers s) k = Some w" "wstate w = WorkerDraining"
    and idle: "\<forall>i r. mget (requests s) i = Some r \<longrightarrow> mget (results r) k \<noteq> Some pending"
    and t: "t = adjust_worker k (wstate_update (\<lambda>_. WorkerRetired)) s"
  show ?thesis unfolding t
    by (rule move_inv [OF assms(1) w]) (use idle in \<open>auto simp: candidate_def\<close>)
qed (use assms(1) in simp)

text \<open>A worker that fails: its pending results become unavailable, its route is dropped.\<close>

lemma fail_inv:
  assumes "coord_inv s" "mget (workers s) k = Some w"
    and f: "wstate (f w) = WorkerFailed" "failureReason (f w) \<noteq> ''''" "key (f w) = key w"
      "wpid (f w) = wpid w" "pid (child (f w)) = pid (child w)"
    and t: "t = (adjust_worker k f s)\<lparr>active := act, requests := markPendingUnavailable k (requests s)\<rparr>"
    and act: "distinct (keys act)"
      "\<And>scanner. mget act scanner = (if mget (active s) scanner = Some k then None else mget (active s) scanner)"
  shows "coord_inv t"
proof (rule coord_invI)
  note inv = coord_invD [OF assms(1)]
  have states: "coord_states t k' = (if k' = k then Some WorkerFailed else coord_states s k')" for k'
    using assms(2) f(1) by (simp add: t coord_states_adjust)
  show "keys_ok t" using inv(1) act(1) by (simp add: t keys_ok_def)
  show "workers_ok t"
    unfolding t using workers_okD [OF inv(2) assms(2)] assms(2) f
    by (simp, intro workers_ok_adjust [OF inv(2)]) auto
  show "routes_ok t"
  proof -
    have "active t = act" by (simp add: t)
    then show ?thesis
      using inv(3) routes_ok_unique [OF inv(3)] by (auto simp: routes_ok_def states act(2))
  qed
  show "candidates_ok t"
    by (rule candidates_okI [OF inv(4)]) (auto simp: states candidate_def split: if_splits)
  show "requests_ok t"
    unfolding requests_ok_def
  proof (intro allI impI)
    fix i r
    assume "mget (requests t) i = Some r"
    then obtain r0 where r0: "mget (requests s) i = Some r0"
      and r: "r = (if mget (results r0) k = Some pending
        then r0\<lparr>results := mput k VerdictUnavailable (results r0)\<rparr> else r0)"
      by (auto simp: t mget_markPending)
    from inv(5) r0 have ok0: "i \<noteq> 0" "requestID r0 = i" "results r0 \<noteq> []"
      "\<And>k v. mget (results r0) k = Some v \<Longrightarrow> result_ok s k v"
      by (auto simp: requests_ok_def)
    have "result_ok t k' v" if "mget (results r) k' = Some v" for k' v
    proof (cases "k' = k \<and> v = VerdictUnavailable")
      case True
      then show ?thesis by (simp add: result_ok_def states validVerdict_def)
    next
      case False
      with that have "mget (results r0) k' = Some v" "\<not> (k' = k \<and> v = pending)"
        by (auto simp: r map_laws split: if_splits)
      with ok0(4) [of k' v] show ?thesis by (auto simp: result_ok_def states split: if_splits)
    qed
    with ok0 show "i \<noteq> 0 \<and> requestID r = i \<and> results r \<noteq> [] \<and>
        (\<forall>k v. mget (results r) k = Some v \<longrightarrow> result_ok t k v)"
      by (auto simp: r)
  qed
qed

lemma failWorker_cases:
  "failWorker kill k reason s = (err, t) \<Longrightarrow>
     (err \<noteq> None \<and> t = s) \<or>
     (\<exists>w. mget (workers s) k = Some w \<and> candidate (wstate w) \<and> \<not> blank reason \<and>
       err = map_option (TerminateFailed k) (fst (Terminate kill (child w))) \<and>
       t = (adjust_worker k (\<lambda>w'. w'\<lparr>wstate := WorkerFailed, failureReason := reason,
              child := snd (Terminate kill (child w))\<rparr>) s)
           \<lparr>requests := markPendingUnavailable k (requests s)\<rparr>)"
  unfolding failWorker_def
  by (auto simp: candidate_def Let_def split: option.splits if_splits prod.splits)

lemma not_routed:
  assumes "coord_inv s" "coord_states s k \<noteq> Some WorkerActive"
  shows "mget (active s) scanner \<noteq> Some k"
  using coord_invD(3) [OF assms(1)] assms(2) by (simp add: routes_ok_def)

lemma failWorker_inv:
  assumes "coord_inv s" "failWorker kill k reason s = (err, t)"
  shows "coord_inv t"
  using failWorker_cases [OF assms(2)]
proof (elim disjE exE conjE)
  fix w
  assume w: "mget (workers s) k = Some w" "candidate (wstate w)" "\<not> blank reason"
    and t: "t = (adjust_worker k (\<lambda>w'. w'\<lparr>wstate := WorkerFailed, failureReason := reason,
              child := snd (Terminate kill (child w))\<rparr>) s)
           \<lparr>requests := markPendingUnavailable k (requests s)\<rparr>"
  have "coord_states s k \<noteq> Some WorkerActive"
    using w by (auto simp: mget_coord_states candidate_def)
  note unrouted = not_routed [OF assms(1) this]
  have t': "t = (adjust_worker k (\<lambda>w'. w'\<lparr>wstate := WorkerFailed, failureReason := reason,
              child := snd (Terminate kill (child w))\<rparr>) s)
           \<lparr>active := active s, requests := markPendingUnavailable k (requests s)\<rparr>"
    by (simp add: t adjust_worker_def)
  show ?thesis
    by (rule fail_inv [OF assms(1) w(1) _ _ _ _ _ t'])
      (use w unrouted coord_invD(1) [OF assms(1)] in
        \<open>auto simp: keys_ok_def dest: not_blank_not_Nil\<close>)
qed (use assms(1) in simp)

lemma adjust_adjust: "adjust_worker k g (adjust_worker k f s) = adjust_worker k (g \<circ> f) s"
  by (simp add: adjust_worker_def madjust_def comp_def split_def)

lemma noteExit_simps [simp]:
  "wstate (noteExit e w) = wstate w" "failureReason (noteExit e w) = failureReason w"
  "key (noteExit e w) = key w" "wpid (noteExit e w) = wpid w" "child (noteExit e w) = child w"
  by (simp_all add: noteExit_def)

lemma noteFailure_simps [simp]:
  "wstate (noteFailure w) = WorkerFailed" "failureReason (noteFailure w) \<noteq> ''''"
  "key (noteFailure w) = key w" "wpid (noteFailure w) = wpid w" "child (noteFailure w) = child w"
  by (simp_all add: noteFailure_def)

lemma recordWorkerExit_cases:
  "recordWorkerExit k e s = t \<Longrightarrow>
     (t = s \<and> (\<forall>w. mget (workers s) k = Some w \<longrightarrow> wpid w \<noteq> ePID e)) \<or>
     (\<exists>w. mget (workers s) k = Some w \<and> wpid w = ePID e \<and> wstate w = WorkerRetired \<and>
       t = adjust_worker k (noteExit e) s) \<or>
     (\<exists>w. mget (workers s) k = Some w \<and> wpid w = ePID e \<and> wstate w \<noteq> WorkerRetired \<and>
       t = (adjust_worker k (noteFailure \<circ> noteExit e) s)\<lparr>
          active := (if mget (active s) (ScannerID k) = Some k
                     then mdel (ScannerID k) (active s) else active s),
          requests := markPendingUnavailable k (requests s)\<rparr>)"
  unfolding recordWorkerExit_def
  by (auto simp: Let_def adjust_adjust split: option.splits if_splits)

lemma noteExit_inv:
  assumes "coord_inv s" "mget (workers s) k = Some w" "wstate w = WorkerRetired"
  shows "coord_inv (adjust_worker k (noteExit e) s)"
proof (rule coord_invI)
  note inv = coord_invD [OF assms(1)]
  have states: "coord_states (adjust_worker k (noteExit e) s) = coord_states s"
    using assms(2) by (auto simp: coord_states_adjust mget_coord_states fun_eq_iff)
  show "keys_ok (adjust_worker k (noteExit e) s)" using inv(1) by simp
  show "workers_ok (adjust_worker k (noteExit e) s)"
    using workers_okD [OF inv(2) assms(2)] assms(2)
    by (intro workers_ok_adjust [OF inv(2)]) simp
  show "routes_ok (adjust_worker k (noteExit e) s)"
    using inv(3) by (simp add: routes_ok_def states)
  show "candidates_ok (adjust_worker k (noteExit e) s)"
    using inv(4) by (simp only: candidates_ok_def states)
  show "requests_ok (adjust_worker k (noteExit e) s)"
    using inv(5) by (simp only: requests_ok_def result_ok_def states requests_adjust)
qed

lemma noteFailure_inv:
  assumes "coord_inv s" "mget (workers s) k = Some w"
  shows "coord_inv ((adjust_worker k (noteFailure \<circ> noteExit e) s)\<lparr>
          active := (if mget (active s) (ScannerID k) = Some k
                     then mdel (ScannerID k) (active s) else active s),
          requests := markPendingUnavailable k (requests s)\<rparr>)"
proof (rule fail_inv [OF assms _ _ _ _ _ refl])
  fix scanner
  have "mget (active s) scanner = Some k \<longrightarrow> ScannerID k = scanner"
    using coord_invD(3) [OF assms(1)] by (simp add: routes_ok_def)
  then show "mget (if mget (active s) (ScannerID k) = Some k
                     then mdel (ScannerID k) (active s) else active s) scanner =
      (if mget (active s) scanner = Some k then None else mget (active s) scanner)"
    by (cases "scanner = ScannerID k") (auto simp: mget_mdel)
qed (use coord_invD(1) [OF assms(1)] in \<open>simp_all add: keys_ok_def\<close>)

lemma recordWorkerExit_inv:
  assumes "coord_inv s"
  shows "coord_inv (recordWorkerExit k e s)"
  using recordWorkerExit_cases [OF refl, of k e s] assms noteExit_inv [OF assms] noteFailure_inv [OF assms]
  by metis

lemma activateWorker_cases:
  "activateWorker k s = (err, t) \<Longrightarrow> coord_inv s \<Longrightarrow>
     (err \<noteq> None \<and> t = s \<and> coord_states s k \<noteq> Some WorkerHealthy) \<or>
     (err = None \<and> coord_states s k = Some WorkerHealthy \<and>
       requests t = requests s \<and> active t = mput (ScannerID k) k (active s) \<and>
       keys (workers t) = keys (workers s) \<and>
       (\<forall>k'. mget (workers t) k' =
          (if k' = k then map_option (wstate_update (\<lambda>_. WorkerActive)) (mget (workers s) k')
           else if mget (active s) (ScannerID k) = Some k'
             then map_option (wstate_update (\<lambda>_. WorkerDraining)) (mget (workers s) k')
           else mget (workers s) k')))"
proof -
  assume act: "activateWorker k s = (err, t)" and "coord_inv s"
  note routes = coord_invD(3) [OF \<open>coord_inv s\<close>]
  show ?thesis
  proof (cases "coord_states s k = Some WorkerHealthy")
    case False
    with act show ?thesis
      by (auto simp: activateWorker_def coord_states_def split: option.splits if_splits)
  next
    case True
    then obtain w where w: "mget (workers s) k = Some w" "wstate w = WorkerHealthy"
      by (rule coord_statesE)
    show ?thesis
    proof (cases "mget (active s) (ScannerID k)")
      case None
      with act w True show ?thesis
        by (auto simp: activateWorker_def adjust_worker_def map_laws)
    next
      case (Some old)
      with routes have "coord_states s old = Some WorkerActive" by (simp add: routes_ok_def)
      then obtain a where a: "mget (workers s) old = Some a" "wstate a = WorkerActive"
        by (rule coord_statesE)
      with w have "old \<noteq> k" by auto
      with act w a Some True show ?thesis
        by (auto simp: activateWorker_def adjust_worker_def map_laws)
    qed
  qed
qed

lemma activateWorker_inv:
  assumes "coord_inv s" "activateWorker k s = (err, t)"
  shows "coord_inv t"
  using activateWorker_cases [OF assms(2,1)]
proof (elim disjE conjE)
  note inv = coord_invD [OF assms(1)]
  assume healthy: "coord_states s k = Some WorkerHealthy" and rq: "requests t = requests s"
    and act: "active t = mput (ScannerID k) k (active s)"
    and ks: "keys (workers t) = keys (workers s)"
    and get: "\<forall>k'. mget (workers t) k' =
          (if k' = k then map_option (wstate_update (\<lambda>_. WorkerActive)) (mget (workers s) k')
           else if mget (active s) (ScannerID k) = Some k'
             then map_option (wstate_update (\<lambda>_. WorkerDraining)) (mget (workers s) k')
           else mget (workers s) k')"
  have states: "coord_states t k' =
      (if k' = k then Some WorkerActive
       else if mget (active s) (ScannerID k) = Some k' then Some WorkerDraining
       else coord_states s k')" for k'
    using inv(3) healthy by (auto simp: coord_states_def get routes_ok_def)
  have "keys_ok t" using inv(1) by (simp add: keys_ok_def rq act ks)
  moreover have "workers_ok t"
    unfolding workers_ok_def
  proof (intro allI impI)
    fix k' w
    assume "mget (workers t) k' = Some w"
    then obtain w0 where w0: "mget (workers s) k' = Some w0"
      and w: "w = (if k' = k then w0\<lparr>wstate := WorkerActive\<rparr>
        else if mget (active s) (ScannerID k) = Some k' then w0\<lparr>wstate := WorkerDraining\<rparr> else w0)"
      by (auto simp: get split: if_splits)
    have "wstate w0 \<noteq> WorkerFailed" if "k' = k \<or> mget (active s) (ScannerID k) = Some k'"
      using that w0 healthy inv(3) by (auto simp: routes_ok_def mget_coord_states)
    with workers_okD [OF inv(2) w0] show "key w = k' \<and> wpid w = pid (child w) \<and>
        validateWorkerKey k' = None \<and> (wstate w = WorkerFailed \<longleftrightarrow> failureReason w \<noteq> '''')"
      by (auto simp: w)
  qed
  moreover have "routes_ok t"
    using inv(3) routes_ok_unique [OF inv(3)]
    by (auto simp: routes_ok_def states act map_laws)
  moreover have "candidates_ok t"
    by (rule candidates_okI [OF inv(4)]) (auto simp: states candidate_def split: if_splits)
  moreover have "requests_ok t"
    by (rule requests_okI [OF inv(5) rq])
      (use healthy in \<open>auto simp: result_ok_def states split: if_splits\<close>)
  ultimately show ?thesis by (rule coord_invI)
qed (use assms(1) in simp)

lemma trackRequest_cases:
  "trackRequest i ks s = (err, t) \<Longrightarrow>
     (err \<noteq> None \<and> t = s) \<or>
     (\<exists>res. err = None \<and> i \<noteq> 0 \<and> mget (requests s) i = None \<and> ks \<noteq> [] \<and>
       assignResults i (workers s) ks [] = Inr res \<and>
       t = s\<lparr>requests := mput i \<lparr>requestID = i, results = res\<rparr> (requests s)\<rparr>)"
  unfolding trackRequest_def by (auto split: if_splits sum.splits)

lemma trackRequest_inv:
  assumes "coord_inv s" "trackRequest i ks s = (err, t)"
  shows "coord_inv t"
  using trackRequest_cases [OF assms(2)]
proof (elim disjE exE conjE)
  fix res
  assume h: "i \<noteq> 0" "ks \<noteq> []" "assignResults i (workers s) ks [] = Inr res"
    and t: "t = s\<lparr>requests := mput i \<lparr>requestID = i, results = res\<rparr> (requests s)\<rparr>"
  note inv = coord_invD [OF assms(1)]
  from assignResults_spec [OF h(3)] h(2)
  have res: "res \<noteq> []" "\<And>k v. mget res k = Some v \<Longrightarrow> \<exists>w. mget (workers s) k = Some w \<and>
         (wstate w = WorkerActive \<and> v = pending \<or> wstate w = WorkerFailed \<and> v = VerdictUnavailable)"
    by auto
  have "result_ok s k v" if "mget res k = Some v" for k v
    using res(2) [OF that] by (auto simp: result_ok_def validVerdict_def mget_coord_states)
  with inv res(1) h(1) have "requests_ok t"
    by (auto simp: t requests_ok_def map_laws)
  with inv show ?thesis by (intro coord_invI) (auto simp: t routes_ok_def keys_ok_def)
qed (use assms(1) in simp)

lemma recordResult_cases:
  "recordResult i k v s = (err, t) \<Longrightarrow>
     (err \<noteq> None \<and> t = s) \<or>
     (\<exists>r. err = None \<and> mget (requests s) i = Some r \<and> mget (results r) k = Some pending \<and>
       validVerdict v \<and>
       t = s\<lparr>requests := madjust i (\<lambda>r. r\<lparr>results := mput k v (results r)\<rparr>) (requests s)\<rparr>)"
  unfolding recordResult_def by (auto split: option.splits if_splits)

lemma recordResult_inv:
  assumes "coord_inv s" "recordResult i k v s = (err, t)"
  shows "coord_inv t"
  using recordResult_cases [OF assms(2)]
proof (elim disjE exE conjE)
  fix r
  assume h: "mget (requests s) i = Some r" "mget (results r) k = Some pending" "validVerdict v"
    and t: "t = s\<lparr>requests := madjust i (\<lambda>r. r\<lparr>results := mput k v (results r)\<rparr>) (requests s)\<rparr>"
  note inv = coord_invD [OF assms(1)]
  from requests_okD [OF inv(5) h(1,2)] have "coord_states s k \<noteq> None" by (auto simp: result_ok_def)
  with h(3) have new: "result_ok s k v" by (auto simp: result_ok_def validVerdict_def)
  have "requests_ok t"
    unfolding requests_ok_def
  proof (intro allI impI)
    fix j r1
    assume "mget (requests t) j = Some r1"
    then obtain r0 where r0: "mget (requests s) j = Some r0"
      and r1: "r1 = (if j = i then r0\<lparr>results := mput k v (results r0)\<rparr> else r0)"
      by (auto simp: t map_laws split: if_splits)
    with inv(5) new show "j \<noteq> 0 \<and> requestID r1 = j \<and> results r1 \<noteq> [] \<and>
        (\<forall>k v. mget (results r1) k = Some v \<longrightarrow> result_ok t k v)"
      by (auto simp: t requests_ok_def map_laws)
  qed
  with inv show ?thesis by (intro coord_invI) (auto simp: t routes_ok_def keys_ok_def)
qed (use assms(1) in simp)

lemma coord_step_inv:
  assumes "coord_inv s" "coord_step kill c s = (r, t)"
  shows "coord_inv t"
  using assms
  by (cases c) (auto elim!: apfstE intro: registerWorker_inv markHealthy_inv failWorker_inv activateWorker_inv retireWorker_inv
      trackRequest_inv recordResult_inv recordWorkerExit_inv)

section \<open>The lifecycle contract\<close>

text \<open>What a handler may do to the states of the workers.\<close>

definition states_step :: "state \<Rightarrow> state \<Rightarrow> bool" where
  "states_step s t \<longleftrightarrow> (\<forall>k. case coord_states s k of
     Some a \<Rightarrow> (\<exists>b. coord_states t k = Some b \<and> moves a b)
   | None \<Rightarrow> coord_states t k = None \<or> coord_states t k = Some WorkerStarting)"

lemma states_step_refl [simp]: "states_step s s"
  by (auto simp: states_step_def split: option.splits)

lemma states_step_adjust:
  assumes "mget (workers s) k = Some w" "moves (wstate w) (wstate (f w))"
  shows "states_step s (adjust_worker k f s)"
  using assms by (auto simp: states_step_def coord_states_adjust mget_coord_states split: option.splits)

lemma states_step_other [simp]:
  "states_step s (t\<lparr>requests := x\<rparr>) = states_step s t"
  "states_step s (t\<lparr>active := y\<rparr>) = states_step s t"
  by (simp_all only: states_step_def coord_states_other)

lemma moves_Failed: "a \<noteq> WorkerRetired \<Longrightarrow> moves a WorkerFailed"
  by (auto simp: moves_def edges terminal_def)

lemma activateWorker_states:
  assumes "coord_inv s" "activateWorker k s = (err, t)"
  shows "states_step s t"
  using activateWorker_cases [OF assms(2,1)]
proof (elim disjE conjE)
  assume healthy: "coord_states s k = Some WorkerHealthy"
    and get: "\<forall>k'. mget (workers t) k' =
          (if k' = k then map_option (wstate_update (\<lambda>_. WorkerActive)) (mget (workers s) k')
           else if mget (active s) (ScannerID k) = Some k'
             then map_option (wstate_update (\<lambda>_. WorkerDraining)) (mget (workers s) k')
           else mget (workers s) k')"
  show ?thesis
    unfolding states_step_def
  proof
    fix k'
    have "wstate w = WorkerActive" if "mget (active s) (ScannerID k) = Some k'"
      "mget (workers s) k' = Some w" for w
      using coord_invD(3) [OF assms(1)] that by (simp add: routes_ok_def mget_coord_states)
    with healthy show "case coord_states s k' of
       Some a \<Rightarrow> (\<exists>b. coord_states t k' = Some b \<and> moves a b)
     | None \<Rightarrow> coord_states t k' = None \<or> coord_states t k' = Some WorkerStarting"
      by (auto simp: coord_states_def get moves_def intro: lifecycle_edge.intros split: option.splits)
  qed
qed simp

lemma coord_step_states:
  assumes "coord_inv s" "coord_step kill c s = (r, t)"
  shows "states_step s t"
proof (cases c)
  case (RegisterWorker k ch)
  with assms(2) obtain err where "registerWorker k ch s = (err, t)" by (auto elim: apfstE)
  then show ?thesis
    by (auto dest!: registerWorker_cases simp: states_step_def coord_states_def map_laws split: option.splits)
next
  case (MarkHealthy k)
  with assms(2) obtain err where "markHealthy k s = (err, t)" by (auto elim: apfstE)
  then show ?thesis
    by (auto simp: markHealthy_def moves_def edges intro!: states_step_adjust split: option.splits if_splits)
next
  case (FailWorker k reason)
  with assms(2) obtain err where "failWorker kill k reason s = (err, t)" by (auto elim: apfstE)
  then show ?thesis
    by (auto dest!: failWorker_cases intro!: states_step_adjust moves_Failed simp: candidate_def)
next
  case (ActivateWorker k)
  with assms(2) obtain err where "activateWorker k s = (err, t)" by (auto elim: apfstE)
  then show ?thesis by (rule activateWorker_states [OF assms(1)])
next
  case (RetireWorker k)
  with assms(2) obtain err where "retireWorker k s = (err, t)" by (auto elim: apfstE)
  then show ?thesis
    by (auto dest!: retireWorker_cases intro!: states_step_adjust simp: moves_def edges)
next
  case (TrackRequest i ks)
  with assms(2) obtain err where "trackRequest i ks s = (err, t)" by (auto elim: apfstE)
  then show ?thesis by (auto dest!: trackRequest_cases)
next
  case (RecordResult i k v)
  with assms(2) obtain err where "recordResult i k v s = (err, t)" by (auto elim: apfstE)
  then show ?thesis by (auto dest!: recordResult_cases)
next
  case TakeSnapshot
  with assms(2) show ?thesis by simp
next
  case (WorkerExited k e)
  with assms(2) have t: "t = recordWorkerExit k e s" by simp
  show ?thesis
    using recordWorkerExit_cases [OF refl, of k e s]
    unfolding t by (elim disjE exE conjE) (auto intro!: states_step_adjust moves_Failed)
qed

section \<open>The coordinator as a routed system\<close>

lemma coord_init_inv: "coord_init s \<Longrightarrow> coord_inv s"
  by (simp add: coord_init_def initial_def coord_inv_def keys_ok_def workers_ok_def routes_ok_def
      candidates_ok_def requests_ok_def coord_states_def)

lemma coord_trans_inv: "coord_trans s e t \<Longrightarrow> coord_inv s \<Longrightarrow> coord_inv t"
  by (erule coord_trans.cases) (blast intro: coord_step_inv coord_inv_same)

lemma coord_reach_inv: "coord_reach s \<Longrightarrow> coord_inv s"
  by (induction rule: reach_invariant) (auto intro: coord_init_inv coord_trans_inv)

lemma states_stepD:
  "states_step s t \<Longrightarrow> coord_states s k = Some a \<Longrightarrow> \<exists>b. coord_states t k = Some b \<and> moves a b"
  "states_step s t \<Longrightarrow> coord_states s k = None \<Longrightarrow> coord_states t k = Some b \<Longrightarrow> b = WorkerStarting"
  by (drule states_step_def [THEN iffD1, rule_format, of _ _ k], simp)+

lemma coord_trans_states:
  assumes "coord_trans s e t" "coord_inv s"
  shows "states_step s t"
  using assms(1)
proof cases
  case (turn s' kill c r)
  with assms(2) have "states_step s' t" by (blast intro: coord_step_states coord_inv_same)
  moreover have "coord_states s' = coord_states s"
    using turn(2) assms(2) by (simp add: same_state_views coord_inv_def)
  ultimately show ?thesis by (simp add: states_step_def)
qed

interpretation coordinator: routed_system coord_init coord_trans coord_states "\<lambda>s. mget (active s)"
proof
  show "coord_states s k = None" if "coord_init s" for s k
    using that by (simp add: coord_init_def initial_def coord_states_def)
next
  fix s e t k b
  assume "coord_reach s" "coord_trans s e t" "coord_states s k = None" "coord_states t k = Some b"
  then show "b = WorkerStarting"
    by (blast intro: states_stepD(2) coord_trans_states coord_reach_inv)
next
  fix s e t k a
  assume "coord_reach s" "coord_trans s e t" "coord_states s k = Some a"
  then show "\<exists>b. coord_states t k = Some b \<and> moves a b"
    by (blast intro: states_stepD(1) coord_trans_states coord_reach_inv)
next
  fix s scanner k
  assume "coord_reach s"
  then show "mget (active s) scanner = Some k \<longleftrightarrow>
      coord_states s k = Some WorkerActive \<and> ScannerID k = scanner"
    using coord_invD(3) [OF coord_reach_inv] by (simp add: routes_okD)
qed

end
