(* ===== verification/CoordinatorProps.thy ===== *)
theory CoordinatorProps
  imports CoordinatorInv
begin

text \<open>
  The properties of the coordinator of \<^verbatim>\<open>src/pkg/coordinator/coordinator.go\<close>, each with a
  run of concrete commands that its witness evaluates.
\<close>

section \<open>Runs of concrete commands\<close>

fun coord_exec :: "kill \<Rightarrow> command list \<Rightarrow> state \<Rightarrow> state" where
  "coord_exec kill [] s = s"
| "coord_exec kill (c # cs) s = coord_exec kill cs (snd (coord_step kill c s))"

lemma same_state_refl [simp]: "same_state s s"
  by (simp add: same_state_def)

lemma coord_exec_runs: "\<exists>es. coord_runs s es (coord_exec kill cs s)"
proof (induction cs arbitrary: s)
  case Nil
  show ?case by (auto intro: run_nil)
next
  case (Cons c cs)
  obtain r t where step: "coord_step kill c s = (r, t)" by (cases "coord_step kill c s")
  then have "coord_trans s (c, r) t" by (rule turn [OF same_state_refl])
  with Cons.IH [of t] step show ?case by (auto intro: run_cons)
qed

lemma coord_exec_reach: "coord_reach (coord_exec kill cs initial)"
proof -
  have "coord_reach initial" by (rule reach_init) (simp add: coord_init_def)
  then show ?thesis using coord_exec_runs [of initial kill cs] by (blast intro: reach_runs)
qed

definition demo_old :: WorkerKey where "demo_old = \<lparr>ScannerID = ''a'', Version = ''1''\<rparr>"
definition demo_new :: WorkerKey where "demo_new = \<lparr>ScannerID = ''a'', Version = ''2''\<rparr>"

definition demo_child :: "int \<Rightarrow> Child" where
  "demo_child p = \<lparr>pid = p, terminate = False, terminateErr = None\<rparr>"

definition demo_kill :: kill where "demo_kill p = None"

text \<open>One active worker with a request in flight, and a healthy candidate for its slot.\<close>

definition demo_commands :: "command list" where
  "demo_commands =
     [RegisterWorker demo_old (Some (demo_child 11)), MarkHealthy demo_old,
      ActivateWorker demo_old, TrackRequest 1 [demo_old],
      RegisterWorker demo_new (Some (demo_child 12)), MarkHealthy demo_new]"

definition demo_worker :: "WorkerKey \<Rightarrow> int \<Rightarrow> WorkerState \<Rightarrow> worker" where
  "demo_worker k p st = \<lparr>key = k, child = demo_child p, wpid = p, wstate = st,
     failureReason = '''', exitCode = 0, exitError = ''''\<rparr>"

definition demo_state :: state where
  "demo_state = \<lparr>workers = [(demo_old, demo_worker demo_old 11 WorkerActive),
       (demo_new, demo_worker demo_new 12 WorkerHealthy)],
     active = [(''a'', demo_old)],
     requests = [(1, \<lparr>requestID = 1, results = [(demo_old, pending)]\<rparr>)]\<rparr>"

lemmas demo_defs = demo_old_def demo_new_def demo_child_def demo_kill_def demo_worker_def

lemmas handler_defs = registerWorker_def markHealthy_def failWorker_def activateWorker_def
  retireWorker_def trackRequest_def recordResult_def recordWorkerExit_def validateWorkerKey_def
  adjust_worker_def madjust_def blank_def trim_space_def ascii_space_def Let_def

lemma demo_state_exec: "coord_exec demo_kill demo_commands initial = demo_state"
  by (simp add: demo_commands_def demo_state_def initial_def handler_defs demo_defs candidate_def)

lemma demo_reach: "coord_reach demo_state"
  using coord_exec_reach [of demo_kill demo_commands] by (simp add: demo_state_exec)

lemma demo_active: "coord_states demo_state demo_old = Some WorkerActive"
  by (simp add: coord_states_def demo_state_def demo_defs)

lemma demo_healthy: "coord_states demo_state demo_new = Some WorkerHealthy"
  by (simp add: coord_states_def demo_state_def demo_defs)

text \<open>The cutover from the old worker to the candidate.\<close>

definition demo_cutover :: state where
  "demo_cutover = snd (activateWorker demo_new demo_state)"

lemma demo_cutover_trans:
  "coord_trans demo_state (ActivateWorker demo_new, ErrorReply None) demo_cutover"
  by (rule turn [OF same_state_refl, where kill = demo_kill])
    (simp add: demo_cutover_def demo_state_def handler_defs demo_defs)

lemma demo_cutover_run:
  "coord_runs demo_state [(ActivateWorker demo_new, ErrorReply None)] demo_cutover"
  by (rule run_one [where step = coord_trans, OF demo_cutover_trans])

section \<open>Results are written once\<close>

text \<open>Tracked requests stay tracked, with the same workers, and keep every verdict.\<close>

definition results_kept :: "(u64, request) gomap \<Rightarrow> (u64, request) gomap \<Rightarrow> bool" where
  "results_kept rs rs' \<longleftrightarrow> (\<forall>i r. mget rs i = Some r \<longrightarrow> (\<exists>r'. mget rs' i = Some r' \<and>
     (\<forall>k. mget (results r) k \<noteq> None \<longrightarrow> mget (results r') k \<noteq> None) \<and>
     (\<forall>k v. mget (results r) k = Some v \<longrightarrow> v \<noteq> pending \<longrightarrow> mget (results r') k = Some v)))"

lemma results_kept_refl [simp]: "results_kept rs rs"
  by (auto simp: results_kept_def)

lemma results_keptE:
  assumes "results_kept rs rs'" "mget rs i = Some r"
  obtains r' where "mget rs' i = Some r'"
    "\<And>k. mget (results r) k \<noteq> None \<Longrightarrow> mget (results r') k \<noteq> None"
    "\<And>k v. mget (results r) k = Some v \<Longrightarrow> v \<noteq> pending \<Longrightarrow> mget (results r') k = Some v"
  using assms(1) [unfolded results_kept_def, rule_format, OF assms(2)] by blast

lemma results_kept_trans:
  assumes "results_kept rs rs1" "results_kept rs1 rs2"
  shows "results_kept rs rs2"
  unfolding results_kept_def
proof (intro allI impI)
  fix i r
  assume "mget rs i = Some r"
  from results_keptE [OF assms(1) this] obtain r1 where r1: "mget rs1 i = Some r1"
    "\<And>k. mget (results r) k \<noteq> None \<Longrightarrow> mget (results r1) k \<noteq> None"
    "\<And>k v. mget (results r) k = Some v \<Longrightarrow> v \<noteq> pending \<Longrightarrow> mget (results r1) k = Some v"
    by blast
  from results_keptE [OF assms(2) r1(1)] obtain r2 where r2: "mget rs2 i = Some r2"
    "\<And>k. mget (results r1) k \<noteq> None \<Longrightarrow> mget (results r2) k \<noteq> None"
    "\<And>k v. mget (results r1) k = Some v \<Longrightarrow> v \<noteq> pending \<Longrightarrow> mget (results r2) k = Some v"
    by blast
  show "\<exists>r'. mget rs2 i = Some r' \<and>
     (\<forall>k. mget (results r) k \<noteq> None \<longrightarrow> mget (results r') k \<noteq> None) \<and>
     (\<forall>k v. mget (results r) k = Some v \<longrightarrow> v \<noteq> pending \<longrightarrow> mget (results r') k = Some v)"
    using r2(1) r2(2) [OF r1(2)] r2(3) [OF r1(3)] by (intro exI [of _ r2] conjI allI impI) simp_all
qed

lemma results_kept_mark: "results_kept rs (markPendingUnavailable k rs)"
  by (auto simp: results_kept_def mget_markPending map_laws)

lemma results_kept_fresh: "mget rs i = None \<Longrightarrow> results_kept rs (mput i r rs)"
  by (auto simp: results_kept_def map_laws)

lemma results_kept_answer:
  assumes "mget rs i = Some r" "mget (results r) k = Some pending"
  shows "results_kept rs (madjust i (\<lambda>r. r\<lparr>results := mput k v (results r)\<rparr>) rs)"
  using assms by (auto simp: results_kept_def map_laws)

lemma coord_step_results:
  assumes "coord_inv s" "coord_step kill c s = (rep, t)"
  shows "results_kept (requests s) (requests t)"
proof (cases c)
  case (RegisterWorker k ch)
  with assms(2) obtain err where "registerWorker k ch s = (err, t)" by (auto elim: apfstE)
  from registerWorker_cases [OF this] show ?thesis by (elim disjE exE conjE) (simp_all)
next
  case (MarkHealthy k)
  with assms(2) obtain err where "markHealthy k s = (err, t)" by (auto elim: apfstE)
  then have "requests t = requests s"
    by (auto simp: markHealthy_def split: option.splits if_splits)
  then show ?thesis by simp
next
  case (FailWorker k reason)
  with assms(2) obtain err where "failWorker kill k reason s = (err, t)" by (auto elim: apfstE)
  from failWorker_cases [OF this] show ?thesis by (elim disjE exE conjE) (simp_all add: results_kept_mark)
next
  case (ActivateWorker k)
  with assms(2) obtain err where "activateWorker k s = (err, t)" by (auto elim: apfstE)
  from activateWorker_cases [OF this assms(1)] show ?thesis by (elim disjE exE conjE) (simp_all)
next
  case (RetireWorker k)
  with assms(2) obtain err where "retireWorker k s = (err, t)" by (auto elim: apfstE)
  from retireWorker_cases [OF this] show ?thesis by (elim disjE exE conjE) (simp_all)
next
  case (TrackRequest i ks)
  with assms(2) obtain err where "trackRequest i ks s = (err, t)" by (auto elim: apfstE)
  from trackRequest_cases [OF this] show ?thesis by (elim disjE exE conjE) (simp_all add: results_kept_fresh)
next
  case (RecordResult i k v)
  with assms(2) obtain err where "recordResult i k v s = (err, t)" by (auto elim: apfstE)
  from recordResult_cases [OF this] show ?thesis by (elim disjE exE conjE) (simp_all add: results_kept_answer)
next
  case TakeSnapshot
  with assms(2) show ?thesis by simp
next
  case (WorkerExited k e)
  with assms(2) have "t = recordWorkerExit k e s" by simp
  with recordWorkerExit_cases [OF refl, of k e s] show ?thesis
    by (elim disjE exE conjE) (simp_all add: results_kept_mark)
qed

lemma coord_runs_results:
  assumes "coord_runs s es t" "coord_reach s"
  shows "results_kept (requests s) (requests t)"
  using assms
proof (induction rule: runs.induct)
  case (run_nil s)
  show ?case by simp
next
  case (run_cons s e t es u)
  note inv = coord_reach_inv [OF run_cons.prems]
  from run_cons.hyps(1) have "results_kept (requests s) (requests t)"
  proof cases
    case (turn s' kill c r)
    from turn(2) inv have "mget (requests s') = mget (requests s)"
      by (simp add: same_state_views coord_inv_def)
    moreover have "results_kept (requests s') (requests t)"
      using coord_step_results [OF coord_inv_same [OF turn(2) inv] turn(3)] .
    ultimately show ?thesis by (simp add: results_kept_def)
  qed
  with run_cons.IH reach_step [OF run_cons.prems run_cons.hyps(1)] show ?case
    by (blast intro: results_kept_trans)
qed

section \<open>Properties\<close>

text \<open>
  C14. In every reachable state of the coordinator: keys are unique and agree with the
  workers, requests and children stored under them; a scanner's route is exactly its one
  active worker; a scanner has at most one candidate (starting or healthy); every tracked
  request is non-empty, and each of its results is either a valid verdict or still pending
  at a worker that is active or draining, so no result waits for a worker that is gone.
\<close>

theorem coord_invariant:
  assumes "coord_reach s"
  shows "keys_ok s \<and> workers_ok s \<and> routes_ok s \<and> candidates_ok s \<and> requests_ok s"
  using coord_reach_inv [OF assms] by (simp add: coord_inv_def)

theorem coord_invariant_witness:
  "requests_ok demo_state \<and> result_ok demo_state demo_old pending"
  using coord_invariant [OF demo_reach] demo_active by (simp add: result_ok_def)

text \<open>
  C18. Every turn of the coordinator's loop moves each registered worker along one edge of
  the documented lifecycle or leaves it where it is; in particular no worker disappears,
  and a retired or failed worker stays so.
\<close>

theorem coord_follows_lifecycle:
  assumes "coord_reach s" "coord_trans s (c, r) t" "coord_states s k = Some a"
  shows "\<exists>b. coord_states t k = Some b \<and> (b = a \<or> lifecycle_edge a b)"
  using coordinator.worker_moves [OF assms] by (simp add: moves_def)

theorem coord_follows_lifecycle_witness:
  "\<exists>b. coord_states demo_cutover demo_old = Some b \<and>
     (b = WorkerActive \<or> lifecycle_edge WorkerActive b)"
  by (rule coord_follows_lifecycle [OF demo_reach demo_cutover_trans demo_active])

text \<open>
  Health gating: a worker that is active has been healthy at an earlier moment of the
  run, so no worker receives scans without having passed its health check.
\<close>

theorem coord_health_gate:
  assumes "coord_runs initial es t" "coord_states t k = Some WorkerActive"
  shows "\<exists>es' es'' u. es = es' @ es'' \<and> coord_runs initial es' u \<and> coord_runs u es'' t \<and>
    coord_states u k = Some WorkerHealthy"
  by (rule coordinator.active_was_healthy [OF assms(1) _ assms(2)]) (simp add: coord_init_def)

theorem coord_health_gate_witness:
  "\<exists>es es' es'' u. es = es' @ es'' \<and> coord_runs initial es' u \<and>
     coord_runs u es'' demo_state \<and> coord_states u demo_old = Some WorkerHealthy"
proof -
  obtain es where "coord_runs initial es demo_state"
    using coord_exec_runs [of initial demo_kill demo_commands] by (auto simp: demo_state_exec)
  from coord_health_gate [OF this demo_active] show ?thesis by blast
qed

text \<open>
  Cutover is final: once the route of a scanner has left a worker, no later turn of the
  loop ever routes the scanner to that worker again.
\<close>

theorem coord_route_never_returns:
  assumes "coord_reach s" "mget (active s) scanner = Some k" "coord_runs s es t"
    "mget (active t) scanner \<noteq> Some k" "coord_runs t es' u"
  shows "mget (active u) scanner \<noteq> Some k"
  by (rule coordinator.route_never_returns [OF assms])

theorem coord_route_never_returns_witness:
  "mget (active (snd (markHealthy demo_old demo_cutover))) ''a'' \<noteq> Some demo_old"
proof (rule coord_route_never_returns [OF demo_reach _ demo_cutover_run])
  show "mget (active demo_state) ''a'' = Some demo_old" by (simp add: demo_state_def)
  show "mget (active demo_cutover) ''a'' \<noteq> Some demo_old"
    by (simp add: demo_cutover_def demo_state_def handler_defs demo_defs)
  show "coord_runs demo_cutover
      [(MarkHealthy demo_old, ErrorReply (fst (markHealthy demo_old demo_cutover)))]
      (snd (markHealthy demo_old demo_cutover))"
    by (rule run_one [where step = coord_trans], rule turn [OF same_state_refl, where kill = demo_kill])
      (simp add: apfst_def map_prod_def split_def)
qed

text \<open>
  The blue/green cutover is one transition: activation succeeds exactly for a healthy
  worker, and then that worker is active and routed, the previously routed worker (if any)
  is draining, and every other worker, every other route and every request is untouched;
  for any other worker it fails and changes nothing.
\<close>

theorem activateWorker_cutover:
  assumes "coord_reach s" "activateWorker k s = (err, t)"
  shows "(err = None \<longleftrightarrow> coord_states s k = Some WorkerHealthy) \<and>
    (err \<noteq> None \<longrightarrow> t = s) \<and>
    (err = None \<longrightarrow> requests t = requests s \<and>
      (\<forall>scanner. mget (active t) scanner =
         (if scanner = ScannerID k then Some k else mget (active s) scanner)) \<and>
      (\<forall>k'. coord_states t k' =
         (if k' = k then Some WorkerActive
          else if mget (active s) (ScannerID k) = Some k' then Some WorkerDraining
          else coord_states s k')))"
proof -
  note inv = coord_reach_inv [OF assms(1)]
  have routed: "coord_states s k' = Some WorkerActive" if "mget (active s) (ScannerID k) = Some k'" for k'
    using routes_okD [OF coord_invD(3) [OF inv]] that by simp
  from activateWorker_cases [OF assms(2) inv] show ?thesis
  proof
    assume "err \<noteq> None \<and> t = s \<and> coord_states s k \<noteq> Some WorkerHealthy"
    then show ?thesis by auto
  next
    assume ok: "err = None \<and> coord_states s k = Some WorkerHealthy \<and>
       requests t = requests s \<and> active t = mput (ScannerID k) k (active s) \<and>
       keys (workers t) = keys (workers s) \<and>
       (\<forall>k'. mget (workers t) k' =
          (if k' = k then map_option (wstate_update (\<lambda>_. WorkerActive)) (mget (workers s) k')
           else if mget (active s) (ScannerID k) = Some k'
             then map_option (wstate_update (\<lambda>_. WorkerDraining)) (mget (workers s) k')
           else mget (workers s) k'))"
    have "coord_states t k' =
         (if k' = k then Some WorkerActive
          else if mget (active s) (ScannerID k) = Some k' then Some WorkerDraining
          else coord_states s k')" for k'
      using ok routed [of k'] by (auto simp: coord_states_def)
    with ok show ?thesis by (simp add: map_laws)
  qed
qed

theorem activateWorker_cutover_witness:
  "coord_states demo_cutover demo_old = Some WorkerDraining \<and>
   coord_states demo_cutover demo_new = Some WorkerActive"
proof -
  have "activateWorker demo_new demo_state = (None, demo_cutover)"
    by (simp add: demo_cutover_def demo_state_def handler_defs demo_defs)
  from activateWorker_cutover [OF demo_reach this] show ?thesis
    by (simp add: demo_healthy) (simp add: demo_state_def demo_defs)
qed

text \<open>
  Results are written once: over every run a tracked request stays tracked with its
  workers, and a verdict recorded for a worker stays that verdict.
\<close>

theorem coord_results_final:
  assumes "coord_reach s" "coord_runs s es t" "mget (requests s) i = Some r"
    "mget (results r) k = Some v" "v \<noteq> pending"
  shows "\<exists>r'. mget (requests t) i = Some r' \<and> mget (results r') k = Some v"
proof (rule results_keptE [OF coord_runs_results [OF assms(2,1)] assms(3)])
  fix r'
  assume "mget (requests t) i = Some r'"
    and "\<And>k v. mget (results r) k = Some v \<Longrightarrow> v \<noteq> pending \<Longrightarrow> mget (results r') k = Some v"
  then show ?thesis using assms(4,5) by simp
qed

text \<open>The worker crashes before it answers, and its late answer is refused.\<close>

definition demo_exit :: Exit where
  "demo_exit = \<lparr>ePID = 11, eCode = 7, eErr = Some ''exit status 7''\<rparr>"

definition demo_crashed :: state where
  "demo_crashed = recordWorkerExit demo_old demo_exit demo_state"

lemma demo_crashed_trans: "coord_trans demo_state (WorkerExited demo_old demo_exit, NoReply) demo_crashed"
  by (rule turn [OF same_state_refl, where kill = demo_kill]) (simp add: demo_crashed_def)

lemma demo_crashed_result:
  "mget (requests demo_crashed) 1 = Some \<lparr>requestID = 1, results = [(demo_old, VerdictUnavailable)]\<rparr>"
  by (simp add: demo_crashed_def demo_exit_def demo_state_def handler_defs demo_defs noteExit_def
      noteFailure_def markPendingUnavailable_def mapvals_def)

theorem coord_results_final_witness:
  "\<exists>r'. mget (requests (snd (recordResult 1 demo_old VerdictClean demo_crashed))) 1 = Some r' \<and>
     mget (results r') demo_old = Some VerdictUnavailable"
proof (rule coord_results_final [OF _ _ demo_crashed_result])
  show "coord_reach demo_crashed"
    by (rule reach_step [where step = coord_trans, OF demo_reach demo_crashed_trans])
  show "coord_runs demo_crashed
      [(RecordResult 1 demo_old VerdictClean,
        ErrorReply (fst (recordResult 1 demo_old VerdictClean demo_crashed)))]
      (snd (recordResult 1 demo_old VerdictClean demo_crashed))"
    by (rule run_one [where step = coord_trans], rule turn [OF same_state_refl, where kill = demo_kill])
      (simp add: apfst_def map_prod_def split_def)
qed (simp_all add: validVerdict_def)



text \<open>
  A draining worker can be retired exactly when no tracked request still waits for it;
  retirement changes that worker's state only, and a refused retirement changes nothing.
\<close>

theorem retireWorker_exact:
  assumes "coord_reach s" "retireWorker k s = (err, t)"
  shows "(err = None \<longleftrightarrow> coord_states s k = Some WorkerDraining \<and>
      (\<forall>i r. mget (requests s) i = Some r \<longrightarrow> mget (results r) k \<noteq> Some pending)) \<and>
    (err \<noteq> None \<longrightarrow> t = s) \<and>
    (err = None \<longrightarrow> active t = active s \<and> requests t = requests s \<and>
      coord_states t = (coord_states s)(k \<mapsto> WorkerRetired))"
proof -
  note dist = coord_invD(1) [OF coord_reach_inv [OF assms(1)]]
  show ?thesis
  proof (cases "coord_states s k = Some WorkerDraining \<and>
      (\<forall>i r. mget (requests s) i = Some r \<longrightarrow> mget (results r) k \<noteq> Some pending)")
    case True
    then obtain w where w: "mget (workers s) k = Some w" "wstate w = WorkerDraining"
      by (auto elim: coord_statesE)
    from True dist have "find (\<lambda>(_, r). mget (results r) k = Some pending) (requests s) = None"
      by (auto simp: find_None_iff keys_ok_def mget_set)
    with w assms(2) have "err = None" "t = adjust_worker k (wstate_update (\<lambda>_. WorkerRetired)) s"
      by (simp_all add: retireWorker_def)
    with True w(1) show ?thesis by (simp add: fun_eq_iff coord_states_adjust)
  next
    case False
    with retireWorker_cases [OF assms(2)] show ?thesis
      by (auto simp: mget_coord_states)
  qed
qed

theorem retireWorker_exact_witness:
  "fst (retireWorker demo_old demo_cutover) \<noteq> None"
proof -
  have reach: "coord_reach demo_cutover"
    by (rule reach_step [where step = coord_trans, OF demo_reach demo_cutover_trans])
  have "mget (requests demo_cutover) 1 = Some \<lparr>requestID = 1, results = [(demo_old, pending)]\<rparr>"
    by (simp add: demo_cutover_def demo_state_def handler_defs demo_defs)
  with retireWorker_exact [OF reach, of demo_old "fst (retireWorker demo_old demo_cutover)"
      "snd (retireWorker demo_old demo_cutover)"]
  show ?thesis by fastforce
qed

end
