(* ===== verification/Config.thy ===== *)
theory Config
  imports Prelude
begin

text \<open>
  The configuration of the core, \<^verbatim>\<open>src/pkg/config/config.go\<close>: the record of a worker
  that the control plane starts.
\<close>

section \<open>Data\<close>

record Worker =
  cScannerID :: string
  cWorkerVersion :: string
  cTransport :: string
  cExecutable :: string
  cSignaturePath :: string
  cDelayMs :: i64
  cCrashOnScan :: bool
  cFailHealth :: bool

text \<open>\<^verbatim>\<open>Worker{}\<close> with the fields a composite literal leaves out at their zero values.\<close>

definition zeroWorker :: Worker where
  "zeroWorker = \<lparr>cScannerID = '''', cWorkerVersion = '''', cTransport = '''', cExecutable = '''',
     cSignaturePath = '''', cDelayMs = 0, cCrashOnScan = False, cFailHealth = False\<rparr>"

end
