(* ===== verification/Runtime.thy ===== *)
theory Runtime
  imports Lifecycle Process Protocol Aggregator Config
begin

text \<open>
  The runtime actor, \<^verbatim>\<open>src/pkg/coordinator/runtime.go\<close>: one goroutine owns the workers,
  the active routes and the open scan requests, and handles one event at a time. Events are
  the callers' commands (each with its own reply channel), the messages, failures and exits
  of the workers, and timers. A handler is a function on the state; a function of the code
  that takes only a \<^verbatim>\<open>*runtimeWorker\<close> is a function on that record.

  Around the loop, \<^term>\<open>sent\<close> lists what went through the reply channels, \<^term>\<open>killTimer\<close>
  says that \<^verbatim>\<open>time.AfterFunc\<close> has been told to terminate the worker's child, and
  \<^term>\<open>nilDeref\<close> that the code followed a nil pointer. Error texts are rendered by
  \<^verbatim>\<open>fmt\<close>, a parameter \<open>txt\<close> where a text is data of the program.
\<close>

section \<open>State\<close>

type_synonym chan = nat

record runtimeWorker =
  rkey :: WorkerKey
  rchild :: Child
  rtransport :: string
  outbound :: "Message list"
  rstate :: WorkerState
  signaturePath :: string
  rfailureReason :: string
  rexitCode :: int
  rexitError :: string
  inFlight :: int
  helloReply :: "chan option"
  healthReply :: "chan option"
  reloadReply :: "chan option"
  reloadTimer :: bool
  pendingSignaturePath :: string
  shutdownSent :: bool
  shutdownAck :: bool
  exited :: bool
  killTimer :: bool
  closed :: bool

record runtimeRequest =
  reqID :: u64
  reqPath :: string
  reqResults :: "(WorkerKey, Message) gomap"
  reqReply :: chan
  reqTimer :: bool

datatype runtime_error =
    RegisteredTwice WorkerKey
  | CandidateExists string WorkerKey
  | NotStarting WorkerKey
  | HelloPending WorkerKey
  | HealthPending WorkerKey
  | QueueFull WorkerKey
  | NotHealthy WorkerKey
  | UnknownWorker WorkerKey
  | CannotFailFrom WorkerKey WorkerState
  | IdentityMismatch string string
  | ReportedUnhealthy string
  | UnexpectedMessage string
  | ShuttingDown
  | NoActiveWorkers
  | AggregateFailed aggregator_error
  | NoActiveWorker string
  | ReloadPending string
  | ReloadFailed string
  | ReloadTimedOut
  | WorkerDown string
  | AlreadyStopping

record ScanOutcome =
  soRequestID :: u64
  soVerdict :: string
  soResults :: "(WorkerKey, Message) gomap"

record ReloadOutcome =
  roScannerID :: string
  roWorkerVersion :: string
  roSignatureCount :: i64

datatype answer =
    DoneReply "runtime_error option"
  | ScanReply ScanOutcome "runtime_error option"
  | ReloadReply ReloadOutcome "runtime_error option"
  | WorkersReply "WorkerSnapshot list"
  | ActiveReply Worker "runtime_error option"

datatype run_status = Running | Returned | Cancelled

record runtimeState =
  rworkers :: "(WorkerKey, runtimeWorker) gomap"
  ractive :: "(string, WorkerKey) gomap"
  rrequests :: "(u64, runtimeRequest) gomap"
  nextRequestID :: u64
  stopReply :: "chan option"
  sent :: "(chan \<times> answer) list"
  nilDeref :: bool
  status :: run_status

type_synonym render = "runtime_error \<Rightarrow> string"

definition zeroScan :: ScanOutcome where
  "zeroScan = \<lparr>soRequestID = 0, soVerdict = '''', soResults = []\<rparr>"

definition zeroReload :: ReloadOutcome where
  "zeroReload = \<lparr>roScannerID = '''', roWorkerVersion = '''', roSignatureCount = 0\<rparr>"

section \<open>Access to the state\<close>

definition adjust_runtime :: "WorkerKey \<Rightarrow> (runtimeWorker \<Rightarrow> runtimeWorker) \<Rightarrow> runtimeState \<Rightarrow> runtimeState" where
  "adjust_runtime k f s = s\<lparr>rworkers := madjust k f (rworkers s)\<rparr>"

definition adjust_request :: "u64 \<Rightarrow> (runtimeRequest \<Rightarrow> runtimeRequest) \<Rightarrow> runtimeState \<Rightarrow> runtimeState" where
  "adjust_request i f s = s\<lparr>rrequests := madjust i f (rrequests s)\<rparr>"

definition send_reply :: "chan \<Rightarrow> answer \<Rightarrow> runtimeState \<Rightarrow> runtimeState" where
  "send_reply c a s = s\<lparr>sent := sent s @ [(c, a)]\<rparr>"

definition panic :: "runtimeState \<Rightarrow> runtimeState" where
  "panic s = s\<lparr>nilDeref := True\<rparr>"

section \<open>Messages to a worker\<close>

abbreviation outboundCap :: nat where
  "outboundCap \<equiv> 64"

definition queueWorkerMessage ::
  "runtimeWorker \<Rightarrow> Message \<Rightarrow> runtime_error option \<times> runtimeWorker" where
  "queueWorkerMessage w m =
     (if length (outbound w) < outboundCap then (None, w\<lparr>outbound := outbound w @ [m]\<rparr>)
      else (Some (QueueFull (rkey w)), w))"

definition helloMessage :: Message where
  "helloMessage = emptyMessage\<lparr>mVersion := ProtocolVersion, mType := TypeHello\<rparr>"

definition healthMessage :: Message where
  "healthMessage = emptyMessage\<lparr>mVersion := ProtocolVersion, mType := TypeHealthCheck\<rparr>"

definition shutdownMessage :: Message where
  "shutdownMessage = emptyMessage\<lparr>mVersion := ProtocolVersion, mType := TypeShutdown\<rparr>"

definition scanMessage :: "u64 \<Rightarrow> string \<Rightarrow> Message" where
  "scanMessage i path = emptyMessage\<lparr>mVersion := ProtocolVersion, mType := TypeScan,
     mRequestID := i, mFilePath := path\<rparr>"

definition reloadMessage :: "string \<Rightarrow> Message" where
  "reloadMessage path = emptyMessage\<lparr>mVersion := ProtocolVersion, mType := TypeReload,
     mSignaturePath := path\<rparr>"

definition requestWorkerShutdown :: "runtimeWorker \<Rightarrow> runtimeWorker" where
  "requestWorkerShutdown w =
     (if shutdownSent w then w
      else case queueWorkerMessage (w\<lparr>shutdownSent := True\<rparr>) shutdownMessage of
        (None, w') \<Rightarrow> w'
      | (Some _, w') \<Rightarrow> w'\<lparr>killTimer := True\<rparr>)"

section \<open>Completing a request\<close>

text \<open>The worker's part of the loop of \<^verbatim>\<open>completeRequest\<close>.\<close>

definition releaseWorker :: "runtimeWorker \<Rightarrow> runtimeWorker" where
  "releaseWorker w =
     (if inFlight w > 0
      then let w' = w\<lparr>inFlight := inFlight w - 1\<rparr>
           in if rstate w' = WorkerDraining \<and> inFlight w' = 0 then requestWorkerShutdown w' else w'
      else w)"

definition requestOutcome :: "runtimeRequest \<Rightarrow> answer" where
  "requestOutcome r =
     (case Aggregate (map (mVerdict \<circ> snd) (reqResults r)) of
        Inl e \<Rightarrow> ScanReply \<lparr>soRequestID = reqID r, soVerdict = '''', soResults = reqResults r\<rparr>
                   (Some (AggregateFailed e))
      | Inr v \<Rightarrow> ScanReply \<lparr>soRequestID = reqID r, soVerdict = v, soResults = reqResults r\<rparr> None)"

definition completeRequest :: "u64 \<Rightarrow> runtimeState \<Rightarrow> runtimeState" where
  "completeRequest i s =
     (case mget (rrequests s) i of None \<Rightarrow> s | Some r \<Rightarrow>
      let s1 = fold (\<lambda>k. adjust_runtime k releaseWorker) (keys (reqResults r)) s;
          s2 = send_reply (reqReply r) (requestOutcome r) s1
      in s2\<lparr>rrequests := mdel i (rrequests s2)\<rparr>)"

definition answered :: "runtimeRequest \<Rightarrow> bool" where
  "answered r \<longleftrightarrow> (\<forall>m \<in> snd ` set (reqResults r). mType m \<noteq> '''')"

definition completeRequestIfReady :: "u64 \<Rightarrow> runtimeState \<Rightarrow> runtimeState" where
  "completeRequestIfReady i s =
     (case mget (rrequests s) i of None \<Rightarrow> s | Some r \<Rightarrow>
      if answered r then completeRequest i s else s)"

text \<open>The answer the core makes up for a worker that has not answered.\<close>

definition substitute :: "u64 \<Rightarrow> Verdict \<Rightarrow> string \<Rightarrow> Message" where
  "substitute i v e = emptyMessage\<lparr>mVersion := ProtocolVersion, mType := TypeScanResult,
     mRequestID := i, mVerdict := v, mError := e\<rparr>"

definition fillPending :: "Message \<Rightarrow> runtimeRequest \<Rightarrow> runtimeRequest" where
  "fillPending m r = r\<lparr>reqResults :=
     mapvals (\<lambda>_ old. if mType old = '''' then m else old) (reqResults r)\<rparr>"

definition timeoutScan :: "u64 \<Rightarrow> runtimeState \<Rightarrow> runtimeState" where
  "timeoutScan i s =
     (case mget (rrequests s) i of None \<Rightarrow> s | Some _ \<Rightarrow>
      completeRequest i
        (adjust_request i (fillPending (substitute i VerdictTimeout ''scan timed out'')) s))"

section \<open>The failure of a worker\<close>

definition take_reply ::
  "WorkerKey \<Rightarrow> (runtimeWorker \<Rightarrow> chan option) \<Rightarrow> (runtimeWorker \<Rightarrow> runtimeWorker) \<Rightarrow> answer
     \<Rightarrow> runtimeState \<Rightarrow> runtimeState" where
  "take_reply k get clear a s =
     (case mget (rworkers s) k of None \<Rightarrow> s | Some w \<Rightarrow>
      (case get w of None \<Rightarrow> s | Some c \<Rightarrow> adjust_runtime k clear (send_reply c a s)))"

definition answerHello :: "WorkerKey \<Rightarrow> runtime_error option \<Rightarrow> runtimeState \<Rightarrow> runtimeState" where
  "answerHello k err = take_reply k helloReply (helloReply_update (\<lambda>_. None)) (DoneReply err)"

definition answerHealth :: "WorkerKey \<Rightarrow> runtime_error option \<Rightarrow> runtimeState \<Rightarrow> runtimeState" where
  "answerHealth k err = take_reply k healthReply (healthReply_update (\<lambda>_. None)) (DoneReply err)"

definition answerReload ::
  "WorkerKey \<Rightarrow> ReloadOutcome \<Rightarrow> runtime_error option \<Rightarrow> runtimeState \<Rightarrow> runtimeState" where
  "answerReload k out err =
     take_reply k reloadReply (reloadReply_update (\<lambda>_. None)) (ReloadReply out err)"

text \<open>The body of the loop over the requests.\<close>

definition failResult :: "WorkerKey \<Rightarrow> string \<Rightarrow> u64 \<Rightarrow> runtimeState \<Rightarrow> runtimeState" where
  "failResult k reason i s =
     (case mget (rrequests s) i of None \<Rightarrow> s | Some r \<Rightarrow>
      (case mget (reqResults r) k of None \<Rightarrow> s | Some m \<Rightarrow>
       if mType m = '''' then
         completeRequestIfReady i
           (adjust_request i (\<lambda>r. r\<lparr>reqResults :=
              mput k (substitute (reqID r) VerdictUnavailable reason) (reqResults r)\<rparr>) s)
       else s))"

definition handleWorkerFailure :: "WorkerKey \<Rightarrow> string \<Rightarrow> runtimeState \<Rightarrow> runtimeState" where
  "handleWorkerFailure k reason s =
     (case mget (rworkers s) k of None \<Rightarrow> s | Some w \<Rightarrow>
      if rstate w = WorkerFailed \<or> rstate w = WorkerRetired then s
      else
        let s1 = adjust_runtime k (\<lambda>w. w\<lparr>rstate := WorkerFailed, rfailureReason := reason,
                   killTimer := True\<rparr>) s;
            s2 = (if mget (ractive s1) (ScannerID k) = Some k
                  then s1\<lparr>ractive := mdel (ScannerID k) (ractive s1)\<rparr> else s1);
            s3 = answerHello k (Some (WorkerDown reason)) s2;
            s4 = answerHealth k (Some (WorkerDown reason)) s3;
            s5 = answerReload k zeroReload (Some (WorkerDown reason)) s4
        in fold (failResult k reason) (keys (rrequests s5)) s5)"

section \<open>Commands of the callers\<close>

definition newWorker :: "Worker \<Rightarrow> Child \<Rightarrow> runtimeWorker" where
  "newWorker c ch =
     \<lparr>rkey = \<lparr>ScannerID = cScannerID c, Version = cWorkerVersion c\<rparr>, rchild = ch,
      rtransport = cTransport c, outbound = [], rstate = WorkerStarting,
      signaturePath = cSignaturePath c, rfailureReason = '''', rexitCode = 0, rexitError = '''',
      inFlight = 0, helloReply = None, healthReply = None, reloadReply = None,
      reloadTimer = False, pendingSignaturePath = '''', shutdownSent = False,
      shutdownAck = False, exited = False, killTimer = False, closed = False\<rparr>"

definition registerRuntimeWorker ::
  "Worker \<Rightarrow> Child \<Rightarrow> runtimeState \<Rightarrow> runtime_error option \<times> runtimeState" where
  "registerRuntimeWorker c ch s =
     (let k = \<lparr>ScannerID = cScannerID c, Version = cWorkerVersion c\<rparr>
      in if mget (rworkers s) k \<noteq> None then (Some (RegisteredTwice k), s)
         else case find (\<lambda>(_, w). ScannerID (rkey w) = ScannerID k \<and> candidate (rstate w)) (rworkers s) of
           Some (_, w) \<Rightarrow> (Some (CandidateExists (ScannerID k) (rkey w)), s)
         | None \<Rightarrow> (None, s\<lparr>rworkers := mput k (newWorker c ch) (rworkers s)\<rparr>))"

definition beginHello :: "render \<Rightarrow> WorkerKey \<Rightarrow> chan \<Rightarrow> runtimeState \<Rightarrow> runtimeState" where
  "beginHello txt k c s =
     (case mget (rworkers s) k of None \<Rightarrow> send_reply c (DoneReply (Some (NotStarting k))) s | Some w \<Rightarrow>
      if rstate w \<noteq> WorkerStarting then send_reply c (DoneReply (Some (NotStarting k))) s
      else if helloReply w \<noteq> None then send_reply c (DoneReply (Some (HelloPending k))) s
      else case queueWorkerMessage (w\<lparr>helloReply := Some c\<rparr>) helloMessage of
        (None, w') \<Rightarrow> adjust_runtime k (\<lambda>_. w') s
      | (Some e, w') \<Rightarrow>
          handleWorkerFailure k (txt e)
            (send_reply c (DoneReply (Some e)) (adjust_runtime k (\<lambda>_. w'\<lparr>helloReply := None\<rparr>) s)))"

definition beginHealth :: "render \<Rightarrow> WorkerKey \<Rightarrow> chan \<Rightarrow> runtimeState \<Rightarrow> runtimeState" where
  "beginHealth txt k c s =
     (case mget (rworkers s) k of None \<Rightarrow> send_reply c (DoneReply (Some (NotStarting k))) s | Some w \<Rightarrow>
      if rstate w \<noteq> WorkerStarting then send_reply c (DoneReply (Some (NotStarting k))) s
      else if healthReply w \<noteq> None then send_reply c (DoneReply (Some (HealthPending k))) s
      else case queueWorkerMessage (w\<lparr>healthReply := Some c\<rparr>) healthMessage of
        (None, w') \<Rightarrow> adjust_runtime k (\<lambda>_. w') s
      | (Some e, w') \<Rightarrow>
          handleWorkerFailure k (txt e)
            (send_reply c (DoneReply (Some e)) (adjust_runtime k (\<lambda>_. w'\<lparr>healthReply := None\<rparr>) s)))"

text \<open>The worker that loses its route.\<close>

definition supersede :: "runtimeWorker \<Rightarrow> runtimeWorker" where
  "supersede w =
     (let w' = w\<lparr>rstate := WorkerDraining\<rparr>
      in if inFlight w' = 0 then requestWorkerShutdown w' else w')"

definition activateRuntimeWorker ::
  "WorkerKey \<Rightarrow> runtimeState \<Rightarrow> runtime_error option \<times> runtimeState" where
  "activateRuntimeWorker k s =
     (case mget (rworkers s) k of None \<Rightarrow> (Some (NotHealthy k), s) | Some w \<Rightarrow>
      if rstate w \<noteq> WorkerHealthy then (Some (NotHealthy k), s)
      else
        let promote = (\<lambda>s. (adjust_runtime k (rstate_update (\<lambda>_. WorkerActive)) s)
                             \<lparr>ractive := mput (ScannerID k) k (ractive s)\<rparr>)
        in case mget (ractive s) (ScannerID k) of
          None \<Rightarrow> (None, promote s)
        | Some old \<Rightarrow>
            (case mget (rworkers s) old of
               None \<Rightarrow> (None, panic s)
             | Some _ \<Rightarrow> (None, promote (adjust_runtime old supersede s))))"

definition failRuntimeWorker ::
  "kill \<Rightarrow> WorkerKey \<Rightarrow> string \<Rightarrow> runtimeState \<Rightarrow> runtime_error option \<times> runtimeState" where
  "failRuntimeWorker kill k reason s =
     (case mget (rworkers s) k of None \<Rightarrow> (Some (UnknownWorker k), s) | Some w \<Rightarrow>
      if rstate w \<noteq> WorkerStarting \<and> rstate w \<noteq> WorkerHealthy then
        (Some (CannotFailFrom k (rstate w)), s)
      else (None, adjust_runtime k (\<lambda>w. w\<lparr>rchild := snd (Terminate kill (rchild w))\<rparr>)
                    (handleWorkerFailure k reason s)))"

section \<open>Scans\<close>

text \<open>The two loops of \<^verbatim>\<open>beginScan\<close> over the active workers.\<close>

definition assignScan :: "u64 \<Rightarrow> WorkerKey \<Rightarrow> runtimeState \<Rightarrow> runtimeState" where
  "assignScan i k s =
     (case mget (rworkers s) k of None \<Rightarrow> panic s | Some _ \<Rightarrow>
      adjust_runtime k (\<lambda>w. w\<lparr>inFlight := inFlight w + 1\<rparr>)
        (adjust_request i (\<lambda>r. r\<lparr>reqResults := mput k emptyMessage (reqResults r)\<rparr>) s))"

definition sendScan :: "render \<Rightarrow> u64 \<Rightarrow> string \<Rightarrow> WorkerKey \<Rightarrow> runtimeState \<Rightarrow> runtimeState" where
  "sendScan txt i path k s =
     (case mget (rworkers s) k of None \<Rightarrow> panic s | Some w \<Rightarrow>
      (case queueWorkerMessage w (scanMessage i path) of
         (None, w') \<Rightarrow> adjust_runtime k (\<lambda>_. w') s
       | (Some e, _) \<Rightarrow> handleWorkerFailure k (txt e) s))"

definition openScan :: "string \<Rightarrow> chan \<Rightarrow> runtimeState \<Rightarrow> runtimeState" where
  "openScan path c s =
     (let i = nextRequestID s + 1
      in s\<lparr>nextRequestID := i,
           rrequests := mput i \<lparr>reqID = i, reqPath = path, reqResults = [], reqReply = c,
             reqTimer = False\<rparr> (rrequests s)\<rparr>)"

definition beginScan :: "render \<Rightarrow> string \<Rightarrow> chan \<Rightarrow> runtimeState \<Rightarrow> runtimeState" where
  "beginScan txt path c s =
     (if stopReply s \<noteq> None then send_reply c (ScanReply zeroScan (Some ShuttingDown)) s
      else if ractive s = [] then send_reply c (ScanReply zeroScan (Some NoActiveWorkers)) s
      else
        let i = nextRequestID s + 1;
            ks = map snd (ractive s);
            s1 = fold (assignScan i) ks (openScan path c s);
            s2 = adjust_request i (reqTimer_update (\<lambda>_. True)) s1
        in fold (sendScan txt i path) ks s2)"

definition recordRuntimeScanResult :: "WorkerKey \<Rightarrow> Message \<Rightarrow> runtimeState \<Rightarrow> runtimeState" where
  "recordRuntimeScanResult k m s =
     (case mget (rrequests s) (mRequestID m) of None \<Rightarrow> s | Some r \<Rightarrow>
      (case mget (reqResults r) k of None \<Rightarrow> s | Some current \<Rightarrow>
       if mType current \<noteq> '''' then s
       else completeRequestIfReady (mRequestID m)
              (adjust_request (mRequestID m) (\<lambda>r. r\<lparr>reqResults := mput k m (reqResults r)\<rparr>) s)))"

section \<open>Reloads\<close>

definition beginReload :: "render \<Rightarrow> string \<Rightarrow> string \<Rightarrow> chan \<Rightarrow> runtimeState \<Rightarrow> runtimeState" where
  "beginReload txt scanner path c s =
     (case mget (ractive s) scanner of
        None \<Rightarrow> send_reply c (ReloadReply zeroReload (Some (NoActiveWorker scanner))) s
      | Some k \<Rightarrow>
      (case mget (rworkers s) k of None \<Rightarrow> panic s | Some w \<Rightarrow>
       if reloadReply w \<noteq> None then
         send_reply c (ReloadReply zeroReload (Some (ReloadPending scanner))) s
       else case queueWorkerMessage (w\<lparr>reloadReply := Some c, pendingSignaturePath := path\<rparr>)
                (reloadMessage path) of
         (None, w') \<Rightarrow> adjust_runtime k (\<lambda>_. w'\<lparr>reloadTimer := True\<rparr>) s
       | (Some e, w') \<Rightarrow>
           handleWorkerFailure k (txt e)
             (send_reply c (ReloadReply zeroReload (Some e))
               (adjust_runtime k (\<lambda>_. w'\<lparr>reloadReply := None, pendingSignaturePath := ''''\<rparr>) s))))"

definition recordReloadResult :: "WorkerKey \<Rightarrow> Message \<Rightarrow> runtimeState \<Rightarrow> runtimeState" where
  "recordReloadResult k m s =
     (case mget (rworkers s) k of None \<Rightarrow> s | Some w \<Rightarrow>
      if reloadReply w = None then s
      else
        let out = \<lparr>roScannerID = ScannerID (rkey w), roWorkerVersion = Version (rkey w),
                    roSignatureCount = mSignatureCount m\<rparr>;
            err = (if mSuccess m then None else Some (ReloadFailed (mError m)));
            s1 = adjust_runtime k (\<lambda>w. w\<lparr>
                   signaturePath := (if mSuccess m then pendingSignaturePath w else signaturePath w),
                   pendingSignaturePath := ''''\<rparr>) s
        in answerReload k out err s1)"

definition timeoutReload :: "WorkerKey \<Rightarrow> runtimeState \<Rightarrow> runtimeState" where
  "timeoutReload k s =
     (case mget (rworkers s) k of None \<Rightarrow> s | Some w \<Rightarrow>
      if reloadReply w = None then s
      else adjust_runtime k (pendingSignaturePath_update (\<lambda>_. ''''))
             (answerReload k zeroReload (Some ReloadTimedOut) s))"

section \<open>Messages and exits of the workers\<close>

definition handleWorkerMessage :: "render \<Rightarrow> WorkerKey \<Rightarrow> Message \<Rightarrow> runtimeState \<Rightarrow> runtimeState" where
  "handleWorkerMessage txt k m s =
     (case mget (rworkers s) k of None \<Rightarrow> s | Some w \<Rightarrow>
      if rstate w = WorkerFailed \<or> rstate w = WorkerRetired then s
      else if mType m = TypeHelloAck then
        if helloReply w = None then handleWorkerFailure k ''unexpected HELLO_ACK'' s
        else answerHello k
               (if mScannerID m \<noteq> ScannerID (rkey w) \<or> mWorkerVersion m \<noteq> Version (rkey w)
                then Some (IdentityMismatch (mScannerID m) (mWorkerVersion m)) else None) s
      else if mType m = TypeHealthResult then
        if healthReply w = None then handleWorkerFailure k ''unexpected HEALTH_RESULT'' s
        else if mStatus m \<noteq> ''ok'' then answerHealth k (Some (ReportedUnhealthy (mError m))) s
        else answerHealth k None (adjust_runtime k (rstate_update (\<lambda>_. WorkerHealthy)) s)
      else if mType m = TypeScanResult then recordRuntimeScanResult k m s
      else if mType m = TypeReloadResult then recordReloadResult k m s
      else if mType m = TypeShutdownAck then
        if rstate w \<noteq> WorkerDraining then handleWorkerFailure k ''unexpected SHUTDOWN_ACK'' s
        else adjust_runtime k (\<lambda>w. w\<lparr>shutdownAck := True, killTimer := True\<rparr>) s
      else handleWorkerFailure k (txt (UnexpectedMessage (mType m))) s)"

definition rnoteExit :: "Exit \<Rightarrow> runtimeWorker \<Rightarrow> runtimeWorker" where
  "rnoteExit e w = w\<lparr>rexitCode := eCode e, exited := True,
     rexitError := (case eErr e of Some t \<Rightarrow> t | None \<Rightarrow> rexitError w)\<rparr>"

definition handleWorkerExit :: "WorkerKey \<Rightarrow> Exit \<Rightarrow> runtimeState \<Rightarrow> runtimeState" where
  "handleWorkerExit k e s =
     (case mget (rworkers s) k of None \<Rightarrow> s | Some w \<Rightarrow>
      let s1 = adjust_runtime k (rnoteExit e) s
      in if rstate w = WorkerDraining \<and> shutdownAck w then
           adjust_runtime k (rstate_update (\<lambda>_. WorkerRetired)) s1
         else if rstate w \<noteq> WorkerRetired then
           handleWorkerFailure k ''worker exited unexpectedly'' s1
         else s1)"

section \<open>Shutdown\<close>

definition cancelRequest :: "u64 \<Rightarrow> runtimeState \<Rightarrow> runtimeState" where
  "cancelRequest i s = completeRequest i
     (adjust_request i (fillPending (substitute i VerdictUnavailable ''core is shutting down'')) s)"

definition drainWorker :: "runtimeWorker \<Rightarrow> runtimeWorker" where
  "drainWorker w =
     (if rstate w \<noteq> WorkerFailed \<and> rstate w \<noteq> WorkerRetired
      then requestWorkerShutdown (w\<lparr>rstate := WorkerDraining\<rparr>) else w)"

definition beginShutdown :: "runtimeState \<Rightarrow> runtimeState" where
  "beginShutdown s =
     (let s1 = fold cancelRequest (keys (rrequests s)) s;
          s2 = s1\<lparr>ractive := []\<rparr>
      in s2\<lparr>rworkers := mapvals (\<lambda>_. drainWorker) (rworkers s2)\<rparr>)"

definition allWorkersStopped :: "runtimeState \<Rightarrow> bool" where
  "allWorkersStopped s \<longleftrightarrow> (\<forall>w \<in> snd ` set (rworkers s). exited w)"

section \<open>Queries\<close>

definition workerSnapshot :: "runtimeWorker \<Rightarrow> WorkerSnapshot" where
  "workerSnapshot w = \<lparr>sKey = rkey w, sPID = pid (rchild w), sTransport = rtransport w,
     sState = rstate w, sFailureReason = rfailureReason w, sExitCode = rexitCode w,
     sExitError = rexitError w\<rparr>"

definition runtimeSnapshot :: "runtimeState \<Rightarrow> WorkerSnapshot list" where
  "runtimeSnapshot s = sort_key (\<lambda>w. key_string (sKey w)) (map (workerSnapshot \<circ> snd) (rworkers s))"

definition activeWorker :: "string \<Rightarrow> chan \<Rightarrow> runtimeState \<Rightarrow> runtimeState" where
  "activeWorker scanner c s =
     (case mget (ractive s) scanner of
        None \<Rightarrow> send_reply c (ActiveReply zeroWorker (Some (NoActiveWorker scanner))) s
      | Some k \<Rightarrow>
      (case mget (rworkers s) k of None \<Rightarrow> panic s | Some w \<Rightarrow>
       send_reply c (ActiveReply (zeroWorker\<lparr>cScannerID := ScannerID k, cWorkerVersion := Version k,
         cTransport := rtransport w, cSignaturePath := signaturePath w\<rparr>) None) s))"

section \<open>The event loop\<close>

datatype event =
    RegisterRuntime Worker Child chan
  | HelloRuntime WorkerKey chan
  | HealthRuntime WorkerKey chan
  | ActivateRuntime WorkerKey chan
  | FailRuntime WorkerKey string chan
  | WorkerMessage WorkerKey Message
  | WorkerFailure WorkerKey string
  | WorkerExit WorkerKey Exit
  | ScanRuntime string chan
  | ScanTimeout u64
  | ReloadRuntime string string chan
  | ReloadTimeout WorkerKey
  | SnapshotRuntime chan
  | ActiveRuntime string chan
  | ShutdownRuntime chan

definition send_done :: "chan \<Rightarrow> runtime_error option \<times> runtimeState \<Rightarrow> runtimeState" where
  "send_done c p = send_reply c (DoneReply (fst p)) (snd p)"

fun handle :: "kill \<Rightarrow> render \<Rightarrow> event \<Rightarrow> runtimeState \<Rightarrow> runtimeState" where
  "handle kill txt (RegisterRuntime w ch c) s = send_done c (registerRuntimeWorker w ch s)"
| "handle kill txt (HelloRuntime k c) s = beginHello txt k c s"
| "handle kill txt (HealthRuntime k c) s = beginHealth txt k c s"
| "handle kill txt (ActivateRuntime k c) s = send_done c (activateRuntimeWorker k s)"
| "handle kill txt (FailRuntime k reason c) s = send_done c (failRuntimeWorker kill k reason s)"
| "handle kill txt (WorkerMessage k m) s = handleWorkerMessage txt k m s"
| "handle kill txt (WorkerFailure k reason) s = handleWorkerFailure k reason s"
| "handle kill txt (WorkerExit k e) s = handleWorkerExit k e s"
| "handle kill txt (ScanRuntime path c) s = beginScan txt path c s"
| "handle kill txt (ScanTimeout i) s = timeoutScan i s"
| "handle kill txt (ReloadRuntime scanner path c) s = beginReload txt scanner path c s"
| "handle kill txt (ReloadTimeout k) s = timeoutReload k s"
| "handle kill txt (SnapshotRuntime c) s = send_reply c (WorkersReply (runtimeSnapshot s)) s"
| "handle kill txt (ActiveRuntime scanner c) s = activeWorker scanner c s"
| "handle kill txt (ShutdownRuntime c) s = beginShutdown (s\<lparr>stopReply := Some c\<rparr>)"

text \<open>The deferred function: close every worker, and kill all but the retired ones.\<close>

definition closeWorker :: "kill \<Rightarrow> runtimeWorker \<Rightarrow> runtimeWorker" where
  "closeWorker kill w =
     (let w' = w\<lparr>closed := True\<rparr>
      in if rstate w' \<noteq> WorkerRetired
         then w'\<lparr>rchild := snd (Terminate kill (rchild w'))\<rparr> else w')"

definition cleanup :: "kill \<Rightarrow> runtimeState \<Rightarrow> runtimeState" where
  "cleanup kill s = s\<lparr>rworkers := mapvals (\<lambda>_. closeWorker kill) (rworkers s)\<rparr>"

definition stop_check :: "kill \<Rightarrow> runtimeState \<Rightarrow> runtimeState" where
  "stop_check kill s =
     (case stopReply s of None \<Rightarrow> s | Some c \<Rightarrow>
      if allWorkersStopped s
      then cleanup kill ((send_reply c (DoneReply None) s)\<lparr>status := Returned\<rparr>) else s)"

text \<open>One turn; a second shutdown is refused by a \<^verbatim>\<open>continue\<close>, before the stop check.\<close>

definition runtime_turn :: "kill \<Rightarrow> render \<Rightarrow> event \<Rightarrow> runtimeState \<Rightarrow> runtimeState" where
  "runtime_turn kill txt e s =
     (case (e, stopReply s) of
        (ShutdownRuntime c, Some _) \<Rightarrow> send_reply c (DoneReply (Some AlreadyStopping)) s
      | _ \<Rightarrow> stop_check kill (handle kill txt e s))"

section \<open>Transitions\<close>

text \<open>
  The event loop runs beside the goroutines it has started: a writer takes the next message
  of its queue, a timer terminates a child, and the context may be cancelled. Go ranges over
  a map in any order, so the maps may be permuted before a turn. What the environment
  promises about an event: a reader delivers only messages that its decoder has validated, a
  caller's path is a non-empty absolute path (\<^verbatim>\<open>filepathRegular\<close>), and the 64-bit
  request counter is not exhausted.
\<close>

datatype label = Turn event | Write WorkerKey | Fire WorkerKey | Cancel

definition event_ok :: "runtimeState \<Rightarrow> event \<Rightarrow> bool" where
  "event_ok s e =
     (case e of
        WorkerMessage _ m \<Rightarrow> Validate m = None
      | ScanRuntime path _ \<Rightarrow> \<not> blank path \<and> nextRequestID s < - 1
      | ReloadRuntime _ path _ \<Rightarrow> \<not> blank path
      | _ \<Rightarrow> True)"

definition same_request :: "runtimeRequest \<Rightarrow> runtimeRequest \<Rightarrow> bool" where
  "same_request r r' \<longleftrightarrow> same_map (reqResults r) (reqResults r') \<and>
     r' = r\<lparr>reqResults := reqResults r'\<rparr>"

definition same_requests :: "(u64, runtimeRequest) gomap \<Rightarrow> (u64, runtimeRequest) gomap \<Rightarrow> bool" where
  "same_requests rs rs' \<longleftrightarrow> (\<exists>rs1. same_map rs rs1 \<and>
     list_all2 (\<lambda>(i, r) (j, r'). i = j \<and> same_request r r') rs1 rs')"

definition same_runtime :: "runtimeState \<Rightarrow> runtimeState \<Rightarrow> bool" where
  "same_runtime s s' \<longleftrightarrow> same_map (rworkers s) (rworkers s') \<and> same_map (ractive s) (ractive s') \<and>
     same_requests (rrequests s) (rrequests s') \<and>
     s' = s\<lparr>rworkers := rworkers s', ractive := ractive s', rrequests := rrequests s'\<rparr>"

definition takeMessage :: "runtimeWorker \<Rightarrow> runtimeWorker" where
  "takeMessage w = w\<lparr>outbound := tl (outbound w)\<rparr>"

definition fireTimer :: "kill \<Rightarrow> runtimeWorker \<Rightarrow> runtimeWorker" where
  "fireTimer kill w = w\<lparr>killTimer := False, rchild := snd (Terminate kill (rchild w))\<rparr>"

inductive runtime_trans :: "runtimeState \<Rightarrow> label \<Rightarrow> runtimeState \<Rightarrow> bool" where
  turn: "status s = Running \<Longrightarrow> same_runtime s s' \<Longrightarrow> event_ok s e \<Longrightarrow>
    t = runtime_turn kill txt e s' \<Longrightarrow> runtime_trans s (Turn e) t"
| wrote: "mget (rworkers s) k = Some w \<Longrightarrow> outbound w \<noteq> [] \<Longrightarrow>
    t = adjust_runtime k takeMessage s \<Longrightarrow> runtime_trans s (Write k) t"
| fired: "mget (rworkers s) k = Some w \<Longrightarrow> killTimer w \<Longrightarrow>
    t = adjust_runtime k (fireTimer kill) s \<Longrightarrow> runtime_trans s (Fire k) t"
| cancelled: "status s = Running \<Longrightarrow> t = cleanup kill (s\<lparr>status := Cancelled\<rparr>) \<Longrightarrow>
    runtime_trans s Cancel t"

definition initialRuntime :: runtimeState where
  "initialRuntime = \<lparr>rworkers = [], ractive = [], rrequests = [], nextRequestID = 0,
     stopReply = None, sent = [], nilDeref = False, status = Running\<rparr>"

definition runtime_init :: "runtimeState \<Rightarrow> bool" where
  "runtime_init s \<longleftrightarrow> s = initialRuntime"

definition runtime_states :: "runtimeState \<Rightarrow> WorkerKey \<Rightarrow> WorkerState option" where
  "runtime_states s k = map_option rstate (mget (rworkers s) k)"

abbreviation runtime_reach :: "runtimeState \<Rightarrow> bool" where
  "runtime_reach \<equiv> reach runtime_init runtime_trans"

abbreviation runtime_runs :: "runtimeState \<Rightarrow> label list \<Rightarrow> runtimeState \<Rightarrow> bool" where
  "runtime_runs \<equiv> runs runtime_trans"

end
