(* ===== verification/RuntimeInv.thy ===== *)
theory RuntimeInv
  imports Runtime
begin

text \<open>
  The invariant of the runtime of \<^verbatim>\<open>src/pkg/coordinator/runtime.go\<close> and its preservation
  by every handler, timer and writer.
\<close>

section \<open>The invariant\<close>

text \<open>How many open requests wait for, or have been answered by, a worker.\<close>

definition open_for :: "WorkerKey \<Rightarrow> (u64, runtimeRequest) gomap \<Rightarrow> int" where
  "open_for k rs = map_sum (\<lambda>r. of_bool (k \<in> set (keys (reqResults r)))) rs"

definition core_message :: "Message \<Rightarrow> bool" where
  "core_message m \<longleftrightarrow> Validate m = None \<and>
     mType m \<in> {TypeHello, TypeHealthCheck, TypeScan, TypeReload, TypeShutdown}"

text \<open>
  What holds of one worker, given whether a shutdown has begun and the number of open
  requests it is part of.
\<close>

definition wk_ok :: "bool \<Rightarrow> int \<Rightarrow> WorkerKey \<Rightarrow> runtimeWorker \<Rightarrow> bool" where
  "wk_ok stop n k w \<longleftrightarrow>
     rkey w = k \<and> inFlight w = n \<and>
     length (outbound w) \<le> outboundCap \<and> (\<forall>m \<in> set (outbound w). core_message m) \<and>
     (shutdownSent w \<longrightarrow> n = 0) \<and>
     (rstate w = WorkerDraining \<and> n = 0 \<longrightarrow> shutdownSent w) \<and>
     (\<not> stop \<and> shutdownSent w \<longrightarrow> rstate w \<in> {WorkerDraining, WorkerRetired, WorkerFailed}) \<and>
     (healthReply w \<noteq> None \<longrightarrow> rstate w = WorkerStarting \<or>
        stop \<and> rstate w \<in> {WorkerDraining, WorkerRetired}) \<and>
     (rstate w = WorkerFailed \<longrightarrow> helloReply w = None \<and> healthReply w = None \<and>
        reloadReply w = None \<and> (killTimer w \<or> terminate (rchild w))) \<and>
     (rstate w = WorkerRetired \<longrightarrow> shutdownAck w \<and> exited w)"

text \<open>The result of a worker for an open request: not yet there, or a valid SCAN_RESULT.\<close>

definition valid_result :: "u64 \<Rightarrow> Message \<Rightarrow> bool" where
  "valid_result i m \<longleftrightarrow> Validate m = None \<and> mType m = TypeScanResult \<and> mRequestID m = i"

definition may_answer :: "WorkerState \<Rightarrow> bool" where
  "may_answer a \<longleftrightarrow> a \<in> {WorkerActive, WorkerDraining, WorkerRetired}"

definition req_ok :: "(u64 \<times> WorkerKey) set \<Rightarrow> runtimeState \<Rightarrow> u64 \<Rightarrow> runtimeRequest \<Rightarrow> bool" where
  "req_ok E s i r \<longleftrightarrow>
     0 < i \<and> i \<le> nextRequestID s \<and> reqID r = i \<and> reqTimer r \<and>
     reqResults r \<noteq> [] \<and> distinct (keys (reqResults r)) \<and>
     (\<forall>k m. mget (reqResults r) k = Some m \<longrightarrow>
        (\<exists>w. mget (rworkers s) k = Some w \<and>
           (if mType m = '''' then m = emptyMessage \<and> (may_answer (rstate w) \<or> (i, k) \<in> E)
            else valid_result i m)))"

text \<open>What may be sent as the outcome of a scan.\<close>

definition reply_ok :: "answer \<Rightarrow> bool" where
  "reply_ok a = (case a of
     ScanReply out err \<Rightarrow>
       (case err of
          None \<Rightarrow> 0 < soRequestID out \<and> soResults out \<noteq> [] \<and> distinct (keys (soResults out)) \<and>
            (\<forall>m \<in> snd ` set (soResults out). valid_result (soRequestID out) m) \<and>
            soVerdict out = any_malicious (mVerdict ` snd ` set (soResults out))
        | Some e \<Rightarrow> out = zeroScan \<and> e \<in> {ShuttingDown, NoActiveWorkers})
   | _ \<Rightarrow> True)"

definition rkeys_ok :: "runtimeState \<Rightarrow> bool" where
  "rkeys_ok s \<longleftrightarrow>
     distinct (keys (rworkers s)) \<and> distinct (keys (ractive s)) \<and> distinct (keys (rrequests s))"

definition rworkers_ok :: "runtimeState \<Rightarrow> bool" where
  "rworkers_ok s \<longleftrightarrow> (\<forall>k w. mget (rworkers s) k = Some w \<longrightarrow>
     wk_ok (stopReply s \<noteq> None) (open_for k (rrequests s)) k w)"

definition rroutes_ok :: "runtimeState \<Rightarrow> bool" where
  "rroutes_ok s \<longleftrightarrow> (\<forall>scanner k. mget (ractive s) scanner = Some k \<longleftrightarrow>
     runtime_states s k = Some WorkerActive \<and> ScannerID k = scanner)"

definition rcandidates_ok :: "runtimeState \<Rightarrow> bool" where
  "rcandidates_ok s \<longleftrightarrow> (stopReply s = None \<longrightarrow> (\<forall>k k' a b.
     runtime_states s k = Some a \<longrightarrow> runtime_states s k' = Some b \<longrightarrow>
     candidate a \<longrightarrow> candidate b \<longrightarrow> ScannerID k = ScannerID k' \<longrightarrow> k = k'))"

text \<open>
  The requests, except that the results listed in \<open>E\<close> may wait for a worker that has
  failed, and the requests of \<open>W\<close> may be ready or outlive the shutdown: the states between
  two statements of a handler.
\<close>

definition rrequests_ok :: "(u64 \<times> WorkerKey) set \<Rightarrow> u64 set \<Rightarrow> runtimeState \<Rightarrow> bool" where
  "rrequests_ok E W s \<longleftrightarrow> (\<forall>i r. mget (rrequests s) i = Some r \<longrightarrow>
     req_ok E s i r \<and> (i \<in> W \<or> \<not> answered r \<and> stopReply s = None))"

definition replies_ok :: "runtimeState \<Rightarrow> bool" where
  "replies_ok s \<longleftrightarrow> (\<forall>a \<in> snd ` set (sent s). reply_ok a)"

definition rt_inv :: "(u64 \<times> WorkerKey) set \<Rightarrow> u64 set \<Rightarrow> runtimeState \<Rightarrow> bool" where
  "rt_inv E W s \<longleftrightarrow> rkeys_ok s \<and> rworkers_ok s \<and> rroutes_ok s \<and> rcandidates_ok s \<and>
     rrequests_ok E W s \<and> replies_ok s \<and> \<not> nilDeref s"

lemma rt_invD:
  assumes "rt_inv E W s"
  shows "rkeys_ok s" "rworkers_ok s" "rroutes_ok s" "rcandidates_ok s" "rrequests_ok E W s"
    "replies_ok s" "\<not> nilDeref s"
  using assms by (simp_all add: rt_inv_def)

lemma rt_invI:
  "rkeys_ok s \<Longrightarrow> rworkers_ok s \<Longrightarrow> rroutes_ok s \<Longrightarrow> rcandidates_ok s \<Longrightarrow> rrequests_ok E W s \<Longrightarrow>
     replies_ok s \<Longrightarrow> \<not> nilDeref s \<Longrightarrow> rt_inv E W s"
  by (simp add: rt_inv_def)

lemma rkeys_okD:
  assumes "rkeys_ok s"
  shows "distinct (keys (rworkers s))" "distinct (keys (ractive s))" "distinct (keys (rrequests s))"
  using assms by (simp_all add: rkeys_ok_def)

lemma rworkers_okD:
  "rworkers_ok s \<Longrightarrow> mget (rworkers s) k = Some w \<Longrightarrow>
     wk_ok (stopReply s \<noteq> None) (open_for k (rrequests s)) k w"
  by (simp add: rworkers_ok_def)

lemma rroutes_okD: "rroutes_ok s \<Longrightarrow> mget (ractive s) scanner = Some k \<longleftrightarrow>
     runtime_states s k = Some WorkerActive \<and> ScannerID k = scanner"
  by (simp add: rroutes_ok_def)

lemma rrequests_okD:
  assumes "rrequests_ok E W s" "mget (rrequests s) i = Some r"
  shows "req_ok E s i r" "i \<in> W \<or> \<not> answered r \<and> stopReply s = None"
  using assms by (auto simp: rrequests_ok_def)

lemma req_okD:
  assumes "req_ok E s i r"
  shows "0 < i" "i \<le> nextRequestID s" "reqID r = i" "reqTimer r" "reqResults r \<noteq> []"
    "distinct (keys (reqResults r))"
  using assms by (simp_all add: req_ok_def)

lemma req_okE:
  assumes "req_ok E s i r" "mget (reqResults r) k = Some m"
  obtains w where "mget (rworkers s) k = Some w"
    "mType m = '''' \<Longrightarrow> m = emptyMessage \<and> (may_answer (rstate w) \<or> (i, k) \<in> E)"
    "mType m \<noteq> '''' \<Longrightarrow> valid_result i m"
proof -
  from assms obtain w where "mget (rworkers s) k = Some w"
    "if mType m = '''' then m = emptyMessage \<and> (may_answer (rstate w) \<or> (i, k) \<in> E)
     else valid_result i m"
    unfolding req_ok_def by blast
  then show ?thesis by (cases "mType m = ''''") (auto intro: that)
qed

lemma runtime_statesE:
  assumes "runtime_states s k = Some a"
  obtains w where "mget (rworkers s) k = Some w" "rstate w = a"
  using assms by (auto simp: runtime_states_def)

lemma mget_runtime_states: "mget (rworkers s) k = Some w \<Longrightarrow> runtime_states s k = Some (rstate w)"
  by (simp add: runtime_states_def)

section \<open>Views of the updates\<close>

lemma adjust_runtime_simps [simp]:
  "rworkers (adjust_runtime k f s) = madjust k f (rworkers s)"
  "ractive (adjust_runtime k f s) = ractive s" "rrequests (adjust_runtime k f s) = rrequests s"
  "nextRequestID (adjust_runtime k f s) = nextRequestID s"
  "stopReply (adjust_runtime k f s) = stopReply s" "sent (adjust_runtime k f s) = sent s"
  "nilDeref (adjust_runtime k f s) = nilDeref s" "status (adjust_runtime k f s) = status s"
  by (simp_all add: adjust_runtime_def)

lemma adjust_request_simps [simp]:
  "rworkers (adjust_request i f s) = rworkers s" "ractive (adjust_request i f s) = ractive s"
  "rrequests (adjust_request i f s) = madjust i f (rrequests s)"
  "nextRequestID (adjust_request i f s) = nextRequestID s"
  "stopReply (adjust_request i f s) = stopReply s" "sent (adjust_request i f s) = sent s"
  "nilDeref (adjust_request i f s) = nilDeref s" "status (adjust_request i f s) = status s"
  by (simp_all add: adjust_request_def)

lemma send_reply_simps [simp]:
  "rworkers (send_reply c a s) = rworkers s" "ractive (send_reply c a s) = ractive s"
  "rrequests (send_reply c a s) = rrequests s" "nextRequestID (send_reply c a s) = nextRequestID s"
  "stopReply (send_reply c a s) = stopReply s" "sent (send_reply c a s) = sent s @ [(c, a)]"
  "nilDeref (send_reply c a s) = nilDeref s" "status (send_reply c a s) = status s"
  by (simp_all add: send_reply_def)

lemma runtime_states_adjust [map_laws]:
  "runtime_states (adjust_runtime k f s) k' =
     (if k' = k then map_option (rstate \<circ> f) (mget (rworkers s) k) else runtime_states s k')"
  by (simp add: runtime_states_def map_laws option.map_comp)

lemma runtime_states_cong: "rworkers t = rworkers s \<Longrightarrow> runtime_states t = runtime_states s"
  by (simp add: runtime_states_def fun_eq_iff)

section \<open>Functions on one worker\<close>

lemma core_messages [simp]:
  "core_message helloMessage" "core_message healthMessage" "core_message shutdownMessage"
  using Validate_embed [of Hello] Validate_embed [of HealthCheck] Validate_embed [of Shutdown]
  by (simp_all add: core_message_def helloMessage_def healthMessage_def shutdownMessage_def)

lemma core_scanMessage: "0 < i \<Longrightarrow> \<not> blank p \<Longrightarrow> core_message (scanMessage i p)"
  using Validate_embed [of "Scan i p"]
  by (auto simp add: core_message_def scanMessage_def)

lemma core_reloadMessage: "\<not> blank p \<Longrightarrow> core_message (reloadMessage p)"
  using Validate_embed [of "Reload p"]
  by (auto simp add: core_message_def reloadMessage_def)

lemma queue_cases:
  "queueWorkerMessage w m = (err, w') \<Longrightarrow>
     (err = None \<and> length (outbound w) < outboundCap \<and> w' = w\<lparr>outbound := outbound w @ [m]\<rparr>) \<or>
     (err = Some (QueueFull (rkey w)) \<and> w' = w)"
  by (auto simp: queueWorkerMessage_def split: if_splits)

lemma requestWorkerShutdown_cases:
  "requestWorkerShutdown w = w' \<Longrightarrow>
     (shutdownSent w \<and> w' = w) \<or>
     (\<not> shutdownSent w \<and> length (outbound w) < outboundCap \<and>
        w' = w\<lparr>shutdownSent := True, outbound := outbound w @ [shutdownMessage]\<rparr>) \<or>
     (\<not> shutdownSent w \<and> w' = w\<lparr>shutdownSent := True, killTimer := True\<rparr>)"
  by (auto simp: requestWorkerShutdown_def queueWorkerMessage_def split: if_splits)

text \<open>Asking a worker to stop changes only its queue, its kill timer and the flag.\<close>

lemma requestWorkerShutdown_simps [simp]:
  "rkey (requestWorkerShutdown w) = rkey w" "rchild (requestWorkerShutdown w) = rchild w"
  "rtransport (requestWorkerShutdown w) = rtransport w" "rstate (requestWorkerShutdown w) = rstate w"
  "inFlight (requestWorkerShutdown w) = inFlight w" "helloReply (requestWorkerShutdown w) = helloReply w"
  "healthReply (requestWorkerShutdown w) = healthReply w"
  "reloadReply (requestWorkerShutdown w) = reloadReply w"
  "shutdownSent (requestWorkerShutdown w)"
  "shutdownAck (requestWorkerShutdown w) = shutdownAck w" "exited (requestWorkerShutdown w) = exited w"
  by (simp_all add: requestWorkerShutdown_def queueWorkerMessage_def)

lemma requestWorkerShutdown_queue:
  "length (outbound w) \<le> outboundCap \<Longrightarrow> length (outbound (requestWorkerShutdown w)) \<le> outboundCap"
  "\<forall>m \<in> set (outbound w). core_message m \<Longrightarrow>
     \<forall>m \<in> set (outbound (requestWorkerShutdown w)). core_message m"
  "killTimer w \<Longrightarrow> killTimer (requestWorkerShutdown w)"
  by (auto simp: requestWorkerShutdown_def queueWorkerMessage_def)

lemma wk_ok_shutdown:
  assumes "wk_ok stop n k (w\<lparr>shutdownSent := True\<rparr>)"
  shows "wk_ok stop n k (requestWorkerShutdown w)"
  using assms requestWorkerShutdown_queue [of w] by (auto simp: wk_ok_def)

lemma releaseWorker_simps [simp]:
  "rkey (releaseWorker w) = rkey w" "rchild (releaseWorker w) = rchild w"
  "rstate (releaseWorker w) = rstate w" "helloReply (releaseWorker w) = helloReply w"
  "healthReply (releaseWorker w) = healthReply w" "reloadReply (releaseWorker w) = reloadReply w"
  "shutdownAck (releaseWorker w) = shutdownAck w" "exited (releaseWorker w) = exited w"
  "inFlight (releaseWorker w) = (if inFlight w > 0 then inFlight w - 1 else inFlight w)"
  by (simp_all add: releaseWorker_def Let_def)

lemma wk_ok_release:
  assumes "wk_ok stop n k w" "n > 0"
  shows "wk_ok stop (n - 1) k (releaseWorker w)"
proof -
  have n: "inFlight w = n" using assms(1) by (simp add: wk_ok_def)
  show ?thesis
  proof (cases "rstate w = WorkerDraining \<and> n = 1")
    case True
    with assms n have "releaseWorker w = requestWorkerShutdown (w\<lparr>inFlight := 0\<rparr>)"
      by (simp add: releaseWorker_def)
    moreover have "wk_ok stop (n - 1) k (w\<lparr>inFlight := 0, shutdownSent := True\<rparr>)"
      using assms True by (auto simp: wk_ok_def)
    ultimately show ?thesis using True wk_ok_shutdown [of stop "n - 1" k "w\<lparr>inFlight := 0\<rparr>"] by simp
  next
    case False
    with assms n have "releaseWorker w = w\<lparr>inFlight := n - 1\<rparr>"
      by (auto simp: releaseWorker_def Let_def)
    with assms False show ?thesis by (auto simp: wk_ok_def)
  qed
qed

section \<open>Open requests of a worker\<close>

lemma open_for_nonneg: "0 \<le> open_for k rs"
  unfolding open_for_def map_sum_def by (rule sum_list_nonneg) auto

lemma open_for_mdel:
  assumes "distinct (keys rs)" "mget rs i = Some r"
  shows "open_for k (mdel i rs) = open_for k rs - of_bool (k \<in> set (keys (reqResults r)))"
  using map_sum_mdel [OF assms, of "\<lambda>r. of_bool (k \<in> set (keys (reqResults r))) :: int"]
  unfolding open_for_def by linarith

lemma open_for_pos:
  assumes "distinct (keys rs)" "mget rs i = Some r" "k \<in> set (keys (reqResults r))"
  shows "0 < open_for k rs"
  using open_for_mdel [OF assms(1,2), of k] open_for_nonneg [of k "mdel i rs"] assms(3) by simp

lemma open_for_madjust:
  assumes "distinct (keys rs)"
    and "\<And>r. mget rs i = Some r \<Longrightarrow> set (keys (reqResults (f r))) = set (keys (reqResults r))"
  shows "open_for k (madjust i f rs) = open_for k rs"
  unfolding open_for_def by (rule map_sum_madjust_same [OF _ assms(1)]) (simp only: assms(2))

section \<open>Steps that leave requests alone\<close>

lemma rt_inv_mono:
  assumes "rt_inv E W s" "E \<subseteq> E'" "W \<subseteq> W'"
  shows "rt_inv E' W' s"
proof -
  have "req_ok E' s i r" if "req_ok E s i r" for i r
    using that assms(2) unfolding req_ok_def by (metis subsetD)
  moreover note inv = rt_invD [OF assms(1)]
  have "i \<in> W' \<or> \<not> answered r \<and> stopReply s = None" if "mget (rrequests s) i = Some r" for i r
    using rrequests_okD(2) [OF inv(5) that] assms(3) by blast
  ultimately have "rrequests_ok E' W' s"
    using inv(5) unfolding rrequests_ok_def by blast
  with inv show ?thesis by (simp add: rt_inv_def)
qed

lemma rrequests_ok_cong:
  assumes "rrequests_ok E W s" "rrequests t = rrequests s" "nextRequestID t = nextRequestID s"
    "stopReply t = stopReply s"
    and "\<And>i r k m w. mget (rrequests s) i = Some r \<Longrightarrow> mget (reqResults r) k = Some m \<Longrightarrow>
      mget (rworkers s) k = Some w \<Longrightarrow> \<exists>w'. mget (rworkers t) k = Some w' \<and>
        (may_answer (rstate w) \<longrightarrow> may_answer (rstate w') \<or> (i, k) \<in> E)"
  shows "rrequests_ok E W t"
  unfolding rrequests_ok_def
proof (intro allI impI)
  fix i r
  assume "mget (rrequests t) i = Some r"
  then have r: "mget (rrequests s) i = Some r" by (simp add: assms(2))
  note ok = rrequests_okD [OF assms(1) r]
  have "\<exists>w'. mget (rworkers t) k = Some w' \<and>
      (if mType m = '''' then m = emptyMessage \<and> (may_answer (rstate w') \<or> (i, k) \<in> E)
       else valid_result i m)" if m: "mget (reqResults r) k = Some m" for k m
  proof -
    from ok(1) m obtain w where w: "mget (rworkers s) k = Some w"
      "mType m = '''' \<Longrightarrow> m = emptyMessage \<and> (may_answer (rstate w) \<or> (i, k) \<in> E)"
      "mType m \<noteq> '''' \<Longrightarrow> valid_result i m"
      by (rule req_okE) blast
    from assms(5) [OF r m w(1)] w(2,3) show ?thesis by (cases "mType m = ''''") auto
  qed
  with req_okD [OF ok(1)] ok(2) show "req_ok E t i r \<and> (i \<in> W \<or> \<not> answered r \<and> stopReply t = None)"
    by (simp add: req_ok_def assms(3,4))
qed

text \<open>A change of one worker that keeps its state.\<close>

lemma adjust_inv:
  assumes "rt_inv E W s" "mget (rworkers s) k = Some w"
    and "rstate (f w) = rstate w"
    and "wk_ok (stopReply s \<noteq> None) (open_for k (rrequests s)) k (f w)"
  shows "rt_inv E W (adjust_runtime k f s)"
proof (rule rt_invI)
  note inv = rt_invD [OF assms(1)]
  have states: "runtime_states (adjust_runtime k f s) = runtime_states s"
    using assms(2,3) by (auto simp: runtime_states_adjust mget_runtime_states fun_eq_iff)
  show "rkeys_ok (adjust_runtime k f s)" using inv(1) by (simp add: rkeys_ok_def)
  show "rworkers_ok (adjust_runtime k f s)"
    using inv(2) assms(2,4) by (auto simp: rworkers_ok_def map_laws)
  show "rroutes_ok (adjust_runtime k f s)" using inv(3) by (simp add: rroutes_ok_def states)
  show "rcandidates_ok (adjust_runtime k f s)" using inv(4) by (simp only: rcandidates_ok_def states adjust_runtime_simps)
  show "rrequests_ok E W (adjust_runtime k f s)"
    by (rule rrequests_ok_cong [OF inv(5)]) (use assms(2,3) in \<open>auto simp: map_laws\<close>)
  show "replies_ok (adjust_runtime k f s)" using inv(6) by (simp add: replies_ok_def)
  show "\<not> nilDeref (adjust_runtime k f s)" using inv(7) by simp
qed

lemma send_reply_inv:
  assumes "rt_inv E W s" "reply_ok a"
  shows "rt_inv E W (send_reply c a s)"
proof -
  note inv = rt_invD [OF assms(1)]
  have states: "runtime_states (send_reply c a s) = runtime_states s" by (rule runtime_states_cong) simp
  have "rrequests_ok E W (send_reply c a s)"
    by (rule rrequests_ok_cong [OF inv(5)]) auto
  with inv assms(2) show ?thesis
    by (simp add: rt_inv_def rkeys_ok_def rworkers_ok_def rroutes_ok_def rcandidates_ok_def
        replies_ok_def states ball_Un)
qed

section \<open>Completing a request\<close>

lemma fold_adjust_runtime:
  "fold (\<lambda>k. adjust_runtime k f) ks s = s\<lparr>rworkers := fold (\<lambda>k. madjust k f) ks (rworkers s)\<rparr>"
  by (induction ks arbitrary: s) (simp_all add: adjust_runtime_def)

lemma mget_fold_madjust:
  "distinct ks \<Longrightarrow> mget (fold (\<lambda>k. madjust k f) ks m) k' =
     (if k' \<in> set ks then map_option f (mget m k') else mget m k')"
  by (induction ks arbitrary: m) (auto simp: map_laws)

lemma keys_fold_madjust [simp]: "keys (fold (\<lambda>k. madjust k f) ks m) = keys m"
  by (induction ks arbitrary: m) simp_all

definition released :: "runtimeRequest \<Rightarrow> runtimeState \<Rightarrow> (WorkerKey, runtimeWorker) gomap" where
  "released r s = fold (\<lambda>k. madjust k releaseWorker) (keys (reqResults r)) (rworkers s)"

lemma keys_released [simp]: "keys (released r s) = keys (rworkers s)"
  by (simp add: released_def)

lemma mget_released:
  "distinct (keys (reqResults r)) \<Longrightarrow> mget (released r s) k =
     (if k \<in> set (keys (reqResults r)) then map_option releaseWorker (mget (rworkers s) k)
      else mget (rworkers s) k)"
  by (simp add: released_def mget_fold_madjust)

lemma completeRequest_eq:
  "mget (rrequests s) i = Some r \<Longrightarrow> completeRequest i s =
     s\<lparr>rworkers := released r s, sent := sent s @ [(reqReply r, requestOutcome r)],
       rrequests := mdel i (rrequests s)\<rparr>"
  by (simp add: completeRequest_def Let_def released_def fold_adjust_runtime send_reply_def)

lemma valid_result_verdict: "valid_result i m \<Longrightarrow> validVerdict (mVerdict m)"
  by (auto simp: valid_result_def Validate_ScanResult)

lemma answered_results:
  assumes "req_ok E s i r" "answered r" "m \<in> snd ` set (reqResults r)"
  shows "valid_result i m"
proof -
  from assms(3) obtain k where "(k, m) \<in> set (reqResults r)" by auto
  with req_okD(6) [OF assms(1)] have m: "mget (reqResults r) k = Some m" by (simp add: mget_set)
  have "mType m \<noteq> ''''" using assms(2,3) by (auto simp: answered_def)
  with req_okE [OF assms(1) m] show ?thesis by blast
qed

lemma requestOutcome_eq:
  assumes "req_ok E s i r" "answered r"
  shows "requestOutcome r = ScanReply \<lparr>soRequestID = i,
    soVerdict = any_malicious (mVerdict ` snd ` set (reqResults r)), soResults = reqResults r\<rparr> None"
proof -
  have "\<forall>v \<in> set (map (mVerdict \<circ> snd) (reqResults r)). validVerdict v"
    using answered_results [OF assms] by (auto intro: valid_result_verdict)
  then have "Aggregate (map (mVerdict \<circ> snd) (reqResults r)) =
      Inr (any_malicious (set (map (mVerdict \<circ> snd) (reqResults r))))"
    using req_okD(5) [OF assms(1)] by (simp add: Aggregate_valid)
  with req_okD(3) [OF assms(1)] show ?thesis
    by (simp add: requestOutcome_def image_comp comp_def)
qed

lemma requestOutcome_ok:
  assumes "req_ok E s i r" "answered r"
  shows "reply_ok (requestOutcome r)"
  using requestOutcome_eq [OF assms] req_okD [OF assms(1)] answered_results [OF assms]
  by (simp add: reply_ok_def)

lemma released_states:
  assumes "distinct (keys (reqResults r))" "rworkers t = released r s"
  shows "runtime_states t = runtime_states s"
  using assms by (auto simp: runtime_states_def fun_eq_iff mget_released option.map_comp comp_def)

lemma completeRequest_inv:
  assumes "rt_inv E W s" "mget (rrequests s) i = Some r" "answered r"
  shows "rt_inv (E - {i} \<times> UNIV) (W - {i}) (completeRequest i s)"
proof (rule rt_invI)
  note inv = rt_invD [OF assms(1)]
  note req = rrequests_okD(1) [OF inv(5) assms(2)]
  note dist = rkeys_okD [OF inv(1)]
  let ?t = "completeRequest i s"
  note t = completeRequest_eq [OF assms(2)]
  have rel: "mget (rworkers ?t) k = (if k \<in> set (keys (reqResults r))
       then map_option releaseWorker (mget (rworkers s) k) else mget (rworkers s) k)" for k
    by (simp add: t mget_released [OF req_okD(6) [OF req]])
  have states: "runtime_states ?t = runtime_states s"
    by (rule released_states [OF req_okD(6) [OF req]]) (simp add: t)
  have stop: "stopReply ?t = stopReply s" by (simp add: t)
  show "rkeys_ok ?t" using dist by (simp add: rkeys_ok_def t)
  show "rworkers_ok ?t"
    unfolding rworkers_ok_def
  proof (intro allI impI)
    fix k w'
    assume w': "mget (rworkers ?t) k = Some w'"
    then obtain w where w: "mget (rworkers s) k = Some w"
      "w' = (if k \<in> set (keys (reqResults r)) then releaseWorker w else w)"
      by (auto simp: rel split: if_splits)
    have n: "open_for k (rrequests ?t) =
        open_for k (rrequests s) - of_bool (k \<in> set (keys (reqResults r)))"
      by (simp add: t open_for_mdel [OF dist(3) assms(2)])
    note ok = rworkers_okD [OF inv(2) w(1)]
    show "wk_ok (stopReply ?t \<noteq> None) (open_for k (rrequests ?t)) k w'"
    proof (cases "k \<in> set (keys (reqResults r))")
      case True
      from wk_ok_release [OF ok open_for_pos [OF dist(3) assms(2) True]] True show ?thesis
        by (simp only: n w(2) stop if_True of_bool_eq(2))
    next
      case False
      with ok show ?thesis by (simp only: n w(2) stop if_False of_bool_eq(1) diff_0_right)
    qed
  qed
  show "rroutes_ok ?t" using inv(3) by (simp add: rroutes_ok_def states) (simp add: t)
  show "rcandidates_ok ?t" using inv(4) by (simp only: rcandidates_ok_def states stop)
  show "rrequests_ok (E - {i} \<times> UNIV) (W - {i}) ?t"
    unfolding rrequests_ok_def
  proof (intro allI impI)
    fix j q
    assume "mget (rrequests ?t) j = Some q"
    then have j: "j \<noteq> i" "mget (rrequests s) j = Some q" by (auto simp: t map_laws split: if_splits)
    note q = rrequests_okD [OF inv(5) j(2)]
    have "\<exists>w. mget (rworkers ?t) k = Some w \<and>
        (if mType m = '''' then m = emptyMessage \<and> (may_answer (rstate w) \<or> (j, k) \<in> E - {i} \<times> UNIV)
         else valid_result j m)" if m: "mget (reqResults q) k = Some m" for k m
    proof (rule req_okE [OF q(1) m])
      fix w
      assume w: "mget (rworkers s) k = Some w"
        "mType m = '''' \<Longrightarrow> m = emptyMessage \<and> (may_answer (rstate w) \<or> (j, k) \<in> E)"
        "mType m \<noteq> '''' \<Longrightarrow> valid_result j m"
      obtain w' where "mget (rworkers ?t) k = Some w'" "rstate w' = rstate w"
        using w(1) by (cases "k \<in> set (keys (reqResults r))") (simp_all add: rel)
      with w j(1) show ?thesis by (cases "mType m = ''''") auto
    qed
    with req_okD [OF q(1)] have "req_ok (E - {i} \<times> UNIV) ?t j q"
      by (simp add: req_ok_def) (simp add: t)
    with q(2) j(1) show "req_ok (E - {i} \<times> UNIV) ?t j q \<and>
        (j \<in> W - {i} \<or> \<not> answered q \<and> stopReply ?t = None)"
      by (simp add: stop)
  qed
  show "replies_ok ?t"
    using inv(6) requestOutcome_ok [OF req assms(3)] by (simp add: replies_ok_def t ball_Un)
  show "\<not> nilDeref ?t" using inv(7) by (simp add: t)
qed

lemma completeRequestIfReady_inv:
  assumes "rt_inv E W s" "stopReply s = None"
  shows "rt_inv E (W - {i}) (completeRequestIfReady i s)"
proof (cases "mget (rrequests s) i")
  case None
  have "rt_inv E (W - {i}) s"
    using rt_invD [OF assms(1)] None unfolding rt_inv_def rrequests_ok_def by fastforce
  with None show ?thesis by (simp add: completeRequestIfReady_def)
next
  case (Some r)
  show ?thesis
  proof (cases "answered r")
    case True
    with Some rt_inv_mono [OF completeRequest_inv [OF assms(1) Some True], of E "W - {i}"]
    show ?thesis by (auto simp: completeRequestIfReady_def)
  next
    case False
    have "rrequests_ok E (W - {i}) s"
      using rt_invD(5) [OF assms(1)] Some False assms(2) unfolding rrequests_ok_def by fastforce
    with Some False rt_invD [OF assms(1)] show ?thesis
      by (simp add: completeRequestIfReady_def rt_inv_def)
  qed
qed

text \<open>Writing valid results into one request makes it a request that may be ready.\<close>

lemma fill_inv:
  assumes "rt_inv E W s"
    and f: "\<And>r. mget (rrequests s) i = Some r \<Longrightarrow> f r = r\<lparr>reqResults := reqResults (f r)\<rparr> \<and>
      keys (reqResults (f r)) = keys (reqResults r) \<and>
      (\<forall>k m. mget (reqResults (f r)) k = Some m \<longrightarrow> mget (reqResults r) k = Some m \<or> valid_result i m)"
  shows "rt_inv E (insert i W) (adjust_request i f s)"
proof (rule rt_invI)
  note inv = rt_invD [OF assms(1)]
  note dist = rkeys_okD [OF inv(1)]
  let ?t = "adjust_request i f s"
  have states: "runtime_states ?t = runtime_states s" by (rule runtime_states_cong) simp
  have n: "open_for k (rrequests ?t) = open_for k (rrequests s)" for k
    unfolding adjust_request_simps using f by (intro open_for_madjust [OF dist(3)]) (metis list.set_map)
  show "rkeys_ok ?t" using inv(1) by (simp add: rkeys_ok_def)
  show "rworkers_ok ?t" using inv(2) by (simp only: rworkers_ok_def n) simp
  show "rroutes_ok ?t" using inv(3) by (simp add: rroutes_ok_def states)
  show "rcandidates_ok ?t" using inv(4) by (simp only: rcandidates_ok_def states) simp
  show "rrequests_ok E (insert i W) ?t"
    unfolding rrequests_ok_def
  proof (intro allI impI)
    fix j q
    assume "mget (rrequests ?t) j = Some q"
    then obtain r where r: "mget (rrequests s) j = Some r" "q = (if j = i then f r else r)"
      by (auto simp: map_laws split: if_splits)
    note ok = rrequests_okD [OF inv(5) r(1)]
    show "req_ok E ?t j q \<and> (j \<in> insert i W \<or> \<not> answered q \<and> stopReply ?t = None)"
    proof (cases "j = i")
      case True
      with f r have q: "q = r\<lparr>reqResults := reqResults q\<rparr>" "keys (reqResults q) = keys (reqResults r)"
        "\<And>k m. mget (reqResults q) k = Some m \<Longrightarrow> mget (reqResults r) k = Some m \<or> valid_result i m"
        by auto
      have "\<exists>w. mget (rworkers ?t) k = Some w \<and>
          (if mType m = '''' then m = emptyMessage \<and> (may_answer (rstate w) \<or> (j, k) \<in> E)
           else valid_result j m)" if m: "mget (reqResults q) k = Some m" for k m
      proof -
        from m q(2) have "k \<in> set (keys (reqResults r))" by (metis mget_SomeD)
        then obtain m0 where m0: "mget (reqResults r) k = Some m0" by (rule in_keysE)
        obtain w where w: "mget (rworkers s) k = Some w"
          "mType m0 = '''' \<Longrightarrow> m0 = emptyMessage \<and> (may_answer (rstate w) \<or> (j, k) \<in> E)"
          "mType m0 \<noteq> '''' \<Longrightarrow> valid_result j m0"
          using req_okE [OF ok(1) m0] by blast
        from q(3) [OF m] show ?thesis
        proof
          assume "mget (reqResults r) k = Some m"
          with m0 w show ?thesis by (cases "mType m = ''''") auto
        next
          assume "valid_result i m"
          then have "mType m \<noteq> ''''" "valid_result j m" using True by (auto simp: valid_result_def)
          with w(1) show ?thesis by simp
        qed
      qed
      moreover have "reqResults q \<noteq> []" using q(2) req_okD(5) [OF ok(1)] by (metis list.map_disc_iff)
      moreover have "reqID q = reqID r" "reqTimer q = reqTimer r"
        by (subst q(1), simp)+
      ultimately have "req_ok E ?t j q"
        using req_okD [OF ok(1)] q(2) by (simp add: req_ok_def)
      with True show ?thesis by simp
    next
      case False
      with ok r show ?thesis by (simp add: req_ok_def)
    qed
  qed
  show "replies_ok ?t" using inv(6) by (simp add: replies_ok_def)
  show "\<not> nilDeref ?t" using inv(7) by simp
qed

section \<open>The failure of a worker\<close>

lemma valid_substitute: "0 < i \<Longrightarrow> validVerdict v \<Longrightarrow> valid_result i (substitute i v e)"
  using Validate_embed [of "ScanResult i v [] 0 e"]
  by (simp add: valid_result_def substitute_def emptyMessage_def)

lemma valid_result_type: "valid_result i m \<Longrightarrow> mType m \<noteq> ''''"
  by (auto simp: valid_result_def)

text \<open>A result that is there needs no excuse.\<close>

lemma rt_inv_shrink:
  assumes "rt_inv E W s"
    and "\<And>r m. mget (rrequests s) i = Some r \<Longrightarrow> mget (reqResults r) k = Some m \<Longrightarrow> mType m \<noteq> ''''"
  shows "rt_inv (E - {(i, k)}) W s"
proof -
  note inv = rt_invD [OF assms(1)]
  have "req_ok (E - {(i, k)}) s j r" if j: "mget (rrequests s) j = Some r" for j r
  proof -
    note ok = rrequests_okD(1) [OF inv(5) j]
    have "\<exists>w. mget (rworkers s) k' = Some w \<and>
        (if mType m = '''' then m = emptyMessage \<and> (may_answer (rstate w) \<or> (j, k') \<in> E - {(i, k)})
         else valid_result j m)" if m: "mget (reqResults r) k' = Some m" for k' m
    proof (rule req_okE [OF ok m])
      fix w
      assume "mget (rworkers s) k' = Some w"
        "mType m = '''' \<Longrightarrow> m = emptyMessage \<and> (may_answer (rstate w) \<or> (j, k') \<in> E)"
        "mType m \<noteq> '''' \<Longrightarrow> valid_result j m"
      with assms(2) [of r m] j m show ?thesis by (cases "mType m = ''''") auto
    qed
    with req_okD [OF ok] show ?thesis by (simp add: req_ok_def)
  qed
  with inv show ?thesis unfolding rt_inv_def rrequests_ok_def by blast
qed

lemma failResult_inv:
  assumes "rt_inv E {} s"
  shows "rt_inv (E - {(i, k)}) {} (failResult k reason i s)"
proof (cases "\<exists>r m. mget (rrequests s) i = Some r \<and> mget (reqResults r) k = Some m \<and> mType m = ''''")
  case False
  then have "failResult k reason i s = s"
    by (auto simp: failResult_def split: option.splits)
  moreover have "rt_inv (E - {(i, k)}) {} s" using False by (intro rt_inv_shrink [OF assms]) blast
  ultimately show ?thesis by simp
next
  case True
  then obtain r m where r: "mget (rrequests s) i = Some r" "mget (reqResults r) k = Some m"
    "mType m = ''''" by blast
  note inv = rt_invD [OF assms]
  note ok = rrequests_okD [OF inv(5) r(1)]
  let ?f = "\<lambda>r. r\<lparr>reqResults := mput k (substitute (reqID r) VerdictUnavailable reason) (reqResults r)\<rparr>"
  let ?s = "adjust_request i ?f s"
  have valid: "valid_result i (substitute (reqID r) VerdictUnavailable reason)"
    using req_okD [OF ok(1)] by (simp add: valid_substitute validVerdict_def)
  have keys: "keys (mput k x (reqResults r)) = keys (reqResults r)" for x
    using mget_SomeD [OF r(2)] by (simp add: update_keys)
  have "rt_inv E {i} ?s"
    using valid by (intro fill_inv [OF assms]) (auto simp: r(1) keys map_laws split: if_splits)
  then have "rt_inv (E - {(i, k)}) {i} ?s"
    by (rule rt_inv_shrink) (use valid r(1) in \<open>auto simp: map_laws dest: valid_result_type\<close>)
  from completeRequestIfReady_inv [OF this, of i]
  have "rt_inv (E - {(i, k)}) {} (completeRequestIfReady i ?s)" using ok(2) by simp
  with r show ?thesis by (simp add: failResult_def)
qed

lemma fold_failResult_inv:
  assumes "rt_inv E {} s"
  shows "rt_inv (E - set is \<times> {k}) {} (fold (failResult k reason) is s)"
  using assms
proof (induction "is" arbitrary: E s)
  case Nil
  then show ?case by simp
next
  case (Cons i "is")
  from Cons.IH [OF failResult_inv [OF Cons.prems]]
  have "rt_inv (E - {(i, k)} - set is \<times> {k}) {} (fold (failResult k reason) (i # is) s)" by simp
  moreover have "E - {(i, k)} - set is \<times> {k} = E - set (i # is) \<times> {k}" by auto
  ultimately show ?case by (simp only:)
qed

lemma take_reply_eq:
  assumes "distinct (keys (rworkers s))" "mget (rworkers s) k = Some w"
    and "get w = None \<Longrightarrow> clear w = w"
  shows "take_reply k get clear a s = s\<lparr>rworkers := madjust k clear (rworkers s),
    sent := sent s @ (case get w of None \<Rightarrow> [] | Some c \<Rightarrow> [(c, a)])\<rparr>"
proof (cases "get w")
  case None
  have "madjust k clear (rworkers s) = rworkers s"
    by (rule madjust_id [OF assms(1)]) (use assms(2,3) None in simp)
  with None assms(2) show ?thesis by (simp add: take_reply_def)
next
  case (Some c)
  with assms(2) show ?thesis by (simp add: take_reply_def adjust_runtime_def send_reply_def)
qed

definition failedWorker :: "string \<Rightarrow> runtimeWorker \<Rightarrow> runtimeWorker" where
  "failedWorker reason w = w\<lparr>rstate := WorkerFailed, rfailureReason := reason, killTimer := True,
     helloReply := None, healthReply := None, reloadReply := None\<rparr>"

definition failReplies :: "string \<Rightarrow> runtimeWorker \<Rightarrow> (chan \<times> answer) list" where
  "failReplies reason w =
     (case helloReply w of None \<Rightarrow> [] | Some c \<Rightarrow> [(c, DoneReply (Some (WorkerDown reason)))]) @
     (case healthReply w of None \<Rightarrow> [] | Some c \<Rightarrow> [(c, DoneReply (Some (WorkerDown reason)))]) @
     (case reloadReply w of None \<Rightarrow> [] | Some c \<Rightarrow> [(c, ReloadReply zeroReload (Some (WorkerDown reason)))])"

definition failedState :: "WorkerKey \<Rightarrow> string \<Rightarrow> runtimeWorker \<Rightarrow> runtimeState \<Rightarrow> runtimeState" where
  "failedState k reason w s = s\<lparr>rworkers := madjust k (failedWorker reason) (rworkers s),
     ractive := (if mget (ractive s) (ScannerID k) = Some k
                 then mdel (ScannerID k) (ractive s) else ractive s),
     sent := sent s @ failReplies reason w\<rparr>"

lemma handleWorkerFailure_eq:
  assumes "distinct (keys (rworkers s))" "mget (rworkers s) k = Some w" "\<not> terminal (rstate w)"
  shows "handleWorkerFailure k reason s =
    fold (failResult k reason) (keys (rrequests s)) (failedState k reason w s)"
proof -
  let ?f = "\<lambda>w. w\<lparr>rstate := WorkerFailed, rfailureReason := reason, killTimer := True\<rparr>"
  note d = assms(1)
  obtain act where act: "act = (if mget (ractive s) (ScannerID k) = Some k
      then mdel (ScannerID k) (ractive s) else ractive s)" by simp
  let ?s2 = "s\<lparr>rworkers := madjust k ?f (rworkers s), ractive := act\<rparr>"
  have s2: "(if mget (ractive (adjust_runtime k ?f s)) (ScannerID k) = Some k
      then adjust_runtime k ?f s\<lparr>ractive := mdel (ScannerID k) (ractive (adjust_runtime k ?f s))\<rparr>
      else adjust_runtime k ?f s) = ?s2"
    by (simp add: act adjust_runtime_def)
  have s3: "answerHello k (Some (WorkerDown reason)) ?s2 =
      ?s2\<lparr>rworkers := madjust k (helloReply_update (\<lambda>_. None)) (rworkers ?s2),
        sent := sent ?s2 @ (case helloReply w of None \<Rightarrow> [] | Some c \<Rightarrow> [(c, DoneReply (Some (WorkerDown reason)))])\<rparr>"
    (is "_ = ?s3")
    unfolding answerHello_def
    by (subst take_reply_eq [where w = "?f w"]) (simp_all add: d map_laws assms(2))
  have s4: "answerHealth k (Some (WorkerDown reason)) ?s3 =
      ?s3\<lparr>rworkers := madjust k (healthReply_update (\<lambda>_. None)) (rworkers ?s3),
        sent := sent ?s3 @ (case healthReply w of None \<Rightarrow> [] | Some c \<Rightarrow> [(c, DoneReply (Some (WorkerDown reason)))])\<rparr>"
    (is "_ = ?s4")
    unfolding answerHealth_def
    by (subst take_reply_eq [where w = "(?f w)\<lparr>helloReply := None\<rparr>"])
      (simp_all add: d map_laws assms(2))
  have s5: "answerReload k zeroReload (Some (WorkerDown reason)) ?s4 =
      ?s4\<lparr>rworkers := madjust k (reloadReply_update (\<lambda>_. None)) (rworkers ?s4),
        sent := sent ?s4 @ (case reloadReply w of None \<Rightarrow> [] | Some c \<Rightarrow> [(c, ReloadReply zeroReload (Some (WorkerDown reason)))])\<rparr>"
    (is "_ = ?s5")
    unfolding answerReload_def
    by (subst take_reply_eq [where w = "(?f w)\<lparr>helloReply := None, healthReply := None\<rparr>"])
      (simp_all add: d map_laws assms(2))
  have comp: "reloadReply_update (\<lambda>_. None) \<circ> (healthReply_update (\<lambda>_. None) \<circ>
      (helloReply_update (\<lambda>_. None) \<circ> ?f)) = failedWorker reason"
    by (simp add: failedWorker_def fun_eq_iff)
  have "?s5 = failedState k reason w s"
    by (simp add: madjust_madjust comp failedState_def failReplies_def act)
  moreover have "handleWorkerFailure k reason s = fold (failResult k reason) (keys (rrequests ?s5)) ?s5"
    using assms(2,3)
    unfolding handleWorkerFailure_def Let_def terminal_def s2 s3 s4 s5 by simp
  ultimately show ?thesis by (simp add: failedState_def)
qed

lemma failedWorker_simps [simp]:
  "rstate (failedWorker reason w) = WorkerFailed" "rkey (failedWorker reason w) = rkey w"
  "helloReply (failedWorker reason w) = None" "healthReply (failedWorker reason w) = None"
  "reloadReply (failedWorker reason w) = None" "inFlight (failedWorker reason w) = inFlight w"
  by (simp_all add: failedWorker_def)

lemma wk_ok_failed: "wk_ok stop n k w \<Longrightarrow> wk_ok stop n k (failedWorker reason w)"
  by (simp add: wk_ok_def failedWorker_def)

lemma failReplies_ok: "a \<in> snd ` set (failReplies reason w) \<Longrightarrow> reply_ok a"
  by (auto simp: failReplies_def reply_ok_def split: option.splits)

lemma rroutes_unique:
  "rroutes_ok s \<Longrightarrow> mget (ractive s) scanner = Some k \<Longrightarrow> ScannerID k = scanner"
  by (simp add: rroutes_okD)

lemma rroutes_one:
  "rroutes_ok s \<Longrightarrow> runtime_states s k = Some WorkerActive \<Longrightarrow> runtime_states s k' = Some WorkerActive \<Longrightarrow>
     ScannerID k = ScannerID k' \<Longrightarrow> k = k'"
  by (metis option.inject rroutes_okD)

lemma rcandidates_okI:
  assumes "rcandidates_ok s" "stopReply t = None \<Longrightarrow> stopReply s = None"
    and "\<And>k b. stopReply t = None \<Longrightarrow> runtime_states t k = Some b \<Longrightarrow> candidate b \<Longrightarrow>
      \<exists>a. runtime_states s k = Some a \<and> candidate a"
  shows "rcandidates_ok t"
  using assms unfolding rcandidates_ok_def by metis

lemma failedState_inv:
  assumes "rt_inv {} {} s" "mget (rworkers s) k = Some w"
  shows "rt_inv (set (keys (rrequests s)) \<times> {k}) {} (failedState k reason w s)" (is "rt_inv ?E {} ?t")
proof (rule rt_invI)
  note inv = rt_invD [OF assms(1)]
  have states: "runtime_states ?t k' = (if k' = k then Some WorkerFailed else runtime_states s k')" for k'
    using assms(2) by (simp add: failedState_def runtime_states_def map_laws)
  have same: "stopReply ?t = stopReply s" "rrequests ?t = rrequests s" "nextRequestID ?t = nextRequestID s"
    by (simp_all add: failedState_def)
  have get: "mget (rworkers ?t) k' =
      (if k' = k then Some (failedWorker reason w) else mget (rworkers s) k')" for k'
    using assms(2) by (simp add: failedState_def map_laws)
  show "rkeys_ok ?t" using inv(1) by (simp add: rkeys_ok_def failedState_def)
  show "rworkers_ok ?t"
    unfolding rworkers_ok_def
  proof (intro allI impI)
    fix k' w'
    assume "mget (rworkers ?t) k' = Some w'"
    with rworkers_okD [OF inv(2)] assms(2)
    show "wk_ok (stopReply ?t \<noteq> None) (open_for k' (rrequests ?t)) k' w'"
      unfolding same by (cases "k' = k") (auto simp: get wk_ok_failed)
  qed
  have route: "mget (ractive ?t) scanner =
      (if mget (ractive s) scanner = Some k then None else mget (ractive s) scanner)" for scanner
    using rroutes_unique [OF inv(3), of scanner k]
    by (cases "scanner = ScannerID k") (auto simp: failedState_def map_laws)
  show "rroutes_ok ?t"
    using rroutes_okD [OF inv(3)] rroutes_one [OF inv(3)] unfolding rroutes_ok_def route states by auto
  show "rcandidates_ok ?t"
    by (rule rcandidates_okI [OF inv(4)])
      (auto simp: same states candidate_def split: if_splits)
  show "rrequests_ok ?E {} ?t"
  proof (rule rrequests_ok_cong)
    show "rrequests_ok ?E {} s" using rt_invD(5) [OF rt_inv_mono [OF assms(1), of ?E "{}"]] by simp
  next
    fix i r k' m w0
    assume h: "mget (rrequests s) i = Some r" "mget (rworkers s) k' = Some w0"
    from h(1) have "i \<in> set (keys (rrequests s))" by (rule mget_SomeD)
    with h(2) show "\<exists>w'. mget (rworkers ?t) k' = Some w' \<and>
        (may_answer (rstate w0) \<longrightarrow> may_answer (rstate w') \<or> (i, k') \<in> ?E)"
      by (cases "k' = k") (simp_all add: get)
  qed (rule same)+
  show "replies_ok ?t"
    using inv(6) failReplies_ok [of _ reason w]
    by (auto simp: replies_ok_def failedState_def ball_Un)
  show "\<not> nilDeref ?t" using inv(7) by (simp add: failedState_def)
qed

lemma handleWorkerFailure_noop:
  "mget (rworkers s) k = None \<or> (\<exists>w. mget (rworkers s) k = Some w \<and> terminal (rstate w)) \<Longrightarrow>
     handleWorkerFailure k reason s = s"
  by (auto simp: handleWorkerFailure_def terminal_def)

lemma handleWorkerFailure_cases:
  assumes "rt_inv {} {} s"
  obtains "handleWorkerFailure k reason s = s"
      "\<And>w. mget (rworkers s) k = Some w \<Longrightarrow> terminal (rstate w)"
    | w where "mget (rworkers s) k = Some w" "\<not> terminal (rstate w)"
      "handleWorkerFailure k reason s =
         fold (failResult k reason) (keys (rrequests s)) (failedState k reason w s)"
proof (cases "\<exists>w. mget (rworkers s) k = Some w \<and> \<not> terminal (rstate w)")
  case True
  with handleWorkerFailure_eq [OF rkeys_okD(1) [OF rt_invD(1) [OF assms]]] that(2) show ?thesis
    by blast
next
  case False
  then have "handleWorkerFailure k reason s = s"
    by (intro handleWorkerFailure_noop) (metis option.exhaust)
  with False that(1) show ?thesis by blast
qed

lemma handleWorkerFailure_inv:
  assumes "rt_inv {} {} s"
  shows "rt_inv {} {} (handleWorkerFailure k reason s)"
proof (cases rule: handleWorkerFailure_cases [OF assms, of k reason])
  case 1
  with assms show ?thesis by simp
next
  case (2 w)
  from fold_failResult_inv [OF failedState_inv [OF assms 2(1)], of "keys (rrequests s)" k reason]
  show ?thesis by (simp add: 2(3))
qed

section \<open>Replies to a worker's own commands\<close>

lemma take_reply_inv:
  assumes "rt_inv E W s" "reply_ok a" "\<And>w. rstate (clear w) = rstate w"
    and "\<And>stop n w. wk_ok stop n k w \<Longrightarrow> wk_ok stop n k (clear w)"
  shows "rt_inv E W (take_reply k get clear a s)"
proof (cases "\<exists>w c. mget (rworkers s) k = Some w \<and> get w = Some c")
  case True
  then obtain w c where w: "mget (rworkers s) k = Some w" "get w = Some c" by blast
  have "rt_inv E W (adjust_runtime k clear (send_reply c a s))"
    by (rule adjust_inv [OF send_reply_inv [OF assms(1,2)], where k = k and w = w])
      (use w(1) assms(3,4) rworkers_okD [OF rt_invD(2) [OF assms(1)] w(1)] in simp_all)
  with w show ?thesis by (simp add: take_reply_def)
next
  case False
  with assms(1) show ?thesis by (auto simp: take_reply_def split: option.splits)
qed

lemma reply_ok_simps [simp]:
  "reply_ok (DoneReply e)" "reply_ok (ReloadReply out e)" "reply_ok (WorkersReply ws)"
  "reply_ok (ActiveReply cfg e)" "reply_ok (ScanReply zeroScan (Some ShuttingDown))"
  "reply_ok (ScanReply zeroScan (Some NoActiveWorkers))"
  by (simp_all add: reply_ok_def)

lemma answers_inv:
  assumes "rt_inv E W s"
  shows "rt_inv E W (answerHello k err s)" "rt_inv E W (answerHealth k err s)"
    "rt_inv E W (answerReload k out err s)"
  unfolding answerHello_def answerHealth_def answerReload_def
  by (rule take_reply_inv [OF assms]; simp add: wk_ok_def)+

section \<open>Steps that change the state of a worker\<close>

lemma move_runtime_inv:
  assumes "rt_inv {} {} s" "mget (rworkers s) k = Some w"
    and "wk_ok (stopReply s \<noteq> None) (open_for k (rrequests s)) k (f w)"
    and "rstate w \<noteq> WorkerActive" "rstate (f w) \<noteq> WorkerActive"
    and "stopReply s = None \<Longrightarrow> candidate (rstate (f w)) \<Longrightarrow> candidate (rstate w)"
    and "stopReply s = None \<Longrightarrow> may_answer (rstate w) \<Longrightarrow> may_answer (rstate (f w))"
  shows "rt_inv {} {} (adjust_runtime k f s)" (is "rt_inv {} {} ?t")
proof (rule rt_invI)
  note inv = rt_invD [OF assms(1)]
  have states: "runtime_states ?t k' = (if k' = k then Some (rstate (f w)) else runtime_states s k')" for k'
    by (simp add: runtime_states_adjust assms(2))
  note old = mget_runtime_states [OF assms(2)]
  show "rkeys_ok ?t" using inv(1) by (simp add: rkeys_ok_def)
  show "rworkers_ok ?t" using inv(2) assms(2,3) by (auto simp: rworkers_ok_def map_laws)
  show "rroutes_ok ?t" using inv(3) old assms(4,5) by (auto simp: rroutes_ok_def states)
  show "rcandidates_ok ?t"
    by (rule rcandidates_okI [OF inv(4)]) (use old assms(6) in \<open>auto simp: states split: if_splits\<close>)
  show "rrequests_ok {} {} ?t"
  proof (rule rrequests_ok_cong [OF inv(5)])
    fix i r k' m w0
    assume h: "mget (rrequests s) i = Some r" "mget (rworkers s) k' = Some w0"
    from rrequests_okD(2) [OF inv(5) h(1)] have "stopReply s = None" by simp
    with h(2) assms(2,7) show "\<exists>w'. mget (rworkers ?t) k' = Some w' \<and>
        (may_answer (rstate w0) \<longrightarrow> may_answer (rstate w') \<or> (i, k') \<in> {})"
      by (auto simp: map_laws)
  qed simp_all
  show "replies_ok ?t" using inv(6) by (simp add: replies_ok_def)
  show "\<not> nilDeref ?t" using inv(7) by simp
qed

lemma open_for_unregistered:
  assumes "rt_inv {} {} s" "mget (rworkers s) k = None"
  shows "open_for k (rrequests s) = 0"
proof -
  note inv = rt_invD [OF assms(1)]
  have "k \<notin> set (keys (reqResults r))" if "(i, r) \<in> set (rrequests s)" for i r
  proof
    assume "k \<in> set (keys (reqResults r))"
    then obtain m where m: "mget (reqResults r) k = Some m" by (rule in_keysE)
    from that rkeys_okD(3) [OF inv(1)] have "mget (rrequests s) i = Some r" by (simp add: mget_set)
    from req_okE [OF rrequests_okD(1) [OF inv(5) this] m] assms(2) show False by auto
  qed
  then show ?thesis unfolding open_for_def
    by (intro map_sum_zero ballI) (simp only: split_paired_all snd_conv not_False_eq_True of_bool_eq(1))
qed

lemma newWorker_ok: "wk_ok stop 0 \<lparr>ScannerID = cScannerID c, Version = cWorkerVersion c\<rparr> (newWorker c ch)"
  by (simp add: wk_ok_def newWorker_def)

lemma registerRuntimeWorker_cases:
  "registerRuntimeWorker c ch s = (err, t) \<Longrightarrow>
     (err \<noteq> None \<and> t = s) \<or>
     (\<exists>k. k = \<lparr>ScannerID = cScannerID c, Version = cWorkerVersion c\<rparr> \<and> err = None \<and>
       mget (rworkers s) k = None \<and>
       (\<forall>k' w'. mget (rworkers s) k' = Some w' \<longrightarrow> candidate (rstate w') \<longrightarrow>
          ScannerID (rkey w') \<noteq> ScannerID k) \<and>
       t = s\<lparr>rworkers := mput k (newWorker c ch) (rworkers s)\<rparr>)"
proof -
  have find: "\<not> P w" if "find (\<lambda>(_, v). P v) m = None" "mget m k = Some w" for P m k w
    using that by (auto simp: find_None_iff dest: map_of_SomeD)
  assume "registerRuntimeWorker c ch s = (err, t)"
  then show ?thesis
    unfolding registerRuntimeWorker_def Let_def
    by (auto split: option.splits if_splits dest: find)
qed

lemma registerRuntimeWorker_inv:
  assumes "rt_inv {} {} s" "registerRuntimeWorker c ch s = (err, t)"
  shows "rt_inv {} {} t"
  using registerRuntimeWorker_cases [OF assms(2)]
proof (elim disjE exE conjE)
  fix k
  assume k: "k = \<lparr>ScannerID = cScannerID c, Version = cWorkerVersion c\<rparr>"
    and fresh: "mget (rworkers s) k = None"
    and alone: "\<forall>k' w'. mget (rworkers s) k' = Some w' \<longrightarrow> candidate (rstate w') \<longrightarrow>
          ScannerID (rkey w') \<noteq> ScannerID k"
    and t: "t = s\<lparr>rworkers := mput k (newWorker c ch) (rworkers s)\<rparr>"
  note inv = rt_invD [OF assms(1)]
  have states: "runtime_states t k' = (if k' = k then Some WorkerStarting else runtime_states s k')" for k'
    by (simp add: t runtime_states_def map_laws newWorker_def)
  have old: "runtime_states s k = None" by (simp add: runtime_states_def fresh)
  have other: False if "runtime_states s k' = Some x" "candidate x" "ScannerID k' = ScannerID k" for k' x
    using that alone inv(2) by (auto simp: rworkers_ok_def wk_ok_def elim: runtime_statesE)
  show ?thesis
  proof (rule rt_invI)
    show "rkeys_ok t" using inv(1) by (simp add: t rkeys_ok_def)
    show "rworkers_ok t"
      using inv(2) newWorker_ok [of "stopReply s \<noteq> None" c ch] open_for_unregistered [OF assms(1) fresh]
      by (auto simp: t rworkers_ok_def map_laws k)
    show "rroutes_ok t" using inv(3) old by (auto simp: rroutes_ok_def states) (auto simp: t)
    show "rcandidates_ok t"
      unfolding rcandidates_ok_def
    proof (intro impI allI)
      fix k1 k2 a b
      assume h: "stopReply t = None" "runtime_states t k1 = Some a" "runtime_states t k2 = Some b"
        "candidate a" "candidate b" "ScannerID k1 = ScannerID k2"
      show "k1 = k2"
      proof (cases "k1 = k \<or> k2 = k")
        case True
        with h other show ?thesis by (auto simp: states split: if_splits)
      next
        case False
        with h inv(4) show ?thesis by (simp add: states rcandidates_ok_def) (simp add: t)
      qed
    qed
    show "rrequests_ok {} {} t"
      by (rule rrequests_ok_cong [OF inv(5)]) (use fresh in \<open>auto simp: t map_laws\<close>)
    show "replies_ok t" using inv(6) by (simp add: t replies_ok_def)
    show "\<not> nilDeref t" using inv(7) by (simp add: t)
  qed
qed (use assms(1) in simp)

text \<open>Putting a message into a worker's queue.\<close>

lemma wk_ok_queue:
  assumes "wk_ok stop n k w" "core_message m" "queueWorkerMessage w m = (None, w')"
  shows "wk_ok stop n k w'"
proof -
  from queue_cases [OF assms(3)] have "length (outbound w) < outboundCap"
    "w' = w\<lparr>outbound := outbound w @ [m]\<rparr>" by simp_all
  with assms(1,2) show ?thesis by (simp add: wk_ok_def)
qed

lemma queue_simps:
  assumes "queueWorkerMessage w m = (err, w')"
  shows "rstate w' = rstate w" "err \<noteq> None \<Longrightarrow> w' = w"
  using queue_cases [OF assms] by auto

lemma queued_inv:
  assumes "rt_inv {} {} s" "mget (rworkers s) k = Some w"
    and "queueWorkerMessage w0 m = (None, w')" "core_message m" "rstate w0 = rstate w"
    and "wk_ok (stopReply s \<noteq> None) (open_for k (rrequests s)) k w0"
  shows "rt_inv {} {} (adjust_runtime k (\<lambda>_. w') s)"
  by (rule adjust_inv [OF assms(1,2)])
    (simp_all only: queue_simps(1) [OF assms(3)] assms(5) wk_ok_queue [OF assms(6,4,3)])

lemma unqueued_inv:
  assumes "rt_inv {} {} s" "mget (rworkers s) k = Some w" "reply_ok a"
  shows "rt_inv {} {} (handleWorkerFailure k reason (send_reply c a (adjust_runtime k (\<lambda>_. w) s)))"
proof -
  have "rt_inv {} {} (adjust_runtime k (\<lambda>_. w) s)"
    by (rule adjust_inv [OF assms(1,2)]) (use rworkers_okD [OF rt_invD(2) [OF assms(1)] assms(2)] in simp_all)
  then show ?thesis by (intro handleWorkerFailure_inv send_reply_inv assms(3))
qed

lemma beginHello_inv:
  assumes "rt_inv {} {} s"
  shows "rt_inv {} {} (beginHello txt k c s)"
proof (cases "\<exists>w. mget (rworkers s) k = Some w \<and> rstate w = WorkerStarting \<and> helloReply w = None")
  case False
  then show ?thesis
    by (auto simp: beginHello_def split: option.splits intro!: send_reply_inv [OF assms])
next
  case True
  then obtain w where w: "mget (rworkers s) k = Some w" "rstate w = WorkerStarting" "helloReply w = None"
    by blast
  note ok = rworkers_okD [OF rt_invD(2) [OF assms] w(1)]
  obtain err w' where q: "queueWorkerMessage (w\<lparr>helloReply := Some c\<rparr>) helloMessage = (err, w')"
    by (cases "queueWorkerMessage (w\<lparr>helloReply := Some c\<rparr>) helloMessage")
  show ?thesis
  proof (cases err)
    case None
    have "wk_ok (stopReply s \<noteq> None) (open_for k (rrequests s)) k (w\<lparr>helloReply := Some c\<rparr>)"
      using ok w(2) by (simp add: wk_ok_def)
    from queued_inv [OF assms w(1) q [unfolded None] _ _ this] w q None show ?thesis
      by (simp add: beginHello_def)
  next
    case (Some e)
    then have "w'\<lparr>helloReply := None\<rparr> = w" using queue_simps(2) [OF q] w(3) by simp
    with w q Some show ?thesis by (simp add: beginHello_def unqueued_inv [OF assms w(1)])
  qed
qed

lemma beginHealth_inv:
  assumes "rt_inv {} {} s"
  shows "rt_inv {} {} (beginHealth txt k c s)"
proof (cases "\<exists>w. mget (rworkers s) k = Some w \<and> rstate w = WorkerStarting \<and> healthReply w = None")
  case False
  then show ?thesis
    by (auto simp: beginHealth_def split: option.splits intro!: send_reply_inv [OF assms])
next
  case True
  then obtain w where w: "mget (rworkers s) k = Some w" "rstate w = WorkerStarting" "healthReply w = None"
    by blast
  note ok = rworkers_okD [OF rt_invD(2) [OF assms] w(1)]
  obtain err w' where q: "queueWorkerMessage (w\<lparr>healthReply := Some c\<rparr>) healthMessage = (err, w')"
    by (cases "queueWorkerMessage (w\<lparr>healthReply := Some c\<rparr>) healthMessage")
  show ?thesis
  proof (cases err)
    case None
    have "wk_ok (stopReply s \<noteq> None) (open_for k (rrequests s)) k (w\<lparr>healthReply := Some c\<rparr>)"
      using ok w(2) by (simp add: wk_ok_def)
    from queued_inv [OF assms w(1) q [unfolded None] _ _ this] w q None show ?thesis
      by (simp add: beginHealth_def)
  next
    case (Some e)
    then have "w'\<lparr>healthReply := None\<rparr> = w" using queue_simps(2) [OF q] w(3) by simp
    with w q Some show ?thesis by (simp add: beginHealth_def unqueued_inv [OF assms w(1)])
  qed
qed

end
