(* ===== verification/RuntimeSteps.thy ===== *)
theory RuntimeSteps
  imports RuntimeInv
begin

text \<open>
  Every handler of \<^verbatim>\<open>src/pkg/coordinator/runtime.go\<close>, and every step of the goroutines
  around its loop, preserves the invariant of \<^verbatim>\<open>RuntimeInv\<close>.
\<close>

section \<open>Activation and failure of a candidate\<close>

lemma wk_ok_supersede:
  assumes "wk_ok stop n k w" "rstate w = WorkerActive"
  shows "wk_ok stop n k (supersede w)"
proof (cases "inFlight w = 0")
  case True
  have "wk_ok stop n k (w\<lparr>rstate := WorkerDraining, shutdownSent := True\<rparr>)"
    using assms True by (auto simp: wk_ok_def)
  with True wk_ok_shutdown [of stop n k "w\<lparr>rstate := WorkerDraining\<rparr>"] show ?thesis
    by (simp add: supersede_def)
next
  case False
  with assms show ?thesis by (auto simp: supersede_def wk_ok_def)
qed

lemma supersede_state [simp]: "rstate (supersede w) = WorkerDraining"
  by (simp add: supersede_def Let_def)

lemma rroute_registered:
  assumes "rt_inv E W s" "mget (ractive s) scanner = Some k"
  obtains w where "mget (rworkers s) k = Some w" "rstate w = WorkerActive" "ScannerID k = scanner"
  using assms rroutes_okD [OF rt_invD(3) [OF assms(1)]] by (auto elim: runtime_statesE)

lemma activateRuntimeWorker_cases:
  assumes "activateRuntimeWorker k s = (err, t)" "rt_inv {} {} s"
  obtains "err = Some (NotHealthy k)" "t = s" "runtime_states s k \<noteq> Some WorkerHealthy"
    | "err = None" "runtime_states s k = Some WorkerHealthy"
      "t = s\<lparr>rworkers := rworkers t, ractive := mput (ScannerID k) k (ractive s)\<rparr>"
      "keys (rworkers t) = keys (rworkers s)"
      "\<And>k'. mget (rworkers t) k' =
         (if k' = k then map_option (rstate_update (\<lambda>_. WorkerActive)) (mget (rworkers s) k')
          else if mget (ractive s) (ScannerID k) = Some k' then map_option supersede (mget (rworkers s) k')
          else mget (rworkers s) k')"
proof (cases "runtime_states s k = Some WorkerHealthy")
  case False
  with assms(1) have "err = Some (NotHealthy k) \<and> t = s"
    by (auto simp: activateRuntimeWorker_def runtime_states_def split: option.splits if_splits)
  with False that(1) show ?thesis by blast
next
  case True
  then obtain w where w: "mget (rworkers s) k = Some w" "rstate w = WorkerHealthy"
    by (rule runtime_statesE)
  show ?thesis
  proof (cases "mget (ractive s) (ScannerID k)")
    case None
    with assms(1) w have "err = None"
      "t = adjust_runtime k (rstate_update (\<lambda>_. WorkerActive)) s\<lparr>ractive := mput (ScannerID k) k (ractive s)\<rparr>"
      by (simp_all add: activateRuntimeWorker_def)
    with True None show ?thesis by (intro that(2)) (simp_all add: adjust_runtime_def map_laws)
  next
    case (Some old)
    obtain a where a: "mget (rworkers s) old = Some a" "rstate a = WorkerActive"
      using Some rroute_registered [OF assms(2)] by blast
    with w have "old \<noteq> k" by auto
    from Some assms(1) w a have "err = None"
      "t = adjust_runtime k (rstate_update (\<lambda>_. WorkerActive)) (adjust_runtime old supersede s)
         \<lparr>ractive := mput (ScannerID k) k (ractive s)\<rparr>"
      by (simp_all add: activateRuntimeWorker_def)
    with True Some \<open>old \<noteq> k\<close> show ?thesis by (intro that(2)) (simp_all add: adjust_runtime_def map_laws)
  qed
qed

lemma activateRuntimeWorker_states:
  assumes "activateRuntimeWorker k s = (None, t)" "rt_inv {} {} s"
  shows "runtime_states t k' =
      (if k' = k then Some WorkerActive
       else if mget (ractive s) (ScannerID k) = Some k' then Some WorkerDraining
       else runtime_states s k')"
proof (cases rule: activateRuntimeWorker_cases [OF assms])
  case 2
  have "\<exists>w. mget (rworkers s) k' = Some w" if "mget (ractive s) (ScannerID k) = Some k'"
    using that rroute_registered [OF assms(2)] by blast
  with 2(2,5) show ?thesis by (auto simp: runtime_states_def)
qed simp

lemma activateRuntimeWorker_inv:
  assumes "rt_inv {} {} s" "activateRuntimeWorker k s = (err, t)"
  shows "rt_inv {} {} t"
proof (cases rule: activateRuntimeWorker_cases [OF assms(2,1)])
  case 1
  with assms(1) show ?thesis by simp
next
  case 2
  note inv = rt_invD [OF assms(1)]
  have act: "ractive t = mput (ScannerID k) k (ractive s)" and
    same: "stopReply t = stopReply s" "rrequests t = rrequests s" "nextRequestID t = nextRequestID s"
      "sent t = sent s" "nilDeref t = nilDeref s"
    by (subst 2(3), simp)+
  note states = activateRuntimeWorker_states [OF assms(2) [unfolded 2(1)] assms(1)]
  have old: "\<exists>w. mget (rworkers s) k' = Some w \<and> rstate w = WorkerActive"
    if "mget (ractive s) (ScannerID k) = Some k'" for k'
    using that rroute_registered [OF assms(1)] by blast
  show ?thesis
  proof (rule rt_invI)
    show "rkeys_ok t" using inv(1) by (simp add: rkeys_ok_def same act 2(4))
    show "rworkers_ok t"
      unfolding rworkers_ok_def
    proof (intro allI impI)
      fix k' w'
      assume w': "mget (rworkers t) k' = Some w'"
      then have "\<exists>w. mget (rworkers s) k' = Some w" by (auto simp: 2(5) split: if_splits)
      then obtain w where w: "mget (rworkers s) k' = Some w" by blast
      note ok = rworkers_okD [OF inv(2) w]
      have healthy: "rstate w = WorkerHealthy" if "k' = k"
        using that w 2(2) by (simp add: runtime_states_def)
      have "w' = (if k' = k then w\<lparr>rstate := WorkerActive\<rparr>
        else if mget (ractive s) (ScannerID k) = Some k' then supersede w else w)"
        using w' w by (simp add: 2(5) split: if_splits)
      moreover have "wk_ok (stopReply s \<noteq> None) (open_for k' (rrequests s)) k' (w\<lparr>rstate := WorkerActive\<rparr>)"
        if "k' = k" using ok healthy [OF that] by (auto simp: wk_ok_def)
      moreover have "wk_ok (stopReply s \<noteq> None) (open_for k' (rrequests s)) k' (supersede w)"
        if "mget (ractive s) (ScannerID k) = Some k'"
        using wk_ok_supersede [OF ok] old [OF that] w by simp
      ultimately show "wk_ok (stopReply t \<noteq> None) (open_for k' (rrequests t)) k' w'"
        using ok unfolding same by presburger
    qed
    show "rroutes_ok t"
      using rroutes_okD [OF inv(3)] rroutes_one [OF inv(3)]
      unfolding rroutes_ok_def states act mget_mput by auto
    show "rcandidates_ok t"
      by (rule rcandidates_okI [OF inv(4)]) (auto simp: same states candidate_def split: if_splits)
    show "rrequests_ok {} {} t"
    proof (rule rrequests_ok_cong [OF inv(5) same(2,3,1)])
      fix i r k' m w
      assume w: "mget (rworkers s) k' = Some w"
      then have "runtime_states t k' \<in> {Some WorkerActive, Some WorkerDraining, Some (rstate w)}"
        by (simp add: states mget_runtime_states)
      then show "\<exists>w'. mget (rworkers t) k' = Some w' \<and>
          (may_answer (rstate w) \<longrightarrow> may_answer (rstate w') \<or> (i, k') \<in> {})"
        by (auto simp: may_answer_def elim: runtime_statesE)
    qed
    show "replies_ok t" using inv(6) by (simp add: replies_ok_def same)
    show "\<not> nilDeref t" using inv(7) by (simp add: same)
  qed
qed

lemma wk_ok_terminate:
  "wk_ok stop n k w \<Longrightarrow> wk_ok stop n k (w\<lparr>rchild := snd (Terminate kill (rchild w))\<rparr>)"
  by (simp add: wk_ok_def)

lemma adjust_runtime_inv:
  assumes "rt_inv E W s" "\<And>w. rstate (f w) = rstate w"
    and "\<And>stop n w. wk_ok stop n k w \<Longrightarrow> wk_ok stop n k (f w)"
  shows "rt_inv E W (adjust_runtime k f s)"
proof (cases "mget (rworkers s) k")
  case None
  then have "adjust_runtime k f s = s" by (simp add: adjust_runtime_def madjust_other mget_None_iff)
  with assms(1) show ?thesis by simp
next
  case (Some w)
  show ?thesis
    by (rule adjust_inv [OF assms(1) Some])
      (rule assms(2), rule assms(3) [OF rworkers_okD [OF rt_invD(2) [OF assms(1)] Some]])
qed

lemma failRuntimeWorker_inv:
  assumes "rt_inv {} {} s" "failRuntimeWorker kill k reason s = (err, t)"
  shows "rt_inv {} {} t"
proof -
  have "rt_inv {} {} (adjust_runtime k (\<lambda>w. w\<lparr>rchild := snd (Terminate kill (rchild w))\<rparr>)
      (handleWorkerFailure k reason s))"
    by (rule adjust_runtime_inv [OF handleWorkerFailure_inv [OF assms(1)]]) (simp_all add: wk_ok_terminate)
  with assms show ?thesis
    by (auto simp: failRuntimeWorker_def split: option.splits if_splits)
qed

section \<open>Scan results and timeouts\<close>

lemma recordRuntimeScanResult_inv:
  assumes "rt_inv {} {} s" "Validate m = None" "mType m = TypeScanResult"
  shows "rt_inv {} {} (recordRuntimeScanResult k m s)"
proof (cases "\<exists>r cur. mget (rrequests s) (mRequestID m) = Some r \<and>
    mget (reqResults r) k = Some cur \<and> mType cur = ''''")
  case False
  with assms(1) show ?thesis by (auto simp: recordRuntimeScanResult_def split: option.splits)
next
  case True
  then obtain r cur where r: "mget (rrequests s) (mRequestID m) = Some r"
    "mget (reqResults r) k = Some cur" "mType cur = ''''" by blast
  let ?i = "mRequestID m"
  let ?s = "adjust_request ?i (\<lambda>r. r\<lparr>reqResults := mput k m (reqResults r)\<rparr>) s"
  have valid: "valid_result ?i m" using assms(2,3) by (simp add: valid_result_def)
  have keys: "keys (mput k m (reqResults r)) = keys (reqResults r)"
    using mget_SomeD [OF r(2)] by (simp add: update_keys)
  have "rt_inv {} {?i} ?s"
    using valid by (intro fill_inv [OF assms(1)]) (auto simp: r(1) keys map_laws split: if_splits)
  from completeRequestIfReady_inv [OF this, of ?i] rrequests_okD(2) [OF rt_invD(5) [OF assms(1)] r(1)]
  have "rt_inv {} {} (completeRequestIfReady ?i ?s)" by simp
  with r show ?thesis by (simp add: recordRuntimeScanResult_def)
qed

text \<open>Filling the pending results of a request and completing it.\<close>

lemma fillPending_results [simp]:
  "reqResults (fillPending m r) = mapvals (\<lambda>_ old. if mType old = '''' then m else old) (reqResults r)"
  "reqReply (fillPending m r) = reqReply r" "reqID (fillPending m r) = reqID r"
  by (simp_all add: fillPending_def)

lemma fillPending_answered: "mType m \<noteq> '''' \<Longrightarrow> answered (fillPending m r)"
  by (auto simp: answered_def mapvals_def split: if_splits)

lemma fill_complete_inv:
  assumes "rt_inv E W s" "mget (rrequests s) i = Some r" "valid_result i m"
  shows "rt_inv (E - {i} \<times> UNIV) (W - {i}) (completeRequest i (adjust_request i (fillPending m) s))"
proof -
  have "rt_inv E (insert i W) (adjust_request i (fillPending m) s)"
    using assms(3) by (intro fill_inv [OF assms(1)]) (auto simp: mget_mapvals fillPending_def)
  from completeRequest_inv [OF this, of i "fillPending m r"] assms(2)
    fillPending_answered [OF valid_result_type [OF assms(3)]]
  show ?thesis by (simp add: map_laws)
qed

lemma timeoutScan_inv:
  assumes "rt_inv {} {} s"
  shows "rt_inv {} {} (timeoutScan i s)"
proof (cases "mget (rrequests s) i")
  case None
  with assms show ?thesis by (simp add: timeoutScan_def)
next
  case (Some r)
  have "valid_result i (substitute i VerdictTimeout ''scan timed out'')"
    using req_okD(1) [OF rrequests_okD(1) [OF rt_invD(5) [OF assms] Some]]
    by (simp add: valid_substitute validVerdict_def)
  from fill_complete_inv [OF assms Some this] Some show ?thesis by (simp add: timeoutScan_def)
qed

section \<open>Reloads\<close>

lemma beginReload_inv:
  assumes "rt_inv {} {} s" "\<not> blank path"
  shows "rt_inv {} {} (beginReload txt scanner path c s)"
proof (cases "mget (ractive s) scanner")
  case None
  with assms(1) show ?thesis by (simp add: beginReload_def send_reply_inv)
next
  case (Some k)
  obtain w where w: "mget (rworkers s) k = Some w" "rstate w = WorkerActive"
    using rroute_registered [OF assms(1) Some] by blast
  note ok = rworkers_okD [OF rt_invD(2) [OF assms(1)] w(1)]
  show ?thesis
  proof (cases "reloadReply w")
    case (Some c')
    with \<open>mget (ractive s) scanner = Some k\<close> w assms(1) show ?thesis
      by (simp add: beginReload_def send_reply_inv)
  next
    case none: None
    let ?w = "w\<lparr>reloadReply := Some c, pendingSignaturePath := path\<rparr>"
    obtain err w' where q: "queueWorkerMessage ?w (reloadMessage path) = (err, w')"
      by (cases "queueWorkerMessage ?w (reloadMessage path)")
    show ?thesis
    proof (cases err)
      case None
      have "wk_ok (stopReply s \<noteq> None) (open_for k (rrequests s)) k ?w"
        using ok w(2) by (simp add: wk_ok_def)
      from wk_ok_queue [OF this core_reloadMessage [OF assms(2)] q [unfolded None]]
      have "wk_ok (stopReply s \<noteq> None) (open_for k (rrequests s)) k (w'\<lparr>reloadTimer := True\<rparr>)"
        by (simp add: wk_ok_def)
      moreover have "rstate (w'\<lparr>reloadTimer := True\<rparr>) = rstate w" using queue_simps(1) [OF q] by simp
      ultimately have "rt_inv {} {} (adjust_runtime k (\<lambda>_. w'\<lparr>reloadTimer := True\<rparr>) s)"
        by (intro adjust_inv [OF assms(1) w(1)])
      with Some w q None none show ?thesis by (simp add: beginReload_def)
    next
      case (Some e)
      let ?w' = "w'\<lparr>reloadReply := None, pendingSignaturePath := ''''\<rparr>"
      from Some have "?w' = w\<lparr>pendingSignaturePath := ''''\<rparr>"
        using queue_simps(2) [OF q] none by simp
      then have "rt_inv {} {} (adjust_runtime k (\<lambda>_. ?w') s)"
        using ok by (intro adjust_inv [OF assms(1) w(1)]) (simp_all add: wk_ok_def)
      with \<open>mget (ractive s) scanner = Some k\<close> w q Some none show ?thesis
        by (simp add: beginReload_def handleWorkerFailure_inv send_reply_inv)
    qed
  qed
qed

lemma recordReloadResult_inv:
  assumes "rt_inv {} {} s"
  shows "rt_inv {} {} (recordReloadResult k m s)"
proof -
  let ?s = "adjust_runtime k (\<lambda>w. w\<lparr>signaturePath := (if mSuccess m then pendingSignaturePath w
      else signaturePath w), pendingSignaturePath := ''''\<rparr>) s"
  have "rt_inv {} {} ?s" by (rule adjust_runtime_inv [OF assms]) (simp_all add: wk_ok_def)
  with assms show ?thesis
    by (auto simp: recordReloadResult_def Let_def answers_inv split: option.splits)
qed

lemma timeoutReload_inv:
  assumes "rt_inv {} {} s"
  shows "rt_inv {} {} (timeoutReload k s)"
proof -
  have "rt_inv {} {} (adjust_runtime k (pendingSignaturePath_update (\<lambda>_. ''''))
      (answerReload k zeroReload (Some ReloadTimedOut) s))"
    by (rule adjust_runtime_inv [OF answers_inv(3) [OF assms]]) (simp_all add: wk_ok_def)
  with assms show ?thesis by (simp add: timeoutReload_def split: option.splits)
qed

section \<open>Messages and exits\<close>

lemma health_inv:
  assumes "rt_inv {} {} s" "mget (rworkers s) k = Some w" "\<not> terminal (rstate w)"
    and "healthReply w = Some c"
  shows "rt_inv {} {} (answerHealth k None (adjust_runtime k (rstate_update (\<lambda>_. WorkerHealthy)) s))"
proof -
  note ok = rworkers_okD [OF rt_invD(2) [OF assms(1)] assms(2)]
  let ?f = "\<lambda>w. w\<lparr>rstate := WorkerHealthy, healthReply := None\<rparr>"
  have "rt_inv {} {} (adjust_runtime k ?f (send_reply c (DoneReply None) s))"
  proof (rule move_runtime_inv)
    show "rt_inv {} {} (send_reply c (DoneReply None) s)"
      using assms(1) by (simp add: send_reply_inv)
    show "mget (rworkers (send_reply c (DoneReply None) s)) k = Some w" using assms(2) by simp
    show "wk_ok (stopReply (send_reply c (DoneReply None) s) \<noteq> None)
        (open_for k (rrequests (send_reply c (DoneReply None) s))) k (?f w)"
      using ok assms(4) by (auto simp: wk_ok_def)
  qed (use ok assms(3,4) in \<open>auto simp: wk_ok_def candidate_def may_answer_def\<close>)
  with assms(2,4) show ?thesis
    by (simp add: answerHealth_def take_reply_def map_laws adjust_runtime_def send_reply_def
        madjust_madjust comp_def)
qed

lemma handleWorkerMessage_noop:
  assumes "\<And>w. mget (rworkers s) k = Some w \<Longrightarrow> terminal (rstate w)"
  shows "handleWorkerMessage txt k m s = s"
proof (cases "mget (rworkers s) k")
  case None
  then show ?thesis by (simp only: handleWorkerMessage_def option.case)
next
  case (Some w)
  with assms have "rstate w = WorkerFailed \<or> rstate w = WorkerRetired" by (auto simp: terminal_def)
  with Some show ?thesis by (simp only: handleWorkerMessage_def option.case if_True)
qed

lemma rt_inv_if:
  "(P \<Longrightarrow> rt_inv E W s) \<Longrightarrow> (\<not> P \<Longrightarrow> rt_inv E W t) \<Longrightarrow> rt_inv E W (if P then s else t)"
  by simp

lemma handleWorkerMessage_inv:
  assumes "rt_inv {} {} s" "Validate m = None"
  shows "rt_inv {} {} (handleWorkerMessage txt k m s)"
proof (cases "\<exists>w. mget (rworkers s) k = Some w \<and> \<not> terminal (rstate w)")
  case False
  then have "handleWorkerMessage txt k m s = s" by (intro handleWorkerMessage_noop) blast
  with assms(1) show ?thesis by simp
next
  case True
  then obtain w where w: "mget (rworkers s) k = Some w" "\<not> terminal (rstate w)" by blast
  have ack: "rt_inv {} {} (adjust_runtime k (\<lambda>w. w\<lparr>shutdownAck := True, killTimer := True\<rparr>) s)"
    by (rule adjust_runtime_inv [OF assms(1)]) (simp_all add: wk_ok_def)
  have health: "rt_inv {} {} (answerHealth k None (adjust_runtime k (rstate_update (\<lambda>_. WorkerHealthy)) s))"
    if "healthReply w \<noteq> None" using that health_inv [OF assms(1) w] by blast
  note results = recordRuntimeScanResult_inv [OF assms(1,2)]
  note others = ack answers_inv [OF assms(1)] handleWorkerFailure_inv [OF assms(1)]
    recordReloadResult_inv [OF assms(1)]
  show ?thesis
    unfolding handleWorkerMessage_def w(1) option.case
    by (intro rt_inv_if) (rule assms(1) others | erule health results)+
qed

lemma handleWorkerExit_inv:
  assumes "rt_inv {} {} s"
  shows "rt_inv {} {} (handleWorkerExit k e s)"
proof (cases "mget (rworkers s) k")
  case None
  with assms show ?thesis by (simp add: handleWorkerExit_def)
next
  case (Some w)
  note ok = rworkers_okD [OF rt_invD(2) [OF assms] Some]
  have noted: "rt_inv {} {} (adjust_runtime k (rnoteExit e) s)"
    by (rule adjust_runtime_inv [OF assms]) (simp_all add: rnoteExit_def wk_ok_def)
  show ?thesis
  proof (cases "rstate w = WorkerDraining \<and> shutdownAck w")
    case True
    have "rt_inv {} {} (adjust_runtime k (rstate_update (\<lambda>_. WorkerRetired)) (adjust_runtime k (rnoteExit e) s))"
      by (rule move_runtime_inv [OF noted, where w = "rnoteExit e w"])
        (use Some ok True in \<open>auto simp: map_laws rnoteExit_def wk_ok_def candidate_def may_answer_def\<close>)
    with Some True show ?thesis by (simp add: handleWorkerExit_def)
  next
    case False
    with Some noted show ?thesis
      by (simp only: handleWorkerExit_def option.case Let_def if_False handleWorkerFailure_inv split: if_split) simp
  qed
qed

section \<open>Starting a scan\<close>

text \<open>No step unregisters a worker.\<close>

lemma keys_adjust_runtime [simp]: "keys (rworkers (adjust_runtime k f s)) = keys (rworkers s)"
  by simp

lemma keys_completeRequest [simp]: "keys (rworkers (completeRequest i s)) = keys (rworkers s)"
proof (cases "mget (rrequests s) i")
  case None
  then show ?thesis by (simp add: completeRequest_def)
next
  case (Some r)
  then show ?thesis by (simp only: completeRequest_eq) simp
qed

lemma keys_completeRequestIfReady [simp]:
  "keys (rworkers (completeRequestIfReady i s)) = keys (rworkers s)"
  by (simp add: completeRequestIfReady_def split: option.splits)

lemma keys_failResult [simp]: "keys (rworkers (failResult k reason i s)) = keys (rworkers s)"
  by (simp add: failResult_def split: option.splits)

lemma keys_fold_failResult [simp]:
  "keys (rworkers (fold (failResult k reason) is s)) = keys (rworkers s)"
  by (induction "is" arbitrary: s) simp_all

lemma keys_take_reply [simp]: "keys (rworkers (take_reply k get clear a s)) = keys (rworkers s)"
  by (simp add: take_reply_def split: option.splits)

lemma keys_handleWorkerFailure [simp]:
  "keys (rworkers (handleWorkerFailure k reason s)) = keys (rworkers s)"
  by (simp add: handleWorkerFailure_def answerHello_def answerHealth_def answerReload_def Let_def
      split: option.splits)

definition countScan :: "runtimeWorker \<Rightarrow> runtimeWorker" where
  "countScan w = w\<lparr>inFlight := inFlight w + 1\<rparr>"

text \<open>The first loop of \<^verbatim>\<open>beginScan\<close>, and the request it leaves.\<close>

lemma fold_assignScan:
  assumes "\<forall>k \<in> set ks. mget (rworkers s) k \<noteq> None"
  shows "fold (assignScan i) ks s =
    s\<lparr>rworkers := fold (\<lambda>k. madjust k countScan) ks (rworkers s),
      rrequests := madjust i (\<lambda>r. r\<lparr>reqResults :=
        fold (\<lambda>k. mput k emptyMessage) ks (reqResults r)\<rparr>) (rrequests s)\<rparr>"
  using assms
proof (induction ks arbitrary: s)
  case Nil
  have "madjust i (\<lambda>r. r) (rrequests s) = rrequests s"
    by (induction "rrequests s") (simp_all add: madjust_def split_def)
  then show ?case by simp
next
  case (Cons k ks)
  let ?s = "assignScan i k s"
  from Cons.prems have s: "?s = adjust_runtime k countScan
      (adjust_request i (\<lambda>r. r\<lparr>reqResults := mput k emptyMessage (reqResults r)\<rparr>) s)"
    by (auto simp: assignScan_def countScan_def [abs_def])
  from Cons.prems have "\<forall>k' \<in> set ks. mget (rworkers ?s) k' \<noteq> None" by (simp add: s map_laws)
  from Cons.IH [OF this] show ?case
    by (simp add: s adjust_runtime_def adjust_request_def madjust_madjust comp_def)
qed

lemma fold_mput_fresh:
  "distinct ks \<Longrightarrow> set ks \<inter> set (keys m) = {} \<Longrightarrow>
     fold (\<lambda>k. mput k v) ks m = m @ map (\<lambda>k. (k, v)) ks"
  by (induction ks arbitrary: m) (auto simp: mput_fresh)

definition newRequest :: "u64 \<Rightarrow> string \<Rightarrow> chan \<Rightarrow> WorkerKey list \<Rightarrow> runtimeRequest" where
  "newRequest i path c ks = \<lparr>reqID = i, reqPath = path,
     reqResults = map (\<lambda>k. (k, emptyMessage)) ks, reqReply = c, reqTimer = True\<rparr>"

definition assignedState :: "string \<Rightarrow> chan \<Rightarrow> WorkerKey list \<Rightarrow> runtimeState \<Rightarrow> runtimeState" where
  "assignedState path c ks s =
     (let i = nextRequestID s + 1
      in s\<lparr>nextRequestID := i, rworkers := fold (\<lambda>k. madjust k countScan) ks (rworkers s),
           rrequests := mput i (newRequest i path c ks) (rrequests s)\<rparr>)"

lemma active_workers:
  assumes "rt_inv {} {} s"
  shows "distinct (map snd (ractive s))"
    "k \<in> set (map snd (ractive s)) \<longleftrightarrow> runtime_states s k = Some WorkerActive"
proof -
  note inv = rt_invD [OF assms]
  note dist = rkeys_okD(2) [OF inv(1)]
  have "ScannerID k = scanner" if "(scanner, k) \<in> set (ractive s)" for scanner k
    using that dist rroutes_unique [OF inv(3)] by (simp add: mget_set)
  then have "map (ScannerID \<circ> snd) (ractive s) = keys (ractive s)" by force
  with dist show "distinct (map snd (ractive s))" by (metis distinct_map map_map)
  show "k \<in> set (map snd (ractive s)) \<longleftrightarrow> runtime_states s k = Some WorkerActive"
  proof
    assume "k \<in> set (map snd (ractive s))"
    then obtain scanner where "(scanner, k) \<in> set (ractive s)" by auto
    with dist rroutes_okD [OF inv(3), of scanner k] show "runtime_states s k = Some WorkerActive"
      by (simp add: mget_set)
  next
    assume "runtime_states s k = Some WorkerActive"
    with rroutes_okD [OF inv(3), of "ScannerID k" k] dist have "(ScannerID k, k) \<in> set (ractive s)"
      by (simp add: mget_set)
    then show "k \<in> set (map snd (ractive s))" by force
  qed
qed

lemma u64_succ:
  fixes n :: u64
  assumes "n < - 1"
  shows "0 < n + 1" "n < n + 1" "m \<le> n \<Longrightarrow> m \<le> n + 1" "m \<le> n \<Longrightarrow> m \<noteq> n + 1"
proof -
  have "unat n < unat (- 1 :: u64)" using assms by (simp only: word_less_nat_alt)
  moreover have "unat (- 1 :: u64) = 2 ^ 64 - 1" by (simp add: unsigned_minus_1_eq_mask mask_eq_exp_minus_1)
  ultimately have "unat n + 1 < 2 ^ 64" by simp
  then have "unat (n + 1) = unat n + 1" by (simp add: unat_word_ariths)
  then have *: "n < n + 1" by (simp add: word_less_nat_alt)
  show "n < n + 1" by (rule *)
  then show "0 < n + 1" by (metis word_gt_0 word_not_simps(1))
  show "m \<le> n \<Longrightarrow> m \<le> n + 1" "m \<le> n \<Longrightarrow> m \<noteq> n + 1" using * by auto
qed

lemma assign_eq:
  assumes "rt_inv {} {} s" "nextRequestID s < - 1"
  shows "adjust_request (nextRequestID s + 1) (reqTimer_update (\<lambda>_. True))
      (fold (assignScan (nextRequestID s + 1)) (map snd (ractive s)) (openScan path c s)) =
    assignedState path c (map snd (ractive s)) s"
proof -
  let ?i = "nextRequestID s + 1" and ?ks = "map snd (ractive s)"
  note inv = rt_invD [OF assms(1)]
  have fresh: "mget (rrequests s) ?i = None"
  proof (rule ccontr)
    assume "mget (rrequests s) ?i \<noteq> None"
    then obtain r where "mget (rrequests s) ?i = Some r" by blast
    from req_okD(2) [OF rrequests_okD(1) [OF inv(5) this]] u64_succ(2) [OF assms(2)] show False by simp
  qed
  have reg: "\<forall>k \<in> set ?ks. mget (rworkers (openScan path c s)) k \<noteq> None"
    using active_workers(2) [OF assms(1)] by (auto simp: openScan_def Let_def runtime_states_def)
  have put: "madjust ?i f (mput ?i r (rrequests s)) = mput ?i (f r) (rrequests s)" for f r
    using fresh by (simp add: mget_None_iff madjust_mput_fresh)
  from fold_mput_fresh [OF active_workers(1) [OF assms(1)], of "[]" emptyMessage]
  show ?thesis
    unfolding fold_assignScan [OF reg]
    by (simp add: adjust_request_def openScan_def Let_def assignedState_def newRequest_def put)
qed

lemma wk_ok_count:
  "wk_ok False n k w \<Longrightarrow> rstate w = WorkerActive \<Longrightarrow> wk_ok False (n + 1) k (countScan w)"
  by (auto simp: wk_ok_def countScan_def)

lemma newRequest_simps [simp]:
  "reqID (newRequest i path c ks) = i" "reqReply (newRequest i path c ks) = c"
  "keys (reqResults (newRequest i path c ks)) = ks"
  by (simp_all add: newRequest_def comp_def)

lemma fresh_id:
  assumes "rt_inv E W s" "nextRequestID s < - 1"
  shows "mget (rrequests s) (nextRequestID s + 1) = None"
proof (rule ccontr)
  assume "mget (rrequests s) (nextRequestID s + 1) \<noteq> None"
  then obtain r where "mget (rrequests s) (nextRequestID s + 1) = Some r" by blast
  from req_okD(2) [OF rrequests_okD(1) [OF rt_invD(5) [OF assms(1)] this]] u64_succ(2) [OF assms(2)]
  show False by simp
qed

lemma assignedState_inv:
  assumes "rt_inv {} {} s" "nextRequestID s < - 1" "stopReply s = None" "ractive s \<noteq> []"
  shows "rt_inv {} {} (assignedState path c (map snd (ractive s)) s)" (is "rt_inv {} {} ?t")
proof (rule rt_invI)
  note inv = rt_invD [OF assms(1)]
  let ?i = "nextRequestID s + 1"
  obtain ks where ks: "ks = map snd (ractive s)" by simp
  have active: "distinct ks" "\<And>k. k \<in> set ks \<longleftrightarrow> runtime_states s k = Some WorkerActive"
    using active_workers [OF assms(1)] by (simp_all only: ks)
  let ?r = "newRequest ?i path c ks"
  have t: "?t = s\<lparr>nextRequestID := ?i, rworkers := fold (\<lambda>k. madjust k countScan) ks (rworkers s),
      rrequests := mput ?i ?r (rrequests s)\<rparr>"
    by (simp add: assignedState_def Let_def ks)
  note fresh = fresh_id [OF assms(1,2)]
  have rq: "rrequests ?t = mput ?i ?r (rrequests s)" by (simp add: t)
  have get: "mget (rworkers ?t) k = (if k \<in> set ks then map_option countScan (mget (rworkers s) k)
      else mget (rworkers s) k)" for k
    by (simp add: t mget_fold_madjust [OF active(1)])
  have states: "runtime_states ?t = runtime_states s"
    by (auto simp: runtime_states_def get option.map_comp countScan_def comp_def)
  have n: "open_for k (rrequests ?t) = open_for k (rrequests s) + of_bool (k \<in> set ks)" for k
    by (simp only: open_for_def rq map_sum_mput_fresh [OF fresh] newRequest_simps)
  have same: "stopReply ?t = None" "nextRequestID ?t = ?i" by (simp_all add: t assms(3))
  show "rkeys_ok ?t" using inv(1) by (simp add: rkeys_ok_def t)
  show "rworkers_ok ?t"
    unfolding rworkers_ok_def
  proof (intro allI impI)
    fix k w'
    assume "mget (rworkers ?t) k = Some w'"
    then obtain w where w: "mget (rworkers s) k = Some w" "w' = (if k \<in> set ks then countScan w else w)"
      by (cases "k \<in> set ks") (auto simp: get)
    have ok: "wk_ok False (open_for k (rrequests s)) k w"
      using rworkers_okD [OF inv(2) w(1)] assms(3) by simp
    have "rstate w = WorkerActive" if "k \<in> set ks"
      using that w(1) active(2) by (simp add: mget_runtime_states)
    with wk_ok_count [OF ok] ok
    show "wk_ok (stopReply ?t \<noteq> None) (open_for k (rrequests ?t)) k w'"
      by (cases "k \<in> set ks") (simp_all only: n w(2) same if_True if_False of_bool_eq add_0_right
          not_True_eq_False simp_thms)
  qed
  show "rroutes_ok ?t" using inv(3) by (simp add: rroutes_ok_def states) (simp add: t)
  show "rcandidates_ok ?t" using inv(4) assms(3) by (simp add: rcandidates_ok_def states)
  show "rrequests_ok {} {} ?t"
    unfolding rrequests_ok_def
  proof (intro allI impI)
    fix j q
    assume q: "mget (rrequests ?t) j = Some q"
    have regs: "\<exists>w'. mget (rworkers ?t) k = Some w' \<and> rstate w' = rstate w"
      if "mget (rworkers s) k = Some w" for k w
      using that by (simp add: get countScan_def)
    show "req_ok {} ?t j q \<and> (j \<in> {} \<or> \<not> answered q \<and> stopReply ?t = None)"
    proof (cases "j = ?i")
      case True
      with q have q: "q = ?r" by (simp add: rq map_laws)
      have nonempty: "ks \<noteq> []" using assms(4) by (simp add: ks)
      have "\<exists>w. mget (rworkers ?t) k = Some w \<and>
          (if mType m = '''' then m = emptyMessage \<and> (may_answer (rstate w) \<or> (j, k) \<in> {})
           else valid_result j m)" if "mget (reqResults q) k = Some m" for k m
      proof -
        from that have m: "(k, m) \<in> set (reqResults q)" by (rule map_of_SomeD)
        then have m: "k \<in> set ks" "m = emptyMessage" by (auto simp: q newRequest_def)
        then obtain w where "mget (rworkers s) k = Some w" "rstate w = WorkerActive"
          using active(2) by (auto elim: runtime_statesE)
        with regs [of k w] m(2) show ?thesis by (auto simp: may_answer_def emptyMessage_def)
      qed
      moreover have "\<not> answered q"
        using nonempty by (cases ks) (simp_all add: q newRequest_def answered_def emptyMessage_def)
      moreover have "0 < j" "j \<le> nextRequestID ?t" "reqID q = j" "reqTimer q" "reqResults q \<noteq> []"
        "distinct (keys (reqResults q))"
        using nonempty active(1) u64_succ(1) [OF assms(2)]
        by (simp_all add: same True q newRequest_def comp_def)
      ultimately show ?thesis using same(1) by (simp add: req_ok_def)
    next
      case False
      with q have q: "mget (rrequests s) j = Some q" by (simp add: t map_laws)
      note ok = rrequests_okD [OF inv(5) q]
      have "\<exists>w. mget (rworkers ?t) k = Some w \<and>
          (if mType m = '''' then m = emptyMessage \<and> (may_answer (rstate w) \<or> (j, k) \<in> {})
           else valid_result j m)" if m: "mget (reqResults q) k = Some m" for k m
      proof (rule req_okE [OF ok(1) m])
        fix w
        assume w: "mget (rworkers s) k = Some w"
          "mType m = '''' \<Longrightarrow> m = emptyMessage \<and> (may_answer (rstate w) \<or> (j, k) \<in> {})"
          "mType m \<noteq> '''' \<Longrightarrow> valid_result j m"
        with regs [OF w(1)] show ?thesis by (cases "mType m = ''''") auto
      qed
      moreover have "j \<le> nextRequestID ?t"
        using req_okD(2) [OF ok(1)] u64_succ(3) [OF assms(2)] by (simp add: same)
      ultimately have "req_ok {} ?t j q" using req_okD [OF ok(1)] by (simp add: req_ok_def)
      with ok(2) same(1) show ?thesis by simp
    qed
  qed
  show "replies_ok ?t" using inv(6) by (simp add: replies_ok_def t)
  show "\<not> nilDeref ?t" using inv(7) by (simp add: t)
qed

lemma sendScan_inv:
  assumes "rt_inv {} {} s" "k \<in> set (keys (rworkers s))" "core_message (scanMessage i path)"
  shows "rt_inv {} {} (sendScan txt i path k s)"
proof -
  obtain w where w: "mget (rworkers s) k = Some w" using assms(2) by (rule in_keysE)
  obtain err w' where q: "queueWorkerMessage w (scanMessage i path) = (err, w')"
    by (cases "queueWorkerMessage w (scanMessage i path)")
  show ?thesis
  proof (cases err)
    case None
    from queued_inv [OF assms(1) w q [unfolded None] assms(3) refl]
      rworkers_okD [OF rt_invD(2) [OF assms(1)] w]
    show ?thesis using w q None by (simp add: sendScan_def)
  next
    case (Some e)
    with w q show ?thesis by (simp add: sendScan_def handleWorkerFailure_inv [OF assms(1)])
  qed
qed

lemma keys_sendScan [simp]: "keys (rworkers (sendScan txt i path k s)) = keys (rworkers s)"
  by (simp add: sendScan_def panic_def split: option.splits prod.splits)

lemma beginScan_cases:
  assumes "rt_inv {} {} s" "nextRequestID s < - 1"
  obtains "stopReply s \<noteq> None" "beginScan txt path c s = send_reply c (ScanReply zeroScan (Some ShuttingDown)) s"
    | "stopReply s = None" "ractive s = []"
      "beginScan txt path c s = send_reply c (ScanReply zeroScan (Some NoActiveWorkers)) s"
    | "stopReply s = None" "ractive s \<noteq> []"
      "beginScan txt path c s = fold (sendScan txt (nextRequestID s + 1) path) (map snd (ractive s))
         (assignedState path c (map snd (ractive s)) s)"
proof (cases "stopReply s = None \<and> ractive s \<noteq> []")
  case True
  then have "beginScan txt path c s = fold (sendScan txt (nextRequestID s + 1) path) (map snd (ractive s))
         (assignedState path c (map snd (ractive s)) s)"
    by (simp only: beginScan_def Let_def assign_eq [OF assms]) simp
  with True that(3) show ?thesis by blast
next
  case False
  with that(1,2) show ?thesis by (auto simp: beginScan_def)
qed

lemma beginScan_inv:
  assumes "rt_inv {} {} s" "nextRequestID s < - 1" "\<not> blank path"
  shows "rt_inv {} {} (beginScan txt path c s)"
proof (cases rule: beginScan_cases [OF assms(1,2), of "txt" path c])
  case 1
  with assms(1) show ?thesis by (simp add: send_reply_inv)
next
  case 2
  with assms(1) show ?thesis by (simp add: send_reply_inv)
next
  case 3
  let ?i = "nextRequestID s + 1" and ?ks = "map snd (ractive s)"
  have core: "core_message (scanMessage ?i path)"
    using u64_succ(1) [OF assms(2)] assms(3) by (rule core_scanMessage)
  let ?P = "\<lambda>u. rt_inv {} {} u \<and> keys (rworkers u) = keys (rworkers s)"
  have reg: "k \<in> set (keys (rworkers s))" if k: "k \<in> set ?ks" for k
  proof (rule runtime_statesE)
    show "runtime_states s k = Some WorkerActive" using k active_workers(2) [OF assms(1)] by blast
  qed (rule mget_SomeD)
  have step: "?P (sendScan txt ?i path k u)" if k: "k \<in> set ?ks" and u: "?P u" for k u
  proof
    from u show "rt_inv {} {} (sendScan txt ?i path k u)"
      using reg [OF k] by (intro sendScan_inv core) simp_all
  qed (use u in simp)
  have "?P (assignedState path c ?ks s)"
    using assignedState_inv [OF assms(1,2) 3(1,2)] by (simp add: assignedState_def Let_def)
  then have "?P (fold (sendScan txt ?i path) ?ks (assignedState path c ?ks s))"
    by (rule fold_invariant_set) (rule step)
  with 3(3) show ?thesis by simp
qed

section \<open>Shutdown\<close>

lemma wk_ok_stop: "wk_ok stop n k w \<Longrightarrow> wk_ok True n k w"
  by (auto simp: wk_ok_def)

lemma announce_stop_inv:
  assumes "rt_inv {} {} s"
  shows "rt_inv {} (set (keys (rrequests s))) (s\<lparr>stopReply := Some c\<rparr>)"
proof -
  note inv = rt_invD [OF assms]
  have states: "runtime_states (s\<lparr>stopReply := Some c\<rparr>) = runtime_states s"
    by (rule runtime_states_cong) simp
  have "rrequests_ok {} (set (keys (rrequests s))) (s\<lparr>stopReply := Some c\<rparr>)"
    unfolding rrequests_ok_def
  proof (intro allI impI conjI)
    fix i r
    assume "mget (rrequests (s\<lparr>stopReply := Some c\<rparr>)) i = Some r"
    then have r: "mget (rrequests s) i = Some r" by simp
    from rrequests_okD(1) [OF inv(5) r] show "req_ok {} (s\<lparr>stopReply := Some c\<rparr>) i r"
      by (simp add: req_ok_def)
    from mget_SomeD [OF r]
    show "i \<in> set (keys (rrequests s)) \<or> \<not> answered r \<and> stopReply (s\<lparr>stopReply := Some c\<rparr>) = None" ..
  qed
  with inv show ?thesis
    by (auto simp: rt_inv_def rkeys_ok_def rworkers_ok_def rroutes_ok_def rcandidates_ok_def
        replies_ok_def states intro: wk_ok_stop)
qed

lemma cancelRequest_inv:
  assumes "rt_inv {} W s"
  shows "rt_inv {} (W - {i}) (cancelRequest i s)"
proof (cases "mget (rrequests s) i")
  case None
  have "adjust_request i f s = s" for f
    using None by (simp add: adjust_request_def madjust_other mget_None_iff)
  moreover have "rrequests_ok {} (W - {i}) s"
    using rt_invD(5) [OF assms] None unfolding rrequests_ok_def by fastforce
  ultimately show ?thesis
    using assms None by (simp add: cancelRequest_def completeRequest_def rt_inv_def)
next
  case (Some r)
  have "valid_result i (substitute i VerdictUnavailable ''core is shutting down'')"
    using req_okD(1) [OF rrequests_okD(1) [OF rt_invD(5) [OF assms] Some]]
    by (simp add: valid_substitute validVerdict_def)
  from fill_complete_inv [OF assms Some this] show ?thesis by (simp add: cancelRequest_def)
qed

lemma fold_cancelRequest_inv:
  "rt_inv {} W s \<Longrightarrow> rt_inv {} (W - set is) (fold cancelRequest is s)"
proof (induction "is" arbitrary: W s)
  case Nil
  then show ?case by simp
next
  case (Cons i "is")
  have "W - set (i # is) = W - {i} - set is" by auto
  with Cons.IH [OF cancelRequest_inv [OF Cons.prems]] show ?case by (simp only: fold_simps)
qed

lemma completeRequest_stop [simp]: "stopReply (completeRequest i s) = stopReply s"
proof (cases "mget (rrequests s) i")
  case None
  then show ?thesis by (simp add: completeRequest_def)
next
  case (Some r)
  then show ?thesis by (simp add: completeRequest_eq)
qed

lemma fold_cancelRequest_stop [simp]: "stopReply (fold cancelRequest is s) = stopReply s"
  by (induction "is" arbitrary: s) (simp_all add: cancelRequest_def)

lemma wk_ok_drain: "wk_ok True 0 k w \<Longrightarrow> wk_ok True 0 k (drainWorker w)"
proof -
  assume ok: "wk_ok True 0 k w"
  have "wk_ok True 0 k (w\<lparr>rstate := WorkerDraining, shutdownSent := True\<rparr>)"
    if "rstate w \<noteq> WorkerFailed" "rstate w \<noteq> WorkerRetired"
    using ok that by (auto simp: wk_ok_def)
  with ok wk_ok_shutdown [of True 0 k "w\<lparr>rstate := WorkerDraining\<rparr>"] show ?thesis
    by (simp add: drainWorker_def)
qed

lemma drainWorker_state:
  "rstate (drainWorker w) = (if terminal (rstate w) then rstate w else WorkerDraining)"
  by (auto simp: drainWorker_def terminal_def)

lemma no_requests:
  assumes "rt_inv {} {} s" "stopReply s \<noteq> None"
  shows "rrequests s = []"
proof (cases "rrequests s")
  case (Cons p rs)
  then have "mget (rrequests s) (fst p) = Some (snd p)" by (cases p) simp
  from rrequests_okD(2) [OF rt_invD(5) [OF assms(1)] this] assms(2) show ?thesis by simp
qed

lemma beginShutdown_inv:
  assumes "rt_inv {} {} s"
  shows "rt_inv {} {} (beginShutdown (s\<lparr>stopReply := Some c\<rparr>))" (is "rt_inv {} {} ?t")
proof -
  let ?s1 = "fold cancelRequest (keys (rrequests s)) (s\<lparr>stopReply := Some c\<rparr>)"
  have s1: "rt_inv {} {} ?s1"
    using fold_cancelRequest_inv [OF announce_stop_inv [OF assms], of "keys (rrequests s)"] by simp
  have stop: "stopReply ?s1 = Some c" by simp
  have none: "rrequests ?s1 = []" by (rule no_requests [OF s1]) (simp add: stop)
  have t: "?t = ?s1\<lparr>ractive := [], rworkers := mapvals (\<lambda>_. drainWorker) (rworkers ?s1)\<rparr>"
    by (simp add: beginShutdown_def Let_def)
  note inv = rt_invD [OF s1]
  have "rworkers_ok ?t"
    unfolding rworkers_ok_def
  proof (intro allI impI)
    fix k w'
    assume "mget (rworkers ?t) k = Some w'"
    then obtain w where w: "mget (rworkers ?s1) k = Some w" "w' = drainWorker w"
      by (auto simp: t mget_mapvals)
    from rworkers_okD [OF inv(2) w(1)] have "wk_ok True 0 k w"
      by (simp add: stop none open_for_def)
    with w(2) show "wk_ok (stopReply ?t \<noteq> None) (open_for k (rrequests ?t)) k w'"
      by (simp add: t none open_for_def wk_ok_drain)
  qed
  moreover have "rroutes_ok ?t"
    by (auto simp: rroutes_ok_def t runtime_states_def mget_mapvals drainWorker_state terminal_def
        split: if_splits)
  ultimately show ?thesis
    using inv by (simp add: rt_inv_def t rkeys_ok_def rcandidates_ok_def rrequests_ok_def none
        replies_ok_def)
qed

section \<open>The end of the loop\<close>

lemma closeWorker_simps [simp]:
  "rstate (closeWorker kill w) = rstate w" "rkey (closeWorker kill w) = rkey w"
  by (simp_all add: closeWorker_def Let_def)

lemma wk_ok_close: "wk_ok stop n k w \<Longrightarrow> wk_ok stop n k (closeWorker kill w)"
  by (auto simp: closeWorker_def Let_def wk_ok_def)

lemma mapvals_inv:
  assumes "rt_inv E W s" "\<And>w. rstate (f w) = rstate w"
    and "\<And>stop n k w. wk_ok stop n k w \<Longrightarrow> wk_ok stop n k (f w)"
  shows "rt_inv E W (s\<lparr>rworkers := mapvals (\<lambda>_. f) (rworkers s)\<rparr>)" (is "rt_inv E W ?t")
proof -
  note inv = rt_invD [OF assms(1)]
  have states: "runtime_states ?t = runtime_states s"
    by (simp add: runtime_states_def fun_eq_iff mget_mapvals option.map_comp comp_def assms(2))
  have "rrequests_ok E W ?t"
    by (rule rrequests_ok_cong [OF inv(5)]) (auto simp: mget_mapvals assms(2))
  moreover have "rworkers_ok ?t"
    using inv(2) by (auto simp: rworkers_ok_def mget_mapvals intro: assms(3))
  ultimately show ?thesis
    using inv by (simp add: rt_inv_def rkeys_ok_def rroutes_ok_def rcandidates_ok_def replies_ok_def states)
qed

lemma status_inv [simp]: "rt_inv E W (s\<lparr>status := x\<rparr>) = rt_inv E W s"
proof -
  have "runtime_states (s\<lparr>status := x\<rparr>) = runtime_states s" by (rule runtime_states_cong) simp
  then show ?thesis
    by (simp add: rt_inv_def rkeys_ok_def rworkers_ok_def rroutes_ok_def rcandidates_ok_def
        rrequests_ok_def req_ok_def replies_ok_def)
qed

lemma cleanup_inv: "rt_inv {} {} s \<Longrightarrow> rt_inv {} {} (cleanup kill s)"
  unfolding cleanup_def by (rule mapvals_inv) (simp_all add: wk_ok_close)

lemma stop_check_inv: "rt_inv {} {} s \<Longrightarrow> rt_inv {} {} (stop_check kill s)"
  by (simp add: stop_check_def cleanup_inv send_reply_inv split: option.splits)

section \<open>A turn of the loop\<close>

lemma send_done_inv: "rt_inv {} {} (snd p) \<Longrightarrow> rt_inv {} {} (send_done c p)"
  by (simp add: send_done_def send_reply_inv)

lemma activeWorker_inv:
  assumes "rt_inv {} {} s"
  shows "rt_inv {} {} (activeWorker scanner c s)"
proof (cases "mget (ractive s) scanner")
  case None
  with assms show ?thesis by (simp add: activeWorker_def send_reply_inv)
next
  case (Some k)
  obtain w where "mget (rworkers s) k = Some w" using rroute_registered [OF assms Some] by blast
  with Some assms show ?thesis by (simp add: activeWorker_def send_reply_inv)
qed

lemma handle_inv:
  assumes "rt_inv {} {} s" "event_ok s e"
  shows "rt_inv {} {} (handle kill txt e s)"
proof (cases e)
  case (RegisterRuntime w ch c)
  with assms(1) show ?thesis
    by (simp add: send_done_inv registerRuntimeWorker_inv [OF assms(1), of w ch "fst (registerRuntimeWorker w ch s)"])
next
  case (HelloRuntime k c)
  with assms(1) show ?thesis by (simp add: beginHello_inv)
next
  case (HealthRuntime k c)
  with assms(1) show ?thesis by (simp add: beginHealth_inv)
next
  case (ActivateRuntime k c)
  with assms(1) show ?thesis
    by (simp add: send_done_inv activateRuntimeWorker_inv [OF assms(1), of k "fst (activateRuntimeWorker k s)"])
next
  case (FailRuntime k reason c)
  with assms(1) show ?thesis
    by (simp add: send_done_inv failRuntimeWorker_inv [OF assms(1), of kill k reason
        "fst (failRuntimeWorker kill k reason s)"])
next
  case (WorkerMessage k m)
  with assms show ?thesis by (simp add: event_ok_def handleWorkerMessage_inv)
next
  case (WorkerFailure k reason)
  with assms(1) show ?thesis by (simp add: handleWorkerFailure_inv)
next
  case (WorkerExit k x)
  with assms(1) show ?thesis by (simp add: handleWorkerExit_inv)
next
  case (ScanRuntime path c)
  with assms show ?thesis by (simp add: event_ok_def beginScan_inv)
next
  case (ScanTimeout i)
  with assms(1) show ?thesis by (simp add: timeoutScan_inv)
next
  case (ReloadRuntime scanner path c)
  with assms show ?thesis by (simp add: event_ok_def beginReload_inv)
next
  case (ReloadTimeout k)
  with assms(1) show ?thesis by (simp add: timeoutReload_inv)
next
  case (SnapshotRuntime c)
  with assms(1) show ?thesis by (simp add: send_reply_inv)
next
  case (ActiveRuntime scanner c)
  with assms(1) show ?thesis by (simp add: activeWorker_inv)
next
  case (ShutdownRuntime c)
  with assms(1) show ?thesis by (simp add: beginShutdown_inv)
qed

lemma runtime_turn_cases:
  obtains c x where "e = ShutdownRuntime c" "stopReply s = Some x"
      "runtime_turn kill txt e s = send_reply c (DoneReply (Some AlreadyStopping)) s"
    | "\<And>c. e = ShutdownRuntime c \<Longrightarrow> stopReply s = None"
      "runtime_turn kill txt e s = stop_check kill (handle kill txt e s)"
proof (cases "\<exists>c x. e = ShutdownRuntime c \<and> stopReply s = Some x")
  case True
  with that(1) show ?thesis by (auto simp: runtime_turn_def)
next
  case False
  then have "runtime_turn kill txt e s = stop_check kill (handle kill txt e s)"
    by (auto simp: runtime_turn_def split: event.split option.split)
  with False that(2) show ?thesis by (metis option.exhaust)
qed

lemma runtime_turn_inv:
  assumes "rt_inv {} {} s" "event_ok s e"
  shows "rt_inv {} {} (runtime_turn kill txt e s)"
proof (cases rule: runtime_turn_cases [of e s kill "txt"])
  case (1 c x)
  with assms(1) show ?thesis by (simp add: send_reply_inv)
next
  case 2
  with handle_inv [OF assms] show ?thesis by (simp add: stop_check_inv)
qed

section \<open>Permuted maps\<close>

lemma same_request_set: "same_request r r' \<Longrightarrow> set (reqResults r') = set (reqResults r)"
  unfolding same_request_def by (metis same_map_set)

lemma all2_requests:
  assumes "list_all2 (\<lambda>(i, r) (j, r'). i = j \<and> same_request r r') rs rs'"
  shows "keys rs' = keys rs \<and> rel_option same_request (mget rs i) (mget rs' i) \<and>
    open_for k rs' = open_for k rs"
  using assms
proof (induction rule: list_all2_induct)
  case Nil
  then show ?case by simp
next
  case (Cons p rs p' rs')
  then show ?case
    by (cases p; cases p') (simp add: open_for_def same_request_set)
qed

lemma same_requests_views:
  assumes "same_requests rs rs'" "distinct (keys rs)"
  shows "distinct (keys rs')" "rel_option same_request (mget rs i) (mget rs' i)"
    "open_for k rs' = open_for k rs"
proof -
  from assms(1) obtain rs1 where rs1: "same_map rs rs1"
    "list_all2 (\<lambda>(i, r) (j, r'). i = j \<and> same_request r r') rs1 rs'"
    by (auto simp: same_requests_def)
  note all2 = all2_requests [OF rs1(2)]
  have "distinct (keys rs1)" using assms(2) rs1(1) by (simp add: same_map_keys)
  with all2 show "distinct (keys rs')" by simp
  from all2 same_map_get [OF rs1(1) assms(2)]
  show "rel_option same_request (mget rs i) (mget rs' i)" by metis
  from all2 show "open_for k rs' = open_for k rs"
    using map_sum_same_map [OF rs1(1)] by (metis open_for_def)
qed

lemma same_request_results:
  assumes "same_request r r'" "distinct (keys (reqResults r))"
  shows "mget (reqResults r') = mget (reqResults r)" "distinct (keys (reqResults r'))"
    "reqResults r' = [] \<longleftrightarrow> reqResults r = []" "answered r' = answered r"
    "reqID r' = reqID r" "reqTimer r' = reqTimer r" "reqReply r' = reqReply r"
proof -
  have m: "same_map (reqResults r) (reqResults r')" and r': "r' = r\<lparr>reqResults := reqResults r'\<rparr>"
    using assms(1) by (simp_all add: same_request_def)
  show "mget (reqResults r') = mget (reqResults r)" by (rule same_map_get [OF m assms(2)])
  show "distinct (keys (reqResults r'))" using same_map_keys [OF m] assms(2) by simp
  show "reqResults r' = [] \<longleftrightarrow> reqResults r = []" using m by (auto simp: same_map_def)
  show "answered r' = answered r" using same_map_set [OF m] by (simp add: answered_def)
  show "reqID r' = reqID r" "reqTimer r' = reqTimer r" "reqReply r' = reqReply r"
    by (subst r', simp)+
qed

lemma same_runtime_views:
  assumes "same_runtime s s'" "rkeys_ok s"
  shows "mget (rworkers s') = mget (rworkers s)" "mget (ractive s') = mget (ractive s)"
    "rel_option same_request (mget (rrequests s) i) (mget (rrequests s') i)"
    "open_for k (rrequests s') = open_for k (rrequests s)"
    "runtime_states s' = runtime_states s" "rkeys_ok s'"
    "nextRequestID s' = nextRequestID s" "stopReply s' = stopReply s" "sent s' = sent s"
    "nilDeref s' = nilDeref s" "status s' = status s"
proof -
  have h: "same_map (rworkers s) (rworkers s')" "same_map (ractive s) (ractive s')"
    "same_requests (rrequests s) (rrequests s')"
    "s' = s\<lparr>rworkers := rworkers s', ractive := ractive s', rrequests := rrequests s'\<rparr>"
    using assms(1) by (simp_all add: same_runtime_def)
  note d = rkeys_okD [OF assms(2)]
  show w: "mget (rworkers s') = mget (rworkers s)" by (rule same_map_get [OF h(1) d(1)])
  show "mget (ractive s') = mget (ractive s)" by (rule same_map_get [OF h(2) d(2)])
  show "rel_option same_request (mget (rrequests s) i) (mget (rrequests s') i)"
    by (rule same_requests_views(2) [OF h(3) d(3)])
  show "open_for k (rrequests s') = open_for k (rrequests s)"
    by (rule same_requests_views(3) [OF h(3) d(3)])
  show "runtime_states s' = runtime_states s" by (simp add: runtime_states_def w fun_eq_iff)
  show "rkeys_ok s'"
    using same_map_keys [OF h(1)] same_map_keys [OF h(2)] same_requests_views(1) [OF h(3) d(3)] d
    by (simp add: rkeys_ok_def)
  show "nextRequestID s' = nextRequestID s" "stopReply s' = stopReply s" "sent s' = sent s"
    "nilDeref s' = nilDeref s" "status s' = status s"
    by (subst h(4), simp)+
qed

lemma same_runtime_inv:
  assumes "rt_inv {} {} s" "same_runtime s s'"
  shows "rt_inv {} {} s'"
proof -
  note inv = rt_invD [OF assms(1)]
  note views = same_runtime_views [OF assms(2) inv(1)]
  have "rrequests_ok {} {} s'"
    unfolding rrequests_ok_def
  proof (intro allI impI)
    fix i r'
    assume "mget (rrequests s') i = Some r'"
    with views(3) [of i] obtain r where r: "mget (rrequests s) i = Some r" "same_request r r'"
      by (auto simp: option_rel_Some2)
    note ok = rrequests_okD [OF inv(5) r(1)]
    note res = same_request_results [OF r(2) req_okD(6) [OF ok(1)]]
    show "req_ok {} s' i r' \<and> (i \<in> {} \<or> \<not> answered r' \<and> stopReply s' = None)"
      using ok res(2) unfolding req_ok_def res(1,3-6) views by simp
  qed
  moreover have "rworkers_ok s' = rworkers_ok s" "rroutes_ok s' = rroutes_ok s"
    "rcandidates_ok s' = rcandidates_ok s" "replies_ok s' = replies_ok s"
    by (simp_all only: rworkers_ok_def rroutes_ok_def rcandidates_ok_def replies_ok_def views)
  ultimately show ?thesis using inv views(6,10) by (simp add: rt_inv_def)
qed

section \<open>Every transition\<close>

lemma wk_ok_take: "wk_ok stop n k w \<Longrightarrow> wk_ok stop n k (takeMessage w)"
  by (cases "outbound w") (auto simp: wk_ok_def takeMessage_def)

lemma wk_ok_fire: "wk_ok stop n k w \<Longrightarrow> wk_ok stop n k (fireTimer kill w)"
  by (auto simp: wk_ok_def fireTimer_def)

lemma worker_steps_state [simp]:
  "rstate (takeMessage w) = rstate w" "rstate (fireTimer kill w) = rstate w"
  by (simp_all add: takeMessage_def fireTimer_def)

lemma event_ok_same:
  assumes "same_runtime s s'" "rkeys_ok s"
  shows "event_ok s' e = event_ok s e"
  using same_runtime_views(7) [OF assms] by (simp add: event_ok_def split: event.split)

lemma runtime_trans_inv:
  assumes "runtime_trans s l t" "rt_inv {} {} s"
  shows "rt_inv {} {} t"
  using assms(1)
proof cases
  case (turn s' e kill "txt")
  from turn(4) event_ok_same [OF turn(3) rt_invD(1) [OF assms(2)]] have "event_ok s' e" by simp
  with turn(5) show ?thesis using runtime_turn_inv [OF same_runtime_inv [OF assms(2) turn(3)]] by simp
next
  case (wrote k w)
  then show ?thesis by (auto intro: adjust_runtime_inv [OF assms(2)] wk_ok_take)
next
  case (fired k w kill)
  then show ?thesis by (auto intro: adjust_runtime_inv [OF assms(2)] wk_ok_fire)
next
  case (cancelled kill)
  with assms(2) show ?thesis by (simp add: cleanup_inv)
qed

lemma runtime_init_inv: "runtime_init s \<Longrightarrow> rt_inv {} {} s"
  by (simp add: runtime_init_def initialRuntime_def rt_inv_def rkeys_ok_def rworkers_ok_def
      rroutes_ok_def rcandidates_ok_def rrequests_ok_def replies_ok_def runtime_states_def)

lemma runtime_reach_inv: "runtime_reach s \<Longrightarrow> rt_inv {} {} s"
  by (induction rule: reach_invariant) (auto intro: runtime_init_inv runtime_trans_inv)

end
