(* ===== verification/RuntimeReplies.thy ===== *)
theory RuntimeReplies
  imports RuntimeSteps
begin

text \<open>
  The reply channels of the runtime of \<^verbatim>\<open>src/pkg/coordinator/runtime.go\<close>. Every command
  brings a channel, which the loop either answers at once or keeps: in a worker, in an open
  request, or as the channel of the shutdown. The \<open>ledger\<close> is the multiset of the channels
  kept and the channels answered; a turn adds exactly the channel of its command, so no
  channel is lost and none is answered twice. Open requests and their answers are followed
  in the same way.
\<close>

section \<open>The ledger\<close>

definition opt_chan :: "chan option \<Rightarrow> chan multiset" where
  "opt_chan c = (case c of None \<Rightarrow> {#} | Some c \<Rightarrow> {#c#})"

definition worker_chans :: "runtimeWorker \<Rightarrow> chan multiset" where
  "worker_chans w = opt_chan (helloReply w) + opt_chan (healthReply w) + opt_chan (reloadReply w)"

definition held :: "runtimeState \<Rightarrow> chan multiset" where
  "held s = map_sum worker_chans (rworkers s) + map_sum (\<lambda>r. {#reqReply r#}) (rrequests s) +
     (if status s = Returned then {#} else opt_chan (stopReply s))"

definition ledger :: "runtimeState \<Rightarrow> chan multiset" where
  "ledger s = held s + mset (map fst (sent s))"

definition event_chan :: "event \<Rightarrow> chan multiset" where
  "event_chan e = (case e of
       RegisterRuntime _ _ c \<Rightarrow> {#c#} | HelloRuntime _ c \<Rightarrow> {#c#} | HealthRuntime _ c \<Rightarrow> {#c#}
     | ActivateRuntime _ c \<Rightarrow> {#c#} | FailRuntime _ _ c \<Rightarrow> {#c#} | ScanRuntime _ c \<Rightarrow> {#c#}
     | ReloadRuntime _ _ c \<Rightarrow> {#c#} | SnapshotRuntime c \<Rightarrow> {#c#} | ActiveRuntime _ c \<Rightarrow> {#c#}
     | ShutdownRuntime c \<Rightarrow> {#c#} | _ \<Rightarrow> {#})"

section \<open>What becomes of an open request\<close>

text \<open>The same workers, and every answer that was there.\<close>

definition grows :: "(WorkerKey, Message) gomap \<Rightarrow> (WorkerKey, Message) gomap \<Rightarrow> bool" where
  "grows m m' \<longleftrightarrow> set (keys m') = set (keys m) \<and>
     (\<forall>k x. mget m k = Some x \<longrightarrow> mType x \<noteq> '''' \<longrightarrow> mget m' k = Some x)"

definition followed :: "runtimeState \<Rightarrow> u64 \<Rightarrow> runtimeRequest \<Rightarrow> bool" where
  "followed t i r \<longleftrightarrow>
     (\<exists>r'. mget (rrequests t) i = Some r' \<and> reqReply r' = reqReply r \<and>
        grows (reqResults r) (reqResults r')) \<or>
     (\<exists>out. (reqReply r, ScanReply out None) \<in> set (sent t) \<and> soRequestID out = i \<and>
        grows (reqResults r) (soResults out))"

definition evolves :: "chan multiset \<Rightarrow> runtimeState \<Rightarrow> runtimeState \<Rightarrow> bool" where
  "evolves C s t \<longleftrightarrow> ledger t = ledger s + C \<and> (\<exists>l. sent t = sent s @ l) \<and>
     (\<forall>i r. mget (rrequests s) i = Some r \<longrightarrow> followed t i r)"

text \<open>Workers either stay in their state or fail.\<close>

definition fails_only :: "runtimeState \<Rightarrow> runtimeState \<Rightarrow> bool" where
  "fails_only s t \<longleftrightarrow> (\<forall>k. runtime_states t k = runtime_states s k \<or>
     (\<exists>a. runtime_states s k = Some a \<and> \<not> terminal a \<and> runtime_states t k = Some WorkerFailed))"

lemma grows_refl [simp]: "grows m m"
  by (simp add: grows_def)

lemma grows_trans: "grows m m1 \<Longrightarrow> grows m1 m2 \<Longrightarrow> grows m m2"
  by (simp add: grows_def)

lemma followed_trans:
  assumes "followed t i r" "evolves C t u"
  shows "followed u i r"
proof -
  from assms(2) obtain l where l: "sent u = sent t @ l"
    and f: "\<And>i r. mget (rrequests t) i = Some r \<Longrightarrow> followed u i r"
    by (auto simp: evolves_def)
  from assms(1) [unfolded followed_def] show ?thesis
  proof (elim disjE exE conjE)
    fix r'
    assume r': "mget (rrequests t) i = Some r'" "reqReply r' = reqReply r"
      "grows (reqResults r) (reqResults r')"
    from f [OF r'(1), unfolded followed_def r'(2)] show ?thesis
      by (elim disjE exE conjE) (auto simp: followed_def intro: grows_trans [OF r'(3)])
  next
    fix out
    assume "(reqReply r, ScanReply out None) \<in> set (sent t)" "soRequestID out = i"
      "grows (reqResults r) (soResults out)"
    then show ?thesis by (auto simp: followed_def l)
  qed
qed

lemma evolves_trans:
  assumes "evolves C s t" "evolves D t u"
  shows "evolves (C + D) s u"
proof -
  from assms(1) have "\<forall>i r. mget (rrequests s) i = Some r \<longrightarrow> followed t i r"
    by (simp add: evolves_def)
  then have "\<forall>i r. mget (rrequests s) i = Some r \<longrightarrow> followed u i r"
    using followed_trans [OF _ assms(2)] by blast
  with assms show ?thesis by (auto simp: evolves_def)
qed

lemma evolves_trans0: "evolves {#} s t \<Longrightarrow> evolves {#} t u \<Longrightarrow> evolves {#} s u"
  using evolves_trans [of "{#}" s t "{#}" u] by simp

lemma evolves_after: "evolves C s t \<Longrightarrow> evolves {#} t u \<Longrightarrow> evolves C s u"
  using evolves_trans [of C s t "{#}" u] by simp

lemma evolves_before: "evolves {#} s t \<Longrightarrow> evolves C t u \<Longrightarrow> evolves C s u"
  using evolves_trans [of "{#}" s t C u] by simp

lemma followed_refl: "mget (rrequests s) i = Some r \<Longrightarrow> followed s i r"
  by (auto simp: followed_def)

lemma evolves_refl [simp]: "evolves {#} s s"
  by (simp add: evolves_def followed_refl)

lemma fails_only_refl [simp]: "fails_only s s"
  by (simp add: fails_only_def)

lemma fails_only_trans:
  assumes "fails_only s t" "fails_only t u"
  shows "fails_only s u"
  unfolding fails_only_def
proof
  fix k
  from assms have "runtime_states t k = runtime_states s k \<or>
     (\<exists>a. runtime_states s k = Some a \<and> \<not> terminal a \<and> runtime_states t k = Some WorkerFailed)"
    "runtime_states u k = runtime_states t k \<or>
     (\<exists>a. runtime_states t k = Some a \<and> \<not> terminal a \<and> runtime_states u k = Some WorkerFailed)"
    by (auto simp: fails_only_def)
  then show "runtime_states u k = runtime_states s k \<or>
     (\<exists>a. runtime_states s k = Some a \<and> \<not> terminal a \<and> runtime_states u k = Some WorkerFailed)"
    by auto
qed

lemma fails_only_same: "runtime_states t = runtime_states s \<Longrightarrow> fails_only s t"
  by (simp add: fails_only_def)

section \<open>Primitive steps\<close>

lemma evolvesI:
  assumes "ledger t = ledger s + C" "sent t = sent s @ l" "rrequests t = rrequests s"
  shows "evolves C s t"
  using assms by (auto simp: evolves_def followed_def)

lemma ledger_adjust:
  assumes "distinct (keys (rworkers s))"
    and "\<And>w. mget (rworkers s) k = Some w \<Longrightarrow> worker_chans (f w) = worker_chans w"
  shows "ledger (adjust_runtime k f s) = ledger s"
  using map_sum_madjust_same [of "rworkers s" k worker_chans f, OF assms(2,1)]
  by (simp add: ledger_def held_def)

lemma ledger_send [simp]: "ledger (send_reply c a s) = ledger s + {#c#}"
  by (simp add: ledger_def held_def)

lemma evolves_adjust:
  assumes "distinct (keys (rworkers s))"
    and "\<And>w. mget (rworkers s) k = Some w \<Longrightarrow> worker_chans (f w) = worker_chans w"
  shows "evolves {#} s (adjust_runtime k f s)"
  using ledger_adjust [OF assms]
  by (intro evolvesI [where l = "[]"]) simp_all

lemma evolves_send: "evolves {#c#} s (send_reply c a s)"
  by (intro evolvesI [where l = "[(c, a)]"]) simp_all

lemma fails_only_send [simp]: "fails_only s (send_reply c a s)"
  by (rule fails_only_same, rule runtime_states_cong) simp

lemma fails_only_adjust:
  assumes "\<And>w. mget (rworkers s) k = Some w \<Longrightarrow> rstate (f w) = rstate w"
  shows "fails_only s (adjust_runtime k f s)"
proof (rule fails_only_same)
  show "runtime_states (adjust_runtime k f s) = runtime_states s"
  proof
    fix k'
    show "runtime_states (adjust_runtime k f s) k' = runtime_states s k'"
      using assms by (cases "mget (rworkers s) k") (auto simp: runtime_states_def map_laws)
  qed
qed

lemma worker_chans_simps [simp]:
  "worker_chans (releaseWorker w) = worker_chans w"
  "worker_chans (requestWorkerShutdown w) = worker_chans w"
  by (simp_all add: worker_chans_def)

lemma multiset_part:
  fixes A :: "'a multiset"
  assumes "A + X = B + Y" "Y + C = X"
  shows "A + C = B"
proof -
  have "A + (Y + C) = B + Y" using assms(1) by (simp only: assms(2))
  moreover have "A + (Y + C) = (A + C) + Y" by (simp only: ac_simps)
  ultimately have "(A + C) + Y = B + Y" by (simp only:)
  then show ?thesis by (simp only: add_right_cancel)
qed

lemma ledger_take_reply:
  assumes "distinct (keys (rworkers s))"
    and "\<And>w c. get w = Some c \<Longrightarrow> worker_chans (clear w) + {#c#} = worker_chans w"
  shows "ledger (take_reply k get clear a s) = ledger s"
proof (cases "\<exists>w c. mget (rworkers s) k = Some w \<and> get w = Some c")
  case True
  then obtain w c where w: "mget (rworkers s) k = Some w" "get w = Some c" by blast
  from map_sum_madjust [OF assms(1) w(1), of worker_chans clear] assms(2) [OF w(2)]
  have "map_sum worker_chans (madjust k clear (rworkers s)) + {#c#} = map_sum worker_chans (rworkers s)"
    by (rule multiset_part)
  then have "map_sum worker_chans (rworkers s) = map_sum worker_chans (madjust k clear (rworkers s)) + {#c#}"
    by (rule sym)
  with w show ?thesis by (simp add: take_reply_def ledger_def held_def)
next
  case False
  then show ?thesis by (auto simp: take_reply_def split: option.splits)
qed

lemma take_reply_frame [simp]:
  "rrequests (take_reply k get clear a s) = rrequests s"
  "\<exists>l. sent (take_reply k get clear a s) = sent s @ l"
  by (auto simp: take_reply_def split: option.splits)

lemma evolves_take_reply:
  assumes "distinct (keys (rworkers s))"
    and "\<And>w c. get w = Some c \<Longrightarrow> worker_chans (clear w) + {#c#} = worker_chans w"
  shows "evolves {#} s (take_reply k get clear a s)"
proof -
  obtain l where "sent (take_reply k get clear a s) = sent s @ l" using take_reply_frame(2) by blast
  then show ?thesis
    using ledger_take_reply [OF assms]
    by (intro evolvesI [where l = l]) simp_all
qed

lemma evolves_answers:
  assumes "distinct (keys (rworkers s))"
  shows "evolves {#} s (answerHello k err s)" "evolves {#} s (answerHealth k err s)"
    "evolves {#} s (answerReload k out err s)"
  unfolding answerHello_def answerHealth_def answerReload_def
  by (rule evolves_take_reply [OF assms]; simp add: worker_chans_def opt_chan_def)+

lemma fails_only_take_reply:
  assumes "\<And>w. rstate (clear w) = rstate w"
  shows "fails_only s (take_reply k get clear a s)"
proof (cases "\<exists>w c. mget (rworkers s) k = Some w \<and> get w = Some c")
  case True
  then obtain w c where "mget (rworkers s) k = Some w" "get w = Some c" by blast
  moreover have "fails_only s (adjust_runtime k clear (send_reply c a s))"
    by (rule fails_only_trans [OF fails_only_send fails_only_adjust]) (rule assms)
  ultimately show ?thesis by (simp add: take_reply_def)
next
  case False
  then show ?thesis by (auto simp: take_reply_def split: option.splits)
qed

lemma fails_only_answers [simp]:
  "fails_only s (answerHello k err s)" "fails_only s (answerHealth k err s)"
  "fails_only s (answerReload k out err s)"
  unfolding answerHello_def answerHealth_def answerReload_def
  by (rule fails_only_take_reply; simp)+

section \<open>Requests\<close>

lemma map_sum_fold_madjust:
  assumes "\<And>w. g (f w) = g w" "distinct (keys m)"
  shows "map_sum g (fold (\<lambda>k. madjust k f) ks m) = map_sum g m"
  using assms(2)
proof (induction ks arbitrary: m)
  case Nil
  then show ?case by simp
next
  case (Cons k ks)
  then show ?case by (simp add: map_sum_madjust_same assms(1))
qed

lemma completeRequest_evolves:
  assumes "rt_inv E W s" "mget (rrequests s) i = Some r" "answered r"
  shows "evolves {#} s (completeRequest i s)"
proof -
  note inv = rt_invD [OF assms(1)]
  note d = rkeys_okD [OF inv(1)]
  note req = rrequests_okD(1) [OF inv(5) assms(2)]
  let ?t = "completeRequest i s"
  note t = completeRequest_eq [OF assms(2)]
  have "map_sum worker_chans (released r s) = map_sum worker_chans (rworkers s)"
    unfolding released_def by (rule map_sum_fold_madjust [OF _ d(1)]) simp
  moreover have "map_sum (\<lambda>r. {#reqReply r#}) (rrequests s) =
      map_sum (\<lambda>r. {#reqReply r#}) (mdel i (rrequests s)) + {#reqReply r#}"
    using map_sum_mdel [OF d(3) assms(2), of "\<lambda>r. {#reqReply r#}"] by (rule sym)
  ultimately have "ledger ?t = ledger s" by (simp add: t ledger_def held_def)
  moreover have "followed ?t j q" if q: "mget (rrequests s) j = Some q" for j q
  proof (cases "j = i")
    case True
    with q assms(2) have "q = r" by simp
    have "(reqReply r, requestOutcome r) \<in> set (sent ?t)" by (simp add: t)
    with True \<open>q = r\<close> show ?thesis
      unfolding followed_def requestOutcome_eq [OF req assms(3)] by (intro disjI2 exI) auto
  next
    case False
    with q show ?thesis by (simp add: followed_def t map_laws)
  qed
  moreover have "\<exists>l. sent ?t = sent s @ l" by (simp add: t)
  ultimately show ?thesis by (simp add: evolves_def)
qed

lemma completeRequest_fails_only [simp]:
  assumes "rt_inv E W s"
  shows "fails_only s (completeRequest i s)"
proof (cases "mget (rrequests s) i")
  case None
  then show ?thesis by (simp add: completeRequest_def)
next
  case (Some r)
  have "runtime_states (completeRequest i s) = runtime_states s"
    by (rule released_states [OF req_okD(6) [OF rrequests_okD(1) [OF rt_invD(5) [OF assms] Some]]])
      (simp add: completeRequest_eq [OF Some])
  then show ?thesis by (rule fails_only_same)
qed

lemma completeRequestIfReady_evolves:
  assumes "rt_inv E W s"
  shows "evolves {#} s (completeRequestIfReady i s)" "fails_only s (completeRequestIfReady i s)"
  using completeRequest_evolves [OF assms] completeRequest_fails_only [OF assms]
  by (simp_all add: completeRequestIfReady_def split: option.splits)

lemma adjust_request_fails_only [simp]: "fails_only s (adjust_request i f s)"
  by (rule fails_only_same, rule runtime_states_cong) simp

lemma adjust_request_evolves:
  assumes "rt_inv E W s"
    and "\<And>r. mget (rrequests s) i = Some r \<Longrightarrow> reqReply (f r) = reqReply r \<and>
      grows (reqResults r) (reqResults (f r))"
  shows "evolves {#} s (adjust_request i f s)"
proof -
  note d = rkeys_okD(3) [OF rt_invD(1) [OF assms(1)]]
  have "map_sum (\<lambda>r. {#reqReply r#}) (madjust i f (rrequests s)) = map_sum (\<lambda>r. {#reqReply r#}) (rrequests s)"
    by (rule map_sum_madjust_same [OF _ d]) (simp add: assms(2))
  then have "ledger (adjust_request i f s) = ledger s" by (simp add: ledger_def held_def)
  moreover have "followed (adjust_request i f s) j q" if "mget (rrequests s) j = Some q" for j q
    using that assms(2) by (cases "j = i") (simp_all add: followed_def map_laws)
  ultimately show ?thesis by (simp add: evolves_def)
qed

lemma grows_answer:
  assumes "mget m k = Some old" "mType old = ''''"
  shows "grows m (mput k x m)"
proof -
  have "set (keys (mput k x m)) = set (keys m)"
    using mget_SomeD [OF assms(1)] by (simp only: set_keys_mput insert_absorb)
  with assms show ?thesis unfolding grows_def by (simp add: map_laws)
qed

lemma grows_fill: "grows (reqResults r) (reqResults (fillPending m r))"
  unfolding grows_def fillPending_results keys_mapvals by (simp add: mget_mapvals)

lemma failResult_evolves:
  assumes "rt_inv E {} s"
  shows "evolves {#} s (failResult k reason i s) \<and> fails_only s (failResult k reason i s)"
proof (cases "\<exists>r m. mget (rrequests s) i = Some r \<and> mget (reqResults r) k = Some m \<and> mType m = ''''")
  case False
  then have "failResult k reason i s = s" by (auto simp: failResult_def split: option.splits)
  then show ?thesis by simp
next
  case True
  then obtain r m where r: "mget (rrequests s) i = Some r" "mget (reqResults r) k = Some m"
    "mType m = ''''" by blast
  let ?f = "\<lambda>r. r\<lparr>reqResults := mput k (substitute (reqID r) VerdictUnavailable reason) (reqResults r)\<rparr>"
  let ?s = "adjust_request i ?f s"
  have ev: "evolves {#} s ?s"
    by (rule adjust_request_evolves [OF assms]) (use r in \<open>simp add: grows_answer\<close>)
  have "valid_result i (substitute (reqID r) VerdictUnavailable reason)"
    using req_okD [OF rrequests_okD(1) [OF rt_invD(5) [OF assms] r(1)]]
    by (simp add: valid_substitute validVerdict_def)
  moreover have "keys (mput k x (reqResults r)) = keys (reqResults r)" for x
    using mget_SomeD [OF r(2)] by (simp add: update_keys)
  ultimately have "rt_inv E {i} ?s"
    by (intro fill_inv [OF assms]) (auto simp: r(1) map_laws split: if_splits)
  note ready = completeRequestIfReady_evolves [OF this, of i]
  from evolves_trans0 [OF ev ready(1)] fails_only_trans [OF adjust_request_fails_only ready(2)] r
  show ?thesis by (simp add: failResult_def)
qed

lemma fold_failResult_evolves:
  assumes "rt_inv E {} s"
  shows "evolves {#} s (fold (failResult k reason) is s) \<and> fails_only s (fold (failResult k reason) is s)"
  using assms
proof (induction "is" arbitrary: E s)
  case Nil
  then show ?case by simp
next
  case (Cons i "is")
  note step = failResult_evolves [OF Cons.prems, of k reason i]
  note rest = Cons.IH [OF failResult_inv [OF Cons.prems]]
  from step rest show ?case
    by (auto intro: evolves_trans0 fails_only_trans)
qed

lemma failReplies_chans: "mset (map fst (failReplies reason w)) = worker_chans w"
  by (simp add: failReplies_def worker_chans_def opt_chan_def split: option.splits)

lemma worker_chans_failed [simp]: "worker_chans (failedWorker reason w) = {#}"
  by (simp add: worker_chans_def opt_chan_def)

lemma failedState_evolves:
  assumes "rt_inv E W s" "mget (rworkers s) k = Some w" "\<not> terminal (rstate w)"
  shows "evolves {#} s (failedState k reason w s)" "fails_only s (failedState k reason w s)"
proof -
  have "map_sum worker_chans (madjust k (failedWorker reason) (rworkers s)) + worker_chans w =
      map_sum worker_chans (rworkers s)"
    using map_sum_madjust [OF rkeys_okD(1) [OF rt_invD(1) [OF assms(1)]] assms(2), of worker_chans
        "failedWorker reason"] by simp
  then have "map_sum worker_chans (rworkers s) =
      map_sum worker_chans (madjust k (failedWorker reason) (rworkers s)) + worker_chans w"
    by (rule sym)
  then show "evolves {#} s (failedState k reason w s)"
    by (intro evolvesI [where l = "failReplies reason w"])
      (simp_all add: failedState_def ledger_def held_def failReplies_chans [unfolded mset_map])
  have "runtime_states (failedState k reason w s) k' =
      (if k' = k then Some WorkerFailed else runtime_states s k')" for k'
    using assms(2) by (simp add: failedState_def runtime_states_def map_laws)
  with assms(3) show "fails_only s (failedState k reason w s)"
    by (simp add: fails_only_def mget_runtime_states [OF assms(2)])
qed

lemma handleWorkerFailure_evolves:
  assumes "rt_inv {} {} s"
  shows "evolves {#} s (handleWorkerFailure k reason s)" "fails_only s (handleWorkerFailure k reason s)"
proof -
  have "evolves {#} s (handleWorkerFailure k reason s) \<and> fails_only s (handleWorkerFailure k reason s)"
  proof (cases rule: handleWorkerFailure_cases [OF assms, of k reason])
    case 1
    then show ?thesis by simp
  next
    case (2 w)
    note one = failedState_evolves [OF assms 2(1,2), of reason]
    have all: "evolves {#} (failedState k reason w s) (handleWorkerFailure k reason s) \<and>
        fails_only (failedState k reason w s) (handleWorkerFailure k reason s)"
      unfolding 2(3) by (rule fold_failResult_evolves [OF failedState_inv [OF assms 2(1)]])
    from evolves_trans0 [OF one(1)] fails_only_trans [OF one(2)] all show ?thesis
      by blast
  qed
  then show "evolves {#} s (handleWorkerFailure k reason s)"
    "fails_only s (handleWorkerFailure k reason s)" by simp_all
qed

section \<open>Every handler\<close>

lemma rt_inv_distinct: "rt_inv E W s \<Longrightarrow> distinct (keys (rworkers s))"
  by (simp add: rkeys_okD rt_invD)

lemma evolves_adjust_add:
  assumes "distinct (keys (rworkers s))" "mget (rworkers s) k = Some w"
    and "worker_chans (f w) = worker_chans w + C"
  shows "evolves C s (adjust_runtime k f s)"
proof -
  from map_sum_madjust [OF assms(1,2), of worker_chans f] assms(3)
  have "map_sum worker_chans (madjust k f (rworkers s)) + worker_chans w =
      (map_sum worker_chans (rworkers s) + C) + worker_chans w" by (simp only: ac_simps)
  then have "map_sum worker_chans (madjust k f (rworkers s)) = map_sum worker_chans (rworkers s) + C"
    by (simp only: add_right_cancel)
  then show ?thesis by (intro evolvesI [where l = "[]"]) (simp_all add: ledger_def held_def)
qed

lemma queue_chans:
  "queueWorkerMessage w m = (err, w') \<Longrightarrow> worker_chans w' = worker_chans w"
  by (auto simp: worker_chans_def dest!: queue_cases)

lemma unqueued_evolves:
  assumes "rt_inv {} {} s" "mget (rworkers s) k = Some w" "reply_ok a"
    and "wk_ok (stopReply s \<noteq> None) (open_for k (rrequests s)) k w'" "rstate w' = rstate w"
      "worker_chans w' = worker_chans w"
  shows "evolves {#c#} s (handleWorkerFailure k reason (send_reply c a (adjust_runtime k (\<lambda>_. w') s)))"
    "fails_only s (handleWorkerFailure k reason (send_reply c a (adjust_runtime k (\<lambda>_. w') s)))"
proof -
  have one: "evolves {#} s (adjust_runtime k (\<lambda>_. w') s)" "fails_only s (adjust_runtime k (\<lambda>_. w') s)"
    using assms(2,5,6) by (auto intro!: evolves_adjust fails_only_adjust rt_inv_distinct [OF assms(1)])
  have "rt_inv {} {} (adjust_runtime k (\<lambda>_. w') s)"
    by (rule adjust_inv [OF assms(1,2) assms(5,4)])
  then have inv: "rt_inv {} {} (send_reply c a (adjust_runtime k (\<lambda>_. w') s))"
    by (rule send_reply_inv [OF _ assms(3)])
  note last = handleWorkerFailure_evolves [OF inv, of k reason]
  show "evolves {#c#} s (handleWorkerFailure k reason (send_reply c a (adjust_runtime k (\<lambda>_. w') s)))"
    by (rule evolves_after [OF evolves_before [OF one(1) evolves_send] last(1)])
  show "fails_only s (handleWorkerFailure k reason (send_reply c a (adjust_runtime k (\<lambda>_. w') s)))"
    by (rule fails_only_trans [OF fails_only_trans [OF one(2) fails_only_send] last(2)])
qed

definition settles :: "chan multiset \<Rightarrow> runtimeState \<Rightarrow> runtimeState \<Rightarrow> bool" where
  "settles C s t \<longleftrightarrow> evolves C s t \<and> fails_only s t"

lemma settles_send [simp]: "settles {#c#} s (send_reply c a s)"
  by (simp add: settles_def evolves_send)

lemma settles_refl [simp]: "settles {#} s s"
  by (simp add: settles_def)

lemma settles_before: "settles {#} s t \<Longrightarrow> settles C t u \<Longrightarrow> settles C s u"
  unfolding settles_def by (blast intro: evolves_before fails_only_trans)

lemma settles_after: "settles C s t \<Longrightarrow> settles {#} t u \<Longrightarrow> settles C s u"
  unfolding settles_def by (blast intro: evolves_after fails_only_trans)

lemma settles_failure: "rt_inv {} {} s \<Longrightarrow> settles {#} s (handleWorkerFailure k reason s)"
  by (simp add: settles_def handleWorkerFailure_evolves)

lemma settles_adjust:
  assumes "distinct (keys (rworkers s))" "\<And>w. mget (rworkers s) k = Some w \<Longrightarrow> worker_chans (f w) = worker_chans w"
    and "\<And>w. mget (rworkers s) k = Some w \<Longrightarrow> rstate (f w) = rstate w"
  shows "settles {#} s (adjust_runtime k f s)"
  unfolding settles_def using evolves_adjust [OF assms(1,2)] fails_only_adjust [OF assms(3)] by blast

lemma settles_answers:
  assumes "distinct (keys (rworkers s))"
  shows "settles {#} s (answerHello k err s)" "settles {#} s (answerHealth k err s)"
    "settles {#} s (answerReload k out err s)"
  using evolves_answers [OF assms] by (simp_all add: settles_def)

lemma settles_add:
  assumes "distinct (keys (rworkers s))" "mget (rworkers s) k = Some w"
    and "worker_chans w' = worker_chans w + C" "rstate w' = rstate w"
  shows "settles C s (adjust_runtime k (\<lambda>_. w') s)"
  unfolding settles_def
  using evolves_adjust_add [OF assms(1,2), of "\<lambda>_. w'"] fails_only_adjust [of s k "\<lambda>_. w'"] assms(2-4)
  by simp

lemma beginHello_settles:
  assumes "rt_inv {} {} s"
  shows "settles {#c#} s (beginHello txt k c s)"
proof (cases "\<exists>w. mget (rworkers s) k = Some w \<and> rstate w = WorkerStarting \<and> helloReply w = None")
  case False
  then show ?thesis by (auto simp: beginHello_def split: option.splits)
next
  case True
  then obtain w where w: "mget (rworkers s) k = Some w" "rstate w = WorkerStarting" "helloReply w = None"
    by blast
  obtain err w' where q: "queueWorkerMessage (w\<lparr>helloReply := Some c\<rparr>) helloMessage = (err, w')"
    by (cases "queueWorkerMessage (w\<lparr>helloReply := Some c\<rparr>) helloMessage")
  show ?thesis
  proof (cases err)
    case None
    have "worker_chans w' = worker_chans w + {#c#}" "rstate w' = rstate w"
      using queue_chans [OF q] queue_simps(1) [OF q] w(3) by (simp_all add: worker_chans_def opt_chan_def)
    from settles_add [OF rt_inv_distinct [OF assms] w(1) this] w q None show ?thesis
      by (simp add: beginHello_def)
  next
    case (Some e)
    then have same: "w'\<lparr>helloReply := None\<rparr> = w" using queue_simps(2) [OF q] w(3) by simp
    have "settles {#c#} s (handleWorkerFailure k (txt e)
        (send_reply c (DoneReply (Some e)) (adjust_runtime k (\<lambda>_. w) s)))"
      unfolding settles_def
      using unqueued_evolves [OF assms w(1) _ rworkers_okD [OF rt_invD(2) [OF assms] w(1)]] by simp
    with w q Some same show ?thesis by (simp add: beginHello_def)
  qed
qed

lemma beginHealth_settles:
  assumes "rt_inv {} {} s"
  shows "settles {#c#} s (beginHealth txt k c s)"
proof (cases "\<exists>w. mget (rworkers s) k = Some w \<and> rstate w = WorkerStarting \<and> healthReply w = None")
  case False
  then show ?thesis by (auto simp: beginHealth_def split: option.splits)
next
  case True
  then obtain w where w: "mget (rworkers s) k = Some w" "rstate w = WorkerStarting" "healthReply w = None"
    by blast
  obtain err w' where q: "queueWorkerMessage (w\<lparr>healthReply := Some c\<rparr>) healthMessage = (err, w')"
    by (cases "queueWorkerMessage (w\<lparr>healthReply := Some c\<rparr>) healthMessage")
  show ?thesis
  proof (cases err)
    case None
    have "worker_chans w' = worker_chans w + {#c#}" "rstate w' = rstate w"
      using queue_chans [OF q] queue_simps(1) [OF q] w(3) by (simp_all add: worker_chans_def opt_chan_def)
    from settles_add [OF rt_inv_distinct [OF assms] w(1) this] w q None show ?thesis
      by (simp add: beginHealth_def)
  next
    case (Some e)
    then have same: "w'\<lparr>healthReply := None\<rparr> = w" using queue_simps(2) [OF q] w(3) by simp
    have "settles {#c#} s (handleWorkerFailure k (txt e)
        (send_reply c (DoneReply (Some e)) (adjust_runtime k (\<lambda>_. w) s)))"
      unfolding settles_def
      using unqueued_evolves [OF assms w(1) _ rworkers_okD [OF rt_invD(2) [OF assms] w(1)]] by simp
    with w q Some same show ?thesis by (simp add: beginHealth_def)
  qed
qed

lemma registerRuntimeWorker_evolves:
  assumes "registerRuntimeWorker w ch s = (err, t)"
  shows "evolves {#} s t"
  using registerRuntimeWorker_cases [OF assms]
proof (elim disjE exE conjE)
  fix k
  assume "mget (rworkers s) k = None" and t: "t = s\<lparr>rworkers := mput k (newWorker w ch) (rworkers s)\<rparr>"
  then have "ledger t = ledger s"
    by (simp add: ledger_def held_def map_sum_mput_fresh worker_chans_def newWorker_def opt_chan_def)
  then show ?thesis by (intro evolvesI [where l = "[]"]) (simp_all add: t)
qed simp

lemma map_sum_keys:
  "distinct (keys m) \<Longrightarrow> map_sum g m = sum_list (map (\<lambda>k. g (the (mget m k))) (keys m))"
proof (induction m)
  case Nil
  then show ?case by simp
next
  case (Cons p m)
  have rest: "map (\<lambda>k. g (the (mget (p # m) k))) (keys m) = map (\<lambda>k. g (the (mget m k))) (keys m)"
  proof (rule map_cong)
    fix k
    assume "k \<in> set (keys m)"
    with Cons.prems have "k \<noteq> fst p" by force
    then show "g (the (mget (p # m) k)) = g (the (mget m k))" by (cases p) simp
  qed simp
  have "g (the (mget (p # m) (fst p))) = g (snd p)" by (cases p) simp
  moreover from Cons have "map_sum g m = sum_list (map (\<lambda>k. g (the (mget m k))) (keys m))" by simp
  ultimately show ?case by (simp only: map_sum_Cons list.map(2) sum_list.Cons rest)
qed

lemma activateRuntimeWorker_evolves:
  assumes "rt_inv {} {} s" "activateRuntimeWorker k s = (err, t)"
  shows "evolves {#} s t"
proof (cases rule: activateRuntimeWorker_cases [OF assms(2,1)])
  case 1
  then show ?thesis by simp
next
  case 2
  have chans: "worker_chans (supersede w) = worker_chans w"
    "worker_chans (w\<lparr>rstate := WorkerActive\<rparr>) = worker_chans w" for w
    by (simp_all add: supersede_def Let_def worker_chans_def)
  have "worker_chans (the (mget (rworkers t) k')) = worker_chans (the (mget (rworkers s) k'))"
    if "k' \<in> set (keys (rworkers s))" for k'
    using that by (rule in_keysE) (cases "k' = k"; simp add: 2(5) chans)
  then have "map_sum worker_chans (rworkers t) = map_sum worker_chans (rworkers s)"
    using rt_inv_distinct [OF assms(1)] by (simp add: map_sum_keys 2(4) cong: map_cong)
  moreover have "sent t = sent s" "rrequests t = rrequests s" "status t = status s"
    "stopReply t = stopReply s" by (subst 2(3), simp)+
  ultimately show ?thesis by (intro evolvesI [where l = "[]"]) (simp_all add: ledger_def held_def)
qed

lemma failRuntimeWorker_settles:
  assumes "rt_inv {} {} s" "failRuntimeWorker kill k reason s = (err, t)"
  shows "settles {#} s t"
proof (cases "t = s")
  case False
  with assms(2) have t: "t = adjust_runtime k (\<lambda>w. w\<lparr>rchild := snd (Terminate kill (rchild w))\<rparr>)
      (handleWorkerFailure k reason s)"
    by (auto simp: failRuntimeWorker_def split: option.splits if_splits)
  show ?thesis
    unfolding t by (rule settles_after [OF settles_failure [OF assms(1)] settles_adjust])
      (simp_all add: rt_inv_distinct [OF assms(1)] worker_chans_def)
qed simp

lemma recordRuntimeScanResult_settles:
  assumes "rt_inv {} {} s" "Validate m = None" "mType m = TypeScanResult"
  shows "settles {#} s (recordRuntimeScanResult k m s)"
proof (cases "\<exists>r cur. mget (rrequests s) (mRequestID m) = Some r \<and>
    mget (reqResults r) k = Some cur \<and> mType cur = ''''")
  case False
  then have "recordRuntimeScanResult k m s = s"
    by (auto simp: recordRuntimeScanResult_def split: option.splits)
  then show ?thesis by simp
next
  case True
  then obtain r cur where r: "mget (rrequests s) (mRequestID m) = Some r"
    "mget (reqResults r) k = Some cur" "mType cur = ''''" by blast
  let ?i = "mRequestID m"
  let ?s = "adjust_request ?i (\<lambda>r. r\<lparr>reqResults := mput k m (reqResults r)\<rparr>) s"
  have ev: "evolves {#} s ?s"
    by (rule adjust_request_evolves [OF assms(1)]) (use r in \<open>simp add: grows_answer\<close>)
  have "valid_result ?i m" using assms(2,3) by (simp add: valid_result_def)
  moreover have "keys (mput k m (reqResults r)) = keys (reqResults r)"
    using mget_SomeD [OF r(2)] by (simp add: update_keys)
  ultimately have "rt_inv {} {?i} ?s"
    by (intro fill_inv [OF assms(1)]) (auto simp: r(1) map_laws split: if_splits)
  note ready = completeRequestIfReady_evolves [OF this, of ?i]
  from evolves_trans0 [OF ev ready(1)] fails_only_trans [OF adjust_request_fails_only ready(2)] r
  show ?thesis by (simp add: recordRuntimeScanResult_def settles_def)
qed

lemma fill_complete_settles:
  assumes "rt_inv E W s" "mget (rrequests s) i = Some r" "valid_result i m"
  shows "settles {#} s (completeRequest i (adjust_request i (fillPending m) s))"
proof -
  let ?s = "adjust_request i (fillPending m) s"
  have ev: "evolves {#} s ?s"
    by (rule adjust_request_evolves [OF assms(1)]) (intro conjI grows_fill fillPending_results)
  have "rt_inv E (insert i W) ?s"
    using assms(3) by (intro fill_inv [OF assms(1)]) (auto simp: mget_mapvals fillPending_def)
  moreover have "mget (rrequests ?s) i = Some (fillPending m r)" using assms(2) by (simp add: map_laws)
  moreover note fillPending_answered [OF valid_result_type [OF assms(3)], of r]
  ultimately have "evolves {#} ?s (completeRequest i ?s)" "fails_only ?s (completeRequest i ?s)"
    by (rule completeRequest_evolves, intro completeRequest_fails_only)
  with ev show ?thesis
    unfolding settles_def by (blast intro: evolves_trans0 fails_only_trans adjust_request_fails_only)
qed

lemma timeoutScan_settles:
  assumes "rt_inv {} {} s"
  shows "settles {#} s (timeoutScan i s)"
proof (cases "mget (rrequests s) i")
  case None
  then show ?thesis by (simp add: timeoutScan_def)
next
  case (Some r)
  have "valid_result i (substitute i VerdictTimeout ''scan timed out'')"
    using req_okD(1) [OF rrequests_okD(1) [OF rt_invD(5) [OF assms] Some]]
    by (simp add: valid_substitute validVerdict_def)
  from fill_complete_settles [OF assms Some this] Some show ?thesis by (simp add: timeoutScan_def)
qed

lemma beginReload_settles:
  assumes "rt_inv {} {} s"
  shows "settles {#c#} s (beginReload txt scanner path c s)"
proof (cases "mget (ractive s) scanner")
  case None
  then show ?thesis by (simp add: beginReload_def)
next
  case act: (Some k)
  obtain w where w: "mget (rworkers s) k = Some w" "rstate w = WorkerActive"
    using rroute_registered [OF assms act] by blast
  show ?thesis
  proof (cases "reloadReply w")
    case (Some c')
    with act w show ?thesis by (simp add: beginReload_def)
  next
    case none: None
    let ?w = "w\<lparr>reloadReply := Some c, pendingSignaturePath := path\<rparr>"
    obtain err w' where q: "queueWorkerMessage ?w (reloadMessage path) = (err, w')"
      by (cases "queueWorkerMessage ?w (reloadMessage path)")
    show ?thesis
    proof (cases err)
      case None
      have "worker_chans (w'\<lparr>reloadTimer := True\<rparr>) = worker_chans w + {#c#}"
        "rstate (w'\<lparr>reloadTimer := True\<rparr>) = rstate w"
        using queue_chans [OF q] queue_simps(1) [OF q] none
        by (simp_all add: worker_chans_def opt_chan_def)
      from settles_add [OF rt_inv_distinct [OF assms] w(1) this] act w q None none show ?thesis
        by (simp add: beginReload_def)
    next
      case (Some e)
      let ?w' = "w\<lparr>pendingSignaturePath := ''''\<rparr>"
      have same: "w'\<lparr>reloadReply := None, pendingSignaturePath := ''''\<rparr> = ?w'"
        using queue_simps(2) [OF q] Some none by simp
      have "wk_ok (stopReply s \<noteq> None) (open_for k (rrequests s)) k ?w'"
        using rworkers_okD [OF rt_invD(2) [OF assms] w(1)] by (simp add: wk_ok_def)
      from unqueued_evolves [OF assms w(1) _ this]
      have "settles {#c#} s (handleWorkerFailure k (txt e)
          (send_reply c (ReloadReply zeroReload (Some e)) (adjust_runtime k (\<lambda>_. ?w') s)))"
        unfolding settles_def by (simp add: worker_chans_def)
      with act w q Some none same show ?thesis by (simp add: beginReload_def)
    qed
  qed
qed

lemma recordReloadResult_settles:
  assumes "rt_inv {} {} s"
  shows "settles {#} s (recordReloadResult k m s)"
proof -
  let ?s = "adjust_runtime k (\<lambda>w. w\<lparr>signaturePath := (if mSuccess m then pendingSignaturePath w
      else signaturePath w), pendingSignaturePath := ''''\<rparr>) s"
  note d = rt_inv_distinct [OF assms]
  have "settles {#} s ?s" by (rule settles_adjust [OF d]) (simp_all add: worker_chans_def)
  moreover have "settles {#} ?s (answerReload k out err ?s)" for out err
    by (rule settles_answers) (use d in simp)
  ultimately have "settles {#} s (answerReload k out err ?s)" for out err by (rule settles_before)
  then show ?thesis by (auto simp: recordReloadResult_def Let_def split: option.splits)
qed

lemma timeoutReload_settles:
  assumes "rt_inv {} {} s"
  shows "settles {#} s (timeoutReload k s)"
proof -
  note d = rt_inv_distinct [OF assms]
  have d': "distinct (keys (rworkers (answerReload k out err s)))" for out err
    using rt_inv_distinct [OF answers_inv(3) [OF assms]] .
  have "settles {#} s (adjust_runtime k (pendingSignaturePath_update (\<lambda>_. ''''))
      (answerReload k zeroReload (Some ReloadTimedOut) s))"
    by (rule settles_before [OF settles_answers(3) [OF d] settles_adjust [OF d']])
      (simp_all add: worker_chans_def)
  then show ?thesis by (simp add: timeoutReload_def split: option.splits)
qed

lemma answerHealth_evolves:
  assumes "distinct (keys (rworkers s))"
  shows "evolves {#} s (answerHealth k err (adjust_runtime k (rstate_update f) s))"
proof -
  have "evolves {#} s (adjust_runtime k (rstate_update f) s)"
    by (rule evolves_adjust [OF assms]) (simp add: worker_chans_def)
  moreover have "evolves {#} (adjust_runtime k (rstate_update f) s)
      (answerHealth k err (adjust_runtime k (rstate_update f) s))"
    by (rule evolves_answers) (use assms in simp)
  ultimately show ?thesis by (rule evolves_trans0)
qed

lemma settles_evolves: "settles C s t \<Longrightarrow> evolves C s t"
  by (simp add: settles_def)

lemma evolves_if:
  "(P \<Longrightarrow> evolves C s t) \<Longrightarrow> (\<not> P \<Longrightarrow> evolves C s u) \<Longrightarrow> evolves C s (if P then t else u)"
  by simp

lemma handleWorkerMessage_evolves:
  assumes "rt_inv {} {} s" "Validate m = None"
  shows "evolves {#} s (handleWorkerMessage txt k m s)"
proof (cases "mget (rworkers s) k")
  case None
  then have "handleWorkerMessage txt k m s = s" by (intro handleWorkerMessage_noop) simp
  then show ?thesis by simp
next
  case (Some w)
  note d = rt_inv_distinct [OF assms(1)]
  have ack: "evolves {#} s (adjust_runtime k (\<lambda>w. w\<lparr>shutdownAck := True, killTimer := True\<rparr>) s)"
    by (rule evolves_adjust [OF d]) (simp add: worker_chans_def)
  note others = evolves_refl ack evolves_answers [OF d] answerHealth_evolves [OF d]
    handleWorkerFailure_evolves(1) [OF assms(1)]
    recordReloadResult_settles [OF assms(1), THEN settles_evolves]
  note results = recordRuntimeScanResult_settles [OF assms, THEN settles_evolves]
  show ?thesis
    unfolding handleWorkerMessage_def Some option.case
    by (intro evolves_if) (rule others | erule results)+
qed

lemma handleWorkerExit_evolves:
  assumes "rt_inv {} {} s"
  shows "evolves {#} s (handleWorkerExit k e s)"
proof (cases "mget (rworkers s) k")
  case None
  then show ?thesis by (simp add: handleWorkerExit_def)
next
  case (Some w)
  note d = rt_inv_distinct [OF assms]
  let ?s = "adjust_runtime k (rnoteExit e) s"
  have noted: "evolves {#} s ?s"
    by (rule evolves_adjust [OF d]) (simp add: worker_chans_def rnoteExit_def)
  have inv: "rt_inv {} {} ?s"
    by (rule adjust_runtime_inv [OF assms]) (simp_all add: rnoteExit_def wk_ok_def)
  have "evolves {#} ?s (adjust_runtime k (rstate_update (\<lambda>_. WorkerRetired)) ?s)"
    by (rule evolves_adjust [OF rt_inv_distinct [OF inv]]) (simp add: worker_chans_def)
  note all = noted evolves_trans0 [OF noted this]
    evolves_trans0 [OF noted handleWorkerFailure_evolves(1) [OF inv]]
  show ?thesis
    unfolding handleWorkerExit_def Some option.case Let_def by (intro evolves_if) (rule all)+
qed

lemma assignedState_evolves:
  assumes "rt_inv {} {} s" "nextRequestID s < - 1"
  shows "evolves {#c#} s (assignedState path c ks s)"
    "distinct ks \<Longrightarrow> fails_only s (assignedState path c ks s)"
proof -
  let ?t = "assignedState path c ks s" and ?i = "nextRequestID s + 1"
  note fresh = fresh_id [OF assms]
  have t: "sent ?t = sent s" "status ?t = status s" "stopReply ?t = stopReply s"
    "rworkers ?t = fold (\<lambda>k. madjust k countScan) ks (rworkers s)"
    "rrequests ?t = mput ?i (newRequest ?i path c ks) (rrequests s)"
    by (simp_all add: assignedState_def Let_def)
  have "map_sum worker_chans (rworkers ?t) = map_sum worker_chans (rworkers s)"
    unfolding t by (rule map_sum_fold_madjust [OF _ rt_inv_distinct [OF assms(1)]])
      (simp add: worker_chans_def countScan_def)
  then have "ledger ?t = ledger s + {#c#}"
    by (simp add: ledger_def held_def t map_sum_mput_fresh [OF fresh])
  moreover have "followed ?t i r" if "mget (rrequests s) i = Some r" for i r
    using that fresh by (auto simp: followed_def t map_laws)
  ultimately show "evolves {#c#} s ?t" by (simp add: evolves_def t)
  assume "distinct ks"
  then have "runtime_states ?t = runtime_states s"
    by (simp add: runtime_states_def fun_eq_iff t mget_fold_madjust option.map_comp comp_def countScan_def)
  then show "fails_only s ?t" by (rule fails_only_same)
qed

lemma sendScan_settles:
  assumes "rt_inv {} {} s" "k \<in> set (keys (rworkers s))"
  shows "settles {#} s (sendScan txt i path k s)"
proof -
  obtain w where w: "mget (rworkers s) k = Some w" using assms(2) by (rule in_keysE)
  obtain err w' where q: "queueWorkerMessage w (scanMessage i path) = (err, w')"
    by (cases "queueWorkerMessage w (scanMessage i path)")
  have "settles {#} s (adjust_runtime k (\<lambda>_. w') s)"
    by (rule settles_adjust [OF rt_inv_distinct [OF assms(1)]])
      (use w queue_chans [OF q] queue_simps(1) [OF q] in simp_all)
  with w q settles_failure [OF assms(1)] show ?thesis
    by (cases err) (simp_all add: sendScan_def)
qed

lemma sendScans_settles:
  assumes "rt_inv {} {} s" "nextRequestID s < - 1" "\<not> blank path" "stopReply s = None" "ractive s \<noteq> []"
  shows "settles {#} (assignedState path c (map snd (ractive s)) s)
    (fold (sendScan txt (nextRequestID s + 1) path) (map snd (ractive s))
      (assignedState path c (map snd (ractive s)) s))"
proof -
  let ?i = "nextRequestID s + 1" and ?ks = "map snd (ractive s)"
  let ?s = "assignedState path c ?ks s"
  let ?P = "\<lambda>u. rt_inv {} {} u \<and> keys (rworkers u) = keys (rworkers s) \<and> settles {#} ?s u"
  have core: "core_message (scanMessage ?i path)"
    using u64_succ(1) [OF assms(2)] assms(3) by (rule core_scanMessage)
  have reg: "k \<in> set (keys (rworkers s))" if k: "k \<in> set ?ks" for k
  proof (rule runtime_statesE)
    show "runtime_states s k = Some WorkerActive" using k active_workers(2) [OF assms(1)] by blast
  qed (rule mget_SomeD)
  have step: "?P (sendScan txt ?i path k u)" if k: "k \<in> set ?ks" and u: "?P u" for k u
  proof (intro conjI)
    from u reg [OF k] have h: "rt_inv {} {} u" "k \<in> set (keys (rworkers u))" by simp_all
    show "rt_inv {} {} (sendScan txt ?i path k u)" by (rule sendScan_inv [OF h core])
    show "settles {#} ?s (sendScan txt ?i path k u)"
      using u sendScan_settles [OF h] by (blast intro: settles_after)
  qed (use u in simp)
  have "?P ?s"
    using assignedState_inv [OF assms(1,2,4,5)] by (simp add: assignedState_def Let_def)
  then have "?P (fold (sendScan txt ?i path) ?ks ?s)"
    by (rule fold_invariant_set) (rule step)
  then show ?thesis by blast
qed

lemma beginScan_settles:
  assumes "rt_inv {} {} s" "nextRequestID s < - 1" "\<not> blank path"
  shows "settles {#c#} s (beginScan txt path c s)"
proof (cases rule: beginScan_cases [OF assms(1,2), of "txt" path c])
  case 3
  have "settles {#c#} s (assignedState path c (map snd (ractive s)) s)"
    unfolding settles_def
    using assignedState_evolves [OF assms(1,2)] active_workers(1) [OF assms(1)] by blast
  then show ?thesis unfolding 3(3) by (rule settles_after) (rule sendScans_settles [OF assms 3(1,2)])
qed simp_all

section \<open>Turns and transitions\<close>

lemma cancelRequest_evolves:
  assumes "rt_inv {} W s"
  shows "evolves {#} s (cancelRequest i s)"
proof (cases "mget (rrequests s) i")
  case None
  have "adjust_request i f s = s" for f
    using None by (simp add: adjust_request_def madjust_other mget_None_iff)
  with None show ?thesis by (simp add: cancelRequest_def completeRequest_def)
next
  case (Some r)
  have "valid_result i (substitute i VerdictUnavailable ''core is shutting down'')"
    using req_okD(1) [OF rrequests_okD(1) [OF rt_invD(5) [OF assms] Some]]
    by (simp add: valid_substitute validVerdict_def)
  from fill_complete_settles [OF assms Some this] show ?thesis
    by (simp add: cancelRequest_def settles_def)
qed

lemma fold_cancelRequest_evolves:
  "rt_inv {} W s \<Longrightarrow> evolves {#} s (fold cancelRequest is s)"
proof (induction "is" arbitrary: W s)
  case Nil
  then show ?case by simp
next
  case (Cons i "is")
  from evolves_trans0 [OF cancelRequest_evolves [OF Cons.prems] Cons.IH [OF cancelRequest_inv [OF Cons.prems]]]
  show ?case by simp
qed

lemma worker_chans_drain [simp]: "worker_chans (drainWorker w) = worker_chans w"
  by (simp add: drainWorker_def worker_chans_def)

lemma evolves_mapvals:
  assumes "\<And>w. worker_chans (f w) = worker_chans w"
    and "ledger t = ledger (s\<lparr>rworkers := mapvals (\<lambda>_. f) (rworkers s)\<rparr>)" "sent t = sent s"
      "rrequests t = rrequests s"
  shows "evolves {#} s t"
  using assms by (intro evolvesI [where l = "[]"]) (simp_all add: ledger_def held_def map_sum_mapvals_same)

lemma beginShutdown_evolves:
  assumes "rt_inv {} {} s" "stopReply s = None" "status s = Running"
  shows "evolves {#c#} s (beginShutdown (s\<lparr>stopReply := Some c\<rparr>))"
proof -
  let ?s0 = "s\<lparr>stopReply := Some c\<rparr>"
  let ?s1 = "fold cancelRequest (keys (rrequests s)) ?s0"
  have "evolves {#c#} s ?s0"
    by (rule evolvesI [where l = "[]"]) (simp_all add: ledger_def held_def assms(2,3) opt_chan_def)
  moreover have "evolves {#} ?s0 ?s1" by (rule fold_cancelRequest_evolves [OF announce_stop_inv [OF assms(1)]])
  moreover have "evolves {#} ?s1 (beginShutdown ?s0)"
    by (rule evolves_mapvals [where f = drainWorker])
      (simp_all add: beginShutdown_def Let_def ledger_def held_def)
  ultimately show ?thesis by (blast intro: evolves_after)
qed

lemma activeWorker_settles:
  assumes "rt_inv {} {} s"
  shows "settles {#c#} s (activeWorker scanner c s)"
proof (cases "mget (ractive s) scanner")
  case None
  then show ?thesis by (simp add: activeWorker_def)
next
  case (Some k)
  obtain w where "mget (rworkers s) k = Some w" using rroute_registered [OF assms Some] by blast
  with Some show ?thesis by (simp add: activeWorker_def)
qed

lemma send_done_evolves: "evolves {#} s (snd p) \<Longrightarrow> evolves {#c#} s (send_done c p)"
  unfolding send_done_def by (rule evolves_before [OF _ evolves_send])

lemma handle_evolves:
  assumes "rt_inv {} {} s" "event_ok s e" "status s = Running"
    and "\<And>c. e = ShutdownRuntime c \<Longrightarrow> stopReply s = None"
  shows "evolves (event_chan e) s (handle kill txt e s)"
proof (cases e)
  case (RegisterRuntime w ch c)
  then show ?thesis
    by (simp add: event_chan_def send_done_evolves
        registerRuntimeWorker_evolves [of w ch s "fst (registerRuntimeWorker w ch s)"])
next
  case (HelloRuntime k c)
  then show ?thesis using beginHello_settles [OF assms(1)] by (simp add: event_chan_def settles_def)
next
  case (HealthRuntime k c)
  then show ?thesis using beginHealth_settles [OF assms(1)] by (simp add: event_chan_def settles_def)
next
  case (ActivateRuntime k c)
  then show ?thesis
    by (simp add: event_chan_def send_done_evolves
        activateRuntimeWorker_evolves [OF assms(1), of k "fst (activateRuntimeWorker k s)"])
next
  case (FailRuntime k reason c)
  then show ?thesis
    using failRuntimeWorker_settles [OF assms(1), of kill k reason "fst (failRuntimeWorker kill k reason s)"]
    by (simp add: event_chan_def send_done_evolves settles_def)
next
  case (WorkerMessage k m)
  with assms(2) show ?thesis
    using handleWorkerMessage_evolves [OF assms(1)] by (simp add: event_chan_def event_ok_def)
next
  case (WorkerFailure k reason)
  then show ?thesis using handleWorkerFailure_evolves(1) [OF assms(1)] by (simp add: event_chan_def)
next
  case (WorkerExit k x)
  then show ?thesis using handleWorkerExit_evolves [OF assms(1)] by (simp add: event_chan_def)
next
  case (ScanRuntime path c)
  with assms(2) show ?thesis
    using beginScan_settles [OF assms(1)] by (simp add: event_chan_def event_ok_def settles_def)
next
  case (ScanTimeout i)
  then show ?thesis using timeoutScan_settles [OF assms(1)] by (simp add: event_chan_def settles_def)
next
  case (ReloadRuntime scanner path c)
  then show ?thesis using beginReload_settles [OF assms(1)] by (simp add: event_chan_def settles_def)
next
  case (ReloadTimeout k)
  then show ?thesis using timeoutReload_settles [OF assms(1)] by (simp add: event_chan_def settles_def)
next
  case (SnapshotRuntime c)
  then show ?thesis by (simp add: event_chan_def evolves_send)
next
  case (ActiveRuntime scanner c)
  then show ?thesis using activeWorker_settles [OF assms(1)] by (simp add: event_chan_def settles_def)
next
  case (ShutdownRuntime c)
  then show ?thesis using beginShutdown_evolves [OF assms(1) assms(4) assms(3)] by (simp add: event_chan_def)
qed

lemma worker_chans_close [simp]: "worker_chans (closeWorker kill w) = worker_chans w"
  by (simp add: closeWorker_def Let_def worker_chans_def)

lemma cleanup_evolves: "evolves {#} s (cleanup kill s)"
  by (rule evolves_mapvals [where f = "closeWorker kill"]) (simp_all add: cleanup_def)

lemma status_evolves:
  assumes "status s = Running"
  shows "evolves {#} s (s\<lparr>status := Cancelled\<rparr>)"
    "stopReply s = Some c \<Longrightarrow> evolves {#} s ((send_reply c a s)\<lparr>status := Returned\<rparr>)"
proof -
  show "evolves {#} s (s\<lparr>status := Cancelled\<rparr>)"
    by (rule evolvesI [where l = "[]"]) (simp_all add: ledger_def held_def assms)
  assume "stopReply s = Some c"
  then show "evolves {#} s ((send_reply c a s)\<lparr>status := Returned\<rparr>)"
    by (intro evolvesI [where l = "[(c, a)]"]) (simp_all add: ledger_def held_def assms opt_chan_def)
qed

lemma stop_check_evolves:
  assumes "status s = Running"
  shows "evolves {#} s (stop_check kill s)"
proof (cases "stopReply s")
  case None
  then show ?thesis by (simp add: stop_check_def)
next
  case (Some c)
  from evolves_trans0 [OF status_evolves(2) [OF assms Some] cleanup_evolves] Some
  show ?thesis by (simp add: stop_check_def)
qed

text \<open>The handlers touch neither the status nor, but for a shutdown, its channel.\<close>

definition frame :: "runtimeState \<Rightarrow> run_status \<times> chan option" where
  "frame s = (status s, stopReply s)"

lemma frame_updates [simp]:
  "frame (adjust_runtime k f s) = frame s" "frame (adjust_request i g s) = frame s"
  "frame (send_reply c a s) = frame s" "frame (panic s) = frame s"
  "frame (s\<lparr>rworkers := x1\<rparr>) = frame s" "frame (s\<lparr>ractive := x2\<rparr>) = frame s"
  "frame (s\<lparr>rrequests := x3\<rparr>) = frame s" "frame (openScan path c s) = frame s"
  by (simp_all add: frame_def panic_def openScan_def Let_def)

lemma frame_fold: "(\<And>x s. frame (f x s) = frame s) \<Longrightarrow> frame (fold f xs s) = frame s"
  by (induction xs arbitrary: s) simp_all

lemma frame_completeRequest [simp]:
  "frame (completeRequest i s) = frame s" "frame (completeRequestIfReady i s) = frame s"
proof -
  show "frame (completeRequest i s) = frame s" for i s
    by (simp add: completeRequest_def Let_def frame_fold split: option.split)
  then show "frame (completeRequestIfReady i s) = frame s"
    by (simp add: completeRequestIfReady_def split: option.split)
qed

lemma frame_take_reply [simp]: "frame (take_reply k get clear a s) = frame s"
  by (simp add: take_reply_def split: option.split)

lemma frame_answers [simp]:
  "frame (answerHello k e s) = frame s" "frame (answerHealth k e s) = frame s"
  "frame (answerReload k out e s) = frame s"
  by (simp_all add: answerHello_def answerHealth_def answerReload_def)

lemma frame_failResult [simp]: "frame (failResult k reason i s) = frame s"
  by (simp add: failResult_def split: option.split)

lemma frame_failure [simp]: "frame (handleWorkerFailure k reason s) = frame s"
proof -
  have "frame (fold (failResult k reason) is s) = frame s" for "is" s by (rule frame_fold) simp
  then show ?thesis by (simp add: handleWorkerFailure_def Let_def split: option.split)
qed

lemma frame_scan [simp]:
  "frame (assignScan i k s) = frame s" "frame (sendScan txt i path k s) = frame s"
  "frame (cancelRequest i s) = frame s"
  by (simp_all add: assignScan_def sendScan_def cancelRequest_def split: option.split prod.split)

lemma frame_message [simp]: "frame (handleWorkerMessage txt k m s) = frame s"
  by (simp add: handleWorkerMessage_def recordRuntimeScanResult_def recordReloadResult_def Let_def
      split: option.split)

lemma frame_handle:
  assumes "\<forall>c. e \<noteq> ShutdownRuntime c"
  shows "frame (handle kill txt e s) = frame s"
proof (cases e)
  case (ShutdownRuntime c)
  with assms show ?thesis by simp
next
  case (RegisterRuntime w ch c)
  then show ?thesis
    by (simp add: send_done_def registerRuntimeWorker_def Let_def split: option.split prod.split)
next
  case (HelloRuntime k c)
  then show ?thesis by (simp add: beginHello_def split: option.split prod.split)
next
  case (HealthRuntime k c)
  then show ?thesis by (simp add: beginHealth_def split: option.split prod.split)
next
  case (ActivateRuntime k c)
  then show ?thesis
    by (simp add: send_done_def activateRuntimeWorker_def Let_def split: option.split)
next
  case (FailRuntime k reason c)
  then show ?thesis by (simp add: send_done_def failRuntimeWorker_def split: option.split)
next
  case (WorkerExit k x)
  then show ?thesis by (simp add: handleWorkerExit_def Let_def split: option.split)
next
  case (ScanRuntime path c)
  then show ?thesis by (simp add: beginScan_def Let_def frame_fold)
next
  case (ScanTimeout i)
  then show ?thesis by (simp add: timeoutScan_def split: option.split)
next
  case (ReloadRuntime scanner path c)
  then show ?thesis by (simp add: beginReload_def split: option.split prod.split)
next
  case (ReloadTimeout k)
  then show ?thesis by (simp add: timeoutReload_def split: option.split)
next
  case (ActiveRuntime scanner c)
  then show ?thesis by (simp add: activeWorker_def split: option.split)
qed simp_all

lemma frame_shutdown: "frame (beginShutdown s) = frame s"
  by (simp add: beginShutdown_def Let_def frame_fold)

lemma handle_status: "status (handle kill txt e s) = status s"
proof (cases "\<exists>c. e = ShutdownRuntime c")
  case True
  then obtain c where "e = ShutdownRuntime c" by blast
  with frame_shutdown [of "s\<lparr>stopReply := Some c\<rparr>"] show ?thesis by (simp add: frame_def)
next
  case False
  with frame_handle [of e kill "txt" s] show ?thesis by (simp add: frame_def)
qed

lemma runtime_turn_evolves:
  assumes "rt_inv {} {} s" "event_ok s e" "status s = Running"
  shows "evolves (event_chan e) s (runtime_turn kill txt e s)"
proof (cases rule: runtime_turn_cases [of e s kill "txt"])
  case (1 c x)
  then show ?thesis by (simp add: event_chan_def evolves_send)
next
  case 2
  have "evolves (event_chan e) s (handle kill txt e s)"
    by (rule handle_evolves [OF assms 2(1)])
  moreover have "evolves {#} (handle kill txt e s) (stop_check kill (handle kill txt e s))"
    by (rule stop_check_evolves) (simp add: handle_status assms(3))
  ultimately show ?thesis unfolding 2(2) by (rule evolves_after)
qed

lemma same_runtime_evolves:
  assumes "same_runtime s s'" "rt_inv {} {} s"
  shows "evolves {#} s s'"
proof -
  note inv = rt_invD [OF assms(2)]
  note views = same_runtime_views [OF assms(1) inv(1)]
  have h: "same_map (rworkers s) (rworkers s')" "same_requests (rrequests s) (rrequests s')"
    using assms(1) by (simp_all add: same_runtime_def)
  from h(2) obtain rs1 where rs1: "same_map (rrequests s) rs1"
    "list_all2 (\<lambda>(i, r) (j, r'). i = j \<and> same_request r r') rs1 (rrequests s')"
    by (auto simp: same_requests_def)
  have "map_sum (\<lambda>r. {#reqReply r#}) (rrequests s') = map_sum (\<lambda>r. {#reqReply r#}) rs1"
    using rs1(2)
  proof (induction rule: list_all2_induct)
    case (Cons p rs p' rs')
    then have "reqReply (snd p') = reqReply (snd p)"
      by (cases p; cases p'; clarsimp simp: same_request_def) (metis runtimeRequest.ext_inject runtimeRequest.surjective runtimeRequest.update_convs(3))
    with Cons show ?case by simp
  qed simp
  with map_sum_same_map [OF rs1(1), of "\<lambda>r. {#reqReply r#}"] map_sum_same_map [OF h(1), of worker_chans]
  have "ledger s' = ledger s" by (simp add: ledger_def held_def views)
  moreover have "followed s' i r" if r: "mget (rrequests s) i = Some r" for i r
  proof -
    from views(3) [of i] r obtain r' where r': "mget (rrequests s') i = Some r'" "same_request r r'"
      by (auto simp: option_rel_Some1)
    note res = same_request_results [OF r'(2) req_okD(6) [OF rrequests_okD(1) [OF inv(5) r]]]
    have "grows (reqResults r) (reqResults r')"
      using same_request_set [OF r'(2)] by (simp add: grows_def res(1))
    with r'(1) res(7) show ?thesis by (auto simp: followed_def)
  qed
  ultimately show ?thesis by (simp add: evolves_def views)
qed

definition label_chan :: "label \<Rightarrow> chan multiset" where
  "label_chan l = (case l of Turn e \<Rightarrow> event_chan e | _ \<Rightarrow> {#})"

lemma runtime_trans_evolves:
  assumes "runtime_trans s l t" "rt_inv {} {} s"
  shows "evolves (label_chan l) s t"
  using assms(1)
proof cases
  case (turn s' e kill "txt")
  note inv' = same_runtime_inv [OF assms(2) turn(3)]
  have "event_ok s' e" "status s' = Running"
    using turn(2,4) event_ok_same [OF turn(3) rt_invD(1) [OF assms(2)]]
      same_runtime_views(11) [OF turn(3) rt_invD(1) [OF assms(2)]] by simp_all
  from evolves_before [OF same_runtime_evolves [OF turn(3) assms(2)] runtime_turn_evolves [OF inv' this]]
  show ?thesis by (simp add: label_chan_def turn)
next
  case (wrote k w)
  then show ?thesis
    by (auto simp: label_chan_def takeMessage_def worker_chans_def intro!: evolves_adjust rt_inv_distinct [OF assms(2)])
next
  case (fired k w kill)
  then show ?thesis
    by (auto simp: label_chan_def fireTimer_def worker_chans_def intro!: evolves_adjust rt_inv_distinct [OF assms(2)])
next
  case (cancelled kill)
  then show ?thesis
    using evolves_trans0 [OF status_evolves(1) cleanup_evolves] by (simp add: label_chan_def)
qed

lemma runtime_runs_evolves:
  assumes "runtime_runs s ls t" "runtime_reach s"
  shows "evolves (sum_list (map label_chan ls)) s t"
  using assms
proof (induction rule: runs.induct)
  case (run_nil s)
  show ?case by simp
next
  case (run_cons s l t ls u)
  have "runtime_reach t" using run_cons.prems run_cons.hyps(1) by (rule reach_step)
  from evolves_trans [OF runtime_trans_evolves [OF run_cons.hyps(1) runtime_reach_inv [OF run_cons.prems]]
      run_cons.IH [OF this]]
  show ?case by simp
qed

end
