(* ===== verification/RuntimeProps.thy ===== *)
theory RuntimeProps
  imports RuntimeReplies
begin

text \<open>
  The properties of the runtime of \<^verbatim>\<open>src/pkg/coordinator/runtime.go\<close>: the lifecycle
  contract while no shutdown has begun, and the properties themselves, with a run of
  concrete events that their witnesses evaluate.
\<close>

section \<open>The lifecycle contract\<close>

text \<open>
  Every worker moves as the relation allows, and a new one is starting. A calm move is one
  that neither activates nor drains a worker.
\<close>

definition calm :: "WorkerState \<Rightarrow> WorkerState \<Rightarrow> bool" where
  "calm a b \<longleftrightarrow> moves a b \<and> (b = WorkerActive \<or> b = WorkerDraining \<longrightarrow> a = b)"

lemma calm_refl [simp]: "calm a a"
  by (simp add: calm_def)

definition rstates_step ::
  "(WorkerState \<Rightarrow> WorkerState \<Rightarrow> bool) \<Rightarrow> runtimeState \<Rightarrow> runtimeState \<Rightarrow> bool" where
  "rstates_step M s t \<longleftrightarrow> (\<forall>k. case runtime_states s k of
     Some a \<Rightarrow> (\<exists>b. runtime_states t k = Some b \<and> M a b)
   | None \<Rightarrow> runtime_states t k = None \<or> runtime_states t k = Some WorkerStarting)"

lemma rstates_stepI:
  assumes "\<And>k a. runtime_states s k = Some a \<Longrightarrow> \<exists>b. runtime_states t k = Some b \<and> M a b"
    and "\<And>k. runtime_states s k = None \<Longrightarrow> runtime_states t k = None \<or> runtime_states t k = Some WorkerStarting"
  shows "rstates_step M s t"
  using assms by (auto simp: rstates_step_def split: option.split)

lemma rstates_stepD:
  "rstates_step M s t \<Longrightarrow> runtime_states s k = Some a \<Longrightarrow> \<exists>b. runtime_states t k = Some b \<and> M a b"
  "rstates_step M s t \<Longrightarrow> runtime_states s k = None \<Longrightarrow> runtime_states t k = Some b \<Longrightarrow> b = WorkerStarting"
  by (drule rstates_step_def [THEN iffD1, rule_format, of _ _ _ k], simp)+

lemma rstates_step_mono: "rstates_step calm s t \<Longrightarrow> rstates_step moves s t"
  by (rule rstates_stepI) (auto simp: calm_def dest: rstates_stepD(1) rstates_stepD(2) intro: ccontr)

lemma fails_only_step: "fails_only s t \<Longrightarrow> rstates_step calm s t"
proof (rule rstates_stepI)
  fix k a
  assume "fails_only s t" "runtime_states s k = Some a"
  then show "\<exists>b. runtime_states t k = Some b \<and> calm a b"
    unfolding fails_only_def calm_def moves_def
    by (metis WorkerState.distinct failed option.inject)
next
  fix k
  assume "fails_only s t" "runtime_states s k = None"
  then show "runtime_states t k = None \<or> runtime_states t k = Some WorkerStarting"
    unfolding fails_only_def by (metis option.distinct(1))
qed

lemma rstates_step_same: "runtime_states t = runtime_states u \<Longrightarrow> rstates_step M s t \<longleftrightarrow> rstates_step M s u"
  by (simp add: rstates_step_def split: option.split)

lemma states_send [simp]: "runtime_states (send_reply c a s) = runtime_states s"
  by (rule runtime_states_cong) simp

lemma rstates_step_send_done [simp]: "rstates_step M s (send_done c p) = rstates_step M s (snd p)"
  by (rule rstates_step_same) (simp add: send_done_def)

lemma states_health [simp]: "runtime_states (answerHealth k err s) = runtime_states s"
  by (auto simp: answerHealth_def take_reply_def runtime_states_def fun_eq_iff map_laws
      option.map_comp comp_def split: option.split)

lemma rstates_step_adjust:
  assumes "mget (rworkers s) k = Some w" "M (rstate w) (rstate (f w))" "\<And>a. M a a"
  shows "rstates_step M s (adjust_runtime k f s)"
  by (rule rstates_stepI)
    (use assms in \<open>auto simp: runtime_states_adjust mget_runtime_states split: if_splits\<close>)

lemma register_step:
  assumes "registerRuntimeWorker w ch s = (err, t)"
  shows "rstates_step calm s t"
  using registerRuntimeWorker_cases [OF assms]
proof (elim disjE exE conjE)
  fix k
  assume k: "mget (rworkers s) k = None" and t: "t = s\<lparr>rworkers := mput k (newWorker w ch) (rworkers s)\<rparr>"
  have "runtime_states t k' = (if k' = k then Some WorkerStarting else runtime_states s k')" for k'
    by (simp add: t runtime_states_def map_laws newWorker_def)
  with k show ?thesis by (intro rstates_stepI) (auto simp: runtime_states_def)
qed (simp add: fails_only_step)

lemma activate_step:
  assumes "rt_inv {} {} s" "activateRuntimeWorker k s = (err, t)"
  shows "rstates_step moves s t"
proof (cases err)
  case None
  note states = activateRuntimeWorker_states [OF assms(2) [unfolded None] assms(1)]
  from activateRuntimeWorker_cases [OF assms(2,1)] None
  have healthy: "runtime_states s k = Some WorkerHealthy" by auto
  show ?thesis
  proof (rule rstates_stepI)
    fix k' a
    assume a: "runtime_states s k' = Some a"
    have "a = WorkerActive" if "mget (ractive s) (ScannerID k) = Some k'"
      using that a rroutes_okD [OF rt_invD(3) [OF assms(1)]] by simp
    with a healthy show "\<exists>b. runtime_states t k' = Some b \<and> moves a b"
      by (auto simp: states moves_def edges)
  next
    fix k'
    assume "runtime_states s k' = None"
    with healthy rroutes_okD [OF rt_invD(3) [OF assms(1)], of "ScannerID k" k']
    show "runtime_states t k' = None \<or> runtime_states t k' = Some WorkerStarting"
      by (auto simp: states)
  qed
next
  case (Some e)
  from activateRuntimeWorker_cases [OF assms(2,1)] Some have "t = s" by auto
  then show ?thesis by (simp add: fails_only_step rstates_step_mono)
qed

lemma rstates_step_if:
  "(P \<Longrightarrow> rstates_step calm s t) \<Longrightarrow> (\<not> P \<Longrightarrow> rstates_step calm s u) \<Longrightarrow> rstates_step calm s (if P then t else u)"
  by simp

lemma message_step:
  assumes "rt_inv {} {} s" "Validate m = None" "stopReply s = None"
  shows "rstates_step calm s (handleWorkerMessage txt k m s)"
proof (cases "mget (rworkers s) k")
  case None
  then have "handleWorkerMessage txt k m s = s" by (intro handleWorkerMessage_noop) simp
  then show ?thesis by (simp add: fails_only_step)
next
  case (Some w)
  note ok = rworkers_okD [OF rt_invD(2) [OF assms(1)] Some]
  have health: "rstates_step calm s (answerHealth k None (adjust_runtime k (rstate_update (\<lambda>_. WorkerHealthy)) s))"
    if "healthReply w \<noteq> None"
  proof -
    from that ok assms(3) have "calm (rstate w) WorkerHealthy"
      by (auto simp: wk_ok_def calm_def moves_def edges)
    then have "rstates_step calm s (adjust_runtime k (rstate_update (\<lambda>_. WorkerHealthy)) s)"
      by (intro rstates_step_adjust [OF Some]) simp_all
    then show ?thesis by (simp add: rstates_step_same [OF states_health])
  qed
  have ack: "fails_only s (adjust_runtime k (\<lambda>w. w\<lparr>shutdownAck := True, killTimer := True\<rparr>) s)"
    by (rule fails_only_adjust) simp
  note others = fails_only_refl ack fails_only_answers handleWorkerFailure_evolves(2) [OF assms(1)]
    recordReloadResult_settles [OF assms(1), unfolded settles_def, THEN conjunct2]
  note others' = others [THEN fails_only_step]
  note results = recordRuntimeScanResult_settles [OF assms(1,2), unfolded settles_def, THEN conjunct2,
      THEN fails_only_step]
  show ?thesis
    unfolding handleWorkerMessage_def Some option.case
    by (intro rstates_step_if) (rule others' | erule results health)+
qed

lemma exit_step:
  assumes "rt_inv {} {} s"
  shows "rstates_step calm s (handleWorkerExit k e s)"
proof (cases "mget (rworkers s) k")
  case None
  then show ?thesis by (simp add: handleWorkerExit_def fails_only_step)
next
  case (Some w)
  let ?s = "adjust_runtime k (rnoteExit e) s"
  have noted: "fails_only s ?s" by (rule fails_only_adjust) (simp add: rnoteExit_def)
  have inv: "rt_inv {} {} ?s"
    by (rule adjust_runtime_inv [OF assms]) (simp_all add: rnoteExit_def wk_ok_def)
  have retire: "rstates_step calm s (adjust_runtime k (rstate_update (\<lambda>_. WorkerRetired)) ?s)"
    if "rstate w = WorkerDraining \<and> shutdownAck w"
  proof (rule rstates_stepI)
    fix k' a
    assume "runtime_states s k' = Some a"
    then show "\<exists>b. runtime_states (adjust_runtime k (rstate_update (\<lambda>_. WorkerRetired)) ?s) k' = Some b \<and> calm a b"
      using that Some by (cases "k' = k") (auto simp: runtime_states_def map_laws calm_def moves_def edges)
  next
    fix k'
    assume "runtime_states s k' = None"
    then show "runtime_states (adjust_runtime k (rstate_update (\<lambda>_. WorkerRetired)) ?s) k' = None \<or>
        runtime_states (adjust_runtime k (rstate_update (\<lambda>_. WorkerRetired)) ?s) k' = Some WorkerStarting"
      using Some by (auto simp: runtime_states_def map_laws split: if_splits)
  qed
  note others = noted [THEN fails_only_step]
    fails_only_trans [OF noted handleWorkerFailure_evolves(2) [OF inv], THEN fails_only_step]
  show ?thesis
    unfolding handleWorkerExit_def Some option.case Let_def
    by (intro rstates_step_if) (rule others | erule retire)+
qed

lemma handle_step:
  assumes "rt_inv {} {} s" "event_ok s e" "stopReply s = None" "\<forall>c. e \<noteq> ShutdownRuntime c"
    "\<forall>k c. e \<noteq> ActivateRuntime k c"
  shows "rstates_step calm s (handle kill txt e s)"
proof (cases e)
  case (RegisterRuntime w ch c)
  then show ?thesis using register_step [of w ch s "fst (registerRuntimeWorker w ch s)"] by simp
next
  case (HelloRuntime k c)
  then show ?thesis using beginHello_settles [OF assms(1)] by (simp add: settles_def fails_only_step)
next
  case (HealthRuntime k c)
  then show ?thesis using beginHealth_settles [OF assms(1)] by (simp add: settles_def fails_only_step)
next
  case (ActivateRuntime k c)
  with assms(5) show ?thesis by simp
next
  case (FailRuntime k reason c)
  then show ?thesis
    using failRuntimeWorker_settles [OF assms(1), of kill k reason "fst (failRuntimeWorker kill k reason s)"]
    by (simp add: settles_def fails_only_step)
next
  case (WorkerMessage k m)
  with assms(2) show ?thesis using message_step [OF assms(1) _ assms(3)] by (simp add: event_ok_def)
next
  case (WorkerFailure k reason)
  then show ?thesis using handleWorkerFailure_evolves(2) [OF assms(1)] by (simp add: fails_only_step)
next
  case (WorkerExit k x)
  then show ?thesis using exit_step [OF assms(1)] by simp
next
  case (ScanRuntime path c)
  with assms(2) show ?thesis
    using beginScan_settles [OF assms(1)] by (simp add: event_ok_def settles_def fails_only_step)
next
  case (ScanTimeout i)
  then show ?thesis using timeoutScan_settles [OF assms(1)] by (simp add: settles_def fails_only_step)
next
  case (ReloadRuntime scanner path c)
  then show ?thesis using beginReload_settles [OF assms(1)] by (simp add: settles_def fails_only_step)
next
  case (ReloadTimeout k)
  then show ?thesis using timeoutReload_settles [OF assms(1)] by (simp add: settles_def fails_only_step)
next
  case (SnapshotRuntime c)
  then show ?thesis by (simp add: fails_only_step)
next
  case (ActiveRuntime scanner c)
  then show ?thesis using activeWorker_settles [OF assms(1)] by (simp add: settles_def fails_only_step)
next
  case (ShutdownRuntime c)
  with assms(4) show ?thesis by simp
qed

text \<open>A step that leaves the runtime without a shutdown.\<close>

definition serving :: "runtimeState \<Rightarrow> label \<Rightarrow> runtimeState \<Rightarrow> bool" where
  "serving s l t \<longleftrightarrow> runtime_trans s l t \<and> stopReply t = None"

text \<open>A step of a serving runtime is calm, or it is a successful activation.\<close>

lemma serving_cases:
  assumes "serving s l t" "rt_inv {} {} s"
  obtains (calm) "rstates_step calm s t"
    | (activated) s' k c where "same_runtime s s'" "l = Turn (ActivateRuntime k c)"
        "t = send_done c (activateRuntimeWorker k s')" "fst (activateRuntimeWorker k s') = None"
proof -
  from assms(1) have trans: "runtime_trans s l t" and stop: "stopReply t = None"
    by (simp_all add: serving_def)
  have same: "rstates_step calm s t" if "fails_only s t" using that by (rule fails_only_step)
  from trans show thesis
  proof cases
    case (turn s' e kill "txt")
    note inv' = same_runtime_inv [OF assms(2) turn(3)]
    have ok: "event_ok s' e"
      using turn(4) event_ok_same [OF turn(3) rt_invD(1) [OF assms(2)]] by simp
    have states: "runtime_states s' = runtime_states s"
      by (rule same_runtime_views(5) [OF turn(3) rt_invD(1) [OF assms(2)]])
    show thesis
    proof (cases rule: runtime_turn_cases [of e s' kill "txt"])
      case (1 c x)
      with turn(5) states show thesis by (intro that(1) same fails_only_same) simp
    next
      case 2
      let ?u = "handle kill txt e s'"
      have "stopReply (stop_check kill ?u) = stopReply ?u"
        by (simp add: stop_check_def cleanup_def split: option.split)
      with turn(5) 2(2) stop have u: "stopReply ?u = None" by simp
      then have t: "t = ?u" using turn(5) 2(2) by (simp add: stop_check_def)
      have ns: "\<forall>c. e \<noteq> ShutdownRuntime c"
        using u frame_shutdown [of "s'\<lparr>stopReply := Some c\<rparr>" for c] by (auto simp: frame_def)
      with frame_handle [OF ns, of kill "txt" s'] u have s': "stopReply s' = None" by (simp add: frame_def)
      show thesis
      proof (cases "\<exists>k c. e = ActivateRuntime k c \<and> fst (activateRuntimeWorker k s') = None")
        case True
        then obtain k c where e: "e = ActivateRuntime k c" "fst (activateRuntimeWorker k s') = None" by blast
        show thesis by (rule that(2) [OF turn(3) _ _ e(2)]) (use turn(1) t e(1) in simp_all)
      next
        case False
        have "rstates_step calm s' t"
        proof (cases "\<exists>k c. e = ActivateRuntime k c")
          case True
          then obtain k c where e: "e = ActivateRuntime k c" by blast
          obtain err v where v: "activateRuntimeWorker k s' = (err, v)" by fastforce
          with False e have "err \<noteq> None" by simp
          with activateRuntimeWorker_cases [OF v inv'] have "v = s'" by auto
          then show ?thesis using t e v by (simp add: fails_only_step)
        next
          case False
          with handle_step [OF inv' ok s' ns] show ?thesis by (simp add: t)
        qed
        with states show thesis by (intro that(1)) (simp add: rstates_step_def)
      qed
    qed
  next
    case (wrote k w)
    then show thesis by (intro that(1) same) (auto intro!: fails_only_adjust)
  next
    case (fired k w kill)
    then show thesis by (intro that(1) same) (auto intro!: fails_only_adjust)
  next
    case (cancelled kill)
    then have "runtime_states t = runtime_states s"
      by (simp add: cleanup_def runtime_states_def fun_eq_iff mget_mapvals option.map_comp comp_def)
    then show thesis by (intro that(1) same fails_only_same)
  qed
qed

lemma activated_states:
  assumes "same_runtime s s'" "rt_inv {} {} s" "t = send_done c (activateRuntimeWorker k s')"
    "fst (activateRuntimeWorker k s') = None"
  shows "runtime_states s k = Some WorkerHealthy" "mget (ractive t) (ScannerID k) = Some k"
    "runtime_states t k' = (if k' = k then Some WorkerActive
       else if mget (ractive s) (ScannerID k) = Some k' then Some WorkerDraining
       else runtime_states s k')"
    "rstates_step moves s t"
proof -
  note inv' = same_runtime_inv [OF assms(2,1)]
  note same = same_runtime_views [OF assms(1) rt_invD(1) [OF assms(2)]]
  obtain u where u: "activateRuntimeWorker k s' = (None, u)" using assms(4) by (metis prod.collapse)
  have t: "runtime_states t = runtime_states u" "ractive t = ractive u"
    using assms(3) u by (simp_all add: send_done_def)
  have h: "runtime_states s' k = Some WorkerHealthy \<and> ractive u = mput (ScannerID k) k (ractive s')"
  proof (cases rule: activateRuntimeWorker_cases [OF u inv'])
    case 2
    from arg_cong [OF 2(3), of ractive] 2(2) show ?thesis by simp
  qed simp
  then show "runtime_states s k = Some WorkerHealthy" "mget (ractive t) (ScannerID k) = Some k"
    by (simp_all add: same t map_laws)
  show "runtime_states t k' = (if k' = k then Some WorkerActive
       else if mget (ractive s) (ScannerID k) = Some k' then Some WorkerDraining
       else runtime_states s k')"
    unfolding t activateRuntimeWorker_states [OF u inv'] same ..
  from activate_step [OF inv' u] show "rstates_step moves s t"
    unfolding rstates_step_def t(1) same(5) .
qed

lemma serving_step:
  assumes "serving s l t" "rt_inv {} {} s"
  shows "rstates_step moves s t"
  using assms
proof (cases rule: serving_cases)
  case calm
  then show ?thesis by (rule rstates_step_mono)
next
  case (activated s' k c)
  show ?thesis by (rule activated_states(4) [OF activated(1) assms(2) activated(3,4)])
qed

lemma serving_reach: "reach runtime_init serving s \<Longrightarrow> runtime_reach s"
proof (induction rule: reach.induct)
  case (reach_init s)
  then show ?case by (rule reach.reach_init)
next
  case (reach_step s e t)
  from reach_step.IH reach_step.hyps(2) [unfolded serving_def, THEN conjunct1]
  show ?case by (rule reach.reach_step)
qed

lemma serving_inv: "reach runtime_init serving s \<Longrightarrow> rt_inv {} {} s"
  by (rule runtime_reach_inv [OF serving_reach])

interpretation runtime: routed_system runtime_init serving runtime_states "\<lambda>s. mget (ractive s)"
proof
  show "runtime_states s k = None" if "runtime_init s" for s k
    using that by (simp add: runtime_init_def initialRuntime_def runtime_states_def)
next
  fix s e t k b
  assume "reach runtime_init serving s" "serving s e t" "runtime_states s k = None"
    "runtime_states t k = Some b"
  then show "b = WorkerStarting" by (blast intro: rstates_stepD(2) serving_step serving_inv)
next
  fix s e t k a
  assume "reach runtime_init serving s" "serving s e t" "runtime_states s k = Some a"
  then show "\<exists>b. runtime_states t k = Some b \<and> moves a b"
    by (blast intro: rstates_stepD(1) serving_step serving_inv)
next
  fix s scanner k
  assume "reach runtime_init serving s"
  then show "mget (ractive s) scanner = Some k \<longleftrightarrow>
      runtime_states s k = Some WorkerActive \<and> ScannerID k = scanner"
    using rt_invD(3) [OF serving_inv] by (simp add: rroutes_okD)
qed

section \<open>Runs of concrete events\<close>

fun rt_exec :: "kill \<Rightarrow> render \<Rightarrow> event list \<Rightarrow> runtimeState \<Rightarrow> runtimeState" where
  "rt_exec kill txt [] s = s"
| "rt_exec kill txt (e # es) s = rt_exec kill txt es (runtime_turn kill txt e s)"

fun rt_ok :: "kill \<Rightarrow> render \<Rightarrow> event list \<Rightarrow> runtimeState \<Rightarrow> bool" where
  "rt_ok kill txt [] s \<longleftrightarrow> True"
| "rt_ok kill txt (e # es) s \<longleftrightarrow>
     status s = Running \<and> event_ok s e \<and> rt_ok kill txt es (runtime_turn kill txt e s)"

lemma same_runtime_refl [simp]: "same_runtime s s"
proof -
  have "same_requests rs rs" for rs
    unfolding same_requests_def
    by (intro exI [of _ rs] conjI list_all2_refl same_map_refl) (simp add: same_request_def split_def)
  then show ?thesis by (simp add: same_runtime_def)
qed

lemma rt_exec_runs: "rt_ok kill txt es s \<Longrightarrow> runtime_runs s (map Turn es) (rt_exec kill txt es s)"
proof (induction es arbitrary: s)
  case Nil
  show ?case by (simp add: run_nil)
next
  case (Cons e es)
  then have "runtime_trans s (Turn e) (runtime_turn kill txt e s)"
    by (intro turn [OF _ same_runtime_refl _ refl]) simp_all
  moreover have "runtime_runs (runtime_turn kill txt e s) (map Turn es)
      (rt_exec kill txt (e # es) s)" using Cons by simp
  ultimately show ?case by (simp only: list.map) (rule run_cons)
qed

lemma runtime_start: "runtime_reach initialRuntime"
  by (rule reach_init) (simp add: runtime_init_def)

lemma rt_exec_reach: "rt_ok kill txt es initialRuntime \<Longrightarrow> runtime_reach (rt_exec kill txt es initialRuntime)"
  by (rule reach_runs [OF rt_exec_runs runtime_start])

definition dkey1 :: WorkerKey where "dkey1 = \<lparr>ScannerID = ''a'', Version = ''1''\<rparr>"
definition dkey2 :: WorkerKey where "dkey2 = \<lparr>ScannerID = ''a'', Version = ''2''\<rparr>"

definition dconfig :: "WorkerKey \<Rightarrow> Worker" where
  "dconfig k = zeroWorker\<lparr>cScannerID := ScannerID k, cWorkerVersion := Version k\<rparr>"

definition dchild :: "int \<Rightarrow> Child" where
  "dchild p = \<lparr>pid = p, terminate = False, terminateErr = None\<rparr>"

definition dkill :: kill where "dkill p = None"
definition drender :: render where "drender e = ''error''"

definition dhealthy :: Message where
  "dhealthy = emptyMessage\<lparr>mVersion := 1, mType := TypeHealthResult, mStatus := ''ok''\<rparr>"

text \<open>
  Version 1 of a scanner becomes active, version 2 healthy, and a scan waits for version 1.
\<close>

definition devents :: "event list" where
  "devents =
     [RegisterRuntime (dconfig dkey1) (dchild 11) 1, HealthRuntime dkey1 2,
      WorkerMessage dkey1 dhealthy, ActivateRuntime dkey1 3,
      RegisterRuntime (dconfig dkey2) (dchild 12) 4, HealthRuntime dkey2 5,
      WorkerMessage dkey2 dhealthy, ScanRuntime ''/x'' 6]"

definition dstate :: runtimeState where
  "dstate = rt_exec dkill drender devents initialRuntime"

lemma devents_ok: "rt_ok dkill drender devents initialRuntime"
  by code_simp

lemma dstate_reach: "runtime_reach dstate"
  unfolding dstate_def by (rule rt_exec_reach [OF devents_ok])

lemma dstate_active: "mget (ractive dstate) ''a'' = Some dkey1"
  by code_simp

lemma dstate_request: "map_option reqResults (mget (rrequests dstate) 1) = Some [(dkey1, emptyMessage)]"
  by code_simp

section \<open>Invariants of the runtime\<close>

text \<open>
  C16. The loop never follows a nil worker pointer; a scanner's route is exactly its one
  active worker, before and during a shutdown; and while no shutdown has begun a scanner has
  at most one candidate (a worker that is starting or healthy).
\<close>

theorem runtime_routes:
  assumes "runtime_reach s"
  shows "\<not> nilDeref s \<and>
    (\<forall>scanner k. mget (ractive s) scanner = Some k \<longleftrightarrow>
       runtime_states s k = Some WorkerActive \<and> ScannerID k = scanner) \<and>
    (stopReply s = None \<longrightarrow> (\<forall>k k' a b. runtime_states s k = Some a \<longrightarrow>
       runtime_states s k' = Some b \<longrightarrow> candidate a \<longrightarrow> candidate b \<longrightarrow>
       ScannerID k = ScannerID k' \<longrightarrow> k = k'))"
  using rt_invD [OF runtime_reach_inv [OF assms]] by (simp add: rroutes_ok_def rcandidates_ok_def)

theorem runtime_routes_witness: "runtime_states dstate dkey1 = Some WorkerActive"
  using runtime_routes [OF dstate_reach] dstate_active by blast

text \<open>
  C15. Draining is exact: a worker's in-flight counter is the number of open requests that
  include it; SHUTDOWN is asked of a worker only when that number is zero; and of a draining
  worker it has been asked as soon as it is.
\<close>

theorem runtime_drain:
  assumes "runtime_reach s" "mget (rworkers s) k = Some w"
  shows "inFlight w = int (length (filter (\<lambda>(i, r). k \<in> set (keys (reqResults r))) (rrequests s))) \<and>
    (shutdownSent w \<longrightarrow> inFlight w = 0) \<and>
    (rstate w = WorkerDraining \<longrightarrow> (shutdownSent w \<longleftrightarrow> inFlight w = 0))"
proof -
  have n: "open_for k rs = int (length (filter (\<lambda>(i, r). k \<in> set (keys (reqResults r))) rs))" for rs
    unfolding open_for_def by (induction rs) (simp_all add: split_def)
  note ok = rworkers_okD [OF rt_invD(2) [OF runtime_reach_inv [OF assms(1)]] assms(2)]
  then have "inFlight w = open_for k (rrequests s)" by (simp add: wk_ok_def)
  moreover from ok have "shutdownSent w \<longrightarrow> inFlight w = 0"
    "rstate w = WorkerDraining \<and> inFlight w = 0 \<longrightarrow> shutdownSent w" by (simp_all add: wk_ok_def)
  ultimately show ?thesis unfolding n by blast
qed

theorem runtime_drain_witness: "\<exists>w. mget (rworkers dstate) dkey1 = Some w \<and> inFlight w = 1 \<and> \<not> shutdownSent w"
proof -
  have one: "map_option inFlight (mget (rworkers dstate) dkey1) = Some 1" by code_simp
  then obtain w where w: "mget (rworkers dstate) dkey1 = Some w" "inFlight w = 1" by auto
  with runtime_drain [OF dstate_reach w(1)] show ?thesis by auto
qed

text \<open>
  Every open request has its timer, waits for at least one worker, and waits only for
  workers that are active, draining or (after an acknowledgement nobody asked for) retired,
  never for one that has failed; every answer it has is a valid SCAN_RESULT for its id; and
  no request outlives the beginning of a shutdown.
\<close>

theorem runtime_pending:
  assumes "runtime_reach s" "mget (rrequests s) i = Some r"
  shows "reqID r = i \<and> i \<le> nextRequestID s \<and> reqTimer r \<and> stopReply s = None \<and>
    (\<exists>k m. mget (reqResults r) k = Some m \<and> mType m = '''') \<and>
    (\<forall>k m. mget (reqResults r) k = Some m \<longrightarrow>
       (if mType m = '''' then runtime_states s k \<in> Some ` {WorkerActive, WorkerDraining, WorkerRetired}
        else Validate m = None \<and> mType m = TypeScanResult \<and> mRequestID m = i))"
proof -
  note ok = rrequests_okD [OF rt_invD(5) [OF runtime_reach_inv [OF assms(1)]] assms(2)]
  from ok(2) have "\<exists>m \<in> snd ` set (reqResults r). mType m = ''''" by (auto simp: answered_def)
  then obtain k m where "(k, m) \<in> set (reqResults r)" "mType m = ''''" by auto
  with req_okD(6) [OF ok(1)] have some: "\<exists>k m. mget (reqResults r) k = Some m \<and> mType m = ''''"
    by (metis mget_set)
  have each: "if mType m = '''' then runtime_states s k \<in> Some ` {WorkerActive, WorkerDraining, WorkerRetired}
        else Validate m = None \<and> mType m = TypeScanResult \<and> mRequestID m = i"
    if m: "mget (reqResults r) k = Some m" for k m
  proof (rule req_okE [OF ok(1) m])
    fix w
    assume "mget (rworkers s) k = Some w"
      "mType m = '''' \<Longrightarrow> m = emptyMessage \<and> (may_answer (rstate w) \<or> (i, k) \<in> {})"
      "mType m \<noteq> '''' \<Longrightarrow> valid_result i m"
    then show ?thesis
      by (cases "mType m = ''''") (simp_all add: may_answer_def valid_result_def mget_runtime_states)
  qed
  from some each req_okD [OF ok(1)] ok(2) show ?thesis by blast
qed

theorem runtime_pending_witness:
  "\<exists>r. mget (rrequests dstate) 1 = Some r \<and> reqTimer r \<and> reqID r = 1"
proof -
  obtain r where "mget (rrequests dstate) 1 = Some r" using dstate_request by auto
  with runtime_pending [OF dstate_reach this] show ?thesis by blast
qed

text \<open>
  C29. A failed worker holds no caller: its handshake, health and reload commands have been
  answered, no open request waits for its result, it is not routed, and its process has been
  or is about to be terminated. A retired worker has acknowledged its shutdown and exited.
\<close>

theorem runtime_ended_worker:
  assumes "runtime_reach s" "mget (rworkers s) k = Some w"
  shows "(rstate w = WorkerFailed \<longrightarrow>
      helloReply w = None \<and> healthReply w = None \<and> reloadReply w = None \<and>
      (killTimer w \<or> terminate (rchild w)) \<and>
      (\<forall>i r m. mget (rrequests s) i = Some r \<longrightarrow> mget (reqResults r) k = Some m \<longrightarrow> mType m \<noteq> '''')) \<and>
    (rstate w = WorkerRetired \<longrightarrow> shutdownAck w \<and> exited w) \<and>
    (terminal (rstate w) \<longrightarrow> (\<forall>scanner. mget (ractive s) scanner \<noteq> Some k))"
proof -
  note inv = rt_invD [OF runtime_reach_inv [OF assms(1)]]
  have "mType m \<noteq> ''''" if "rstate w = WorkerFailed" "mget (rrequests s) i = Some r"
    "mget (reqResults r) k = Some m" for i r m
    using req_okE [OF rrequests_okD(1) [OF inv(5) that(2)] that(3)] that(1) assms(2)
    by (auto simp: may_answer_def)
  moreover have "mget (ractive s) scanner \<noteq> Some k" if "terminal (rstate w)" for scanner
    using rroutes_okD [OF inv(3), of scanner k] that assms(2) by (auto simp: mget_runtime_states terminal_def)
  ultimately show ?thesis using rworkers_okD [OF inv(2) assms(2)] unfolding wk_ok_def by blast
qed

text \<open>Version 1 crashes while the scan waits for it.\<close>

definition dexit :: Exit where
  "dexit = \<lparr>ePID = 11, eCode = 3, eErr = Some ''exit status 3''\<rparr>"

definition dcrashed :: runtimeState where
  "dcrashed = rt_exec dkill drender (devents @ [WorkerExit dkey1 dexit]) initialRuntime"

lemma dcrashed_reach: "runtime_reach dcrashed"
proof -
  have "rt_ok dkill drender (devents @ [WorkerExit dkey1 dexit]) initialRuntime" by code_simp
  then show ?thesis unfolding dcrashed_def by (rule rt_exec_reach)
qed

theorem runtime_ended_worker_witness:
  "\<exists>w. mget (rworkers dcrashed) dkey1 = Some w \<and> rstate w = WorkerFailed \<and>
     (killTimer w \<or> terminate (rchild w))"
proof -
  have "map_option rstate (mget (rworkers dcrashed) dkey1) = Some WorkerFailed" by code_simp
  then obtain w where w: "mget (rworkers dcrashed) dkey1 = Some w" "rstate w = WorkerFailed" by auto
  with runtime_ended_worker [OF dcrashed_reach w(1)] show ?thesis by blast
qed

text \<open>
  C30. Whatever the runtime puts into a worker's queue is a valid message of a Core-to-Worker
  type, and the queue never exceeds the capacity of its channel, so no send to it blocks.
\<close>

theorem runtime_messages_valid:
  assumes "runtime_reach s" "mget (rworkers s) k = Some w"
  shows "length (outbound w) \<le> outboundCap \<and>
    (\<forall>m \<in> set (outbound w). Validate m = None \<and>
       mType m \<in> {TypeHello, TypeHealthCheck, TypeScan, TypeReload, TypeShutdown})"
  using rworkers_okD [OF rt_invD(2) [OF runtime_reach_inv [OF assms(1)]] assms(2)]
  by (auto simp: wk_ok_def core_message_def)

theorem runtime_messages_valid_witness:
  "\<exists>w. mget (rworkers dstate) dkey1 = Some w \<and> length (outbound w) = 2 \<and>
     (\<forall>m \<in> set (outbound w). Validate m = None)"
proof -
  have "map_option (length \<circ> outbound) (mget (rworkers dstate) dkey1) = Some 2" by code_simp
  then obtain w where w: "mget (rworkers dstate) dkey1 = Some w" "length (outbound w) = 2" by auto
  with runtime_messages_valid [OF dstate_reach w(1)] show ?thesis by blast
qed

section \<open>Replies\<close>

text \<open>
  C17. Every outcome a scan command receives is an early refusal (no active worker, core
  shutting down) with an empty result, or a complete one: an answer for every assigned
  worker, each a valid SCAN_RESULT for that request, combined by the ANY_MALICIOUS policy.
  The aggregation error of the code is unreachable.
\<close>

theorem runtime_scan_replies:
  assumes "runtime_reach s" "(c, ScanReply out err) \<in> set (sent s)"
  shows "case err of
      Some e \<Rightarrow> out = zeroScan \<and> e \<in> {ShuttingDown, NoActiveWorkers}
    | None \<Rightarrow> soResults out \<noteq> [] \<and> distinct (keys (soResults out)) \<and>
        (\<forall>(k, m) \<in> set (soResults out). Validate m = None \<and> mType m = TypeScanResult \<and>
           mRequestID m = soRequestID out) \<and>
        soVerdict out = any_malicious {mVerdict m | k m. (k, m) \<in> set (soResults out)}"
proof -
  from rt_invD(6) [OF runtime_reach_inv [OF assms(1)]] assms(2) have ok: "reply_ok (ScanReply out err)"
    unfolding replies_ok_def by force
  have "mVerdict ` snd ` set (soResults out) = {mVerdict m | k m. (k, m) \<in> set (soResults out)}"
    by force
  with ok show ?thesis
    by (cases err) (auto simp: reply_ok_def valid_result_def)
qed

theorem runtime_scan_replies_witness:
  "\<exists>out. (6, ScanReply out None) \<in> set (sent dcrashed) \<and> soVerdict out = CombinedInconclusive \<and>
     soVerdict out = any_malicious {mVerdict m | k m. (k, m) \<in> set (soResults out)}"
proof -
  have "last (sent dcrashed) = (6, ScanReply \<lparr>soRequestID = 1, soVerdict = CombinedInconclusive,
      soResults = [(dkey1, substitute 1 VerdictUnavailable ''worker exited unexpectedly'')]\<rparr> None)"
    "sent dcrashed \<noteq> []" by code_simp+
  then have "(6, ScanReply \<lparr>soRequestID = 1, soVerdict = CombinedInconclusive,
      soResults = [(dkey1, substitute 1 VerdictUnavailable ''worker exited unexpectedly'')]\<rparr> None)
      \<in> set (sent dcrashed)" by (metis last_in_set)
  with runtime_scan_replies [OF dcrashed_reach this] show ?thesis by (intro exI conjI) auto
qed

text \<open>
  C4. No caller is answered twice and none is forgotten: over every run from the start, the
  channels answered so far together with those the loop still holds are exactly the channels
  the commands of the run brought, each as often as it was brought.
\<close>

theorem runtime_reply_once:
  assumes "runtime_runs initialRuntime ls t"
  shows "mset (map fst (sent t)) + held t = sum_list (map label_chan ls)"
proof -
  from runtime_runs_evolves [OF assms runtime_start]
  have "ledger t = ledger initialRuntime + sum_list (map label_chan ls)" by (simp add: evolves_def)
  moreover have "ledger initialRuntime = {#}"
    by (simp add: ledger_def held_def initialRuntime_def opt_chan_def)
  ultimately show ?thesis by (simp add: ledger_def ac_simps)
qed

theorem runtime_reply_once_witness:
  "mset (map fst (sent dstate)) + held dstate = sum_list (map label_chan (map Turn devents))"
  using runtime_reply_once [OF rt_exec_runs [OF devents_ok]] by (simp add: dstate_def)

text \<open>
  C3. A scan is never lost: over every run an open request stays open for the same caller
  and the same workers, keeping every answer it has, or its caller has received an outcome
  without error for that request, with the same workers and those answers.
\<close>

theorem runtime_scan_followed:
  assumes "runtime_reach s" "runtime_runs s ls t" "mget (rrequests s) i = Some r"
  shows "(\<exists>r'. mget (rrequests t) i = Some r' \<and> reqReply r' = reqReply r \<and>
      grows (reqResults r) (reqResults r')) \<or>
    (\<exists>out. (reqReply r, ScanReply out None) \<in> set (sent t) \<and> soRequestID out = i \<and>
      grows (reqResults r) (soResults out))"
  using runtime_runs_evolves [OF assms(2,1)] assms(3) by (simp add: evolves_def followed_def)

theorem runtime_scan_followed_witness:
  "\<exists>out. (6, ScanReply out None) \<in> set (sent dcrashed) \<and> soRequestID out = 1 \<and>
     grows [(dkey1, emptyMessage)] (soResults out)"
proof -
  have h: "rt_ok dkill drender [WorkerExit dkey1 dexit] dstate" by code_simp
  have t: "rt_exec dkill drender [WorkerExit dkey1 dexit] dstate = dcrashed"
    by (simp add: dcrashed_def dstate_def devents_def)
  have "map_option reqReply (mget (rrequests dstate) 1) = Some 6" by code_simp
  with dstate_request obtain r where r: "mget (rrequests dstate) 1 = Some r"
    "reqReply r = 6" "reqResults r = [(dkey1, emptyMessage)]" by auto
  moreover have "mget (rrequests dcrashed) 1 = None" by code_simp
  ultimately show ?thesis
    using runtime_scan_followed [OF dstate_reach rt_exec_runs [OF h, unfolded t] r(1)] by simp
qed

section \<open>Cutover and rollback\<close>

text \<open>A step without an activation leaves a route to its worker or, when that fails, ends it.\<close>

lemma calm_route:
  assumes "rt_inv {} {} s" "rt_inv {} {} t" "rstates_step calm s t" "mget (ractive s) scanner = Some k"
  shows "(runtime_states t k = Some WorkerActive \<and> mget (ractive t) scanner = Some k) \<or>
    (runtime_states t k = Some WorkerFailed \<and> mget (ractive t) scanner = None)"
proof -
  note route = rroutes_okD [OF rt_invD(3) [OF assms(1)]]
  note route' = rroutes_okD [OF rt_invD(3) [OF assms(2)]]
  note calm = assms(3)
  from assms(4) have k: "runtime_states s k = Some WorkerActive" "ScannerID k = scanner"
    by (simp_all add: route)
  from rstates_stepD(1) [OF calm k(1)] obtain b where b: "runtime_states t k = Some b"
    "calm WorkerActive b" by blast
  then have "b = WorkerActive \<or> b = WorkerFailed"
    by (cases b) (auto simp: calm_def moves_def edges elim: lifecycle_edge.cases)
  moreover have "mget (ractive t) scanner = None" if "b \<noteq> WorkerActive"
  proof (rule ccontr)
    assume "mget (ractive t) scanner \<noteq> None"
    then obtain k' where k': "mget (ractive t) scanner = Some k'" by blast
    then have a: "runtime_states t k' = Some WorkerActive" "ScannerID k' = scanner"
      by (simp_all add: route')
    have "runtime_states s k' = Some WorkerActive"
    proof (cases "runtime_states s k'")
      case None
      from rstates_stepD(2) [OF calm None a(1)] show ?thesis by simp
    next
      case (Some d)
      from rstates_stepD(1) [OF calm Some] a(1) Some show ?thesis by (simp add: calm_def)
    qed
    with a(2) have "mget (ractive s) scanner = Some k'" by (simp add: route)
    with assms(4) a(1) b(1) that show False by simp
  qed
  ultimately show ?thesis using b(1) k(2) by (auto simp: route')
qed

text \<open>
  C7. Cutover is one activation. While no shutdown has begun, the worker that a scanner is
  routed to stays active and routed; or it fails, and then the scanner has no route; or a
  healthy worker of the same scanner was activated in that step, which takes the route and
  drains it. So whatever happens to a candidate, its failure included, leaves the active
  worker and its route alone.
\<close>

theorem runtime_cutover:
  assumes "reach runtime_init serving s" "serving s l t" "mget (ractive s) scanner = Some k"
  shows "(runtime_states t k = Some WorkerActive \<and> mget (ractive t) scanner = Some k) \<or>
    (runtime_states t k = Some WorkerFailed \<and> mget (ractive t) scanner = None) \<or>
    (\<exists>k' c. l = Turn (ActivateRuntime k' c) \<and> ScannerID k' = scanner \<and>
       runtime_states s k' = Some WorkerHealthy \<and> runtime_states t k' = Some WorkerActive \<and>
       mget (ractive t) scanner = Some k' \<and> runtime_states t k = Some WorkerDraining)"
proof -
  note inv = serving_inv [OF assms(1)]
  have rt: "reach runtime_init serving t" using assms(1,2) by (rule reach_step)
  note route = rroutes_okD [OF rt_invD(3) [OF inv]]
  note route' = rroutes_okD [OF rt_invD(3) [OF serving_inv [OF rt]]]
  from assms(3) have k: "runtime_states s k = Some WorkerActive" "ScannerID k = scanner"
    by (simp_all add: route)
  from assms(2) inv show ?thesis
  proof (cases rule: serving_cases)
    case calm
    from calm_route [OF inv serving_inv [OF rt] calm assms(3)] show ?thesis by blast
  next
    case (activated s' k' c)
    note st = activated_states [OF activated(1) inv activated(3,4)]
    show ?thesis
    proof (cases "ScannerID k' = scanner")
      case True
      from st(1) k(1) have "k \<noteq> k'" by auto
      with st(2,3) assms(3) True have "runtime_states t k = Some WorkerDraining"
        "runtime_states t k' = Some WorkerActive" "mget (ractive t) scanner = Some k'" by simp_all
      with activated(2) st(1) True show ?thesis by blast
    next
      case False
      then have "k \<noteq> k'" "mget (ractive s) (ScannerID k') \<noteq> Some k" using k(2) by (auto simp: route)
      with st(3) [of k] k have "runtime_states t k = Some WorkerActive" by simp
      with k(2) show ?thesis by (simp add: route')
    qed
  qed
qed

text \<open>In the concrete run version 2 takes the route of version 1, which drains.\<close>

fun rt_serving :: "kill \<Rightarrow> render \<Rightarrow> event list \<Rightarrow> runtimeState \<Rightarrow> bool" where
  "rt_serving kill txt [] s \<longleftrightarrow> True"
| "rt_serving kill txt (e # es) s \<longleftrightarrow>
     status s = Running \<and> event_ok s e \<and> stopReply (runtime_turn kill txt e s) = None \<and>
     rt_serving kill txt es (runtime_turn kill txt e s)"

lemma serving_turn:
  assumes "status s = Running" "event_ok s e" "stopReply (runtime_turn kill txt e s) = None"
  shows "serving s (Turn e) (runtime_turn kill txt e s)"
  unfolding serving_def using turn [OF assms(1) same_runtime_refl assms(2) refl] assms(3) by simp

lemma rt_exec_serving:
  "rt_serving kill txt es s \<Longrightarrow> reach runtime_init serving s \<Longrightarrow>
    reach runtime_init serving (rt_exec kill txt es s)"
proof (induction es arbitrary: s)
  case Nil
  then show ?case by simp
next
  case (Cons e es)
  then have "serving s (Turn e) (runtime_turn kill txt e s)" by (intro serving_turn) simp_all
  with Cons.prems(2) have "reach runtime_init serving (runtime_turn kill txt e s)" by (rule reach_step)
  with Cons show ?case by simp
qed

lemma dstate_serving: "reach runtime_init serving dstate"
  unfolding dstate_def
proof (rule rt_exec_serving)
  show "rt_serving dkill drender devents initialRuntime" by code_simp
  show "reach runtime_init serving initialRuntime" by (rule reach_init) (simp add: runtime_init_def)
qed

lemma dcutover_serving: "serving dstate (Turn (ActivateRuntime dkey2 7))
    (runtime_turn dkill drender (ActivateRuntime dkey2 7) dstate)"
  by (rule serving_turn; code_simp)

lemma dcutover_route:
  "mget (ractive (runtime_turn dkill drender (ActivateRuntime dkey2 7) dstate)) ''a'' = Some dkey2 \<and>
    dkey1 \<noteq> dkey2"
  by code_simp

theorem runtime_cutover_witness:
  "runtime_states (runtime_turn dkill drender (ActivateRuntime dkey2 7) dstate) dkey1 = Some WorkerDraining"
  using runtime_cutover [OF dstate_serving dcutover_serving dstate_active] dcutover_route by auto

end
