(* ===== verification/Json.thy ===== *)
theory Json
  imports Prelude
begin

text \<open>
  JSON texts as \<^verbatim>\<open>encoding/json\<close> reads and writes them: the grammar of
  \<^verbatim>\<open>json.Decoder\<close>, its treatment of strings that are not valid UTF-8, the escapes of
  \<^verbatim>\<open>json.Marshal\<close>, and the way a value is stored into a struct. The packages of the
  program exchange all their messages and read all their files through it.

  A number keeps its literal, as the decoder does; a value is a tree. Errors carry no text:
  no text of this package is data of the program.
\<close>

datatype json =
    JNull
  | JBool bool
  | JNum string
  | JStr string
  | JArr "json list"
  | JObj "(string \<times> json) list"

abbreviation "dquote \<equiv> CHR 0x22"
abbreviation "backslash \<equiv> CHR 0x5C"
abbreviation "newline \<equiv> CHR 0x0A"

section \<open>Runes\<close>

lemma concat_runes [simp]: "concat (runes s) = s"
  by (induction s rule: runes.induct) simp_all

lemma rune_width_prefix:
  assumes "rune_width s = n" "0 < n"
  shows "n \<le> length s" "rune_width (take n s @ r) = n"
  using assms by (cases s rule: rune_width.cases; auto simp: rune_width.simps split: if_splits list.splits)+

text \<open>A token of a string: the bytes of one code point, or one byte that begins none.\<close>

definition is_rune :: "bytes \<Rightarrow> bool" where
  "is_rune t \<longleftrightarrow> t \<noteq> [] \<and> rune_width t = length t"

definition is_bad :: "bytes \<Rightarrow> bool" where
  "is_bad t \<longleftrightarrow> rune_width t = 0 \<and> length t = 1"

lemma rune_width_append: "is_rune t \<Longrightarrow> rune_width (t @ r) = length t"
  using rune_width_prefix(2) [of t "length t" r] by (simp add: is_rune_def)

lemma runes_tokens: "t \<in> set (runes s) \<Longrightarrow> is_rune t \<or> is_bad t"
proof (induction s rule: runes.induct)
  case 1
  then show ?case by simp
next
  case (2 a s)
  let ?n = "rune_width (a # s)"
  show ?case
  proof (cases "t \<in> set (runes (drop (?n - 1) s))")
    case True
    then show ?thesis by (rule "2.IH")
  next
    case False
    with "2.prems" have t: "t = a # take (?n - 1) s" by simp
    show ?thesis
    proof (cases "?n = 0")
      case True
      then have "rune_width [a] = 0" by (auto simp: rune_width.simps split: if_splits list.splits)
      with t True show ?thesis by (simp add: is_bad_def)
    next
      case False
      with t have "t = take ?n (a # s)" by (cases ?n) simp_all
      with False rune_width_prefix(1) [OF refl, of "a # s"] rune_width_prefix(2) [OF refl, of "a # s" "[]"]
      show ?thesis by (simp add: is_rune_def)
    qed
  qed
qed

section \<open>Strings\<close>

definition replacement :: bytes where
  "replacement = [CHR 0xEF, CHR 0xBF, CHR 0xBD]"

definition hex_digit :: "nat \<Rightarrow> char" where
  "hex_digit n = (if n < 10 then char_of (48 + n) else char_of (87 + n))"

definition hex_value :: "char \<Rightarrow> nat option" where
  "hex_value c =
     (if 48 \<le> byte c \<and> byte c \<le> 57 then Some (byte c - 48)
      else if 97 \<le> byte c \<and> byte c \<le> 102 then Some (byte c - 87)
      else if 65 \<le> byte c \<and> byte c \<le> 70 then Some (byte c - 55)
      else None)"

text \<open>\<^verbatim>\<open>json.Marshal\<close> escapes what HTML and JavaScript would misread as well.\<close>

definition escape_char :: "char \<Rightarrow> string" where
  "escape_char c =
     (if c = dquote \<or> c = backslash then [backslash, c]
      else if byte c = 8 then [backslash, CHR ''b'']
      else if byte c = 12 then [backslash, CHR ''f'']
      else if byte c = 10 then [backslash, CHR ''n'']
      else if byte c = 13 then [backslash, CHR ''r'']
      else if byte c = 9 then [backslash, CHR ''t'']
      else if byte c < 0x20 \<or> c \<in> set ''<>&'' then
        backslash # ''u00'' @ [hex_digit (byte c div 16), hex_digit (byte c mod 16)]
      else [c])"

definition escape_rune :: "bytes \<Rightarrow> string" where
  "escape_rune t =
     (if rune_width t = 0 then backslash # ''ufffd''
      else if length t = 1 then escape_char (hd t)
      else if t = [CHR 0xE2, CHR 0x80, CHR 0xA8] then backslash # ''u2028''
      else if t = [CHR 0xE2, CHR 0x80, CHR 0xA9] then backslash # ''u2029''
      else t)"

definition print_string :: "string \<Rightarrow> string" where
  "print_string s = dquote # concat (map escape_rune (runes s)) @ [dquote]"

text \<open>Reading: four hexadecimal digits, surrogate pairs, and the encoding of a code point.\<close>

fun hex4 :: "string \<Rightarrow> (nat \<times> string) option" where
  "hex4 (a # b # c # d # s) =
     (case (hex_value a, hex_value b, hex_value c, hex_value d) of
        (Some w, Some x, Some y, Some z) \<Rightarrow> Some (((w * 16 + x) * 16 + y) * 16 + z, s)
      | _ \<Rightarrow> None)"
| "hex4 _ = None"

definition utf8_encode :: "nat \<Rightarrow> bytes" where
  "utf8_encode x =
     (if x < 0x80 then [char_of x]
      else if x < 0x800 then [char_of (0xC0 + x div 64), char_of (0x80 + x mod 64)]
      else if x < 0x10000 then
        [char_of (0xE0 + x div 4096), char_of (0x80 + x div 64 mod 64), char_of (0x80 + x mod 64)]
      else [char_of (0xF0 + x div 262144), char_of (0x80 + x div 4096 mod 64),
            char_of (0x80 + x div 64 mod 64), char_of (0x80 + x mod 64)])"

definition surrogate :: "nat \<Rightarrow> bool" where
  "surrogate x \<longleftrightarrow> 0xD800 \<le> x \<and> x < 0xE000"

definition low_surrogate :: "string \<Rightarrow> (nat \<times> string) option" where
  "low_surrogate s =
     (case s of
        a # b # s' \<Rightarrow>
          (if a = backslash \<and> b = CHR ''u'' then
             (case hex4 s' of
                Some (y, r) \<Rightarrow> if 0xDC00 \<le> y \<and> y < 0xE000 then Some (y, r) else None
              | None \<Rightarrow> None)
           else None)
      | _ \<Rightarrow> None)"

definition unescape :: "string \<Rightarrow> (bytes \<times> string) option" where
  "unescape s =
     (case s of [] \<Rightarrow> None | e # r \<Rightarrow>
      if e = dquote \<or> e = backslash \<or> e = CHR ''/'' then Some ([e], r)
      else if e = CHR ''b'' then Some ([char_of (8 :: nat)], r)
      else if e = CHR ''f'' then Some ([char_of (12 :: nat)], r)
      else if e = CHR ''n'' then Some ([char_of (10 :: nat)], r)
      else if e = CHR ''r'' then Some ([char_of (13 :: nat)], r)
      else if e = CHR ''t'' then Some ([char_of (9 :: nat)], r)
      else if e = CHR ''u'' then
        (case hex4 r of None \<Rightarrow> None | Some (x, r1) \<Rightarrow>
         if \<not> surrogate x then Some (utf8_encode x, r1)
         else if 0xDC00 \<le> x then Some (replacement, r1)
         else (case low_surrogate r1 of
             Some (y, r2) \<Rightarrow> Some (utf8_encode (0x10000 + (x - 0xD800) * 1024 + (y - 0xDC00)), r2)
           | None \<Rightarrow> Some (replacement, r1)))
      else None)"

lemma hex4_length: "hex4 s = Some (x, r) \<Longrightarrow> length r < length s"
  by (cases s rule: hex4.cases) (auto split: option.splits)

lemma low_surrogate_length: "low_surrogate s = Some (y, r) \<Longrightarrow> length r < length s"
  by (auto simp: low_surrogate_def dest!: hex4_length split: list.splits if_splits option.splits)

lemma unescape_length: "unescape s = Some (t, r) \<Longrightarrow> length r < length s"
  unfolding unescape_def
  by (fastforce dest: hex4_length low_surrogate_length split: list.splits if_splits option.splits)

text \<open>The body of a string and its closing quote; what is no code point is replaced.\<close>

function unquote :: "string \<Rightarrow> (bytes \<times> string) option" where
  "unquote [] = None"
| "unquote (c # s) =
     (if c = dquote then Some ([], s)
      else if c = backslash then
        (case unescape s of None \<Rightarrow> None
         | Some (t, s') \<Rightarrow> map_option (apfst (append t)) (unquote s'))
      else if byte c < 0x20 then None
      else if rune_width (c # s) = 0 then map_option (apfst (append replacement)) (unquote s)
      else map_option (apfst (append (c # take (rune_width (c # s) - 1) s)))
             (unquote (drop (rune_width (c # s) - 1) s)))"
  by pat_completeness auto
termination
  by (relation "measure length") (auto dest: unescape_length)

definition fix_rune :: "bytes \<Rightarrow> bytes" where
  "fix_rune t = (if rune_width t = 0 then replacement else t)"

text \<open>What a string becomes on its way through a JSON text.\<close>

definition coerce_utf8 :: "string \<Rightarrow> string" where
  "coerce_utf8 s = concat (map fix_rune (runes s))"

lemma coerce_valid: "utf8_valid s \<Longrightarrow> coerce_utf8 s = s"
proof -
  assume "utf8_valid s"
  then have "map fix_rune (runes s) = runes s"
    by (intro map_idI) (auto simp: utf8_valid_def fix_rune_def)
  then show ?thesis by (simp add: coerce_utf8_def)
qed

lemma hex_digit_value: "n < 16 \<Longrightarrow> hex_value (hex_digit n) = Some n"
  by (simp add: hex_value_def hex_digit_def)

lemma unescape_hex: "byte c < 0x80 \<Longrightarrow>
    unescape (''u00'' @ [hex_digit (byte c div 16), hex_digit (byte c mod 16)] @ r) = Some ([c], r)"
proof -
  assume c: "byte c < 0x80"
  have "hex_value (CHR ''0'') = Some 0" by (simp add: hex_value_def)
  then have "hex4 (CHR ''0'' # CHR ''0'' # hex_digit (byte c div 16) # hex_digit (byte c mod 16) # r) =
      Some (byte c, r)"
    using c by (simp add: hex_digit_value)
  moreover have "utf8_encode (byte c) = [c]" using c by (simp add: utf8_encode_def)
  ultimately show ?thesis using c by (simp add: unescape_def surrogate_def)
qed

lemma append_one [simp]: "(@) [c] = (#) c"
  by auto

lemma char_of_byte: "byte c = n \<Longrightarrow> c = char_of n"
  by auto

lemma unquote_char:
  assumes "byte c < 0x80"
  shows "unquote (escape_char c @ r) = map_option (apfst ((#) c)) (unquote r)"
proof -
  have plain: "unquote (c # r) = map_option (apfst ((#) c)) (unquote r)"
    if "c \<noteq> dquote" "c \<noteq> backslash" "\<not> byte c < 0x20"
    using assms that by (simp add: apfst_def rune_width.simps)
  have hex: "unquote (backslash # ''u00'' @ [hex_digit (byte c div 16), hex_digit (byte c mod 16)] @ r) =
      map_option (apfst ((#) c)) (unquote r)"
    using unescape_hex [OF assms, of r] by (simp del: append.simps append_Cons)
  have short: "unquote (backslash # e # r) = map_option (apfst ((#) c)) (unquote r)"
    if "unescape (e # r) = Some ([c], r)" for e
    using that by simp
  show ?thesis
    using plain hex
    by (auto simp: escape_char_def intro!: short, auto simp: unescape_def dest!: char_of_byte)
qed

lemma unquote_rune:
  assumes "is_rune t \<or> is_bad t"
  shows "unquote (escape_rune t @ r) = map_option (apfst (append (fix_rune t))) (unquote r)"
proof (cases "rune_width t = 0")
  case True
  have "unescape (''ufffd'' @ r) = Some (replacement, r)"
    by (simp add: unescape_def hex_value_def surrogate_def utf8_encode_def replacement_def char_of_eq_iff)
  with True show ?thesis by (simp add: escape_rune_def fix_rune_def)
next
  case False
  with assms have t: "is_rune t" by (auto simp: is_bad_def)
  then obtain a s where as: "t = a # s" by (cases t) (simp_all add: is_rune_def)
  show ?thesis
  proof (cases "length t = 1")
    case True
    with t as have "t = [a]" "byte a < 0x80"
      by (auto simp: is_rune_def rune_width.simps split: if_splits list.splits)
    with False show ?thesis by (simp add: escape_rune_def fix_rune_def unquote_char)
  next
    case long: False
    with t as have "0x80 \<le> byte a"
      by (auto simp: is_rune_def rune_width.simps split: if_splits list.splits)
    then have a: "a \<noteq> dquote" "a \<noteq> backslash" "\<not> byte a < 0x20" by auto
    from rune_width_append [OF t, of r] as have w: "rune_width (a # s @ r) = Suc (length s)" by simp
    have plain: "unquote (t @ r) = map_option (apfst (append t)) (unquote r)"
      using a w by (simp add: as)
    have "unescape (''u2028'' @ r) = Some ([CHR 0xE2, CHR 0x80, CHR 0xA8], r)"
      "unescape (''u2029'' @ r) = Some ([CHR 0xE2, CHR 0x80, CHR 0xA9], r)"
      by (simp_all add: unescape_def hex_value_def surrogate_def utf8_encode_def char_of_eq_iff)
    with False long plain show ?thesis by (auto simp: escape_rune_def fix_rune_def)
  qed
qed


lemma unquote_runes:
  "\<forall>t \<in> set ts. is_rune t \<or> is_bad t \<Longrightarrow>
     unquote (concat (map escape_rune ts) @ r) =
       map_option (apfst (append (concat (map fix_rune ts)))) (unquote r)"
proof (induction ts)
  case Nil
  then show ?case by (cases "unquote r") auto
next
  case (Cons t ts)
  then show ?case by (cases "unquote r") (auto simp: unquote_rune)
qed

text \<open>A printed string reads back as itself, up to the replacement of invalid UTF-8.\<close>

lemma unquote_print: "unquote (tl (print_string s) @ r) = Some (coerce_utf8 s, r)"
  using unquote_runes [of "runes s" "dquote # r"] runes_tokens [of _ s]
  by (simp add: print_string_def coerce_utf8_def)

section \<open>Numbers\<close>

definition is_digit :: "char \<Rightarrow> bool" where
  "is_digit c \<longleftrightarrow> 48 \<le> byte c \<and> byte c \<le> 57"

definition digits :: "string \<Rightarrow> (string \<times> string) option" where
  "digits s = (if takeWhile is_digit s = [] then None
               else Some (takeWhile is_digit s, dropWhile is_digit s))"

text \<open>The parts of a literal: digits, fraction and exponent; the last two may be missing.\<close>

definition int_part :: "string \<Rightarrow> (string \<times> string) option" where
  "int_part s =
     (case s of [] \<Rightarrow> None | c # r \<Rightarrow> if c = CHR ''0'' then Some ([c], r) else digits s)"

definition frac_part :: "string \<Rightarrow> (string \<times> string) option" where
  "frac_part s =
     (case s of [] \<Rightarrow> Some ([], []) | c # r \<Rightarrow>
      if c = CHR ''.'' then map_option (apfst ((#) c)) (digits r) else Some ([], s))"

definition exp_digits :: "string \<Rightarrow> (string \<times> string) option" where
  "exp_digits s =
     (case s of [] \<Rightarrow> None | c # r \<Rightarrow>
      if c = CHR ''+'' \<or> c = CHR ''-'' then map_option (apfst ((#) c)) (digits r) else digits s)"

definition exp_part :: "string \<Rightarrow> (string \<times> string) option" where
  "exp_part s =
     (case s of [] \<Rightarrow> Some ([], []) | c # r \<Rightarrow>
      if c = CHR ''e'' \<or> c = CHR ''E'' then map_option (apfst ((#) c)) (exp_digits r)
      else Some ([], s))"

definition unsigned_number :: "string \<Rightarrow> (string \<times> string) option" where
  "unsigned_number s =
     (case int_part s of None \<Rightarrow> None | Some (i, s2) \<Rightarrow>
      (case frac_part s2 of None \<Rightarrow> None | Some (f, s3) \<Rightarrow>
       (case exp_part s3 of None \<Rightarrow> None | Some (e, s4) \<Rightarrow> Some (i @ f @ e, s4))))"

definition parse_number :: "string \<Rightarrow> (string \<times> string) option" where
  "parse_number s =
     (case s of [] \<Rightarrow> None | c # r \<Rightarrow>
      if c = CHR ''-'' then map_option (apfst ((#) c)) (unsigned_number r) else unsigned_number s)"

text \<open>Decimal literals of the integers, as \<^verbatim>\<open>strconv\<close> writes and reads them.\<close>

fun dec_nat :: "nat \<Rightarrow> string" where
  "dec_nat n = (if n < 10 then [char_of (48 + n)] else dec_nat (n div 10) @ [char_of (48 + n mod 10)])"

declare dec_nat.simps [simp del]

definition dec_int :: "int \<Rightarrow> string" where
  "dec_int i = (if i < 0 then CHR ''-'' # dec_nat (nat (- i)) else dec_nat (nat i))"

definition read_nat :: "string \<Rightarrow> nat option" where
  "read_nat s = (if s \<noteq> [] \<and> list_all is_digit s
     then Some (foldl (\<lambda>n c. 10 * n + (byte c - 48)) 0 s) else None)"

definition read_int :: "string \<Rightarrow> int option" where
  "read_int s =
     (case s of [] \<Rightarrow> None | c # r \<Rightarrow>
      if c = CHR ''-'' then map_option (\<lambda>n. - int n) (read_nat r) else map_option int (read_nat s))"

lemma digits_length: "digits s = Some (d, r) \<Longrightarrow> length r < length s"
proof -
  assume "digits s = Some (d, r)"
  then have "takeWhile is_digit s \<noteq> []" "r = dropWhile is_digit s" by (auto simp: digits_def split: if_splits)
  then show ?thesis by (metis append_Nil length_append length_greater_0_conv less_add_same_cancel2 takeWhile_dropWhile_id)
qed

lemma number_parts_length:
  "int_part s = Some (d, r) \<Longrightarrow> length r < length s"
  "frac_part s = Some (d, r) \<Longrightarrow> length r \<le> length s"
  "exp_part s = Some (d, r) \<Longrightarrow> length r \<le> length s"
  by (auto simp: int_part_def frac_part_def exp_part_def exp_digits_def dest!: digits_length
      split: list.splits if_splits)

lemma parse_number_length: "parse_number s = Some (n, r) \<Longrightarrow> length r < length s"
  by (auto simp: parse_number_def unsigned_number_def dest!: number_parts_length
      split: option.splits list.splits if_splits)

section \<open>Values\<close>

definition json_space :: "char \<Rightarrow> bool" where
  "json_space c \<longleftrightarrow> c \<in> {CHR '' '', CHR 0x09, CHR 0x0D, newline}"

definition skip_space :: "string \<Rightarrow> string" where
  "skip_space s = dropWhile json_space s"

definition literal :: "string \<Rightarrow> json \<Rightarrow> string \<Rightarrow> (json \<times> string) option" where
  "literal l v s = (if take (length l) s = l then Some (v, drop (length l) s) else None)"

text \<open>
  A value, the elements of an array and the members of an object, each after its white space
  has been skipped. The fuel bounds the calls; twice the length of the text is enough.
\<close>

fun parse_value :: "nat \<Rightarrow> string \<Rightarrow> (json \<times> string) option"
  and parse_elements :: "nat \<Rightarrow> string \<Rightarrow> (json list \<times> string) option"
  and parse_members :: "nat \<Rightarrow> string \<Rightarrow> ((string \<times> json) list \<times> string) option" where
  "parse_value 0 s = None"
| "parse_value (Suc n) s =
     (case s of [] \<Rightarrow> None | c # r \<Rightarrow>
      if c = CHR ''{'' then
        (case skip_space r of
           [] \<Rightarrow> None
         | d # r' \<Rightarrow> if d = CHR ''}'' then Some (JObj [], r')
                     else map_option (apfst JObj) (parse_members n (d # r')))
      else if c = CHR ''['' then
        (case skip_space r of
           [] \<Rightarrow> None
         | d # r' \<Rightarrow> if d = CHR '']'' then Some (JArr [], r')
                     else map_option (apfst JArr) (parse_elements n (d # r')))
      else if c = dquote then map_option (apfst JStr) (unquote r)
      else if c = CHR ''t'' then literal ''true'' (JBool True) s
      else if c = CHR ''f'' then literal ''false'' (JBool False) s
      else if c = CHR ''n'' then literal ''null'' JNull s
      else map_option (apfst JNum) (parse_number s))"
| "parse_elements 0 s = None"
| "parse_elements (Suc n) s =
     (case parse_value n s of None \<Rightarrow> None | Some (v, r) \<Rightarrow>
      (case skip_space r of
         [] \<Rightarrow> None
       | d # r' \<Rightarrow>
           if d = CHR '']'' then Some ([v], r')
           else if d = CHR '','' then map_option (apfst ((#) v)) (parse_elements n (skip_space r'))
           else None))"
| "parse_members 0 s = None"
| "parse_members (Suc n) s =
     (case s of [] \<Rightarrow> None | c # r \<Rightarrow>
      if c \<noteq> dquote then None
      else case unquote r of None \<Rightarrow> None | Some (k, r1) \<Rightarrow>
       (case skip_space r1 of [] \<Rightarrow> None | d # r2 \<Rightarrow>
        if d \<noteq> CHR '':'' then None
        else case parse_value n (skip_space r2) of None \<Rightarrow> None | Some (v, r3) \<Rightarrow>
         (case skip_space r3 of
            [] \<Rightarrow> None
          | e # r4 \<Rightarrow>
              if e = CHR ''}'' then Some ([(k, v)], r4)
              else if e = CHR '','' then
                map_option (apfst ((#) (k, v))) (parse_members n (skip_space r4))
              else None)))"

text \<open>One call of \<^verbatim>\<open>json.Decoder.Decode\<close>, up to the storing of the value.\<close>

datatype decoded = EndOfInput | SyntaxError | Value json string

definition next_value :: "string \<Rightarrow> decoded" where
  "next_value s =
     (case skip_space s of [] \<Rightarrow> EndOfInput | c # r \<Rightarrow>
      (case parse_value (2 * length (c # r)) (c # r) of
         None \<Rightarrow> SyntaxError
       | Some (v, r') \<Rightarrow> Value v r'))"

text \<open>A text with exactly one value, and what \<^verbatim>\<open>json.Marshal\<close> writes for one.\<close>

definition single_value :: "string \<Rightarrow> json option" where
  "single_value s =
     (case next_value s of
        Value v r \<Rightarrow> if next_value r = EndOfInput then Some v else None
      | _ \<Rightarrow> None)"

fun intersperse :: "string list \<Rightarrow> string" where
  "intersperse [] = []"
| "intersperse [x] = x"
| "intersperse (x # xs) = x @ CHR '','' # intersperse xs"

fun print_json :: "json \<Rightarrow> string" where
  "print_json JNull = ''null''"
| "print_json (JBool b) = (if b then ''true'' else ''false'')"
| "print_json (JNum n) = n"
| "print_json (JStr s) = print_string s"
| "print_json (JArr vs) = CHR ''['' # intersperse (map print_json vs) @ '']''"
| "print_json (JObj ms) =
     CHR ''{'' # intersperse (map (\<lambda>(k, v). print_string k @ CHR '':'' # print_json v) ms) @ ''}''"

section \<open>The fuel is enough\<close>

lemma skip_space_length: "length (skip_space s) \<le> length s"
  by (simp add: skip_space_def length_dropWhile_le)

lemma unquote_cases:
  assumes "unquote (c # s) = Some (t, r)"
  obtains (close) "c = dquote" "t = []" "r = s"
  | (escape) t1 s1 t2 where "c \<noteq> dquote" "c = backslash" "unescape s = Some (t1, s1)"
      "unquote s1 = Some (t2, r)" "t = t1 @ t2"
  | (bad) t2 where "c \<noteq> dquote" "c \<noteq> backslash" "\<not> byte c < 0x20" "rune_width (c # s) = 0"
      "unquote s = Some (t2, r)" "t = replacement @ t2"
  | (rune) t2 where "c \<noteq> dquote" "c \<noteq> backslash" "\<not> byte c < 0x20" "rune_width (c # s) \<noteq> 0"
      "unquote (drop (rune_width (c # s) - 1) s) = Some (t2, r)"
      "t = c # take (rune_width (c # s) - 1) s @ t2"
  using assms by (auto split: if_splits option.splits)

lemma unquote_length: "unquote s = Some (t, r) \<Longrightarrow> length r < length s"
proof (induction s arbitrary: t r rule: unquote.induct)
  case 1
  then show ?case by simp
next
  case (2 c s)
  from "2.prems" show ?case
  proof (cases rule: unquote_cases)
    case close
    then show ?thesis by simp
  next
    case (escape t1 s1 t2)
    from "2.IH"(1) [OF escape(1,2,3) refl escape(4)] unescape_length [OF escape(3)]
    show ?thesis by simp
  next
    case (bad t2)
    from "2.IH"(2) [OF bad(1-5)] show ?thesis by simp
  next
    case (rune t2)
    from "2.IH"(3) [OF rune(1-5)] show ?thesis by simp
  qed
qed

lemma skip_space_ConsD: "skip_space s = c # r \<Longrightarrow> length r < length s"
  using skip_space_length [of s] by simp

lemma literal_length: "literal l v s = Some (w, r) \<Longrightarrow> l \<noteq> [] \<Longrightarrow> length r < length s"
  by (cases l; cases s) (auto simp: literal_def split: if_splits)

lemma parse_length:
  "parse_value n s = Some (v, r) \<Longrightarrow> length r < length s"
  "parse_elements n s = Some (vs, r) \<Longrightarrow> length r < length s"
  "parse_members n s = Some (ms, r) \<Longrightarrow> length r < length s"
proof (induction n s and n s and n s arbitrary: v r and vs r and ms r
    rule: parse_value_parse_elements_parse_members.induct)
  case (2 n s)
  show ?case
  proof (cases s)
    case Nil
    with "2.prems" show ?thesis by simp
  next
    case (Cons c s')
    have members: "length r < Suc (length s')" if "c = CHR ''{''" "skip_space s' = d # r'"
      "d \<noteq> CHR ''}''" "parse_members n (d # r') = Some (ms, r)" for d r' ms
      using "2.IH"(1) [OF Cons that(1,2,3), of ms r] that(4) skip_space_ConsD [OF that(2)] by simp
    have elements: "length r < Suc (length s')" if "c = CHR ''[''" "skip_space s' = d # r'"
      "d \<noteq> CHR '']''" "parse_elements n (d # r') = Some (vs, r)" for d r' vs
      using "2.IH"(2) [OF Cons _ that(1,2,3), of vs r] that(1,4) skip_space_ConsD [OF that(2)] by simp
    show ?thesis
      using "2.prems" Cons
      by (auto dest: members elements skip_space_ConsD unquote_length literal_length parse_number_length
          split: list.splits if_splits)
  qed
next
  case (4 n s)
  from "4.prems" obtain v r1 d r' where p: "parse_value n s = Some (v, r1)" "skip_space r1 = d # r'"
    and rest: "r = r' \<or> (\<exists>vs. d \<noteq> CHR '']'' \<and> d = CHR '','' \<and> parse_elements n (skip_space r') = Some (vs, r))"
    by (auto simp del: parse_value.simps split: option.splits list.splits if_splits)
  have "length r \<le> length r'"
  proof (cases "r = r'")
    case False
    with rest obtain vs where vs: "d \<noteq> CHR '']''" "d = CHR '',''"
      "parse_elements n (skip_space r') = Some (vs, r)" by auto
    from "4.IH"(2) [OF p(1) refl p(2) vs] skip_space_length [of r'] show ?thesis by simp
  qed simp
  with "4.IH"(1) [OF p(1)] skip_space_ConsD [OF p(2)] show ?case by simp
next
  case (6 n s)
  from "6.prems" obtain c s' k r1 d r2 v r3 e r4 where p: "s = c # s'" "\<not> c \<noteq> dquote"
      "unquote s' = Some (k, r1)" "skip_space r1 = d # r2" "\<not> d \<noteq> CHR '':''"
      "parse_value n (skip_space r2) = Some (v, r3)" "skip_space r3 = e # r4"
    and rest: "r = r4 \<or> (\<exists>ms. e \<noteq> CHR ''}'' \<and> e = CHR '','' \<and> parse_members n (skip_space r4) = Some (ms, r))"
    by (auto simp del: parse_value.simps unquote.simps split: option.splits list.splits if_splits)
  have "length r \<le> length r4"
  proof (cases "r = r4")
    case False
    with rest obtain ms where ms: "e \<noteq> CHR ''}''" "e = CHR '',''"
      "parse_members n (skip_space r4) = Some (ms, r)" by auto
    from "6.IH"(2) [OF p(1,2,3) refl p(4,5,6) refl p(7) ms] skip_space_length [of r4]
    show ?thesis by simp
  qed simp
  moreover have "length r3 < length (skip_space r2)"
    by (rule "6.IH"(1) [OF p(1,2,3) refl p(4,5,6)])
  ultimately show ?case
    using unquote_length [OF p(3)] skip_space_ConsD [OF p(4)] skip_space_ConsD [OF p(7)]
      skip_space_length [of r2] p(1) by simp
qed simp_all

lemma parse_more_fuel:
  "2 * length s \<le> n \<Longrightarrow> parse_value (Suc n) s = parse_value n s"
  "2 * length s < n \<Longrightarrow> parse_elements (Suc n) s = parse_elements n s"
  "2 * length s < n \<Longrightarrow> parse_members (Suc n) s = parse_members n s"
proof (induction n s and n s and n s rule: parse_value_parse_elements_parse_members.induct)
  case (2 n s)
  show ?case
  proof (cases s)
    case Nil
    then show ?thesis by simp
  next
    case (Cons c r)
    have fuel: "2 * length (d # r') < n" if "skip_space r = d # r'" for d r'
      using skip_space_ConsD [OF that] "2.prems" Cons by simp
    show ?thesis
      using "2.IH" [OF Cons] fuel
      by (subst parse_value.simps(2), subst parse_value.simps(2))
        (simp add: Cons del: parse_value.simps parse_members.simps parse_elements.simps split: list.split)
  qed
next
  case (4 n s)
  have elem: "parse_value (Suc n) s = parse_value n s" using "4.IH"(1) "4.prems" by simp
  show ?case
  proof (cases "parse_value n s")
    case None
    with elem show ?thesis by (simp only: parse_elements.simps option.case)
  next
    case (Some p)
    obtain v r where p: "p = (v, r)" by (cases p)
    have fuel: "2 * length (skip_space r') < n" if "skip_space r = d # r'" for d r'
      using skip_space_ConsD [OF that] skip_space_length [of r'] "4.prems"
        parse_length(1) [OF Some [unfolded p]] by simp
    show ?thesis
      using "4.IH"(2) [OF Some [unfolded p] refl] fuel
      by (subst parse_elements.simps(2), subst parse_elements.simps(2))
        (simp add: elem Some p del: parse_value.simps parse_elements.simps split: list.split)
  qed
next
  case (6 n s)
  show ?case
  proof (cases s)
    case Nil
    then show ?thesis by simp
  next
    case (Cons c r)
    have fuel: "2 * length (skip_space r2) \<le> n" "length (skip_space r2) \<le> length r"
      if "unquote r = Some (k, r1)" "skip_space r1 = d # r2" for k r1 d r2
      using unquote_length [OF that(1)] skip_space_ConsD [OF that(2)] skip_space_length [of r2]
        "6.prems" Cons by simp_all
    have fuel': "2 * length (skip_space r4) < n"
      if "unquote r = Some (k, r1)" "skip_space r1 = d # r2" "parse_value n (skip_space r2) = Some (v, r3)"
        "skip_space r3 = e # r4" for k r1 d r2 v r3 e r4
      using fuel(2) [OF that(1,2)] parse_length(1) [OF that(3)] skip_space_ConsD [OF that(4)]
        skip_space_length [of r4] "6.prems" Cons by simp
    show ?thesis
      using "6.IH" [OF Cons] fuel fuel'
      by (subst parse_members.simps(2), subst parse_members.simps(2))
        (simp add: Cons del: parse_value.simps parse_members.simps split: list.split option.split)
  qed
qed simp_all

lemma parse_value_fuel: "2 * length s \<le> n \<Longrightarrow> parse_value n s = parse_value (2 * length s) s"
  by (induction n) (metis le_antisym zero_le, metis le_Suc_eq parse_more_fuel(1))

section \<open>Printed values read back\<close>

lemma digit_char [simp]: "n < 10 \<Longrightarrow> byte (char_of (48 + n)) = 48 + n"
  by simp

lemma dec_nat_small: "n < 10 \<Longrightarrow> dec_nat n = [char_of (48 + n)]"
  by (subst dec_nat.simps) simp

lemma dec_nat_large: "\<not> n < 10 \<Longrightarrow> dec_nat n = dec_nat (n div 10) @ [char_of (48 + n mod 10)]"
  by (subst dec_nat.simps) simp

lemma dec_nat_digits: "list_all is_digit (dec_nat n)" "dec_nat n \<noteq> []"
proof (induction n rule: dec_nat.induct)
  case (1 n)
  have digit: "is_digit (char_of (48 + d))" if "d < 10" for d :: nat
    unfolding is_digit_def digit_char [OF that] using that by simp
  {
    case 1
    show ?case
    proof (cases "n < 10")
      case False
      then show ?thesis using "1.IH"(1) digit [of "n mod 10"] by (simp add: dec_nat_large)
    qed (simp add: dec_nat_small digit)
  next
    case 2
    show ?case by (subst dec_nat.simps) simp
  }
qed

lemma foldl_dec_nat: "foldl (\<lambda>n c. 10 * n + (byte c - 48)) 0 (dec_nat n) = n"
proof (induction n rule: dec_nat.induct)
  case (1 n)
  show ?case
  proof (cases "n < 10")
    case True
    then show ?thesis by (simp only: dec_nat_small foldl.simps digit_char)
  next
    case False
    have "byte (char_of (48 + n mod 10)) = 48 + n mod 10" by (rule digit_char) simp
    with "1.IH" [OF False] show ?thesis
      by (simp only: dec_nat_large [OF False] foldl_append foldl.simps) simp
  qed
qed

lemma read_dec_nat: "read_nat (dec_nat n) = Some n"
  by (simp add: read_nat_def dec_nat_digits foldl_dec_nat)

lemma dec_nat_zero: "hd (dec_nat n) = CHR ''0'' \<Longrightarrow> dec_nat n = ''0''"
proof (induction n rule: dec_nat.induct)
  case (1 n)
  show ?case
  proof (cases "n < 10")
    case True
    with 1(2) show ?thesis by (simp add: dec_nat_small)
  next
    case False
    with 1 dec_nat_digits(2) have "dec_nat (n div 10) = ''0''" by (simp add: dec_nat_large)
    with read_dec_nat [of "n div 10"] have "n div 10 = 0" by (simp add: read_nat_def is_digit_def)
    with False show ?thesis by simp
  qed
qed

lemma read_dec_int: "read_int (dec_int i) = Some i"
proof (cases "i < 0")
  case True
  then show ?thesis by (simp add: dec_int_def read_int_def read_dec_nat)
next
  case False
  then obtain c r where cr: "dec_nat (nat i) = c # r" using dec_nat_digits(2) by (cases "dec_nat (nat i)") auto
  with dec_nat_digits(1) [of "nat i"] have "is_digit c" by simp
  then have "c \<noteq> CHR ''-''" by (auto simp: is_digit_def)
  with False cr read_dec_nat [of "nat i"] show ?thesis by (simp add: dec_int_def read_int_def)
qed

text \<open>What may follow a value inside a text: the end, or a character no number goes on with.\<close>

definition stops :: "string \<Rightarrow> bool" where
  "stops r \<longleftrightarrow> r = [] \<or> hd r \<in> set (newline # '',]}'')"

lemma stopsE:
  assumes "stops r"
  obtains "r = []" | c s where "r = c # s" "\<not> is_digit c" "c \<noteq> CHR ''.''" "c \<noteq> CHR ''e''" "c \<noteq> CHR ''E''"
  using assms by (cases r) (auto simp: stops_def is_digit_def)

lemma digits_append:
  assumes "list_all is_digit d" "d \<noteq> []" "stops r"
  shows "digits (d @ r) = Some (d, r)"
proof -
  from assms(1) have d: "\<forall>c \<in> set d. is_digit c" by (simp add: list_all_iff)
  from assms(3) have "takeWhile is_digit r = []" "dropWhile is_digit r = r"
    by (rule stopsE; simp)+
  with d assms(2) show ?thesis by (simp add: digits_def)
qed

lemma parse_dec_nat: "stops r \<Longrightarrow> unsigned_number (dec_nat n @ r) = Some (dec_nat n, r)"
proof -
  assume r: "stops r"
  obtain c d where cd: "dec_nat n = c # d" using dec_nat_digits(2) [of n] by (cases "dec_nat n") auto
  have "int_part (dec_nat n @ r) = Some (dec_nat n, r)"
  proof (cases "c = CHR ''0''")
    case True
    with dec_nat_zero [of n] cd have "dec_nat n = ''0''" by simp
    then show ?thesis by (simp add: int_part_def)
  next
    case False
    then show ?thesis using digits_append [OF dec_nat_digits r, of n] by (simp add: int_part_def cd)
  qed
  moreover have "frac_part r = Some ([], r)" "exp_part r = Some ([], r)"
    using r by (rule stopsE; simp add: frac_part_def exp_part_def)+
  ultimately show ?thesis by (simp add: unsigned_number_def)
qed

lemma dec_nat_head: "dec_nat n = c # d \<Longrightarrow> is_digit c"
  using dec_nat_digits(1) [of n] by simp

lemma parse_dec_int: "stops r \<Longrightarrow> parse_number (dec_int i @ r) = Some (dec_int i, r)"
proof (cases "i < 0")
  case True
  then show "stops r \<Longrightarrow> ?thesis" by (simp add: dec_int_def parse_number_def parse_dec_nat)
next
  case False
  obtain c d where cd: "dec_nat (nat i) = c # d"
    using dec_nat_digits(2) [of "nat i"] by (cases "dec_nat (nat i)") auto
  from dec_nat_head [OF cd] have "c \<noteq> CHR ''-''" by (auto simp: is_digit_def)
  with False cd show "stops r \<Longrightarrow> ?thesis"
    using parse_dec_nat [of r "nat i"] by (simp add: dec_int_def parse_number_def)
qed

text \<open>The values the program writes: their numbers are integers.\<close>

fun printable :: "json \<Rightarrow> bool" where
  "printable (JNum n) \<longleftrightarrow> (\<exists>i. n = dec_int i)"
| "printable (JArr vs) \<longleftrightarrow> (\<forall>v \<in> set vs. printable v)"
| "printable (JObj ms) \<longleftrightarrow> (\<forall>(k, v) \<in> set ms. printable v)"
| "printable _ \<longleftrightarrow> True"

fun coerce_json :: "json \<Rightarrow> json" where
  "coerce_json (JStr s) = JStr (coerce_utf8 s)"
| "coerce_json (JArr vs) = JArr (map coerce_json vs)"
| "coerce_json (JObj ms) = JObj (map (\<lambda>(k, v). (coerce_utf8 k, coerce_json v)) ms)"
| "coerce_json v = v"

definition value_head :: "char \<Rightarrow> bool" where
  "value_head c \<longleftrightarrow> c \<in> set ''{[tfn-'' \<or> c = dquote \<or> is_digit c"

lemma value_headD: "value_head c \<Longrightarrow> \<not> json_space c \<and> c \<noteq> CHR ''}'' \<and> c \<noteq> CHR '']''"
  by (auto simp: value_head_def json_space_def is_digit_def)

lemma dec_int_head: obtains c r where "dec_int i = c # r" "value_head c" "c = CHR ''-'' \<or> is_digit c"
proof (cases "i < 0")
  case True
  then show ?thesis
    by (intro that [of "CHR ''-''" "dec_nat (nat (- i))"]) (simp_all add: dec_int_def value_head_def)
next
  case False
  obtain c d where cd: "dec_nat (nat i) = c # d"
    using dec_nat_digits(2) [of "nat i"] by (cases "dec_nat (nat i)") auto
  with False dec_nat_head [OF cd] show ?thesis
    by (intro that [of c d]) (simp_all add: dec_int_def value_head_def)
qed

lemma print_head: "printable v \<Longrightarrow> \<exists>c r. print_json v = c # r \<and> value_head c"
proof (cases v)
  case (JNum n)
  assume "printable v"
  with JNum obtain i where "n = dec_int i" by auto
  with JNum show ?thesis by (metis dec_int_head print_json.simps(3))
qed (auto simp: value_head_def print_string_def)

lemma skip_print: "printable v \<Longrightarrow> skip_space (print_json v @ r) = print_json v @ r"
  using print_head [of v] by (auto simp: skip_space_def dest: value_headD)

lemma skip_dquote [simp]: "skip_space (print_string s @ r) = print_string s @ r"
  by (simp add: skip_space_def print_string_def json_space_def)

lemma skip_stop [simp]: "c \<in> set '',:]}'' \<Longrightarrow> skip_space (c # r) = c # r"
  by (auto simp: skip_space_def json_space_def)

text \<open>
  A printed value reads back, whatever follows it; a string that is not valid UTF-8 comes
  back with replacement characters.
\<close>

lemma parse_printed_string: "parse_value (Suc n) (print_string s @ r) = Some (JStr (coerce_utf8 s), r)"
proof -
  have "print_string s = dquote # tl (print_string s)" by (simp add: print_string_def)
  then obtain t where t: "print_string s = dquote # t" by blast
  with unquote_print [of s r] show ?thesis by simp
qed

lemma parse_printed_elements:
  assumes "\<And>v r n. v \<in> set vs \<Longrightarrow> stops r \<Longrightarrow> 2 * length (print_json v @ r) \<le> n \<Longrightarrow>
      parse_value n (print_json v @ r) = Some (coerce_json v, r)"
    and "\<forall>v \<in> set vs. printable v" "vs \<noteq> []"
    and "2 * length (intersperse (map print_json vs) @ CHR '']'' # r) < n"
  shows "parse_elements n (intersperse (map print_json vs) @ CHR '']'' # r) =
    Some (map coerce_json vs, r)"
  using assms
proof (induction vs arbitrary: n)
  case Nil
  then show ?case by simp
next
  case (Cons v vs)
  obtain m where n: "n = Suc m" using Cons.prems(4) by (cases n) simp_all
  show ?case
  proof (cases "vs = []")
    case True
    have "parse_value m (print_json v @ CHR '']'' # r) = Some (coerce_json v, CHR '']'' # r)"
      using Cons.prems(4) True n by (intro Cons.prems(1)) (simp_all add: stops_def)
    with True n show ?thesis by simp
  next
    case False
    let ?rest = "intersperse (map print_json vs) @ CHR '']'' # r"
    have split: "intersperse (map print_json (v # vs)) @ CHR '']'' # r = print_json v @ CHR '','' # ?rest"
      using False by (cases vs) simp_all
    have head: "parse_value m (print_json v @ CHR '','' # ?rest) = Some (coerce_json v, CHR '','' # ?rest)"
      using Cons.prems(4) n unfolding split by (intro Cons.prems(1)) (simp_all add: stops_def)
    have "skip_space ?rest = ?rest"
      using False Cons.prems(2) by (cases vs; cases "tl vs") (simp_all add: skip_print)
    moreover have "parse_elements m ?rest = Some (map coerce_json vs, r)"
      using Cons.prems(1,2,4) False n unfolding split by (intro Cons.IH) auto
    ultimately show ?thesis using head unfolding n split by simp
  qed
qed

definition print_member :: "string \<times> json \<Rightarrow> string" where
  "print_member p = print_string (fst p) @ CHR '':'' # print_json (snd p)"

lemma print_members: "map (\<lambda>(k, v). print_string k @ CHR '':'' # print_json v) ms = map print_member ms"
  by (simp add: print_member_def split_def)

lemma parse_printed_members:
  assumes "\<And>k v r n. (k, v) \<in> set ms \<Longrightarrow> stops r \<Longrightarrow> 2 * length (print_json v @ r) \<le> n \<Longrightarrow>
      parse_value n (print_json v @ r) = Some (coerce_json v, r)"
    and "\<forall>(k, v) \<in> set ms. printable v" "ms \<noteq> []"
    and "2 * length (intersperse (map print_member ms) @ CHR ''}'' # r) < n"
  shows "parse_members n (intersperse (map print_member ms) @ CHR ''}'' # r) =
    Some (map (\<lambda>(k, v). (coerce_utf8 k, coerce_json v)) ms, r)"
  using assms
proof (induction ms arbitrary: n)
  case Nil
  then show ?case by simp
next
  case (Cons p ms)
  obtain k v where p: "p = (k, v)" by (cases p)
  obtain m where n: "n = Suc m" using Cons.prems(4) by (cases n) simp_all
  obtain t where t: "print_string k = dquote # t" by (simp add: print_string_def)
  have key: "unquote (t @ x) = Some (coerce_utf8 k, x)" for x
    using unquote_print [of k x] by (simp add: t)
  have pv: "printable v" using Cons.prems(2) p by simp
  show ?case
  proof (cases "ms = []")
    case True
    have "parse_value m (print_json v @ CHR ''}'' # r) = Some (coerce_json v, CHR ''}'' # r)"
      using Cons.prems(4) True n p by (intro Cons.prems(1) [of k]) (simp_all add: stops_def print_member_def)
    with True n p key pv show ?thesis by (simp add: print_member_def t skip_print)
  next
    case False
    let ?rest = "intersperse (map print_member ms) @ CHR ''}'' # r"
    have split: "intersperse (map print_member (p # ms)) @ CHR ''}'' # r =
        dquote # t @ CHR '':'' # print_json v @ CHR '','' # ?rest"
      using False by (cases ms) (simp_all add: p print_member_def t)
    have head: "parse_value m (print_json v @ CHR '','' # ?rest) = Some (coerce_json v, CHR '','' # ?rest)"
      using Cons.prems(4) n p unfolding split by (intro Cons.prems(1) [of k]) (simp_all add: stops_def)
    have "skip_space ?rest = ?rest"
      using False by (cases ms; cases "tl ms") (simp_all add: print_member_def)
    moreover have "parse_members m ?rest = Some (map (\<lambda>(k, v). (coerce_utf8 k, coerce_json v)) ms, r)"
      using Cons.prems(1,2,4) False n unfolding split by (intro Cons.IH) auto
    ultimately show ?thesis using head key pv unfolding n split by (simp add: p skip_print)
  qed
qed

lemma parse_print:
  "printable v \<Longrightarrow> stops r \<Longrightarrow> 2 * length (print_json v @ r) \<le> n \<Longrightarrow>
     parse_value n (print_json v @ r) = Some (coerce_json v, r)"
proof (induction v arbitrary: r n)
  case JNull
  then show ?case by (cases n) (simp_all add: literal_def)
next
  case (JBool b)
  then show ?case by (cases b; cases n) (simp_all add: literal_def)
next
  case (JNum s)
  then obtain i where s: "s = dec_int i" by auto
  obtain c t where ct: "dec_int i = c # t" "c = CHR ''-'' \<or> is_digit c" by (rule dec_int_head)
  then have "c \<noteq> CHR ''{''" "c \<noteq> CHR ''[''" "c \<noteq> dquote" "c \<noteq> CHR ''t''" "c \<noteq> CHR ''f''" "c \<noteq> CHR ''n''"
    by (auto simp: is_digit_def)
  with parse_dec_int [OF JNum.prems(2), of i] JNum.prems(3) show ?case
    by (cases n) (simp_all add: s ct(1))
next
  case (JStr s)
  then obtain m where "n = Suc m" by (cases n) (simp_all add: print_string_def)
  then show ?case by (simp only: parse_printed_string print_json.simps coerce_json.simps)
next
  case (JArr vs)
  then obtain m where n: "n = Suc m" by (cases n) simp_all
  show ?case
  proof (cases "vs = []")
    case True
    with n show ?thesis by simp
  next
    case False
    let ?body = "intersperse (map print_json vs) @ CHR '']'' # r"
    have "parse_elements m ?body = Some (map coerce_json vs, r)"
      using JArr.IH JArr.prems False n by (intro parse_printed_elements) simp_all
    moreover obtain d x where "?body = d # x" "skip_space ?body = ?body" "d \<noteq> CHR '']''"
    proof -
      obtain v ws where vs: "vs = v # ws" using False by (cases vs) auto
      with JArr.prems print_head [of v] obtain d x where d: "print_json v = d # x" "value_head d" by auto
      from d(2) have "\<not> json_space d" "d \<noteq> CHR '']''" by (auto dest: value_headD)
      with d(1) vs that show ?thesis by (cases ws) (simp_all add: skip_space_def)
    qed
    ultimately show ?thesis using n by simp
  qed
next
  case (JObj ms)
  then obtain m where n: "n = Suc m" by (cases n) simp_all
  show ?case
  proof (cases "ms = []")
    case True
    with n show ?thesis by simp
  next
    case False
    let ?body = "intersperse (map print_member ms) @ CHR ''}'' # r"
    have "parse_members m ?body = Some (map (\<lambda>(k, v). (coerce_utf8 k, coerce_json v)) ms, r)"
      using JObj.IH JObj.prems False n
      by (intro parse_printed_members) (auto simp: print_members)
    moreover obtain x where "?body = dquote # x" "skip_space ?body = ?body"
      using False by (cases ms; cases "tl ms") (simp_all add: print_member_def print_string_def skip_space_def json_space_def)
    ultimately show ?thesis using n by (simp add: print_members)
  qed
qed

lemma skip_nothing [simp]: "skip_space [] = []"
  by (simp add: skip_space_def)

lemma next_printed_before:
  assumes "printable v" "stops s"
  shows "next_value (print_json v @ s) = Value (coerce_json v) s"
proof -
  obtain c r where cr: "print_json v @ s = c # r" using print_head [OF assms(1)] by auto
  have "parse_value (2 * length (c # r)) (c # r) = Some (coerce_json v, s)"
    using parse_print [OF assms, of "2 * length (c # r)"] cr by simp
  moreover have "skip_space (c # r) = c # r" using skip_print [OF assms(1), of s] cr by simp
  ultimately show ?thesis by (simp only: next_value_def cr list.case option.case prod.case)
qed

lemma next_printed: "printable v \<Longrightarrow> next_value (print_json v) = Value (coerce_json v) []"
  using next_printed_before [of v "[]"] by (simp add: stops_def)

lemma single_printed: "printable v \<Longrightarrow> single_value (print_json v) = Some (coerce_json v)"
  by (simp add: single_value_def next_printed) (simp add: next_value_def)

lemma single_value_iff:
  "single_value s = Some v \<longleftrightarrow> (\<exists>r. next_value s = Value v r \<and> next_value r = EndOfInput)"
  by (auto simp: single_value_def split: decoded.splits if_splits)

section \<open>Printed text has no control character\<close>

definition no_control :: "string \<Rightarrow> bool" where
  "no_control s \<longleftrightarrow> (\<forall>c \<in> set s. \<not> byte c < 0x20)"

lemma no_control_simps [simp]:
  "no_control []" "no_control (c # s) \<longleftrightarrow> \<not> byte c < 0x20 \<and> no_control s"
  "no_control (s @ t) \<longleftrightarrow> no_control s \<and> no_control t"
  by (auto simp: no_control_def)

lemma hex_digit_printable: "n < 16 \<Longrightarrow> \<not> byte (hex_digit n) < 0x20"
  by (auto simp: hex_digit_def)

lemma escape_char_no_control: "no_control (escape_char c)"
proof -
  have "of_char c < (256 :: nat)" by simp
  then have "byte c div 16 < 16" by (intro less_mult_imp_div_less) simp
  then show ?thesis by (auto simp: escape_char_def hex_digit_printable)
qed

lemma second_ok_byte: "second_ok a b \<Longrightarrow> 0x80 \<le> byte b"
  by (auto simp: second_ok_def split: if_splits)

lemma cont_byte: "cont c \<Longrightarrow> 0x80 \<le> byte c"
  by (simp add: cont_def)

lemma rune_tail:
  "rune_width (a # s) = Suc (length s) \<Longrightarrow> s \<noteq> [] \<Longrightarrow> 0x80 \<le> byte a \<and> (\<forall>c \<in> set s. 0x80 \<le> byte c)"
proof -
  assume w: "rune_width (a # s) = Suc (length s)" "s \<noteq> []"
  from w(1) have a: "s \<noteq> [] \<longrightarrow> 0x80 \<le> byte a" by (cases "byte a < 0x80") (simp_all add: rune_width.simps)
  from w(2) consider b where "s = [b]" | b c where "s = [b, c]" | b c d where "s = [b, c, d]"
    | b c d e r where "s = b # c # d # e # r" by (metis neq_Nil_conv)
  then have "\<forall>c \<in> set s. 0x80 \<le> byte c"
  proof cases
    case (1 b)
    with w(1) show ?thesis by (simp add: rune_width.simps second_ok_byte split: if_splits)
  next
    case (2 b c)
    with w(1) show ?thesis by (simp add: rune_width.simps second_ok_byte cont_byte split: if_splits)
  next
    case (3 b c d)
    with w(1) show ?thesis by (simp add: rune_width.simps second_ok_byte cont_byte split: if_splits)
  next
    case (4 b c d e r)
    with w(1) show ?thesis by (simp add: rune_width.simps split: if_splits)
  qed
  with a w(2) show ?thesis by simp
qed

lemma rune_no_control: "is_rune t \<Longrightarrow> 2 \<le> length t \<Longrightarrow> no_control t"
proof -
  assume t: "is_rune t" "2 \<le> length t"
  obtain a s where as: "t = a # s" using t(2) by (cases t) simp_all
  with t have "rune_width (a # s) = Suc (length s)" "s \<noteq> []"
    by (auto simp: is_rune_def)
  then have "0x80 \<le> byte a \<and> (\<forall>c \<in> set s. 0x80 \<le> byte c)" by (rule rune_tail)
  then show ?thesis by (auto simp: as no_control_def)
qed

lemma escape_no_control: "is_rune t \<or> is_bad t \<Longrightarrow> no_control (escape_rune t)"
proof (cases "rune_width t = 0 \<or> length t = 1")
  case True
  then show ?thesis by (auto simp: escape_rune_def escape_char_no_control)
next
  case False
  moreover assume "is_rune t \<or> is_bad t"
  ultimately have t: "is_rune t" by (simp add: is_bad_def)
  then have "length t \<noteq> 0" by (simp add: is_rune_def)
  with False have "2 \<le> length t" by linarith
  with False t show ?thesis by (simp add: escape_rune_def rune_no_control)
qed

lemma print_string_no_control: "no_control (print_string s)"
proof -
  have "no_control (concat (map escape_rune ts))" if "\<forall>t \<in> set ts. is_rune t \<or> is_bad t" for ts
    using that by (induction ts) (simp_all add: escape_no_control)
  then show ?thesis by (simp add: print_string_def runes_tokens)
qed

lemma dec_int_no_control: "no_control (dec_int i)"
proof -
  have "no_control (dec_nat n)" for n
    using dec_nat_digits(1) [of n] by (auto simp: no_control_def list_all_iff is_digit_def)
  then show ?thesis by (simp add: dec_int_def)
qed

lemma intersperse_no_control: "\<forall>x \<in> set xs. no_control x \<Longrightarrow> no_control (intersperse xs)"
  by (induction xs rule: intersperse.induct) auto

lemma print_no_control: "printable v \<Longrightarrow> no_control (print_json v)"
proof (induction v)
  case (JObj ms)
  then have "no_control (intersperse (map print_member ms))"
    by (intro intersperse_no_control) (fastforce simp: print_member_def print_string_no_control)
  then show ?case by (simp add: print_members)
qed (auto simp: dec_int_no_control print_string_no_control intro!: intersperse_no_control)

lemma no_control_newline: "no_control s \<Longrightarrow> newline \<notin> set s"
  by (auto simp: no_control_def)

section \<open>Structs\<close>

text \<open>
  \<^verbatim>\<open>Decode\<close> into a struct: \<^verbatim>\<open>null\<close> changes nothing, an object is stored member
  by member, a later member over an earlier one, and anything else is an error. A member
  belongs to the field with its name or, failing that, to the first field whose name agrees
  up to letter case; the two letters beyond ASCII that fold to one (U+017F and U+212A) do
  so here as well. With \<^verbatim>\<open>DisallowUnknownFields\<close> any other member is an error. The
  decoder goes on after an error and reports the first one; here an error is \<^term>\<open>None\<close>.
\<close>

type_synonym 'a setter = "json \<Rightarrow> 'a \<Rightarrow> 'a option"

fun fold_name :: "string \<Rightarrow> string" where
  "fold_name (a # b # c # s) =
     (if byte a = 0xC5 \<and> byte b = 0xBF then CHR ''S'' # fold_name (c # s)
      else if byte a = 0xE2 \<and> byte b = 0x84 \<and> byte c = 0xAA then CHR ''K'' # fold_name s
      else (if 97 \<le> byte a \<and> byte a \<le> 122 then char_of (byte a - 32) else a) # fold_name (b # c # s))"
| "fold_name [a, b] =
     (if byte a = 0xC5 \<and> byte b = 0xBF then [CHR ''S'']
      else (if 97 \<le> byte a \<and> byte a \<le> 122 then char_of (byte a - 32) else a) # fold_name [b])"
| "fold_name [a] = [if 97 \<le> byte a \<and> byte a \<le> 122 then char_of (byte a - 32) else a]"
| "fold_name [] = []"

definition find_field :: "(string \<times> 'a setter) list \<Rightarrow> string \<Rightarrow> 'a setter option" where
  "find_field fields name =
     (case map_of fields name of
        Some f \<Rightarrow> Some f
      | None \<Rightarrow> map_option snd (find (\<lambda>(n, _). fold_name n = fold_name name) fields))"

fun store_members :: "(string \<times> 'a setter) list \<Rightarrow> (string \<times> json) list \<Rightarrow> 'a \<Rightarrow> 'a option" where
  "store_members fields [] x = Some x"
| "store_members fields ((name, v) # ms) x =
     (case find_field fields name of None \<Rightarrow> None | Some f \<Rightarrow>
      (case f v x of None \<Rightarrow> None | Some y \<Rightarrow> store_members fields ms y))"

definition store_struct :: "(string \<times> 'a setter) list \<Rightarrow> 'a setter" where
  "store_struct fields v x =
     (case v of JNull \<Rightarrow> Some x | JObj ms \<Rightarrow> store_members fields ms x | _ \<Rightarrow> None)"

text \<open>The values the fields of the program take.\<close>

definition store_string :: "((string \<Rightarrow> string) \<Rightarrow> 'a \<Rightarrow> 'a) \<Rightarrow> 'a setter" where
  "store_string upd v x =
     (case v of JNull \<Rightarrow> Some x | JStr s \<Rightarrow> Some (upd (\<lambda>_. s) x) | _ \<Rightarrow> None)"

definition store_bool :: "((bool \<Rightarrow> bool) \<Rightarrow> 'a \<Rightarrow> 'a) \<Rightarrow> 'a setter" where
  "store_bool upd v x =
     (case v of JNull \<Rightarrow> Some x | JBool b \<Rightarrow> Some (upd (\<lambda>_. b) x) | _ \<Rightarrow> None)"

definition int64 :: "json \<Rightarrow> int option" where
  "int64 v =
     (case v of
        JNum n \<Rightarrow>
          (case read_int n of
             Some i \<Rightarrow> if - (2 ^ 63) \<le> i \<and> i < 2 ^ 63 then Some i else None
           | None \<Rightarrow> None)
      | _ \<Rightarrow> None)"

definition store_int :: "((i64 \<Rightarrow> i64) \<Rightarrow> 'a \<Rightarrow> 'a) \<Rightarrow> 'a setter" where
  "store_int upd v x =
     (if v = JNull then Some x else map_option (\<lambda>i. upd (\<lambda>_. word_of_int i) x) (int64 v))"

text \<open>A field that is itself a struct is stored into, member by member.\<close>

definition store_nested :: "('a \<Rightarrow> 'b) \<Rightarrow> (('b \<Rightarrow> 'b) \<Rightarrow> 'a \<Rightarrow> 'a) \<Rightarrow> 'b setter \<Rightarrow> 'a setter" where
  "store_nested sel upd inner v x = map_option (\<lambda>y. upd (\<lambda>_. y) x) (inner v (sel x))"

definition uint64 :: "json \<Rightarrow> nat option" where
  "uint64 v =
     (case v of
        JNum n \<Rightarrow> (case read_nat n of Some i \<Rightarrow> if i < 2 ^ 64 then Some i else None | None \<Rightarrow> None)
      | _ \<Rightarrow> None)"

section \<open>Strings of plain ASCII\<close>

definition ascii :: "string \<Rightarrow> bool" where
  "ascii s \<longleftrightarrow> list_all (\<lambda>c. byte c < 0x80) s"

lemma runes_ascii: "ascii s \<Longrightarrow> runes s = map (\<lambda>c. [c]) s"
  by (induction s) (simp_all add: ascii_def rune_width.simps)

lemma ascii_valid: "ascii s \<Longrightarrow> utf8_valid s"
  by (auto simp: utf8_valid_def runes_ascii ascii_def list_all_iff rune_width.simps)

lemma coerce_ascii: "ascii s \<Longrightarrow> coerce_utf8 s = s"
  by (rule coerce_valid [OF ascii_valid])

text \<open>The strings of a value.\<close>

fun json_strings :: "json \<Rightarrow> string set" where
  "json_strings (JStr s) = {s}"
| "json_strings (JArr vs) = (\<Union>v \<in> set vs. json_strings v)"
| "json_strings (JObj ms) = (\<Union>(k, v) \<in> set ms. insert k (json_strings v))"
| "json_strings _ = {}"

lemma coerce_json_valid: "\<forall>s \<in> json_strings v. utf8_valid s \<Longrightarrow> coerce_json v = v"
proof (induction v)
  case (JArr vs)
  then show ?case by (auto intro!: map_idI)
next
  case (JObj ms)
  then show ?case by (fastforce simp: coerce_valid intro!: map_idI)
qed (simp_all add: coerce_valid)

lemma store_append:
  "store_members fields (ms @ ms') x =
     (case store_members fields ms x of None \<Rightarrow> None | Some y \<Rightarrow> store_members fields ms' y)"
  by (induction ms arbitrary: x) (auto split: option.split)

section \<open>Line codecs\<close>

text \<open>
  What a framing by lines asks of a codec: a value is written as one line, and a line
  written for a faithful value reads back as what its receiver is promised.
\<close>

locale line_codec =
  fixes write_line :: "'m \<Rightarrow> 'e + bytes"
    and read_line :: "bytes \<Rightarrow> 'f + 'm"
    and faithful :: "'m \<Rightarrow> bool" and arrives :: "'m \<Rightarrow> 'f + 'm"
  assumes one_line: "write_line m = Inr p \<Longrightarrow> newline \<notin> set p"
    and reads_back: "write_line m = Inr p \<Longrightarrow> faithful m \<Longrightarrow> read_line p = arrives m"
begin

text \<open>The first line of a stream of frames is the first frame, and reads back.\<close>

lemma first_line:
  assumes "write_line m = Inr p"
  shows "takeWhile (\<lambda>c. c \<noteq> newline) (p @ newline # rest) = p"
  using one_line [OF assms] by (simp add: takeWhile_tail) (metis takeWhile_eq_all_conv)

lemma write_inj:
  assumes "write_line m = Inr p" "write_line m' = Inr p" "faithful m" "faithful m'"
    and "arrives m = Inr m" "arrives m' = Inr m'"
  shows "m = m'"
  using assms reads_back [of m p] reads_back [of m' p] by simp

end

end
