(* ===== verification/Wire.thy ===== *)
theory Wire
  imports Protocol Json
begin

text \<open>
  The JSON text of a message: \<^verbatim>\<open>Marshal\<close> and \<^verbatim>\<open>Unmarshal\<close> of
  \<^verbatim>\<open>src/pkg/protocol/protocol.go\<close> on bytes, between the wire struct of
  \<^verbatim>\<open>Protocol\<close> and the texts of \<^verbatim>\<open>Json\<close>. The struct tags are the table
  \<open>wireFields\<close> for reading and \<open>wire_json\<close>, with the members that
  \<^verbatim>\<open>omitempty\<close> leaves out, for writing.
\<close>

section \<open>Writing\<close>

definition omit_string :: "string \<Rightarrow> string \<Rightarrow> (string \<times> json) list" where
  "omit_string name s = (if s = '''' then [] else [(name, JStr s)])"

definition omit_nil :: "string \<Rightarrow> ('a \<Rightarrow> json) \<Rightarrow> 'a option \<Rightarrow> (string \<times> json) list" where
  "omit_nil name f x = (case x of None \<Rightarrow> [] | Some v \<Rightarrow> [(name, f v)])"

definition omit_empty :: "string \<Rightarrow> string list option \<Rightarrow> (string \<times> json) list" where
  "omit_empty name x =
     (case x of None \<Rightarrow> [] | Some cs \<Rightarrow> if cs = [] then [] else [(name, JArr (map JStr cs))])"

abbreviation json_i64 :: "i64 \<Rightarrow> json" where
  "json_i64 i \<equiv> JNum (dec_int (sint i))"

abbreviation json_u64 :: "u64 \<Rightarrow> json" where
  "json_u64 i \<equiv> JNum (dec_int (uint i))"

definition wire_json :: "wireMessage \<Rightarrow> json" where
  "wire_json w = JObj
     ([(''version'', json_i64 (wVersion w)), (''type'', JStr (wType w))] @
      omit_nil ''request_id'' json_u64 (wRequestID w) @
      omit_string ''scanner_id'' (wScannerID w) @
      omit_string ''worker_version'' (wWorkerVersion w) @
      omit_empty ''capabilities'' (wCapabilities w) @
      omit_string ''file_path'' (wFilePath w) @
      omit_string ''signature_path'' (wSignaturePath w) @
      omit_string ''status'' (wStatus w) @
      omit_string ''verdict'' (wVerdict w) @
      omit_string ''signature'' (wSignature w) @
      omit_nil ''duration_ms'' json_i64 (wDurationMs w) @
      omit_nil ''success'' JBool (wSuccess w) @
      omit_nil ''signature_count'' json_i64 (wSignatureCount w) @
      omit_string ''error'' (wError w))"

definition Marshal :: "Message \<Rightarrow> protocol_error + bytes" where
  "Marshal m =
     (case encode_wire m of Inl e \<Rightarrow> Inl e | Inr w \<Rightarrow> Inr (print_json (wire_json w)))"

section \<open>Reading\<close>

text \<open>A pointer field is set to \<^verbatim>\<open>nil\<close> by \<^verbatim>\<open>null\<close>, a slice as well.\<close>

definition store_nil ::
  "(('b option \<Rightarrow> 'b option) \<Rightarrow> 'a \<Rightarrow> 'a) \<Rightarrow> (json \<Rightarrow> 'b option) \<Rightarrow> 'a setter" where
  "store_nil upd read v x =
     (if v = JNull then Some (upd (\<lambda>_. None) x)
      else map_option (\<lambda>b. upd (\<lambda>_. Some b) x) (read v))"


definition read_u64 :: "json \<Rightarrow> u64 option" where
  "read_u64 v = map_option of_nat (uint64 v)"

definition read_i64 :: "json \<Rightarrow> i64 option" where
  "read_i64 v = map_option word_of_int (int64 v)"

definition read_bool :: "json \<Rightarrow> bool option" where
  "read_bool v = (case v of JBool b \<Rightarrow> Some b | _ \<Rightarrow> None)"

definition read_element :: "json \<Rightarrow> string option" where
  "read_element v = (case v of JStr s \<Rightarrow> Some s | JNull \<Rightarrow> Some '''' | _ \<Rightarrow> None)"

fun read_elements :: "json list \<Rightarrow> string list option" where
  "read_elements [] = Some []"
| "read_elements (v # vs) =
     (case read_element v of None \<Rightarrow> None | Some s \<Rightarrow> map_option ((#) s) (read_elements vs))"

definition read_strings :: "json \<Rightarrow> string list option" where
  "read_strings v = (case v of JArr vs \<Rightarrow> read_elements vs | _ \<Rightarrow> None)"

definition wireFields :: "(string \<times> wireMessage setter) list" where
  "wireFields =
     [(''version'', store_int wVersion_update),
      (''type'', store_string wType_update),
      (''request_id'', store_nil wRequestID_update read_u64),
      (''scanner_id'', store_string wScannerID_update),
      (''worker_version'', store_string wWorkerVersion_update),
      (''capabilities'', store_nil wCapabilities_update read_strings),
      (''file_path'', store_string wFilePath_update),
      (''signature_path'', store_string wSignaturePath_update),
      (''status'', store_string wStatus_update),
      (''verdict'', store_string wVerdict_update),
      (''signature'', store_string wSignature_update),
      (''duration_ms'', store_nil wDurationMs_update read_i64),
      (''success'', store_nil wSuccess_update read_bool),
      (''signature_count'', store_nil wSignatureCount_update read_i64),
      (''error'', store_string wError_update)]"

definition emptyWire :: wireMessage where
  "emptyWire = \<lparr>wVersion = 0, wType = '''', wRequestID = None, wScannerID = '''',
     wWorkerVersion = '''', wCapabilities = None, wFilePath = '''', wSignaturePath = '''',
     wStatus = '''', wVerdict = '''', wSignature = '''', wDurationMs = None, wSuccess = None,
     wSignatureCount = None, wError = ''''\<rparr>"

text \<open>
  A text that holds no value at all makes \<^verbatim>\<open>Decode\<close> return \<^verbatim>\<open>io.EOF\<close>, which the
  error wraps.
\<close>

datatype codec_error = DecodeEOF | DecodeFailed | TrailingData | MultipleValues | Invalid protocol_error

definition requireEnd :: "string \<Rightarrow> codec_error option" where
  "requireEnd rest =
     (case next_value rest of
        EndOfInput \<Rightarrow> None
      | SyntaxError \<Rightarrow> Some TrailingData
      | Value _ _ \<Rightarrow> Some MultipleValues)"

definition Unmarshal :: "bytes \<Rightarrow> codec_error + Message" where
  "Unmarshal data =
     (case next_value data of
        Value v rest \<Rightarrow>
          (case store_struct wireFields v emptyWire of
             None \<Rightarrow> Inl DecodeFailed
           | Some w \<Rightarrow>
               (case requireEnd rest of
                  Some e \<Rightarrow> Inl e
                | None \<Rightarrow> (case decode_wire w of Inl e \<Rightarrow> Inl (Invalid e) | Inr m \<Rightarrow> Inr m)))
      | EndOfInput \<Rightarrow> Inl DecodeEOF
      | SyntaxError \<Rightarrow> Inl DecodeFailed)"

section \<open>Lemmas\<close>

lemma word_sint_range: "- (2 ^ 63) \<le> sint (i :: i64) \<and> sint i < 2 ^ 63"
  using sint_range_size [of i] by (simp add: word_size)

lemma read_json_i64 [simp]: "int64 (json_i64 i) = Some (sint i)"
  using word_sint_range [of i] by (simp add: int64_def read_dec_int)

lemma read_json_u64 [simp]: "uint64 (json_u64 i) = Some (unat i)"
proof -
  have "\<not> uint i < 0" by simp
  then have dec: "dec_int (uint i) = dec_nat (unat i)"
    by (simp only: dec_int_def if_False unat_eq_nat_uint)
  have "unat i < 2 ^ 64" using unsigned_less [of i] by simp
  then show ?thesis by (simp only: uint64_def dec json.case read_dec_nat option.case if_True)
qed

lemma read_elements_strings [simp]: "read_elements (map JStr cs) = Some cs"
  by (induction cs) (simp_all add: read_element_def)

text \<open>Each written member sets its field to what the writer read there.\<close>

lemma store_omit_string:
  "find_field table name = Some (store_string upd) \<Longrightarrow> s = '''' \<longrightarrow> upd (\<lambda>_. '''') x = x \<Longrightarrow>
     store_members table (omit_string name s) x = Some (upd (\<lambda>_. s) x)"
  by (simp add: omit_string_def store_string_def)

lemma store_omit_nil:
  "find_field table name = Some (store_nil upd read) \<Longrightarrow> a = None \<longrightarrow> upd (\<lambda>_. None) x = x \<Longrightarrow>
     (\<And>b. read (f b) = Some b \<and> f b \<noteq> JNull) \<Longrightarrow>
     store_members table (omit_nil name f a) x = Some (upd (\<lambda>_. a) x)"
  by (simp add: omit_nil_def store_nil_def split: option.split)

lemma store_omit_empty:
  "find_field table name = Some (store_nil upd read_strings) \<Longrightarrow> upd (\<lambda>_. None) x = x \<Longrightarrow>
     store_members table (omit_empty name a) x =
       Some (upd (\<lambda>_. if a = Some [] then None else a) x)"
  by (simp add: omit_empty_def store_nil_def read_strings_def split: option.split)

text \<open>Writing and reading back: only an empty list of capabilities is lost.\<close>

definition drop_empty :: "wireMessage \<Rightarrow> wireMessage" where
  "drop_empty w = w\<lparr>wCapabilities := (if wCapabilities w = Some [] then None else wCapabilities w)\<rparr>"

lemma find_string_fields:
  "find_field wireFields ''scanner_id'' = Some (store_string wScannerID_update)"
  "find_field wireFields ''worker_version'' = Some (store_string wWorkerVersion_update)"
  "find_field wireFields ''file_path'' = Some (store_string wFilePath_update)"
  "find_field wireFields ''signature_path'' = Some (store_string wSignaturePath_update)"
  "find_field wireFields ''status'' = Some (store_string wStatus_update)"
  "find_field wireFields ''verdict'' = Some (store_string wVerdict_update)"
  "find_field wireFields ''signature'' = Some (store_string wSignature_update)"
  "find_field wireFields ''error'' = Some (store_string wError_update)"
  by (simp_all add: find_field_def wireFields_def)

lemma find_nil_fields:
  "find_field wireFields ''request_id'' = Some (store_nil wRequestID_update read_u64)"
  "find_field wireFields ''duration_ms'' = Some (store_nil wDurationMs_update read_i64)"
  "find_field wireFields ''success'' = Some (store_nil wSuccess_update read_bool)"
  "find_field wireFields ''signature_count'' = Some (store_nil wSignatureCount_update read_i64)"
  by (simp_all add: find_field_def wireFields_def)

lemma find_capabilities:
  "find_field wireFields ''capabilities'' = Some (store_nil wCapabilities_update read_strings)"
  by (simp add: find_field_def wireFields_def)

lemma store_head:
  "store_members wireFields ((''version'', json_i64 i) # (''type'', JStr t) # ms) x =
     store_members wireFields ms (x\<lparr>wVersion := i, wType := t\<rparr>)"
proof -
  have "find_field wireFields ''version'' = Some (store_int wVersion_update)"
    "find_field wireFields ''type'' = Some (store_string wType_update)"
    by (simp_all add: find_field_def wireFields_def)
  then show ?thesis by (simp add: store_int_def store_string_def)
qed

lemma store_wire_json: "store_struct wireFields (wire_json w) emptyWire = Some (drop_empty w)"
  by (simp add: store_struct_def wire_json_def store_head store_append drop_empty_def
      find_string_fields [THEN store_omit_string] find_nil_fields [THEN store_omit_nil]
      find_capabilities [THEN store_omit_empty] emptyWire_def read_u64_def read_i64_def read_bool_def
      del: store_members.simps(2))

text \<open>The strings of a message.\<close>

definition message_strings :: "Message \<Rightarrow> string set" where
  "message_strings m = {mType m, mScannerID m, mWorkerVersion m, mFilePath m, mSignaturePath m,
     mStatus m, mVerdict m, mSignature m, mError m} \<union>
     (case mCapabilities m of None \<Rightarrow> {} | Some cs \<Rightarrow> set cs)"

text \<open>A predicate on members, checked piece by piece.\<close>

lemma omit_ball:
  "(\<forall>p \<in> set (omit_string name s). P p) \<longleftrightarrow> s = '''' \<or> P (name, JStr s)"
  "(\<forall>p \<in> set (omit_nil name f a). P p) \<longleftrightarrow> (\<forall>b. a = Some b \<longrightarrow> P (name, f b))"
  "(\<forall>p \<in> set (omit_empty name c). P p) \<longleftrightarrow> (\<forall>cs. c = Some cs \<longrightarrow> cs = [] \<or> P (name, JArr (map JStr cs)))"
  by (auto simp: omit_string_def omit_nil_def omit_empty_def split: option.split)

lemma printable_members: "printable (JObj ms) \<longleftrightarrow> (\<forall>p \<in> set ms. printable (snd p))"
  by auto

lemma printable_wire: "printable (wire_json w)"
  unfolding wire_json_def printable_members set_append ball_Un omit_ball by auto

lemma strings_members:
  "(\<forall>s \<in> json_strings (JObj ms). P s) \<longleftrightarrow> (\<forall>p \<in> set ms. P (fst p) \<and> (\<forall>s \<in> json_strings (snd p). P s))"
  by auto

lemma wire_json_strings:
  "\<forall>s \<in> json_strings (wire_json (toWire m)). ascii s \<or> s \<in> message_strings m"
  unfolding wire_json_def strings_members set_append ball_Un omit_ball
  by (simp add: ascii_def message_strings_def toWire_def)

lemma coerce_wire:
  assumes "\<forall>s \<in> message_strings m. utf8_valid s"
  shows "coerce_json (wire_json (toWire m)) = wire_json (toWire m)"
  using assms wire_json_strings [of m] by (intro coerce_json_valid ballI) (auto dest: ascii_valid)

lemma empty_capabilities:
  assumes "encode_wire m = Inr w" "mCapabilities m = Some []"
  shows "decode_wire (drop_empty w) = Inl (RequiresField TypeHelloAck ''capabilities'')"
proof -
  from assms(1) have v: "Validate m = None" and w: "w = toWire m"
    by (auto simp: encode_wire_def split: option.splits)
  from v obtain f where "well_formed f" "m = embed f" by (rule valid_formE)
  moreover from this assms(2) obtain sc ver where "f = HelloAck sc ver []"
    by (cases f) (auto simp: emptyMessage_def)
  ultimately show ?thesis
    by (simp add: w drop_empty_def toWire_def decode_wire_def emptyMessage_def fromWire_def
        validateWireFieldPlacement_def validateRequiredWireFields_def Validate_def)
qed

lemma Marshal_InrE:
  assumes "Marshal m = Inr d"
  obtains "encode_wire m = Inr (toWire m)" "Validate m = None" "d = print_json (wire_json (toWire m))"
  using assms by (auto simp: Marshal_def encode_wire_def split: option.splits)

lemma Marshal_Unmarshal:
  assumes "Marshal m = Inr d" "\<forall>s \<in> message_strings m. utf8_valid s"
  shows "Unmarshal d =
    (if mCapabilities m = Some [] then Inl (Invalid (RequiresField TypeHelloAck ''capabilities''))
     else Inr m)"
  using assms(1)
proof (rule Marshal_InrE)
  assume m: "encode_wire m = Inr (toWire m)" and d: "d = print_json (wire_json (toWire m))"
  have "requireEnd [] = None" by (simp add: requireEnd_def next_value_def)
  then have "Unmarshal d =
      (case decode_wire (drop_empty (toWire m)) of Inl e \<Rightarrow> Inl (Invalid e) | Inr m \<Rightarrow> Inr m)"
    by (simp add: Unmarshal_def d next_printed [OF printable_wire] coerce_wire [OF assms(2)]
        store_wire_json)
  moreover have "drop_empty (toWire m) = toWire m" if "mCapabilities m \<noteq> Some []"
    using that by (simp add: drop_empty_def toWire_def)
  ultimately show ?thesis
    using empty_capabilities [OF m] decode_encode_wire [OF m] by simp
qed

lemma Marshal_no_newline: "Marshal m = Inr d \<Longrightarrow> newline \<notin> set d"
  by (erule Marshal_InrE) (simp add: no_control_newline print_no_control printable_wire)

lemma Unmarshal_valid: "Unmarshal d = Inr m \<Longrightarrow> Validate m = None"
  by (auto simp: Unmarshal_def dest: decode_wire_sound split: decoded.splits option.splits sum.splits)

text \<open>
  What arrives of a written message: \<^verbatim>\<open>omitempty\<close> leaves out an empty list of capabilities,
  without which the reader rejects a HELLO_ACK.
\<close>

definition text_message :: "Message \<Rightarrow> bool" where
  "text_message m \<longleftrightarrow> (\<forall>s \<in> message_strings m. utf8_valid s)"

definition arrival :: "Message \<Rightarrow> codec_error + Message" where
  "arrival m =
     (if mCapabilities m = Some [] then Inl (Invalid (RequiresField TypeHelloAck ''capabilities'')) else Inr m)"

interpretation wire: line_codec Marshal Unmarshal text_message arrival
  by unfold_locales (simp_all add: Marshal_no_newline Marshal_Unmarshal text_message_def arrival_def)

section \<open>Properties\<close>

text \<open>
  C35. Round trip through the bytes. \<^verbatim>\<open>Marshal\<close> writes exactly the messages that validate, and
  refuses the others with the error of the validation. What it writes is one line of text; if
  the strings of the message are valid UTF-8, \<^verbatim>\<open>Unmarshal\<close> reads the same message back from it,
  with one exception: a HELLO_ACK with an empty list of capabilities is valid and is written, but
  \<^verbatim>\<open>omitempty\<close> leaves the list out and the reader rejects it. Conversely, whatever
  text \<^verbatim>\<open>Unmarshal\<close> reads, the message it returns validates, so \<^verbatim>\<open>Marshal\<close> writes it.
\<close>

theorem Marshal_roundtrip:
  "(case Marshal m of
      Inl e \<Rightarrow> Validate m = Some e
    | Inr d \<Rightarrow> Validate m = None \<and> newline \<notin> set d \<and>
        ((\<forall>s \<in> message_strings m. utf8_valid s) \<longrightarrow>
          Unmarshal d =
            (if mCapabilities m = Some [] then Inl (Invalid (RequiresField TypeHelloAck ''capabilities''))
             else Inr m))) \<and>
   (\<forall>data m'. Unmarshal data = Inr m' \<longrightarrow> (\<exists>d. Marshal m' = Inr d))"
proof -
  have "\<exists>d. Marshal m' = Inr d" if "Unmarshal data = Inr m'" for data m'
    using Unmarshal_valid [OF that] by (simp add: Marshal_def encode_wire_def)
  moreover have "case Marshal m of
      Inl e \<Rightarrow> Validate m = Some e
    | Inr d \<Rightarrow> Validate m = None \<and> newline \<notin> set d \<and> (text_message m \<longrightarrow> Unmarshal d = arrival m)"
  proof (cases "Marshal m")
    case (Inl e)
    then show ?thesis by (auto simp: Marshal_def encode_wire_def split: option.splits)
  next
    case (Inr d)
    then have "Validate m = None" by (rule Marshal_InrE)
    with Inr wire.one_line [OF Inr] wire.reads_back [OF Inr] show ?thesis by simp
  qed
  ultimately show ?thesis unfolding text_message_def arrival_def by blast
qed

text \<open>One message arrives, and one with an empty list of capabilities is written and rejected.\<close>

theorem Marshal_roundtrip_witness:
  "(\<exists>d. Marshal (embed (HelloAck ''a'' ''1'' [''x''])) = Inr d \<and>
     Unmarshal d = Inr (embed (HelloAck ''a'' ''1'' [''x'']))) \<and>
   (\<exists>d. Marshal (embed (HelloAck ''a'' ''1'' [])) = Inr d \<and>
     Unmarshal d = Inl (Invalid (RequiresField TypeHelloAck ''capabilities'')))"
proof -
  let ?m = "embed (HelloAck ''a'' ''1'' [''x''])" and ?n = "embed (HelloAck ''a'' ''1'' [])"
  have "well_formed (HelloAck ''a'' ''1'' [''x''])" "well_formed (HelloAck ''a'' ''1'' [])" by code_simp+
  from this [THEN encode_wire_embed] obtain d d' where d: "Marshal ?m = Inr d" "Marshal ?n = Inr d'"
    by (simp add: Marshal_def)
  have "\<forall>s \<in> message_strings ?m. utf8_valid s" "\<forall>s \<in> message_strings ?n. utf8_valid s" by code_simp+
  with Marshal_roundtrip [of ?m] Marshal_roundtrip [of ?n] d show ?thesis by (simp add: emptyMessage_def)
qed

end
