(* ===== verification/Ipc.thy ===== *)
theory Ipc
  imports Wire
begin

text \<open>
  Framing, \<^verbatim>\<open>src/pkg/ipc/ipc.go\<close>: one JSON text per line, of at most
  \<^verbatim>\<open>MaxFrameSize\<close> bytes. The decoder reads through a \<^verbatim>\<open>bufio.Reader\<close> whose buffer
  holds one byte more than that; \<^term>\<open>ReadSlice\<close> and \<^term>\<open>fill\<close> are the standard
  library's loops over a reader that delivers its bytes in any pieces. The encoder writes a
  whole frame through a writer that may accept any part of what it is given.
\<close>

abbreviation MaxFrameSize :: nat where
  "MaxFrameSize \<equiv> 64 * 1024"

section \<open>The buffered reader\<close>

text \<open>
  \<^term>\<open>unread\<close> are the bytes in the buffer, \<^term>\<open>pending\<close> is the error that the
  reader returned and \<^verbatim>\<open>bufio\<close> has not reported yet.
\<close>

record bufio =
  unread :: bytes
  source :: reader
  pending :: "read_error option"

text \<open>One \<^verbatim>\<open>Read\<close> into a buffer of \<open>k\<close> bytes.\<close>

fun read_some :: "nat \<Rightarrow> reader \<Rightarrow> (bytes \<times> read_error option) \<times> reader" where
  "read_some k [] = (([], Some EOF), [])"
| "read_some k ((chunk, err) # rest) =
     (if length chunk \<le> k then ((chunk, err), rest)
      else ((take k chunk, None), (drop k chunk, err) # rest))"

definition NoData :: read_error where
  "NoData = ReadError ''multiple Read calls return no data or error''"

text \<open>At most \<open>i\<close> reads, of which all but the last deliver nothing; \<^verbatim>\<open>bufio\<close> tries 100.\<close>

fun fill :: "nat \<Rightarrow> nat \<Rightarrow> bufio \<Rightarrow> bufio" where
  "fill cap 0 b = b\<lparr>pending := Some NoData\<rparr>"
| "fill cap (Suc i) b =
     (let ((chunk, err), rest) = read_some (cap - length (unread b)) (source b);
          b' = b\<lparr>unread := unread b @ chunk, source := rest\<rparr>
      in if err \<noteq> None then b'\<lparr>pending := err\<rparr>
         else if chunk \<noteq> [] then b'
         else fill cap i b')"

datatype slice_error = BufferFull | SliceError read_error

lemma fill_progress: "length (unread b) < length (unread (fill cap i b)) \<or> pending (fill cap i b) \<noteq> None"
proof (induction i arbitrary: b)
  case 0
  then show ?case by simp
next
  case (Suc i)
  show ?case
    using Suc.IH [of "b\<lparr>source := snd (read_some (cap - length (unread b)) (source b))\<rparr>"]
    by (auto simp: Let_def split_def)
qed

lemma fill_bound: "length (unread b) \<le> cap \<Longrightarrow> length (unread (fill cap i b)) \<le> cap"
proof (induction i arbitrary: b)
  case 0
  then show ?case by simp
next
  case (Suc i)
  have "length (fst (fst (read_some k rs))) \<le> k" for k rs
    by (induction k rs rule: read_some.induct) auto
  from this [of "cap - length (unread b)" "source b"] Suc show ?case
    by (auto simp: Let_def split_def)
qed

function ReadSlice :: "nat \<Rightarrow> bufio \<Rightarrow> (bytes \<times> slice_error option) \<times> bufio" where
  "ReadSlice cap b =
     (let line = takeWhile (\<lambda>c. c \<noteq> newline) (unread b) in
      if length line < length (unread b) then
        ((line @ [newline], None), b\<lparr>unread := drop (Suc (length line)) (unread b)\<rparr>)
      else case pending b of
        Some e \<Rightarrow> ((unread b, Some (SliceError e)), b\<lparr>unread := [], pending := None\<rparr>)
      | None \<Rightarrow>
          if cap \<le> length (unread b) then ((unread b, Some BufferFull), b\<lparr>unread := []\<rparr>)
          else ReadSlice cap (fill cap 100 b))"
  by pat_completeness auto
termination
proof (relation "measure (\<lambda>(cap, b). (if pending b = None then cap + 1 else 0) - length (unread b))")
  fix cap :: nat and b :: bufio and line
  assume "pending b = None" "\<not> cap \<le> length (unread b)"
  then show "((cap, fill cap 100 b), cap, b)
      \<in> measure (\<lambda>(cap, b). (if pending b = None then cap + 1 else 0) - length (unread b))"
    using fill_progress [of b cap 100] by auto
qed simp

declare ReadSlice.simps [simp del]

section \<open>The decoder\<close>

datatype ipc_error =
    FrameTooLarge
  | UnterminatedFrame
  | EndOfStream
  | ReadFailed string
  | BadFrame codec_error

record Decoder =
  reader :: bufio
  failed :: "ipc_error option"

definition NewDecoder :: "reader \<Rightarrow> Decoder" where
  "NewDecoder rs = \<lparr>reader = \<lparr>unread = [], source = rs, pending = None\<rparr>, failed = None\<rparr>"

definition Decode :: "Decoder \<Rightarrow> (ipc_error + Message) \<times> Decoder" where
  "Decode d =
     (case failed d of Some e \<Rightarrow> (Inl e, d) | None \<Rightarrow>
      let ((frame, err), b) = ReadSlice (MaxFrameSize + 1) (reader d);
          d' = d\<lparr>reader := b\<rparr>;
          latch = (\<lambda>e. (Inl e, d'\<lparr>failed := Some e\<rparr>))
      in case err of
        Some BufferFull \<Rightarrow> latch FrameTooLarge
      | Some (SliceError EOF) \<Rightarrow> if frame = [] then (Inl EndOfStream, d') else latch UnterminatedFrame
      | Some (SliceError (ReadError e)) \<Rightarrow> (Inl (ReadFailed e), d')
      | None \<Rightarrow>
          let payload = butlast frame in
          if length payload > MaxFrameSize then latch FrameTooLarge
          else (case Unmarshal payload of
                  Inl e \<Rightarrow> (Inl (BadFrame e), d')
                | Inr m \<Rightarrow> (Inr m, d')))"

text \<open>The results of successive calls.\<close>

fun decode_calls :: "nat \<Rightarrow> Decoder \<Rightarrow> (ipc_error + Message) list" where
  "decode_calls 0 d = []"
| "decode_calls (Suc n) d = fst (Decode d) # decode_calls n (snd (Decode d))"

section \<open>The encoder\<close>

text \<open>
  A writer answers a call with the number of bytes it took and an error; a number beyond the
  bytes it was given makes the code's slice expression panic.
\<close>

type_synonym writer = "bytes \<Rightarrow> nat \<times> string option"

datatype write_error =
    WriteError string
  | ShortWrite
  | SlicePanic
  | EncodeFailed protocol_error
  | TooLarge

function writeAll :: "writer \<Rightarrow> bytes \<Rightarrow> write_error option \<times> bytes" where
  "writeAll w data =
     (if data = [] then (None, [])
      else let (written, err) = w data in
        case err of
          Some e \<Rightarrow> (Some (WriteError e), take written data)
        | None \<Rightarrow>
            if written = 0 then (Some ShortWrite, [])
            else if written > length data then (Some SlicePanic, data)
            else apsnd (append (take written data)) (writeAll w (drop written data)))"
  by pat_completeness auto
termination
  by (relation "measure (length \<circ> snd)") auto

declare writeAll.simps [simp del]

text \<open>The second component is what reached the writer.\<close>

definition Encode :: "writer \<Rightarrow> Message \<Rightarrow> write_error option \<times> bytes" where
  "Encode w m =
     (case Marshal m of
        Inl e \<Rightarrow> (Some (EncodeFailed e), [])
      | Inr payload \<Rightarrow>
          if length payload > MaxFrameSize then (Some TooLarge, [])
          else writeAll w (payload @ [newline]))"

section \<open>What a reader delivers\<close>

text \<open>All the bytes up to the first error, and that error.\<close>

fun delivered :: "reader \<Rightarrow> bytes \<times> read_error" where
  "delivered [] = ([], EOF)"
| "delivered ((chunk, err) # rest) =
     (case err of Some e \<Rightarrow> (chunk, e) | None \<Rightarrow> apfst (append chunk) (delivered rest))"

definition content :: "bufio \<Rightarrow> bytes \<times> read_error" where
  "content b =
     (case pending b of
        Some e \<Rightarrow> (unread b, e)
      | None \<Rightarrow> apfst (append (unread b)) (delivered (source b)))"

text \<open>A reader that never returns nothing at all (100 times that would be an error).\<close>

definition steady :: "reader \<Rightarrow> bool" where
  "steady rs \<longleftrightarrow> ([], None) \<notin> set rs"

definition bufio_ok :: "nat \<Rightarrow> bufio \<Rightarrow> bool" where
  "bufio_ok cap b \<longleftrightarrow> steady (source b) \<and> length (unread b) \<le> cap"

lemma fill_content:
  assumes "steady (source b)" "pending b = None" "length (unread b) < cap"
  shows "content (fill cap (Suc i) b) = content b \<and> steady (source (fill cap (Suc i) b))"
proof (cases "source b")
  case Nil
  with assms show ?thesis by (simp add: content_def steady_def)
next
  case (Cons p rest)
  obtain chunk err where p: "p = (chunk, err)" by (cases p)
  show ?thesis
  proof (cases "length chunk \<le> cap - length (unread b)")
    case True
    from assms(1) Cons p have "err = None \<Longrightarrow> chunk \<noteq> []" "steady rest" by (auto simp: steady_def)
    with True Cons p assms(2) show ?thesis
      by (cases "delivered rest") (auto simp: content_def Let_def split: option.split)
  next
    case False
    let ?k = "cap - length (unread b)"
    have "take ?k chunk \<noteq> []" "drop ?k chunk \<noteq> []" using False assms(3) by auto
    with False Cons p assms(1,2) show ?thesis
      by (cases "delivered rest") (auto simp: content_def Let_def steady_def split: option.split)
  qed
qed

lemma content_prefix: "content b = (c, e) \<Longrightarrow> \<exists>r. c = unread b @ r"
  by (auto simp: content_def apfst_def map_prod_def split: option.splits prod.splits)

text \<open>
  What a call returns depends on the delivered bytes only: the bytes up to the first newline
  if it comes within the buffer, else all bytes with the reader's error, else a full buffer.
\<close>

definition slice_result ::
  "nat \<Rightarrow> bytes \<Rightarrow> read_error \<Rightarrow> (bytes \<times> slice_error option) \<times> bufio \<Rightarrow> bool" where
  "slice_result cap c e p \<longleftrightarrow>
     (\<exists>line rest. c = line @ newline # rest \<and> newline \<notin> set line \<and> length line < cap \<and>
        fst p = (line @ [newline], None) \<and> content (snd p) = (rest, e) \<and> bufio_ok cap (snd p)) \<or>
     (newline \<notin> set c \<and> length c \<le> cap \<and> fst p = (c, Some (SliceError e))) \<or>
     (\<exists>pre post. c = pre @ post \<and> newline \<notin> set pre \<and> length pre = cap \<and>
        fst p = (pre, Some BufferFull) \<and> content (snd p) = (post, e) \<and> bufio_ok cap (snd p))"

lemma takeWhile_newline:
  "length (takeWhile (\<lambda>c. c \<noteq> newline) s) < length s \<longleftrightarrow> newline \<in> set s"
  by (induction s) auto

lemma split_newline:
  assumes "newline \<in> set s"
  obtains line rest where "s = line @ newline # rest" "newline \<notin> set line"
    "takeWhile (\<lambda>c. c \<noteq> newline) s = line"
proof -
  obtain line rest where "s = line @ newline # rest" "newline \<notin> set line"
    using split_list_first [OF assms] by blast
  moreover from this have "takeWhile (\<lambda>c. c \<noteq> newline) s = line"
    by (simp add: takeWhile_tail) (metis takeWhile_eq_all_conv)
  ultimately show ?thesis by (rule that)
qed

lemma ReadSlice_result:
  "bufio_ok cap b \<Longrightarrow> content b = (c, e) \<Longrightarrow> slice_result cap c e (ReadSlice cap b)"
proof (induction cap b rule: ReadSlice.induct)
  case (1 cap b)
  obtain r where c: "c = unread b @ r" using content_prefix [OF "1.prems"(2)] by blast
  show ?case
  proof (cases "newline \<in> set (unread b)")
    case True
    then obtain line rest where line: "unread b = line @ newline # rest" "newline \<notin> set line"
      "takeWhile (\<lambda>c. c \<noteq> newline) (unread b) = line" by (rule split_newline)
    then have eq: "ReadSlice cap b = ((line @ [newline], None), b\<lparr>unread := rest\<rparr>)"
      using True by (subst ReadSlice.simps) (simp add: takeWhile_newline Let_def)
    have "content (b\<lparr>unread := rest\<rparr>) = (rest @ r, e)"
      using "1.prems"(2) c line(1)
      by (auto simp: content_def apfst_def map_prod_def split: option.splits prod.splits)
    moreover have "bufio_ok cap (b\<lparr>unread := rest\<rparr>)" "length line < cap"
      using "1.prems"(1) line(1) by (simp_all add: bufio_ok_def)
    ultimately show ?thesis
      unfolding slice_result_def eq using line(2)
      by (intro disjI1 exI [of _ line] exI [of _ "rest @ r"]) (simp add: c line(1))
  next
    case False
    then have no: "\<not> length (takeWhile (\<lambda>c. c \<noteq> newline) (unread b)) < length (unread b)"
      by (simp add: takeWhile_newline)
    show ?thesis
    proof (cases "pending b")
      case (Some e')
      have "ReadSlice cap b = ((unread b, Some (SliceError e')), b\<lparr>unread := [], pending := None\<rparr>)"
        using no Some by (subst ReadSlice.simps) (simp only: Let_def if_False option.case)
      moreover have "c = unread b" "e = e'" using "1.prems"(2) Some by (simp_all add: content_def)
      ultimately show ?thesis
        using False "1.prems"(1) by (simp add: slice_result_def bufio_ok_def)
    next
      case None
      show ?thesis
      proof (cases "cap \<le> length (unread b)")
        case True
        have "ReadSlice cap b = ((unread b, Some BufferFull), b\<lparr>unread := []\<rparr>)"
          using no None True by (subst ReadSlice.simps) (simp only: Let_def if_False if_True option.case)
        moreover have "content (b\<lparr>unread := []\<rparr>) = (r, e)"
          using "1.prems"(2) c None
          by (auto simp: content_def apfst_def map_prod_def split: prod.splits)
        ultimately show ?thesis
          using True False "1.prems"(1) c by (simp add: slice_result_def bufio_ok_def)
      next
        case room: False
        have eq: "ReadSlice cap b = ReadSlice cap (fill cap 100 b)"
          using no None room by (subst ReadSlice.simps) (simp only: Let_def if_False option.case)
        have "content (fill cap (Suc 99) b) = content b \<and> steady (source (fill cap (Suc 99) b))"
          using "1.prems"(1) None room by (intro fill_content) (simp_all add: bufio_ok_def)
        then have "content (fill cap 100 b) = (c, e)" "bufio_ok cap (fill cap 100 b)"
          using "1.prems" fill_bound [of b cap 100] by (simp_all add: bufio_ok_def)
        with "1.IH" [OF refl no None room] show ?thesis by (simp add: eq)
      qed
    qed
  qed
qed

section \<open>Lemmas on the two ends\<close>

definition decoder_ok :: "Decoder \<Rightarrow> bool" where
  "decoder_ok d \<longleftrightarrow> bufio_ok (MaxFrameSize + 1) (reader d)"

definition frame_result :: "bytes \<Rightarrow> ipc_error + Message" where
  "frame_result line = (case Unmarshal line of Inl e \<Rightarrow> Inl (BadFrame e) | Inr m \<Rightarrow> Inr m)"

lemma Decode_frame:
  assumes "decoder_ok d" "failed d = None" "content (reader d) = (line @ newline # rest, e)"
    "newline \<notin> set line" "length line \<le> MaxFrameSize"
  shows "fst (Decode d) = frame_result line" "failed (snd (Decode d)) = None"
    "content (reader (snd (Decode d))) = (rest, e)" "decoder_ok (snd (Decode d))"
proof -
  let ?p = "ReadSlice (MaxFrameSize + 1) (reader d)"
  have "slice_result (MaxFrameSize + 1) (line @ newline # rest) e ?p"
    using assms(1,3) by (intro ReadSlice_result) (simp_all only: decoder_ok_def)
  moreover have "\<not> (pre @ post = line @ newline # rest \<and> newline \<notin> set pre \<and> length pre = MaxFrameSize + 1)"
    for pre post
    using assms(4,5) by (auto simp: append_eq_append_conv2 append_eq_Cons_conv)
  moreover have "line' = line \<and> rest' = rest"
    if "line @ newline # rest = line' @ newline # rest'" "newline \<notin> set line'" for line' rest'
    using that assms(4) by (auto simp: append_eq_append_conv2 Cons_eq_append_conv append_eq_Cons_conv)
  ultimately have p: "fst ?p = (line @ [newline], None)" "content (snd ?p) = (rest, e)"
    "bufio_ok (MaxFrameSize + 1) (snd ?p)"
    unfolding slice_result_def by (auto; metis)+
  have "Decode d = (frame_result line, d\<lparr>reader := snd ?p\<rparr>)"
    using assms(2,5) p(1)
    by (simp add: Decode_def Let_def split_def frame_result_def split: sum.split)
  with p assms(2) show "fst (Decode d) = frame_result line" "failed (snd (Decode d)) = None"
    "content (reader (snd (Decode d))) = (rest, e)" "decoder_ok (snd (Decode d))"
    by (simp_all add: decoder_ok_def)
qed

lemma Decode_failed: "failed d = Some e \<Longrightarrow> Decode d = (Inl e, d)"
  by (simp add: Decode_def)

lemma decode_calls_failed: "failed d = Some e \<Longrightarrow> decode_calls n d = replicate n (Inl e)"
  by (induction n) (simp_all add: Decode_failed)

lemma writeAll_None: "writeAll w data = (None, out) \<Longrightarrow> out = data"
proof (induction w data arbitrary: out rule: writeAll.induct)
  case (1 w data)
  show ?case
  proof (cases "data = []")
    case True
    with "1.prems" show ?thesis by (simp add: writeAll.simps)
  next
    case False
    obtain n err where w: "w data = (n, err)" by (cases "w data")
    from "1.prems" False w have ok: "err = None" "n \<noteq> 0" "\<not> n > length data"
      by (auto simp: writeAll.simps [of w data] split: option.splits if_splits)
    with "1.prems" False w obtain out' where out: "writeAll w (drop n data) = (None, out')"
      "out = take n data @ out'"
      by (auto simp: writeAll.simps [of w data] apsnd_def map_prod_def split: prod.splits)
    from "1.IH" [OF False w [symmetric] refl ok out(1)] out(2) show ?thesis by simp
  qed
qed

lemma Encode_None:
  assumes "Encode w m = (None, out)"
  obtains p where "Marshal m = Inr p" "length p \<le> MaxFrameSize" "out = p @ [newline]"
  using assms by (auto simp: Encode_def dest: writeAll_None split: sum.splits if_splits)

lemma Decode_end:
  assumes "decoder_ok d" "failed d = None" "content (reader d) = ([], EOF)"
  shows "fst (Decode d) = Inl EndOfStream"
proof -
  let ?p = "ReadSlice (MaxFrameSize + 1) (reader d)"
  have "slice_result (MaxFrameSize + 1) [] EOF ?p"
    using assms(1,3) by (intro ReadSlice_result) (simp_all only: decoder_ok_def)
  then have "fst ?p = ([], Some (SliceError EOF))" by (auto simp: slice_result_def)
  with assms(2) show ?thesis by (simp add: Decode_def Let_def split_def)
qed

text \<open>How the decoder reports what \<^verbatim>\<open>Unmarshal\<close> says of a frame; the stream goes on after it.\<close>

definition framed :: "codec_error + Message \<Rightarrow> ipc_error + Message" where
  "framed r = (case r of Inl e \<Rightarrow> Inl (BadFrame e) | Inr m \<Rightarrow> Inr m)"

lemma decode_stream:
  assumes "list_all2 (\<lambda>m out. \<exists>w. Encode w m = (None, out)) ms outs"
    and "\<forall>m \<in> set ms. text_message m"
    and "decoder_ok d" "failed d = None" "content (reader d) = (concat outs, EOF)"
  shows "decode_calls (Suc (length ms)) d = map (framed \<circ> arrival) ms @ [Inl EndOfStream]"
  using assms
proof (induction ms outs arbitrary: d rule: list_all2_induct)
  case Nil
  then show ?case by (simp add: Decode_end)
next
  case (Cons m ms out outs)
  from Cons.hyps(1) obtain w where "Encode w m = (None, out)" by blast
  then obtain p where p: "Marshal m = Inr p" "length p \<le> MaxFrameSize" "out = p @ [newline]"
    by (rule Encode_None)
  from Cons.prems(4) p(3) have c: "content (reader d) = (p @ newline # concat outs, EOF)" by simp
  note step = Decode_frame [OF Cons.prems(2,3) c wire.one_line [OF p(1)] p(2)]
  have "frame_result p = framed (arrival m)"
    using wire.reads_back [OF p(1)] Cons.prems(1) by (simp add: frame_result_def framed_def)
  moreover have "decode_calls (Suc (length ms)) (snd (Decode d)) = map (framed \<circ> arrival) ms @ [Inl EndOfStream]"
    by (rule Cons.IH) (use Cons.prems(1) step(2-4) in simp_all)
  ultimately show ?case using step(1) by simp
qed

lemma NewDecoder_ok:
  "steady rs \<Longrightarrow> decoder_ok (NewDecoder rs)" "failed (NewDecoder rs) = None"
  "content (reader (NewDecoder rs)) = delivered rs"
  by (simp_all add: decoder_ok_def NewDecoder_def bufio_ok_def content_def apfst_def map_prod_def split_def)

section \<open>Properties\<close>

text \<open>
  C36. Messages of valid UTF-8 that an encoder has written arrive: whatever parts the writers
  took and whatever pieces a steady reader delivers (one that does not return nothing without an
  error), the decoder answers for each message in the order they were sent, with the message
  itself, or, for one with an empty list of capabilities, with a refusal after which the stream
  goes on; and then it reports the end of the stream.
\<close>

theorem frames_roundtrip:
  assumes "list_all2 (\<lambda>m out. \<exists>w. Encode w m = (None, out)) ms outs"
    and "\<forall>m \<in> set ms. \<forall>s \<in> message_strings m. utf8_valid s"
    and "steady rs" "delivered rs = (concat outs, EOF)"
  shows "decode_calls (Suc (length ms)) (NewDecoder rs) =
    map (\<lambda>m. if mCapabilities m = Some []
      then Inl (BadFrame (Invalid (RequiresField TypeHelloAck ''capabilities''))) else Inr m) ms @ [Inl EndOfStream]"
proof -
  have "framed \<circ> arrival = (\<lambda>m. if mCapabilities m = Some []
      then Inl (BadFrame (Invalid (RequiresField TypeHelloAck ''capabilities''))) else Inr m)"
    by (simp add: fun_eq_iff framed_def arrival_def)
  with decode_stream [OF assms(1), of "NewDecoder rs"] assms(2-4) show ?thesis
    by (simp add: NewDecoder_ok text_message_def)
qed

text \<open>Two messages, written byte by byte and read in two pieces cut inside the second.\<close>

definition slow_writer :: writer where
  "slow_writer data = (1, None)"

lemma writeAll_slow: "writeAll slow_writer data = (None, data)"
  by (induction data) (simp_all add: writeAll.simps slow_writer_def)

lemma Encode_slow:
  "Marshal m = Inr p \<Longrightarrow> length p \<le> MaxFrameSize \<Longrightarrow> Encode slow_writer m = (None, p @ [newline])"
  by (simp add: Encode_def writeAll_slow)

definition demo_text :: bytes where
  "demo_text = print_json (JObj [(''version'', JNum ''1''), (''type'', JStr ''HELLO'')])"

definition demo_text' :: bytes where
  "demo_text' = print_json (JObj [(''version'', JNum ''1''), (''type'', JStr ''SCAN''),
     (''request_id'', JNum ''7''), (''file_path'', JStr ''/f'')])"

lemma demo_marshal:
  "Marshal (embed Hello) = Inr demo_text" "Marshal (embed (Scan 7 ''/f'')) = Inr demo_text'"
  "length demo_text = 28" "length demo_text' = 59"
  by code_simp+

theorem frames_roundtrip_witness:
  "let out = demo_text @ [newline] @ demo_text' @ [newline]
   in decode_calls 3 (NewDecoder [(take 40 out, None), (drop 40 out, Some EOF)]) =
        [Inr (embed Hello), Inr (embed (Scan 7 ''/f'')), Inl EndOfStream]"
proof -
  let ?ms = "[embed Hello, embed (Scan 7 ''/f'')]"
  let ?outs = "[demo_text @ [newline], demo_text' @ [newline]]"
  let ?rs = "[(take 40 (concat ?outs), None), (drop 40 (concat ?outs), Some EOF)]"
  have "Encode slow_writer (embed Hello) = (None, demo_text @ [newline])"
    "Encode slow_writer (embed (Scan 7 ''/f'')) = (None, demo_text' @ [newline])"
    by (rule Encode_slow; simp add: demo_marshal del: embed.simps)+
  then have 1: "list_all2 (\<lambda>m out. \<exists>w. Encode w m = (None, out)) ?ms ?outs"
    by (auto simp del: embed.simps)
  have 2: "\<forall>m \<in> set ?ms. \<forall>s \<in> message_strings m. utf8_valid s" by code_simp
  have 3: "steady ?rs" by (simp add: steady_def demo_marshal)
  have "delivered [(take n x, None), (drop n x, Some EOF)] = (x, EOF)" for n x by simp
  then have 4: "delivered ?rs = (concat ?outs, EOF)" .
  have three: "Suc (length ?ms) = 3" by simp
  have "mCapabilities (embed Hello) = None" "mCapabilities (embed (Scan 7 ''/f'')) = None" by code_simp+
  with frames_roundtrip [OF 1 2 3 4, unfolded three] show ?thesis
    by (simp only: Let_def concat.simps append_assoc append_Nil2 append.simps list.map option.distinct if_False)
qed

text \<open>The other two outcomes of \<^verbatim>\<open>ReadSlice\<close>, and the bound on the buffer.\<close>

lemma ReadSlice_bound:
  "length (unread b) \<le> cap \<Longrightarrow> length (unread (snd (ReadSlice cap b))) \<le> cap"
proof (induction cap b rule: ReadSlice.induct)
  case (1 cap b)
  show ?case
    using "1.IH" "1.prems" fill_bound [OF "1.prems", of 100]
    by (subst ReadSlice.simps) (auto simp: Let_def split: option.split)
qed

lemma Decode_bound:
  "decoder_ok d \<Longrightarrow> length (unread (reader (snd (Decode d)))) \<le> MaxFrameSize + 1"
  using ReadSlice_bound [of "reader d" "MaxFrameSize + 1"]
  by (simp add: Decode_def decoder_ok_def bufio_ok_def Let_def split_def
      split: option.split slice_error.split read_error.split sum.split)

text \<open>
  A reader may return its error together with its last bytes. \<^verbatim>\<open>ReadSlice\<close> looks for a pending
  error before it looks for a full buffer, so this decides what it says of bytes that fill the
  buffer exactly.
\<close>

fun joined :: "reader \<Rightarrow> bool" where
  "joined [] \<longleftrightarrow> False"
| "joined ((chunk, err) # rest) \<longleftrightarrow> (case err of Some e \<Rightarrow> chunk \<noteq> [] | None \<Rightarrow> joined rest)"

definition error_joined :: "bufio \<Rightarrow> bool" where
  "error_joined b \<longleftrightarrow> pending b \<noteq> None \<or> joined (source b)"

lemma nothing_joined: "steady rs \<Longrightarrow> delivered rs = ([], e) \<Longrightarrow> \<not> joined rs"
  by (induction rs rule: delivered.induct)
    (auto simp: steady_def apfst_def map_prod_def split: option.splits prod.splits)

lemma fill_joined:
  assumes "steady (source b)" "pending b = None" "length (unread b) < cap" "length (fst (content b)) = cap"
  shows "error_joined (fill cap (Suc i) b) = error_joined b"
proof (cases "source b")
  case Nil
  with assms show ?thesis by (simp add: content_def)
next
  case (Cons p rest)
  obtain chunk err where p: "p = (chunk, err)" by (cases p)
  show ?thesis
  proof (cases "length chunk \<le> cap - length (unread b)")
    case True
    from assms(1) Cons p have "err = None \<Longrightarrow> chunk \<noteq> []" by (auto simp: steady_def)
    moreover have "err = Some e \<Longrightarrow> chunk \<noteq> []" for e
      using assms(2-4) Cons p by (auto simp: content_def)
    ultimately show ?thesis using True Cons p assms(2) by (auto simp: error_joined_def Let_def)
  next
    case False
    let ?k = "cap - length (unread b)"
    have "take ?k chunk \<noteq> []" "drop ?k chunk \<noteq> []" using False assms(3) by auto
    with False Cons p assms(2) show ?thesis by (auto simp: error_joined_def Let_def split: option.split)
  qed
qed

lemma ReadSlice_full:
  "bufio_ok cap b \<Longrightarrow> content b = (c, e) \<Longrightarrow> newline \<notin> set c \<Longrightarrow> length c = cap \<Longrightarrow>
     fst (ReadSlice cap b) = (c, Some (if error_joined b then SliceError e else BufferFull))"
proof (induction cap b rule: ReadSlice.induct)
  case (1 cap b)
  obtain r where c: "c = unread b @ r" using content_prefix [OF "1.prems"(2)] by blast
  have no: "\<not> length (takeWhile (\<lambda>c. c \<noteq> newline) (unread b)) < length (unread b)"
    using "1.prems"(3) c by (simp add: takeWhile_newline)
  show ?case
  proof (cases "pending b")
    case (Some e')
    have "ReadSlice cap b = ((unread b, Some (SliceError e')), b\<lparr>unread := [], pending := None\<rparr>)"
      using no Some by (subst ReadSlice.simps) (simp only: Let_def if_False option.case)
    with "1.prems"(2) Some show ?thesis by (simp add: content_def error_joined_def)
  next
    case None
    show ?thesis
    proof (cases "cap \<le> length (unread b)")
      case True
      have "ReadSlice cap b = ((unread b, Some BufferFull), b\<lparr>unread := []\<rparr>)"
        using no None True by (subst ReadSlice.simps) (simp only: Let_def if_False if_True option.case)
      moreover have "r = []" using True "1.prems"(4) unfolding c by (cases r) simp_all
      moreover from this have "delivered (source b) = ([], e)"
        using "1.prems"(2) c None by (cases "delivered (source b)") (simp add: content_def)
      with "1.prems"(1) have "\<not> joined (source b)" by (intro nothing_joined) (simp_all add: bufio_ok_def)
      ultimately show ?thesis using None c by (simp add: error_joined_def)
    next
      case room: False
      have eq: "ReadSlice cap b = ReadSlice cap (fill cap 100 b)"
        using no None room by (subst ReadSlice.simps) (simp only: Let_def if_False option.case)
      have ok: "steady (source b)" "length (unread b) < cap" using "1.prems"(1) room by (simp_all add: bufio_ok_def)
      note same = fill_content [OF ok(1) None ok(2), of 99] fill_joined [OF ok(1) None ok(2), of 99]
      have "content (fill cap 100 b) = (c, e)" "bufio_ok cap (fill cap 100 b)" "error_joined (fill cap 100 b) = error_joined b"
        using same "1.prems" fill_bound [of b cap 100] by (simp_all add: bufio_ok_def)
      with "1.IH" [OF refl no None room] "1.prems"(3,4) show ?thesis by (simp add: eq)
    qed
  qed
qed

lemma Decode_full:
  assumes "failed d = None" "fst (ReadSlice (MaxFrameSize + 1) (reader d)) = (pre, Some BufferFull)"
  shows "fst (Decode d) = Inl FrameTooLarge" "failed (snd (Decode d)) = Some FrameTooLarge"
  using assms by (simp_all add: Decode_def Let_def split_def)

lemma Decode_slice_error:
  assumes "failed d = None" "fst (ReadSlice (MaxFrameSize + 1) (reader d)) = (c, Some (SliceError e))"
  shows "fst (Decode d) =
      (case e of ReadError x \<Rightarrow> Inl (ReadFailed x) | EOF \<Rightarrow> Inl (if c = [] then EndOfStream else UnterminatedFrame))"
    "failed (snd (Decode d)) = (if e = EOF \<and> c \<noteq> [] then Some UnterminatedFrame else None)"
  using assms by (simp_all add: Decode_def Let_def split_def split: read_error.split)

lemma Decode_other:
  assumes "decoder_ok d" "failed d = None" "content (reader d) = (c, e)"
    "\<not> (length (takeWhile (\<lambda>x. x \<noteq> newline) c) < length c \<and>
        length (takeWhile (\<lambda>x. x \<noteq> newline) c) \<le> MaxFrameSize)"
  obtains (short) "length c \<le> MaxFrameSize + 1" "length c = MaxFrameSize + 1 \<longrightarrow> error_joined (reader d)"
      "fst (ReadSlice (MaxFrameSize + 1) (reader d)) = (c, Some (SliceError e))"
  | (full) pre where "MaxFrameSize + 1 \<le> length c" "length c = MaxFrameSize + 1 \<longrightarrow> \<not> error_joined (reader d)"
      "fst (ReadSlice (MaxFrameSize + 1) (reader d)) = (pre, Some BufferFull)"
proof -
  let ?p = "ReadSlice (MaxFrameSize + 1) (reader d)"
  have "slice_result (MaxFrameSize + 1) c e ?p"
    using assms(1,3) by (intro ReadSlice_result) (simp_all only: decoder_ok_def)
  moreover have "fst ?p = (c, Some (if error_joined (reader d) then SliceError e else BufferFull))"
    if "length c = MaxFrameSize + 1"
  proof (rule ReadSlice_full)
    show "newline \<notin> set c"
      using assms(4) that takeWhile_newline [of c] length_takeWhile_le [of "\<lambda>x. x \<noteq> newline" c] by linarith
  qed (use assms(1,3) that in \<open>simp_all only: decoder_ok_def\<close>)
  moreover have "\<not> (c = line @ newline # rest \<and> newline \<notin> set line \<and> length line < MaxFrameSize + 1)"
    for line rest
  proof
    assume a: "c = line @ newline # rest \<and> newline \<notin> set line \<and> length line < MaxFrameSize + 1"
    then have "takeWhile (\<lambda>x. x \<noteq> newline) c = line"
      by (simp add: takeWhile_tail) (metis takeWhile_eq_all_conv)
    with a assms(4) show False by simp
  qed
  ultimately show ?thesis using short full unfolding slice_result_def by (cases "length c = MaxFrameSize + 1") fastforce+
qed

text \<open>
  C37. The decoder is exact and bounded, whatever pieces a steady reader delivers. From its bytes
  it takes the first line if that has at most \<^verbatim>\<open>MaxFrameSize\<close> bytes, answers what
  \<^verbatim>\<open>Unmarshal\<close> says of it, a rejection included, and goes on behind its newline. If there is
  no such line and there are more bytes than the buffer holds, it refuses them as too large; if they
  fill the buffer exactly, it does so unless the reader's error came together with the last of
  them. Otherwise it reports the reader's error: a failed read as such, the end of the stream as
  such when nothing is left, and as an unterminated frame when something is. Every call after a frame
  that was too large or unterminated repeats that refusal; nothing else is latched. The decoder
  never holds more than \<^verbatim>\<open>MaxFrameSize + 1\<close> unread bytes.
\<close>

theorem Decode_exact:
  assumes "decoder_ok d" "failed d = None" "content (reader d) = (c, e)"
  shows "let line = takeWhile (\<lambda>x. x \<noteq> newline) c; r = fst (Decode d); d' = snd (Decode d) in
    length (unread (reader d')) \<le> MaxFrameSize + 1 \<and>
    (if length line < length c \<and> length line \<le> MaxFrameSize then
       r = frame_result line \<and> failed d' = None \<and> decoder_ok d' \<and>
       content (reader d') = (drop (Suc (length line)) c, e)
     else if length c > MaxFrameSize + 1 \<or> length c = MaxFrameSize + 1 \<and> \<not> error_joined (reader d) then
       r = Inl FrameTooLarge \<and> (\<forall>n. decode_calls n d' = replicate n (Inl FrameTooLarge))
     else
       (case e of
          ReadError x \<Rightarrow> r = Inl (ReadFailed x) \<and> failed d' = None
        | EOF \<Rightarrow>
            if c = [] then r = Inl EndOfStream \<and> failed d' = None
            else r = Inl UnterminatedFrame \<and> (\<forall>n. decode_calls n d' = replicate n (Inl UnterminatedFrame))))"
proof -
  let ?line = "takeWhile (\<lambda>x. x \<noteq> newline) c"
  let ?d' = "snd (Decode d)"
  have bound: "length (unread (reader ?d')) \<le> MaxFrameSize + 1" using assms(1) by (rule Decode_bound)
  show ?thesis
  proof (cases "length ?line < length c \<and> length ?line \<le> MaxFrameSize")
    case True
    then have "newline \<in> set c" by (simp add: takeWhile_newline)
    then obtain line rest where line: "c = line @ newline # rest" "newline \<notin> set line" "?line = line"
      by (rule split_newline)
    from True line have "length line \<le> MaxFrameSize" by simp
    from Decode_frame [OF assms(1,2) assms(3) [unfolded line(1)] line(2) this] True bound
    show ?thesis unfolding Let_def line(3) by (simp add: line(1))
  next
    case False
    with assms show ?thesis
    proof (cases rule: Decode_other)
      case short
      note step = Decode_slice_error [OF assms(2) short(3)]
      have "\<not> (length c > MaxFrameSize + 1 \<or> length c = MaxFrameSize + 1 \<and> \<not> error_joined (reader d))"
        using short(1,2) by auto
      then show ?thesis
        unfolding Let_def if_not_P [OF False] step
        using bound step(2) decode_calls_failed [of ?d' UnterminatedFrame]
        by (simp split: read_error.split)
    next
      case (full pre)
      note step = Decode_full [OF assms(2) full(3)]
      have "length c > MaxFrameSize + 1 \<or> length c = MaxFrameSize + 1 \<and> \<not> error_joined (reader d)"
        using full(1,2) by linarith
      then show ?thesis
        unfolding Let_def if_not_P [OF False] step(1)
        using bound decode_calls_failed [OF step(2)] by simp
    qed
  qed
qed

text \<open>A line cut in two that is not JSON.\<close>

theorem Decode_exact_witness:
  "let d = NewDecoder [(''x'', None), ([newline, CHR ''y''], Some EOF)] in
     fst (Decode d) = Inl (BadFrame DecodeFailed) \<and> content (reader (snd (Decode d))) = (''y'', EOF)"
proof -
  let ?rs = "[(''x'', None), ([newline, CHR ''y''], Some EOF)]"
  have "steady ?rs" by (simp add: steady_def)
  note new = NewDecoder_ok(1) [OF this]
  have "content (reader (NewDecoder ?rs)) = (''x'' @ newline # ''y'', EOF)"
    by (simp add: NewDecoder_ok(3))
  note exact = Decode_exact [OF new NewDecoder_ok(2) this]
  have "frame_result ''x'' = Inl (BadFrame DecodeFailed)" by code_simp
  with exact show ?thesis by (simp add: Let_def)
qed

end
