(* ===== verification/Transport.thy ===== *)
theory Transport
  imports Wire
begin

text \<open>
  The gRPC form of a message, \<^verbatim>\<open>src/pkg/workertransport/protobuf.go\<close>: the generated
  struct with 32-bit version and signature count, pointers for the optional fields and a
  verdict enumeration, the two conversions, and the presence rules of the reader. Both forms
  of the protocol carry the same messages (\<open>transports_agree\<close>).
\<close>

section \<open>The protobuf struct\<close>

text \<open>
  An enumeration value is a 32-bit number, also outside the declared ones. A repeated field
  is a list: an absent one and an empty one do not differ.
\<close>

abbreviation "VERDICT_UNSPECIFIED \<equiv> 0 :: i32"
abbreviation "VERDICT_CLEAN \<equiv> 1 :: i32"
abbreviation "VERDICT_MALWARE \<equiv> 2 :: i32"
abbreviation "VERDICT_ERROR \<equiv> 3 :: i32"
abbreviation "VERDICT_TIMEOUT \<equiv> 4 :: i32"
abbreviation "VERDICT_UNAVAILABLE \<equiv> 5 :: i32"

record protoMessage =
  pVersion :: i32
  pType :: string
  pRequestId :: u64
  pScannerId :: string
  pWorkerVersion :: string
  pCapabilities :: "string list"
  pFilePath :: string
  pSignaturePath :: string
  pStatus :: string
  pVerdict :: i32
  pSignature :: string
  pDurationMs :: "i64 option"
  pSuccess :: "bool option"
  pSignatureCount :: "i32 option"
  pError :: string

datatype transport_error =
    Rejected protocol_error
  | CountTooLarge
  | NilMessage
  | MissingField string
  | MisplacedField string string
  | UnknownVerdict i32

definition verdictToProto :: "Verdict \<Rightarrow> i32" where
  "verdictToProto v =
     (if v = VerdictClean then VERDICT_CLEAN
      else if v = VerdictMalware then VERDICT_MALWARE
      else if v = VerdictError then VERDICT_ERROR
      else if v = VerdictTimeout then VERDICT_TIMEOUT
      else if v = VerdictUnavailable then VERDICT_UNAVAILABLE
      else VERDICT_UNSPECIFIED)"

definition verdictFromProto :: "i32 \<Rightarrow> transport_error + Verdict" where
  "verdictFromProto v =
     (if v = VERDICT_UNSPECIFIED then Inr ''''
      else if v = VERDICT_CLEAN then Inr VerdictClean
      else if v = VERDICT_MALWARE then Inr VerdictMalware
      else if v = VERDICT_ERROR then Inr VerdictError
      else if v = VERDICT_TIMEOUT then Inr VerdictTimeout
      else if v = VERDICT_UNAVAILABLE then Inr VerdictUnavailable
      else Inl (UnknownVerdict v))"

section \<open>Writing\<close>

text \<open>\<^verbatim>\<open>append([]string(nil), list...)\<close> copies a list; a copy of an empty one is \<^verbatim>\<open>nil\<close>.\<close>

definition copy_slice :: "string list \<Rightarrow> string list option" where
  "copy_slice cs = (if cs = [] then None else Some cs)"

definition ToProto :: "Message \<Rightarrow> transport_error + protoMessage" where
  "ToProto m =
     (case Validate m of Some e \<Rightarrow> Inl (Rejected e) | None \<Rightarrow>
      let payload = \<lparr>pVersion = scast (mVersion m), pType = mType m, pRequestId = mRequestID m,
            pScannerId = mScannerID m, pWorkerVersion = mWorkerVersion m,
            pCapabilities = (case mCapabilities m of None \<Rightarrow> [] | Some cs \<Rightarrow> cs),
            pFilePath = mFilePath m, pSignaturePath = mSignaturePath m, pStatus = mStatus m,
            pVerdict = verdictToProto (mVerdict m), pSignature = mSignature m,
            pDurationMs = None, pSuccess = None, pSignatureCount = None, pError = mError m\<rparr>;
          payload = (if mType m = TypeScanResult then payload\<lparr>pDurationMs := Some (mDurationMs m)\<rparr>
                     else payload)
      in if mType m = TypeReloadResult then
           (if sint (mSignatureCount m) > 2 ^ 31 - 1 then Inl CountTooLarge
            else Inr (payload\<lparr>pSuccess := Some (mSuccess m),
                   pSignatureCount := (if mSuccess m \<or> mSignatureCount m \<noteq> 0
                                       then Some (scast (mSignatureCount m)) else None)\<rparr>))
         else Inr payload)"

section \<open>Reading\<close>

definition validateProtoPresence :: "protoMessage \<Rightarrow> transport_error option" where
  "validateProtoPresence p =
     (if pType p = TypeScanResult \<and> pDurationMs p = None then Some (MissingField ''duration_ms'')
      else if pType p = TypeReloadResult \<and> pSuccess p = None then Some (MissingField ''success'')
      else if pType p = TypeReloadResult \<and> pSuccess p = Some True \<and> pSignatureCount p = None then
        Some (MissingField ''signature_count'')
      else if pType p \<noteq> TypeScanResult \<and> pDurationMs p \<noteq> None then
        Some (MisplacedField (pType p) ''duration_ms'')
      else if pType p \<noteq> TypeReloadResult \<and> (pSuccess p \<noteq> None \<or> pSignatureCount p \<noteq> None) then
        Some (MisplacedField (pType p) ''reload result fields'')
      else None)"

definition protoFields :: "protoMessage \<Rightarrow> Verdict \<Rightarrow> Message" where
  "protoFields p verdict =
     \<lparr>mVersion = scast (pVersion p), mType = pType p, mRequestID = pRequestId p,
      mScannerID = pScannerId p, mWorkerVersion = pWorkerVersion p,
      mCapabilities = copy_slice (pCapabilities p), mFilePath = pFilePath p,
      mSignaturePath = pSignaturePath p, mStatus = pStatus p, mVerdict = verdict,
      mSignature = pSignature p,
      mDurationMs = (case pDurationMs p of Some d \<Rightarrow> d | None \<Rightarrow> 0),
      mSuccess = (case pSuccess p of Some b \<Rightarrow> b | None \<Rightarrow> False),
      mSignatureCount = (case pSignatureCount p of Some n \<Rightarrow> scast n | None \<Rightarrow> 0),
      mError = pError p\<rparr>"

definition FromProto :: "protoMessage option \<Rightarrow> transport_error + Message" where
  "FromProto payload =
     (case payload of None \<Rightarrow> Inl NilMessage | Some p \<Rightarrow>
      (case validateProtoPresence p of Some e \<Rightarrow> Inl e | None \<Rightarrow>
       (case verdictFromProto (pVerdict p) of Inl e \<Rightarrow> Inl e | Inr v \<Rightarrow>
        (case Validate (protoFields p v) of
           Some e \<Rightarrow> Inl (Rejected e)
         | None \<Rightarrow> Inr (protoFields p v)))))"

section \<open>Lemmas\<close>

lemma scast_count:
  assumes "0 \<le> sint (n :: i64)" "sint n \<le> 2 ^ 31 - 1"
  shows "scast (scast n :: i32) = n"
proof -
  have small: "signed_take_bit 31 (sint n) = sint n"
    using assms by (intro signed_take_bit_int_eq_self) simp_all
  have "sint (scast n :: i32) = sint (word_of_int (sint n) :: i32)" by (simp only: scast_eq)
  also have "\<dots> = signed_take_bit 31 (sint n)" by (simp only: sint_sbintrunc') simp
  finally have "sint (scast n :: i32) = sint n" by (simp only: small)
  then have "scast (scast n :: i32) = (word_of_int (sint n) :: i64)" by (simp only: scast_eq)
  then show ?thesis by simp
qed

lemma verdict_roundtrip: "validVerdict v \<or> v = '''' \<Longrightarrow> verdictFromProto (verdictToProto v) = Inr v"
  by (auto simp: validVerdict_def verdictToProto_def verdictFromProto_def)

text \<open>What validation says of the fields that the two forms write differently.\<close>

lemma valid_fields:
  assumes "Validate m = None"
  shows "mVersion m = 1" "validVerdict (mVerdict m) \<or> mVerdict m = ''''"
    "mType m \<noteq> TypeScanResult \<Longrightarrow> mDurationMs m = 0"
    "mType m \<noteq> TypeReloadResult \<Longrightarrow> \<not> mSuccess m \<and> mSignatureCount m = 0"
    "mType m = TypeReloadResult \<Longrightarrow> 0 \<le> sint (mSignatureCount m)"
proof -
  from assms obtain f where "well_formed f" "m = embed f" by (rule valid_formE)
  then show "mVersion m = 1" "validVerdict (mVerdict m) \<or> mVerdict m = ''''"
    "mType m \<noteq> TypeScanResult \<Longrightarrow> mDurationMs m = 0"
    "mType m \<noteq> TypeReloadResult \<Longrightarrow> \<not> mSuccess m \<and> mSignatureCount m = 0"
    "mType m = TypeReloadResult \<Longrightarrow> 0 \<le> sint (mSignatureCount m)"
    by (cases f; simp add: emptyMessage_def)+
qed

definition copied :: "Message \<Rightarrow> Message" where
  "copied m = m\<lparr>mCapabilities :=
     copy_slice (case mCapabilities m of None \<Rightarrow> [] | Some cs \<Rightarrow> cs)\<rparr>"

text \<open>A signature count that fits into 32 bits; only the result of a reload carries one.\<close>

definition count_fits :: "Message \<Rightarrow> bool" where
  "count_fits m \<longleftrightarrow> mType m = TypeReloadResult \<longrightarrow> sint (mSignatureCount m) \<le> 2 ^ 31 - 1"

definition proto_of :: "Message \<Rightarrow> protoMessage" where
  "proto_of m = \<lparr>pVersion = scast (mVersion m), pType = mType m, pRequestId = mRequestID m,
     pScannerId = mScannerID m, pWorkerVersion = mWorkerVersion m,
     pCapabilities = (case mCapabilities m of None \<Rightarrow> [] | Some cs \<Rightarrow> cs),
     pFilePath = mFilePath m, pSignaturePath = mSignaturePath m, pStatus = mStatus m,
     pVerdict = verdictToProto (mVerdict m), pSignature = mSignature m,
     pDurationMs = (if mType m = TypeScanResult then Some (mDurationMs m) else None),
     pSuccess = (if mType m = TypeReloadResult then Some (mSuccess m) else None),
     pSignatureCount = (if mType m = TypeReloadResult \<and> (mSuccess m \<or> mSignatureCount m \<noteq> 0)
                        then Some (scast (mSignatureCount m)) else None),
     pError = mError m\<rparr>"

lemma ToProto_cases:
  "ToProto m = (case Validate m of Some e \<Rightarrow> Inl (Rejected e) | None \<Rightarrow>
     if \<not> count_fits m then Inl CountTooLarge else Inr (proto_of m))"
  by (simp add: ToProto_def Let_def count_fits_def proto_of_def split: option.split)

lemma FromProto_proto_of:
  assumes "Validate m = None" "count_fits m"
  shows "FromProto (Some (proto_of m)) =
    (case Validate (copied m) of Some e \<Rightarrow> Inl (Rejected e) | None \<Rightarrow> Inr (copied m))"
proof -
  note valid = valid_fields [OF assms(1)]
  have count: "scast (scast (mSignatureCount m) :: i32) = mSignatureCount m"
    if "mType m = TypeReloadResult"
    using that valid(5) assms(2) by (intro scast_count) (simp_all add: count_fits_def)
  have verdict: "verdictFromProto (pVerdict (proto_of m)) = Inr (mVerdict m)"
    using valid(2) by (simp only: proto_of_def protoMessage.select_convs) (rule verdict_roundtrip)
  have presence: "validateProtoPresence (proto_of m) = None"
    by (simp add: validateProtoPresence_def proto_of_def)
  have one: "scast (scast (mVersion m) :: i32) = mVersion m" using valid(1) by simp
  have "protoFields (proto_of m) (mVerdict m) = copied m"
  proof (cases "mType m = TypeReloadResult")
    case True
    with valid(3) count one show ?thesis
      by (simp add: protoFields_def proto_of_def copied_def)
  next
    case False
    with valid(3,4) one show ?thesis
      by (simp add: protoFields_def proto_of_def copied_def)
  qed
  with verdict presence show ?thesis by (simp add: FromProto_def split: option.split)
qed

lemma copied_id: "mCapabilities m \<noteq> Some [] \<Longrightarrow> copied m = m"
  by (cases m) (auto simp: copied_def copy_slice_def split: option.split)

lemma Validate_copied:
  assumes "Validate m = None" "mCapabilities m = Some []"
  shows "Validate (copied m) = Some (RequiresField TypeHelloAck ''capabilities'')"
proof -
  from assms(1) obtain f where f: "well_formed f" "m = embed f" by (rule valid_formE)
  with assms(2) obtain sc ver where "f = HelloAck sc ver []"
    by (cases f) (auto simp: emptyMessage_def)
  with f show ?thesis by (simp add: copied_def copy_slice_def emptyMessage_def Validate_def)
qed

lemma ToProto_FromProto:
  assumes "ToProto m = Inr p"
  shows "FromProto (Some p) =
    (if mCapabilities m = Some [] then Inl (Rejected (RequiresField TypeHelloAck ''capabilities''))
     else Inr m)"
proof -
  from assms have p: "p = proto_of m" "Validate m = None" "count_fits m"
    by (auto simp: ToProto_cases split: option.splits if_splits)
  with FromProto_proto_of [OF p(2,3)] show ?thesis by (simp add: copied_id Validate_copied)
qed

section \<open>Properties\<close>

text \<open>
  C38. Round trip through protobuf: \<^verbatim>\<open>ToProto\<close> accepts exactly the valid messages whose
  signature count fits into 32 bits, and \<^verbatim>\<open>FromProto\<close> gives the same message back, no
  number cut off. As in the JSON form, a valid HELLO_ACK with an empty list of capabilities
  is written and then rejected by the reader.
\<close>

theorem ToProto_roundtrip:
  "if Validate m = None \<and> count_fits m
   then \<exists>p. ToProto m = Inr p \<and> FromProto (Some p) =
     (if mCapabilities m = Some [] then Inl (Rejected (RequiresField TypeHelloAck ''capabilities''))
      else Inr m)
   else \<exists>e. ToProto m = Inl e"
proof (cases "Validate m = None \<and> count_fits m")
  case True
  then have "ToProto m = Inr (proto_of m)" by (simp add: ToProto_cases)
  with True ToProto_FromProto [OF this] show ?thesis by simp
next
  case False
  then show ?thesis by (auto simp: ToProto_cases split: option.split)
qed

text \<open>
  The transports agree: a valid message of valid UTF-8 (whose signature count fits into
  32 bits) arrives the same through the JSON text and through protobuf: as itself on both,
  or, if it carries an empty list of capabilities, rejected on both for the same reason.
\<close>

theorem transports_agree:
  assumes "Validate m = None" "count_fits m" "\<forall>s \<in> message_strings m. utf8_valid s"
  shows "\<exists>d p. Marshal m = Inr d \<and> ToProto m = Inr p \<and>
    (if mCapabilities m = Some []
     then \<exists>e. Unmarshal d = Inl (Invalid e) \<and> FromProto (Some p) = Inl (Rejected e)
     else Unmarshal d = Inr m \<and> FromProto (Some p) = Inr m)"
proof -
  obtain d where d: "Marshal m = Inr d" using assms(1) by (simp add: Marshal_def encode_wire_def)
  have "ToProto m = Inr (proto_of m)" using assms(1,2) by (simp add: ToProto_cases)
  with d Marshal_Unmarshal [OF d assms(3)] ToProto_FromProto [OF this] show ?thesis by simp
qed

theorem transports_agree_witness:
  "\<exists>d p. Marshal (embed (ReloadResult True 12 '''')) = Inr d \<and>
     ToProto (embed (ReloadResult True 12 '''')) = Inr p \<and>
     Unmarshal d = Inr (embed (ReloadResult True 12 '''')) \<and>
     FromProto (Some p) = Inr (embed (ReloadResult True 12 ''''))"
proof -
  let ?m = "embed (ReloadResult True 12 '''')"
  have 1: "Validate ?m = None" by (rule Validate_embed) simp
  have 2: "count_fits ?m" by (simp add: count_fits_def emptyMessage_def)
  have 3: "\<forall>s \<in> message_strings ?m. utf8_valid s" by code_simp
  have "mCapabilities ?m \<noteq> Some []" by (simp add: emptyMessage_def)
  with transports_agree [OF 1 2 3] show ?thesis by (simp del: embed.simps)
qed

end
