(* ===== verification/Session.thy ===== *)
theory Session
  imports Protocol Signatures Lifecycle
begin

text \<open>
  The worker process, \<^verbatim>\<open>src/pkg/worker/worker.go\<close>: \<^verbatim>\<open>RunSession\<close> answers the
  core's messages one after the other and scans in goroutines of their own. A state is the
  signature store, the scans that are running, and where the main loop is; a step is one
  message received, one move of a scan, or the end of the wait for the scans. The file
  system, the clock, the receive function and the results of the send function are the
  environment's: they come with the step. Error texts are rendered by \<^verbatim>\<open>fmt\<close>, a
  parameter \<open>txt\<close>.
\<close>

section \<open>Configuration\<close>

record session_config =
  scScannerID :: string
  scWorkerVersion :: string
  scSignaturePath :: string
  scDelay :: int
  scCrashOnScan :: bool
  scFailHealth :: bool

datatype config_error = NoScannerID | NoWorkerVersion | NoSignaturePath | NegativeDelay

definition validateConfig :: "session_config \<Rightarrow> config_error option" where
  "validateConfig c =
     (if blank (scScannerID c) then Some NoScannerID
      else if blank (scWorkerVersion c) then Some NoWorkerVersion
      else if blank (scSignaturePath c) then Some NoSignaturePath
      else if scDelay c < 0 then Some NegativeDelay
      else None)"

section \<open>One scan\<close>

text \<open>What \<^verbatim>\<open>os.Open\<close>, \<^verbatim>\<open>Stat\<close> (whether the file is regular), the reads and
  \<^verbatim>\<open>Close\<close> say of the scanned file.\<close>

datatype scan_file =
    OpenError string
  | OpenFile "string + bool" reader "string option"

datatype scan_error =
    OpenFailed string
  | FileStatFailed string
  | FileNotRegular string
  | StoreFailed store_error
  | ContentReadFailed string
  | ContentNoProgress
  | CloseFailed string
  | ReloadError load_error

type_synonym texts = "scan_error \<Rightarrow> string"

text \<open>The verdict, the signature and the error after \<^verbatim>\<open>store.Match\<close>.\<close>

definition match_file :: "Store \<Rightarrow> reader \<Rightarrow> Verdict \<times> string \<times> scan_error option" where
  "match_file store content =
     (case Match store (Some content) of
        Inl e \<Rightarrow> (VerdictClean, '''', Some (StoreFailed e))
      | Inr (Found p) \<Rightarrow> (VerdictMalware, p, None)
      | Inr NotFound \<Rightarrow> (VerdictClean, '''', None)
      | Inr (MatchFailed e) \<Rightarrow> (VerdictClean, '''', Some (ContentReadFailed e))
      | Inr NoProgress \<Rightarrow> (VerdictClean, '''', Some ContentNoProgress))"

text \<open>The verdict, the signature and the error after the file has been closed.\<close>

definition scan_content :: "Store \<Rightarrow> scan_file \<Rightarrow> Message \<Rightarrow> Verdict \<times> string \<times> scan_error option" where
  "scan_content st f m =
     (case f of
        OpenError e \<Rightarrow> ('''', '''', Some (OpenFailed e))
      | OpenFile stat content closing \<Rightarrow>
          let (v, sg, err) =
            (case stat of
               Inl e \<Rightarrow> ('''', '''', Some (FileStatFailed e))
             | Inr regular \<Rightarrow>
                 if regular then match_file st content
                 else ('''', '''', Some (FileNotRegular (mFilePath m))))
          in (v, sg, if err = None then map_option CloseFailed closing else err))"

definition handleScan :: "texts \<Rightarrow> Store \<Rightarrow> scan_file \<Rightarrow> i64 \<Rightarrow> Message \<Rightarrow> Message" where
  "handleScan txt st f duration m =
     (let (verdict, signature, err) = scan_content st f m;
        response = emptyMessage\<lparr>mVersion := ProtocolVersion, mType := TypeScanResult,
          mRequestID := mRequestID m, mVerdict := verdict, mSignature := signature\<rparr>
      in (case err of
            None \<Rightarrow> response
          | Some e \<Rightarrow> response\<lparr>mVerdict := VerdictError, mSignature := '''', mError := txt e\<rparr>)
         \<lparr>mDurationMs := duration\<rparr>)"

section \<open>The session\<close>

datatype session_error =
    BadConfig config_error
  | NoStore load_error
  | ContextDone string
  | ReceiveFailed string
  | SendFailed string
  | CrashReturned
  | UnexpectedType string

text \<open>What the main loop does once the running scans are done.\<close>

datatype final = Acknowledge | Return "session_error option"

datatype phase = Receiving | Waiting final | Stopped "session_error option" | Crashed

text \<open>
  A running scan is its message and, once it has matched, its answer. \<^term>\<open>emitted\<close> are
  the messages that \<^verbatim>\<open>send\<close> took; \<^term>\<open>accepted\<close> and \<^term>\<open>finished\<close> are the
  scans that were started and those that have returned, with what \<^verbatim>\<open>send\<close> said.
\<close>

record session =
  store :: Store
  running :: "(Message \<times> Message option) list"
  phase :: phase
  emitted :: "Message list"
  accepted :: "Message list"
  finished :: "(Message \<times> Message \<times> string option) list"

definition startSession :: "session_config \<Rightarrow> files \<Rightarrow> session_error + session" where
  "startSession c fs =
     (case validateConfig c of Some e \<Rightarrow> Inl (BadConfig e) | None \<Rightarrow>
      (case NewStore fs (scSignaturePath c) of Inl e \<Rightarrow> Inl (NoStore e) | Inr st \<Rightarrow>
       Inr \<lparr>store = st, running = [], phase = Receiving, emitted = [], accepted = [], finished = []\<rparr>))"

datatype received = Got Message | ReceivedEOF | ReceiveError string

text \<open>The main loop writes a reply; if that fails it waits for the scans and returns.\<close>

definition write_reply :: "Message \<Rightarrow> string option \<Rightarrow> session \<Rightarrow> session" where
  "write_reply m err s =
     (case err of
        None \<Rightarrow> s\<lparr>emitted := emitted s @ [m]\<rparr>
      | Some e \<Rightarrow> s\<lparr>phase := Waiting (Return (Some (SendFailed e)))\<rparr>)"

definition helloReplyMessage :: "session_config \<Rightarrow> Message" where
  "helloReplyMessage c = emptyMessage\<lparr>mVersion := ProtocolVersion, mType := TypeHelloAck,
     mScannerID := scScannerID c, mWorkerVersion := scWorkerVersion c,
     mCapabilities := Some [''file_scan'', ''reload'']\<rparr>"

definition healthReplyMessage :: "session_config \<Rightarrow> Message" where
  "healthReplyMessage c = emptyMessage\<lparr>mVersion := ProtocolVersion, mType := TypeHealthResult,
     mStatus := (if scFailHealth c then ''error'' else ''ok''),
     mError := (if scFailHealth c then ''health check failed by fault injection'' else '''')\<rparr>"

definition reloadReplyMessage :: "texts \<Rightarrow> load_error option \<Rightarrow> nat \<Rightarrow> Message" where
  "reloadReplyMessage txt err n = emptyMessage\<lparr>mVersion := ProtocolVersion,
     mType := TypeReloadResult, mSuccess := (err = None), mSignatureCount := of_nat n,
     mError := (case err of None \<Rightarrow> '''' | Some e \<Rightarrow> txt (ReloadError e))\<rparr>"

text \<open>
  One turn of the loop with the result of \<^verbatim>\<open>receive\<close> and, for a reply, of
  \<^verbatim>\<open>send\<close>. The injected crash exits the process unless a test has replaced it.
\<close>

definition receive_turn ::
  "session_config \<Rightarrow> texts \<Rightarrow> bool \<Rightarrow> files \<Rightarrow> received \<Rightarrow> string option \<Rightarrow> session \<Rightarrow> session" where
  "receive_turn c txt exits fs r err s =
     (case r of
        ReceivedEOF \<Rightarrow> s\<lparr>phase := Waiting (Return None)\<rparr>
      | ReceiveError e \<Rightarrow> s\<lparr>phase := Waiting (Return (Some (ReceiveFailed e)))\<rparr>
      | Got m \<Rightarrow>
          if mType m = TypeHello then write_reply (helloReplyMessage c) err s
          else if mType m = TypeHealthCheck then write_reply (healthReplyMessage c) err s
          else if mType m = TypeScan then
            if scCrashOnScan c then
              s\<lparr>phase := (if exits then Crashed else Stopped (Some CrashReturned))\<rparr>
            else s\<lparr>running := running s @ [(m, None)], accepted := accepted s @ [m]\<rparr>
          else if mType m = TypeReload then
            let ((failure, n), st) = Reload fs (store s) (mSignaturePath m)
            in write_reply (reloadReplyMessage txt failure n) err (s\<lparr>store := st\<rparr>)
          else if mType m = TypeShutdown then s\<lparr>phase := Waiting Acknowledge\<rparr>
          else s\<lparr>phase := Waiting (Return (Some (UnexpectedType (mType m))))\<rparr>)"

text \<open>A scan matches against the store as it is then, and later sends its answer.\<close>

definition scan_matches :: "texts \<Rightarrow> nat \<Rightarrow> scan_file \<Rightarrow> i64 \<Rightarrow> session \<Rightarrow> session" where
  "scan_matches txt i f duration s =
     (let m = fst (running s ! i)
      in s\<lparr>running := (running s)[i := (m, Some (handleScan txt (store s) f duration m))]\<rparr>)"

definition scan_answers :: "nat \<Rightarrow> Message \<Rightarrow> string option \<Rightarrow> session \<Rightarrow> session" where
  "scan_answers i a err s =
     s\<lparr>running := take i (running s) @ drop (Suc i) (running s),
       emitted := (if err = None then emitted s @ [a] else emitted s),
       finished := finished s @ [(fst (running s ! i), a, err)]\<rparr>"

definition after_wait :: "final \<Rightarrow> string option \<Rightarrow> session \<Rightarrow> session" where
  "after_wait f err s =
     (case f of
        Return e \<Rightarrow> s\<lparr>phase := Stopped e\<rparr>
      | Acknowledge \<Rightarrow>
          (let ack = emptyMessage\<lparr>mVersion := ProtocolVersion, mType := TypeShutdownAck\<rparr>
           in s\<lparr>phase := Stopped (map_option SendFailed err),
                emitted := (if err = None then emitted s @ [ack] else emitted s)\<rparr>))"

datatype session_label =
    Cancelled string
  | Received received "string option"
  | Matched nat scan_file i64
  | Answered nat "string option"
  | Waited "string option"

text \<open>The number of patterns of a database is the length of a Go slice.\<close>

definition countable_files :: "files \<Rightarrow> bool" where
  "countable_files fs \<longleftrightarrow> (\<forall>path db. load fs path = Inr db \<longrightarrow> length (patternSet db) < 2 ^ 63)"

inductive session_trans :: "session_config \<Rightarrow> texts \<Rightarrow> session \<Rightarrow> session_label \<Rightarrow> session \<Rightarrow> bool"
  for c :: session_config and render :: texts where
  context_done: "phase s = Receiving \<Longrightarrow> t = s\<lparr>phase := Waiting (Return (Some (ContextDone e)))\<rparr> \<Longrightarrow>
    session_trans c render s (Cancelled e) t"
| receive: "phase s = Receiving \<Longrightarrow> (\<forall>m. r = Got m \<longrightarrow> Validate m = None) \<Longrightarrow>
    countable_files fs \<Longrightarrow> t = receive_turn c render exits fs r err s \<Longrightarrow>
    session_trans c render s (Received r err) t"
| matches: "phase s \<noteq> Crashed \<Longrightarrow> i < length (running s) \<Longrightarrow> running s ! i = (m, None) \<Longrightarrow>
    0 \<le> sint d \<Longrightarrow> t = scan_matches render i f d s \<Longrightarrow> session_trans c render s (Matched i f d) t"
| answers: "phase s \<noteq> Crashed \<Longrightarrow> i < length (running s) \<Longrightarrow> running s ! i = (m, Some a) \<Longrightarrow>
    t = scan_answers i a err s \<Longrightarrow> session_trans c render s (Answered i err) t"
| waited: "phase s = Waiting f \<Longrightarrow> running s = [] \<Longrightarrow> t = after_wait f err s \<Longrightarrow>
    session_trans c render s (Waited err) t"

definition session_init :: "session_config \<Rightarrow> session \<Rightarrow> bool" where
  "session_init c s \<longleftrightarrow> (\<exists>fs. startSession c fs = Inr s)"

section \<open>The answer to a scan\<close>

definition answer_ok :: "Message \<Rightarrow> Message \<Rightarrow> bool" where
  "answer_ok m a \<longleftrightarrow> Validate a = None \<and> mType a = TypeScanResult \<and> mRequestID a = mRequestID m"

lemma scan_content_verdict:
  "scan_content st f m = (v, sg, None) \<Longrightarrow> v = VerdictMalware \<or> v = VerdictClean"
  by (cases f)
    (auto simp: scan_content_def match_file_def split: sum.splits if_splits match_result.splits prod.splits)

lemma handleScan_form:
  "\<exists>v sg e. handleScan txt st f d m = embed (ScanResult (mRequestID m) v sg d e) \<and>
     (v = VerdictMalware \<or> v = VerdictClean \<or> v = VerdictError)"
proof -
  obtain v sg err where p: "scan_content st f m = (v, sg, err)" by (rule prod_cases3)
  show ?thesis
  proof (cases err)
    case None
    with p scan_content_verdict have "v = VerdictMalware \<or> v = VerdictClean" by simp
    moreover from p None have "handleScan txt st f d m = embed (ScanResult (mRequestID m) v sg d '''')"
      by (simp add: handleScan_def emptyMessage_def)
    ultimately show ?thesis by blast
  next
    case (Some e)
    with p have "handleScan txt st f d m = embed (ScanResult (mRequestID m) VerdictError '''' d (txt e))"
      by (simp add: handleScan_def emptyMessage_def)
    then show ?thesis by blast
  qed
qed

lemma handleScan_ok:
  assumes "Validate m = None" "mType m = TypeScan" "0 \<le> sint d"
  shows "answer_ok m (handleScan txt st f d m)"
proof -
  from assms(1) obtain g where "well_formed g" "m = embed g" by (rule valid_formE)
  with assms(2) have id: "mRequestID m \<noteq> 0" by (cases g) (simp_all add: emptyMessage_def)
  obtain v sg e where a: "handleScan txt st f d m = embed (ScanResult (mRequestID m) v sg d e)"
    "v = VerdictMalware \<or> v = VerdictClean \<or> v = VerdictError"
    using handleScan_form [of "txt" st f d m] by auto
  from a(2) id assms(3) have "well_formed (ScanResult (mRequestID m) v sg d e)"
    by (auto simp: validVerdict_def)
  then have "Validate (embed (ScanResult (mRequestID m) v sg d e)) = None" by (rule Validate_embed)
  then show ?thesis by (simp add: answer_ok_def a(1) emptyMessage_def)
qed

section \<open>The invariant of a session\<close>

definition shutdownAckMessage :: Message where
  "shutdownAckMessage = embed ShutdownAck"

definition worker_message :: "Message \<Rightarrow> bool" where
  "worker_message m \<longleftrightarrow> Validate m = None \<and>
     mType m \<in> {TypeHelloAck, TypeHealthResult, TypeScanResult, TypeReloadResult, TypeShutdownAck}"

definition session_inv :: "session \<Rightarrow> bool" where
  "session_inv s \<longleftrightarrow>
     mset (accepted s) = mset (map fst (running s)) + mset (map fst (finished s)) \<and>
     (\<forall>m \<in> set (accepted s). Validate m = None \<and> mType m = TypeScan) \<and>
     (\<forall>(m, a) \<in> set (running s). \<forall>b. a = Some b \<longrightarrow> answer_ok m b) \<and>
     (\<forall>(m, a, err) \<in> set (finished s). answer_ok m a \<and> (err = None \<longrightarrow> a \<in> set (emitted s))) \<and>
     (\<forall>m \<in> set (emitted s). worker_message m) \<and>
     (\<forall>es es' m. emitted s = es @ m # es' \<longrightarrow> mType m = TypeShutdownAck \<longrightarrow>
        es' = [] \<and> running s = [] \<and> phase s = Stopped None)"

lemma session_invD:
  assumes "session_inv s"
  shows "mset (accepted s) = mset (map fst (running s)) + mset (map fst (finished s))"
    "m \<in> set (accepted s) \<Longrightarrow> Validate m = None \<and> mType m = TypeScan"
    "(m, Some b) \<in> set (running s) \<Longrightarrow> answer_ok m b"
    "(m, a, err) \<in> set (finished s) \<Longrightarrow> answer_ok m a \<and> (err = None \<longrightarrow> a \<in> set (emitted s))"
    "m \<in> set (emitted s) \<Longrightarrow> worker_message m"
    "emitted s = es @ m # es' \<Longrightarrow> mType m = TypeShutdownAck \<Longrightarrow>
       es' = [] \<and> running s = [] \<and> phase s = Stopped None"
  using assms unfolding session_inv_def by (blast, blast, fastforce, fastforce, blast, blast)

text \<open>While the session is not over, no acknowledgement has been sent.\<close>

lemma no_ack:
  assumes "session_inv s" "phase s \<noteq> Stopped None \<or> running s \<noteq> []" "m \<in> set (emitted s)"
  shows "mType m \<noteq> TypeShutdownAck"
  using assms(2,3) session_invD(6) [OF assms(1)] by (metis split_list)

text \<open>Steps that leave the scans alone and emit at most one message.\<close>

lemma session_inv_emit:
  assumes "session_inv s" "phase s \<noteq> Stopped None \<or> running s \<noteq> []" "worker_message m"
    "mType m = TypeShutdownAck \<longrightarrow> running s = [] \<and> p = Stopped None"
  shows "session_inv (s\<lparr>store := st, phase := p, emitted := emitted s @ [m]\<rparr>)"
proof -
  have "es' = [] \<and> running s = [] \<and> p = Stopped None"
    if split: "emitted s @ [m] = es @ m' # es'" and ack: "mType m' = TypeShutdownAck" for es m' es'
  proof (cases es' rule: rev_cases)
    case Nil
    with split ack assms(4) show ?thesis by simp
  next
    case (snoc xs x)
    with split have "m' \<in> set (emitted s)" by simp
    with no_ack [OF assms(1,2)] ack show ?thesis by blast
  qed
  moreover have "\<forall>(m', a, err) \<in> set (finished s). answer_ok m' a \<and> (err = None \<longrightarrow> a \<in> set (emitted s @ [m]))"
    using session_invD(4) [OF assms(1)] by fastforce
  ultimately show ?thesis
    using assms(1,3) unfolding session_inv_def by simp
qed

lemma session_inv_phase:
  assumes "session_inv s" "phase s \<noteq> Stopped None \<or> running s \<noteq> []"
  shows "session_inv (s\<lparr>store := st, phase := p\<rparr>)"
proof -
  have "mType m' \<noteq> TypeShutdownAck" if "emitted s = es @ m' # es'" for es m' es'
    using no_ack [OF assms, of m'] that by simp
  then show ?thesis using assms(1) unfolding session_inv_def by (simp add: split_def)
qed

section \<open>Every step preserves the invariant\<close>

lemma hello_worker: "validateConfig c = None \<Longrightarrow> worker_message (helloReplyMessage c)"
proof -
  have literals: "\<not> blank ''file_scan''" "\<not> blank ''reload''" by code_simp+
  assume "validateConfig c = None"
  then have "well_formed (HelloAck (scScannerID c) (scWorkerVersion c) [''file_scan'', ''reload''])"
    using literals by (simp add: validateConfig_def guards)
  then have "Validate (embed (HelloAck (scScannerID c) (scWorkerVersion c) [''file_scan'', ''reload''])) = None"
    by (rule Validate_embed)
  then show ?thesis by (simp add: worker_message_def helloReplyMessage_def emptyMessage_def)
qed

lemma health_worker: "worker_message (healthReplyMessage c)"
proof -
  have "Validate (embed (HealthResult (if scFailHealth c then ''error'' else ''ok'')
      (if scFailHealth c then ''health check failed by fault injection'' else ''''))) = None"
    by (rule Validate_embed) simp
  then show ?thesis by (simp add: worker_message_def healthReplyMessage_def emptyMessage_def)
qed

lemma sint_of_nat: "n < 2 ^ 63 \<Longrightarrow> 0 \<le> sint (of_nat n :: i64)"
  by (simp add: signed_of_nat signed_take_bit_int_eq_self)

lemma reload_worker:
  assumes "\<forall>e. \<not> blank (txt e)" "countable_files fs" "Reload fs st path = ((failure, n), st')"
  shows "worker_message (reloadReplyMessage txt failure n)"
proof -
  have "n < 2 ^ 63"
    using assms(2,3) by (auto simp: Reload_def countable_files_def split: sum.splits)
  then have "well_formed (ReloadResult (failure = None) (of_nat n)
      (case failure of None \<Rightarrow> '''' | Some e \<Rightarrow> txt (ReloadError e)))"
    using assms(1) by (auto simp: sint_of_nat split: option.split)
  then have "Validate (embed (ReloadResult (failure = None) (of_nat n)
      (case failure of None \<Rightarrow> '''' | Some e \<Rightarrow> txt (ReloadError e)))) = None" by (rule Validate_embed)
  then show ?thesis by (simp add: worker_message_def reloadReplyMessage_def emptyMessage_def)
qed

lemma ack_worker: "worker_message (emptyMessage\<lparr>mVersion := ProtocolVersion, mType := TypeShutdownAck\<rparr>)"
proof -
  have "Validate (embed ShutdownAck) = None" by (rule Validate_embed) simp
  then show ?thesis by (simp add: worker_message_def emptyMessage_def)
qed

lemma phase_same: "phase s = p \<Longrightarrow> s\<lparr>store := st, phase := p, emitted := es\<rparr> = s\<lparr>store := st, emitted := es\<rparr>"
  by (cases s) simp

lemma store_same [simp]: "s\<lparr>store := store s, phase := p\<rparr> = s\<lparr>phase := p\<rparr>"
  by (cases s) simp

lemma write_reply_inv:
  assumes "session_inv s" "phase s = Receiving" "worker_message m" "mType m \<noteq> TypeShutdownAck"
  shows "session_inv (write_reply m err (s\<lparr>store := st\<rparr>))"
proof (cases err)
  case None
  then show ?thesis
    using session_inv_emit [OF assms(1) _ assms(3), where p = Receiving and st = st] assms(2,4)
    by (simp add: write_reply_def phase_same)
next
  case (Some e)
  then show ?thesis
    using session_inv_phase [OF assms(1), where st = st] assms(2) by (simp add: write_reply_def)
qed

lemma write_reply_inv':
  assumes "session_inv s" "phase s = Receiving" "worker_message m" "mType m \<noteq> TypeShutdownAck"
  shows "session_inv (write_reply m err s)"
  using write_reply_inv [OF assms, of err "store s"] by simp

lemma receive_turn_inv:
  assumes "session_inv s" "phase s = Receiving" "validateConfig c = None" "\<forall>e. \<not> blank (txt e)"
    "countable_files fs" "\<forall>m. r = Got m \<longrightarrow> Validate m = None"
  shows "session_inv (receive_turn c txt exits fs r err s)"
proof -
  have phase: "session_inv (s\<lparr>phase := p\<rparr>)" for p
    using session_inv_phase [OF assms(1), where st = "store s" and p = p] assms(2) by simp
  have start: "session_inv (s\<lparr>running := running s @ [(m, None)], accepted := accepted s @ [m]\<rparr>)"
    if "Validate m = None" "mType m = TypeScan" for m
  proof -
    have "mType m' \<noteq> TypeShutdownAck" if "emitted s = es @ m' # es'" for es m' es'
      using no_ack [OF assms(1), of m'] assms(2) that by simp
    then show ?thesis using assms(1) that unfolding session_inv_def by (auto simp: split_def)
  qed
  have reload: "session_inv (let ((failure, n), st) = Reload fs (store s) path
      in write_reply (reloadReplyMessage txt failure n) err (s\<lparr>store := st\<rparr>))" for path
  proof -
    obtain failure n st where "Reload fs (store s) path = ((failure, n), st)" by (metis prod.exhaust)
    from this reload_worker [OF assms(4,5) this] show ?thesis
      using write_reply_inv [OF assms(1,2)] by (simp add: reloadReplyMessage_def)
  qed
  show ?thesis
  proof (cases r)
    case (Got m)
    with assms(6) have m: "Validate m = None" by simp
    show ?thesis
      unfolding Got receive_turn_def received.case
      using write_reply_inv' [OF assms(1,2) hello_worker [OF assms(3)]]
        write_reply_inv' [OF assms(1,2) health_worker] phase start [OF m] reload
      by (simp add: helloReplyMessage_def healthReplyMessage_def)
  qed (simp_all add: receive_turn_def phase)
qed

lemma running_nth: "i < length xs \<Longrightarrow> mset xs = add_mset (xs ! i) (mset (take i xs @ drop (Suc i) xs))"
  by (metis id_take_nth_drop mset.simps(2) mset_append union_mset_add_mset_right)

lemma scan_matches_inv:
  assumes "session_inv s" "i < length (running s)" "running s ! i = (m, None)" "0 \<le> sint d"
  shows "session_inv (scan_matches txt i f d s)"
proof -
  let ?a = "handleScan txt (store s) f d m"
  have m: "(m, None) \<in> set (running s)" using assms(2,3) by (metis nth_mem)
  then have "m \<in># mset (map fst (running s))" by force
  then have "m \<in> set (accepted s)"
    using session_invD(1) [OF assms(1)] by (metis set_mset_mset union_iff)
  from session_invD(2) [OF assms(1) this] assms(4) have a: "answer_ok m ?a" by (simp add: handleScan_ok)
  have "map fst ((running s)[i := (m, Some ?a)]) = map fst (running s)"
    using assms(2,3) by (simp add: map_update list_update_same_conv)
  moreover have "set ((running s)[i := (m, Some ?a)]) \<subseteq> insert (m, Some ?a) (set (running s))"
    by (rule set_update_subset_insert)
  moreover have "mType m' \<noteq> TypeShutdownAck" if "emitted s = es @ m' # es'" for es m' es'
    using no_ack [OF assms(1), of m'] assms(2) that by fastforce
  ultimately show ?thesis
    using assms(1,3) a unfolding session_inv_def scan_matches_def Let_def by (fastforce simp: split_def)
qed

lemma scan_answers_inv:
  assumes "session_inv s" "i < length (running s)" "running s ! i = (m, Some a)"
  shows "session_inv (scan_answers i a err s)"
proof -
  have mem: "(m, Some a) \<in> set (running s)" using assms(2,3) by (metis nth_mem)
  note a = session_invD(3) [OF assms(1) mem]
  let ?rest = "take i (running s) @ drop (Suc i) (running s)"
  have "mset (running s) = add_mset (m, Some a) (mset ?rest)" using running_nth [OF assms(2)] assms(3) by simp
  then have count: "mset (map fst (running s)) = add_mset m (mset (map fst ?rest))" by (simp only: mset_map) simp
  have sub: "set ?rest \<subseteq> set (running s)" by (metis Un_subset_iff set_append set_drop_subset set_take_subset)
  have busy: "phase s \<noteq> Stopped None \<or> running s \<noteq> []" using assms(2) by auto
  have no: "mType m' \<noteq> TypeShutdownAck" if "m' \<in> set (emitted s)" for m' by (rule no_ack [OF assms(1) busy that])
  have type: "worker_message a" "mType a \<noteq> TypeShutdownAck"
    using a by (simp_all add: answer_ok_def worker_message_def)
  let ?em = "if err = None then emitted s @ [a] else emitted s"
  have "mType m' \<noteq> TypeShutdownAck" if "?em = es @ m' # es'" for es m' es'
  proof -
    from that have "m' \<in> set ?em" by simp
    with no type(2) show ?thesis by (auto split: if_splits)
  qed
  moreover have "\<forall>m \<in> set ?em. worker_message m" using session_invD(5) [OF assms(1)] type(1) by auto
  moreover have "set (emitted s) \<subseteq> set ?em" "err = None \<Longrightarrow> a \<in> set ?em" by auto
  ultimately show ?thesis
    using assms(1,3) a count sub unfolding session_inv_def scan_answers_def
    by (auto simp: split_def)
qed

lemma after_wait_inv:
  assumes "session_inv s" "phase s = Waiting f" "running s = []"
  shows "session_inv (after_wait f err s)"
proof (cases f)
  case (Return e)
  then show ?thesis
    using session_inv_phase [OF assms(1), where st = "store s" and p = "Stopped e"] assms(2)
    by (simp add: after_wait_def)
next
  case Acknowledge
  show ?thesis
  proof (cases err)
    case None
    have "s\<lparr>store := store s, phase := Stopped None, emitted := es\<rparr> = s\<lparr>phase := Stopped None, emitted := es\<rparr>" for es
      by (cases s) simp
    with session_inv_emit [OF assms(1) _ ack_worker, where p = "Stopped None" and st = "store s"] None Acknowledge assms(2,3)
    show ?thesis by (simp add: after_wait_def Let_def)
  next
    case (Some e)
    have "s\<lparr>phase := p, emitted := emitted s\<rparr> = s\<lparr>phase := p\<rparr>" for p by (cases s) simp
    with session_inv_phase [OF assms(1), where st = "store s" and p = "Stopped (Some (SendFailed e))"] Some Acknowledge assms(2)
    show ?thesis by (simp add: after_wait_def Let_def)
  qed
qed

lemma session_step_inv:
  assumes "session_trans c txt s l t" "session_inv s" "validateConfig c = None" "\<forall>e. \<not> blank (txt e)"
  shows "session_inv t"
  using assms(1)
proof cases
  case (context_done e)
  then show ?thesis
    using session_inv_phase [OF assms(2), where st = "store s"] by simp
next
  case (receive r fs exits err)
  then show ?thesis using receive_turn_inv [OF assms(2) _ assms(3,4)] by simp
next
  case (matches i m d f)
  then show ?thesis using scan_matches_inv [OF assms(2)] by simp
next
  case (answers i m a err)
  then show ?thesis using scan_answers_inv [OF assms(2)] by simp
next
  case (waited f err)
  then show ?thesis using after_wait_inv [OF assms(2)] by simp
qed

lemma session_start_inv:
  assumes "session_init c s"
  shows "session_inv s" "validateConfig c = None" "phase s = Receiving"
  using assms by (auto simp: session_init_def startSession_def session_inv_def split: option.splits sum.splits)

lemma session_reach_inv:
  assumes "reach (session_init c) (session_trans c txt) s" "\<forall>e. \<not> blank (txt e)"
  shows "session_inv s \<and> validateConfig c = None"
  using assms(1)
proof (induction rule: reach.induct)
  case (reach_init s)
  then show ?case by (simp add: session_start_inv)
next
  case (reach_step s e t)
  then show ?case using session_step_inv assms(2) by blast
qed

section \<open>Termination\<close>

text \<open>The steps a session can still make once its loop has been left.\<close>

definition remaining :: "session \<Rightarrow> nat" where
  "remaining s = sum_list (map (\<lambda>p. if snd p = None then 2 else 1) (running s)) +
     (case phase s of Waiting _ \<Rightarrow> 1 | _ \<Rightarrow> 0)"

lemma remaining_step:
  assumes "session_trans c txt s l t" "phase s \<noteq> Receiving"
  shows "remaining t < remaining s \<and> phase t \<noteq> Receiving"
  using assms(1)
proof cases
  case (matches i m d f)
  let ?g = "\<lambda>p :: Message \<times> Message option. if snd p = None then 2 else (1 :: nat)"
  have new: "length (running s) = length (running t)"
    "take i (running t) @ drop (Suc i) (running t) = take i (running s) @ drop (Suc i) (running s)"
    using matches(6) by (simp_all add: scan_matches_def Let_def)
  have split: "sum_list (map ?g xs) = ?g (xs ! i) + sum_list (map ?g (take i xs @ drop (Suc i) xs))"
    if "i < length xs" for xs
    using arg_cong [OF running_nth [OF that], of "\<lambda>M. sum_mset (image_mset ?g M)"]
    by (simp add: sum_mset_sum_list [symmetric])
  have "?g (running s ! i) = 2" "?g (running t ! i) = 1" "phase t = phase s"
    using matches(3,4,6) by (simp_all add: scan_matches_def Let_def)
  then show ?thesis
    using split [of "running s"] split [of "running t"] matches(3) new assms(2)
    by (simp add: remaining_def split: phase.split)
next
  case (answers i m a err)
  let ?g = "\<lambda>p :: Message \<times> Message option. if snd p = None then 2 else (1 :: nat)"
  have "sum_list (map ?g (running s)) = ?g (running s ! i) + sum_list (map ?g (take i (running s) @ drop (Suc i) (running s)))"
    using arg_cong [OF running_nth [OF answers(3)], of "\<lambda>M. sum_mset (image_mset ?g M)"]
    by (simp add: sum_mset_sum_list [symmetric])
  moreover have "?g (running s ! i) = 1" "phase t = phase s" "running t = take i (running s) @ drop (Suc i) (running s)"
    using answers(4,5) by (simp_all add: scan_answers_def)
  ultimately show ?thesis using assms(2) by (simp add: remaining_def split: phase.split)
next
  case (waited f err)
  then show ?thesis
    by (cases f) (simp_all add: after_wait_def Let_def remaining_def)
qed (use assms(2) in simp_all)

lemma remaining_run:
  "runs (session_trans c txt) s ls t \<Longrightarrow> phase s \<noteq> Receiving \<Longrightarrow>
     length ls + remaining t \<le> remaining s \<and> phase t \<noteq> Receiving"
proof (induction rule: runs.induct)
  case (run_nil s)
  then show ?case by simp
next
  case (run_cons s l t ls u)
  from remaining_step [OF run_cons.hyps(1) run_cons.prems] run_cons.IH show ?case by auto
qed

lemma waiting_progress:
  assumes "phase s = Waiting f"
  shows "\<exists>l t. session_trans c txt s l t"
proof (cases "running s")
  case Nil
  with assms show ?thesis by (blast intro: waited)
next
  case (Cons p rest)
  obtain m a where "running s ! 0 = (m, a)" "0 < length (running s)"
    using Cons by (cases p) simp
  moreover have "phase s \<noteq> Crashed" "0 \<le> sint (0 :: i64)" using assms by simp_all
  ultimately show ?thesis by (cases a) (blast intro: matches, blast intro: answers)
qed

section \<open>Runs of concrete labels\<close>

text \<open>A label names its step; the file system and the crash function are fixed in a run.\<close>

fun session_do :: "session_config \<Rightarrow> texts \<Rightarrow> files \<Rightarrow> session_label \<Rightarrow> session \<Rightarrow> session" where
  "session_do c txt fs (Cancelled e) s = s\<lparr>phase := Waiting (Return (Some (ContextDone e)))\<rparr>"
| "session_do c txt fs (Received r err) s = receive_turn c txt True fs r err s"
| "session_do c txt fs (Matched i f d) s = scan_matches txt i f d s"
| "session_do c txt fs (Answered i err) s = scan_answers i (the (snd (running s ! i))) err s"
| "session_do c txt fs (Waited err) s = (case phase s of Waiting f \<Rightarrow> after_wait f err s | _ \<Rightarrow> s)"

fun session_can :: "session_label \<Rightarrow> session \<Rightarrow> bool" where
  "session_can (Cancelled e) s \<longleftrightarrow> phase s = Receiving"
| "session_can (Received r err) s \<longleftrightarrow> phase s = Receiving \<and>
     (case r of Got m \<Rightarrow> Validate m = None | _ \<Rightarrow> True)"
| "session_can (Matched i f d) s \<longleftrightarrow>
     phase s \<noteq> Crashed \<and> i < length (running s) \<and> snd (running s ! i) = None \<and> 0 \<le> sint d"
| "session_can (Answered i err) s \<longleftrightarrow>
     phase s \<noteq> Crashed \<and> i < length (running s) \<and> snd (running s ! i) \<noteq> None"
| "session_can (Waited err) s \<longleftrightarrow>
     running s = [] \<and> (case phase s of Waiting _ \<Rightarrow> True | _ \<Rightarrow> False)"

lemma session_can_step:
  assumes "session_can l s" "countable_files fs"
  shows "session_trans c txt s l (session_do c txt fs l s)"
proof (cases l)
  case (Matched i f d)
  obtain m a where "running s ! i = (m, a)" by (cases "running s ! i")
  with Matched assms show ?thesis by (auto intro: matches)
next
  case (Answered i err)
  obtain m a where "running s ! i = (m, a)" by (cases "running s ! i")
  with Answered assms show ?thesis by (auto intro: answers)
next
  case (Received r err)
  with assms show ?thesis by (cases r) (auto intro!: receive)
qed (use assms in \<open>auto intro!: context_done waited split: phase.splits\<close>)

fun session_exec :: "session_config \<Rightarrow> texts \<Rightarrow> files \<Rightarrow> session_label list \<Rightarrow> session \<Rightarrow> session" where
  "session_exec c txt fs [] s = s"
| "session_exec c txt fs (l # ls) s = session_exec c txt fs ls (session_do c txt fs l s)"

fun session_runs_ok :: "session_config \<Rightarrow> texts \<Rightarrow> files \<Rightarrow> session_label list \<Rightarrow> session \<Rightarrow> bool" where
  "session_runs_ok c txt fs [] s \<longleftrightarrow> True"
| "session_runs_ok c txt fs (l # ls) s \<longleftrightarrow>
     session_can l s \<and> session_runs_ok c txt fs ls (session_do c txt fs l s)"

lemma session_exec_runs:
  "session_runs_ok c txt fs ls s \<Longrightarrow> countable_files fs \<Longrightarrow>
     runs (session_trans c txt) s ls (session_exec c txt fs ls s)"
  by (induction ls arbitrary: s) (auto simp: runs_Cons_iff intro: session_can_step)

text \<open>A session with one scan, shut down while the scan runs.\<close>

definition dsession_config :: session_config where
  "dsession_config = \<lparr>scScannerID = ''a'', scWorkerVersion = ''1'', scSignaturePath = ''db'',
     scDelay = 0, scCrashOnScan = False, scFailHealth = False\<rparr>"

definition dtexts :: texts where "dtexts e = ''error''"

definition dlabels :: "session_label list" where
  "dlabels = [Received (Got (embed Hello)) None, Received (Got (embed (Scan 7 ''/f''))) None,
     Received (Got (embed Shutdown)) None, Matched 0 (OpenFile (Inr True) [(''xabc'', Some EOF)] None) 5,
     Answered 0 None, Waited None]"

definition dsession_start :: session where
  "dsession_start = (case startSession dsession_config demo_files of Inr s \<Rightarrow> s)"

definition dsession :: session where
  "dsession = session_exec dsession_config dtexts demo_files dlabels dsession_start"

lemma demo_countable: "countable_files demo_files"
proof -
  have "length (patternSet db) < 2 ^ 63" if l: "load demo_files path = Inr db" for path db
  proof -
    from l have "path = ''db''" by (auto simp: load_def demo_files_def split: if_splits)
    with l demo_load show ?thesis by auto
  qed
  then show ?thesis by (auto simp: countable_files_def)
qed

lemma dsession_init: "session_init dsession_config dsession_start"
proof -
  have texts: "\<not> blank ''a''" "\<not> blank ''1''" "\<not> blank ''db''" by code_simp+
  have "\<exists>s. startSession dsession_config demo_files = Inr s"
    using texts by (simp add: startSession_def NewStore_def dsession_config_def demo_load validateConfig_def)
  then show ?thesis unfolding session_init_def dsession_start_def by force
qed

lemma dsession_runs: "runs (session_trans dsession_config dtexts) dsession_start dlabels dsession"
proof -
  have "session_runs_ok dsession_config dtexts demo_files dlabels dsession_start" by code_simp
  then show ?thesis unfolding dsession_def by (rule session_exec_runs [OF _ demo_countable])
qed

lemma dsession_reach: "reach (session_init dsession_config) (session_trans dsession_config dtexts) dsession"
proof -
  have "reach (session_init dsession_config) (session_trans dsession_config dtexts) dsession_start"
    by (rule reach_init) (rule dsession_init)
  with dsession_runs show ?thesis by (rule reach_runs)
qed

lemma dtexts_text: "\<forall>e. \<not> blank (dtexts e)"
proof -
  have "\<not> blank ''error''" by code_simp
  then show ?thesis by (simp add: dtexts_def)
qed

section \<open>Properties\<close>

text \<open>
  C31. Shutdown is graceful. A session that has sent SHUTDOWN_ACK has sent it as its last
  message: the main loop has returned without error, no scan is running, and every scan it
  ever accepted has returned with an answer for its own request id; the answer was sent
  before, unless \<^verbatim>\<open>send\<close> itself failed.
\<close>

theorem session_shutdown:
  assumes "reach (session_init c) (session_trans c txt) s" "\<forall>e. \<not> blank (txt e)"
    and "m \<in> set (emitted s)" "mType m = TypeShutdownAck"
  shows "last (emitted s) = m \<and> count_list (map mType (emitted s)) TypeShutdownAck = 1 \<and>
    phase s = Stopped None \<and> running s = [] \<and>
    mset (map fst (finished s)) = mset (accepted s) \<and>
    (\<forall>(q, a, err) \<in> set (finished s). mType a = TypeScanResult \<and> mRequestID a = mRequestID q \<and>
       (err = None \<longrightarrow> a \<in> set (emitted s)))"
proof -
  note inv = session_reach_inv [OF assms(1,2), THEN conjunct1]
  obtain es es' where split: "emitted s = es @ m # es'" using assms(3) by (meson split_list)
  from session_invD(6) [OF inv split assms(4)]
  have last: "es' = []" "running s = []" "phase s = Stopped None" by auto
  have "TypeShutdownAck \<notin> set (map mType es)"
  proof
    assume "TypeShutdownAck \<in> set (map mType es)"
    then obtain m' where m': "m' \<in> set es" "mType m' = TypeShutdownAck" by auto
    then obtain us vs where "es = us @ m' # vs" by (meson split_list)
    with split session_invD(6) [OF inv _ m'(2), of us "vs @ m # es'"] show False by simp
  qed
  then have "count_list (map mType (emitted s)) TypeShutdownAck = 1"
    using split last(1) assms(4) by (simp add: count_list_0_iff)
  moreover have "\<forall>(q, a, err) \<in> set (finished s). mType a = TypeScanResult \<and> mRequestID a = mRequestID q \<and>
       (err = None \<longrightarrow> a \<in> set (emitted s))"
    using session_invD(4) [OF inv] by (fastforce simp: answer_ok_def)
  ultimately show ?thesis using split last session_invD(1) [OF inv] by simp
qed

theorem session_shutdown_witness:
  "last (emitted dsession) = embed ShutdownAck \<and> running dsession = [] \<and>
     mset (map fst (finished dsession)) = {#embed (Scan 7 ''/f'')#}"
proof -
  have 1: "embed ShutdownAck \<in> set (emitted dsession)" by code_simp
  have 2: "mType (embed ShutdownAck) = TypeShutdownAck" by (simp add: emptyMessage_def)
  have "accepted dsession = [embed (Scan 7 ''/f'')]" by code_simp
  with session_shutdown [OF dsession_reach dtexts_text 1 2] show ?thesis by simp
qed

text \<open>
  C32. Whatever a session sends is a valid message of a Worker-to-Core type, so the core's
  decoder accepts it.
\<close>

theorem session_messages_valid:
  assumes "reach (session_init c) (session_trans c txt) s" "\<forall>e. \<not> blank (txt e)"
  shows "\<forall>m \<in> set (emitted s). Validate m = None \<and>
    mType m \<in> {TypeHelloAck, TypeHealthResult, TypeScanResult, TypeReloadResult, TypeShutdownAck}"
  using session_invD(5) [OF session_reach_inv [OF assms, THEN conjunct1]]
  by (simp add: worker_message_def)

theorem session_messages_valid_witness:
  "length (emitted dsession) = 3 \<and> list_all (\<lambda>m. Validate m = None) (emitted dsession)"
proof -
  have "length (emitted dsession) = 3" by code_simp
  with session_messages_valid [OF dsession_reach dtexts_text] show ?thesis
    by (simp add: list_all_iff)
qed

text \<open>
  C33. A session that has left its loop stops: it makes at most two more steps for each
  running scan and one to return, and as long as it has not returned it can make one, so
  every maximal run from there ends with the session stopped.
\<close>

theorem session_stops:
  assumes "phase s = Waiting f" "runs (session_trans c txt) s ls t"
  shows "length ls \<le> 2 * length (running s) + 1 \<and>
    ((\<exists>l u. session_trans c txt t l u) \<or> (\<exists>e. phase t = Stopped e) \<or> phase t = Crashed)"
proof -
  have "sum_list (map (\<lambda>p. if snd p = None then 2 else 1) xs) \<le> 2 * length xs"
    for xs :: "(Message \<times> Message option) list"
    by (induction xs) auto
  then have "remaining s \<le> 2 * length (running s) + 1" using assms(1) by (simp add: remaining_def)
  moreover have "phase s \<noteq> Receiving" using assms(1) by simp
  note run = remaining_run [OF assms(2) this]
  moreover have "(\<exists>l u. session_trans c txt t l u) \<or> (\<exists>e. phase t = Stopped e) \<or> phase t = Crashed"
    using run waiting_progress by (cases "phase t") blast+
  ultimately show ?thesis by auto
qed

theorem session_stops_witness:
  "length (drop 3 dlabels) \<le> 2 * 1 + 1"
proof -
  let ?s = "session_exec dsession_config dtexts demo_files (take 3 dlabels) dsession_start"
  have 1: "phase ?s = Waiting Acknowledge" by code_simp
  have "session_runs_ok dsession_config dtexts demo_files (drop 3 dlabels) ?s" by code_simp
  note 2 = session_exec_runs [OF this demo_countable]
  have "length (running ?s) = 1" by code_simp
  with session_stops [OF 1 2] show ?thesis by simp
qed

text \<open>
  The answer to a scan is right. It carries the scan's request id and the measured time.
  If the file opens, is regular, reads to its end and closes, the verdict is \<^verbatim>\<open>MALWARE\<close>,
  with a pattern of the current database that occurs in the content, exactly if one occurs,
  and \<^verbatim>\<open>CLEAN\<close> otherwise. A file that cannot be opened, examined, read or closed gives
  \<^verbatim>\<open>ERROR\<close> with the text of the error; it is never reported clean.
\<close>

theorem handleScan_exact:
  assumes "current st = Some db" "load fs path = Inr db"
  shows "let a = handleScan txt st f d m in
    mType a = TypeScanResult \<and> mRequestID a = mRequestID m \<and> mDurationMs a = d \<and>
    (case f of
       OpenFile (Inr True) content None \<Rightarrow>
         if \<exists>p \<in> set (patterns db). sublist p (stream_content content)
         then mVerdict a = VerdictMalware \<and> mError a = '''' \<and>
           mSignature a \<in> set (patterns db) \<and> sublist (mSignature a) (stream_content content)
         else if stream_end content = NotFound
         then mVerdict a = VerdictClean \<and> mSignature a = '''' \<and> mError a = ''''
         else mVerdict a = VerdictError \<and> (\<exists>e. mError a = txt e)
     | _ \<Rightarrow> mVerdict a = VerdictError \<and> mSignature a = '''' \<and> (\<exists>e. mError a = txt e))"
proof -
  let ?a = "handleScan txt st f d m"
  have base: "mType ?a = TypeScanResult \<and> mRequestID ?a = mRequestID m \<and> mDurationMs ?a = d"
    using handleScan_form [of "txt" st f d m] by (auto simp: emptyMessage_def)
  have failed: "mVerdict ?a = VerdictError \<and> mSignature ?a = '''' \<and> (\<exists>e. mError ?a = txt e)"
    if "scan_content st f m = (v, sg, Some e)" for v sg e
    using that by (auto simp: handleScan_def emptyMessage_def)
  have answered: "mVerdict ?a = v \<and> mSignature ?a = sg \<and> mError ?a = ''''"
    if "scan_content st f m = (v, sg, None)" for v sg
    using that by (simp add: handleScan_def emptyMessage_def)
  show ?thesis
  proof (cases f)
    case (OpenError e)
    then have "scan_content st f m = ('''', '''', Some (OpenFailed e))" by (simp add: scan_content_def)
    from failed [OF this] base OpenError show ?thesis by (simp add: Let_def)
  next
    case (OpenFile stat content closing)
    show ?thesis
    proof (cases "stat = Inr True \<and> closing = None")
      case False
      have "\<exists>v sg e. scan_content st f m = (v, sg, Some e)"
        using OpenFile False by (auto simp: scan_content_def split: sum.splits prod.splits option.splits)
      with failed base show ?thesis
        using OpenFile False by (auto simp: Let_def split: sum.splits bool.splits option.splits)
    next
      case True
      have content: "scan_content st f m = match_file st content"
        using OpenFile True by (cases "match_file st content") (simp add: scan_content_def)
      note spec = match_spec [OF load_ok [OF assms(2)], of content, unfolded match_answer_def]
      have match: "Match st (Some content) = Inr (match db content)" using assms(1) by (simp add: Match_def)
      show ?thesis
      proof (cases "\<exists>p \<in> set (patterns db). sublist p (stream_content content)")
        case occurs: True
        with spec obtain p where p: "match db content = Found p" "p \<in> set (patterns db)"
          "sublist p (stream_content content)" by blast
        then have "scan_content st f m = (VerdictMalware, p, None)"
          by (simp add: content match_file_def match)
        from answered [OF this] base p occurs OpenFile True show ?thesis by (auto simp: Let_def)
      next
        case none: False
        with spec have ending: "match db content = stream_end content" by blast
        show ?thesis
        proof (cases "stream_end content = NotFound")
          case True
          then have "scan_content st f m = (VerdictClean, '''', None)"
            by (simp add: content match_file_def match ending)
          from answered [OF this] base none OpenFile \<open>stat = Inr True \<and> closing = None\<close> True
          show ?thesis by (simp add: Let_def)
        next
          case False
          then have "\<exists>e. scan_content st f m = (VerdictClean, '''', Some e)"
            using stream_end_not_Found [of content]
            by (cases "stream_end content") (auto simp: content match_file_def match ending)
          with failed base none OpenFile \<open>stat = Inr True \<and> closing = None\<close> False
          show ?thesis by (auto simp: Let_def)
        qed
      qed
    qed
  qed
qed

theorem handleScan_exact_witness:
  "mVerdict (handleScan dtexts (store dsession_start) (OpenFile (Inr True) [(''xab'', None), (''c'', Some EOF)] None)
      5 (embed (Scan 7 ''/f''))) = VerdictMalware"
proof -
  let ?f = "OpenFile (Inr True) [(''xab'', None), (''c'', Some EOF)] None"
  have "current (store dsession_start) = Some \<lparr>patterns = [''abc''], patternSet = [''abc''], maxPatternLength = 3\<rparr>"
    by code_simp
  from handleScan_exact [OF this demo_load, of dtexts ?f 5 "embed (Scan 7 ''/f'')"]
  show ?thesis by (simp add: Let_def sublist_code)
qed

end
