(* ===== verification/Paths.thy ===== *)
theory Paths
  imports Prelude
begin

text \<open>
  The parts of \<^verbatim>\<open>path/filepath\<close> (on Unix) that the program uses to name files:
  \<^verbatim>\<open>Clean\<close>, \<^verbatim>\<open>Join\<close>, \<^verbatim>\<open>Abs\<close>, \<^verbatim>\<open>Dir\<close> and \<^verbatim>\<open>Base\<close>. The working
  directory is a parameter. \<^verbatim>\<open>VolumeName\<close> is always empty.
\<close>

abbreviation "slash \<equiv> CHR ''/''"

section \<open>Components\<close>

fun components :: "string \<Rightarrow> string list" where
  "components [] = [[]]"
| "components (c # s) =
     (if c = slash then [] # components s
      else case components s of [] \<Rightarrow> [[c]] | p # ps \<Rightarrow> (c # p) # ps)"

fun join_components :: "string list \<Rightarrow> string" where
  "join_components [] = []"
| "join_components [p] = p"
| "join_components (p # ps) = p @ slash # join_components ps"

definition IsAbs :: "string \<Rightarrow> bool" where
  "IsAbs s \<longleftrightarrow> s \<noteq> [] \<and> hd s = slash"

text \<open>
  \<^verbatim>\<open>Clean\<close> drops empty and single-dot components and lets a double dot cancel the
  component before it; at the root it cancels nothing, and a relative path may begin with
  double dots.
\<close>

definition clean_step :: "bool \<Rightarrow> string \<Rightarrow> string list \<Rightarrow> string list" where
  "clean_step rooted p stack =
     (if p = '''' \<or> p = ''.'' then stack
      else if p = ''..'' then
        (if stack = [] then (if rooted then [] else [p])
         else if last stack = ''..'' then stack @ [p]
         else butlast stack)
      else stack @ [p])"

definition cleaned :: "bool \<Rightarrow> string list \<Rightarrow> string list" where
  "cleaned rooted ps = fold (clean_step rooted) ps []"

definition Clean :: "string \<Rightarrow> string" where
  "Clean s =
     (if IsAbs s then slash # join_components (cleaned True (components s))
      else if cleaned False (components s) = [] then ''.''
      else join_components (cleaned False (components s)))"

definition Join :: "string list \<Rightarrow> string" where
  "Join ps =
     (case dropWhile (\<lambda>p. p = '''') ps of [] \<Rightarrow> '''' | qs \<Rightarrow> Clean (join_components qs))"

text \<open>\<^verbatim>\<open>os.Getwd\<close> may fail; it is asked only for a relative path.\<close>

definition Abs :: "string + string \<Rightarrow> string \<Rightarrow> string + string" where
  "Abs cwd s = (if IsAbs s then Inr (Clean s)
     else case cwd of Inl e \<Rightarrow> Inl e | Inr wd \<Rightarrow> Inr (Join [wd, s]))"

definition Dir :: "string \<Rightarrow> string" where
  "Dir s = Clean (rev (dropWhile (\<lambda>c. c \<noteq> slash) (rev s)))"

definition Base :: "string \<Rightarrow> string" where
  "Base s =
     (if s = '''' then ''.''
      else let t = dropWhile (\<lambda>c. c = slash) (rev s) in
        if t = [] then ''/'' else rev (takeWhile (\<lambda>c. c \<noteq> slash) t))"

text \<open>An absolute path to a regular file, as \<^verbatim>\<open>os.Stat\<close> sees it.\<close>

datatype path_error =
    EmptyPath
  | ResolveFailed string
  | PathStatFailed string
  | PathNotRegular

definition resolve_regular :: "string + string \<Rightarrow> files \<Rightarrow> string \<Rightarrow> path_error + string" where
  "resolve_regular cwd fs path =
     (case Abs cwd path of Inl e \<Rightarrow> Inl (ResolveFailed e) | Inr absolute \<Rightarrow>
      (case fs absolute of
         Absent e \<Rightarrow> Inl (PathStatFailed e)
       | Irregular \<Rightarrow> Inl PathNotRegular
       | RegularFile _ \<Rightarrow> Inr absolute))"

section \<open>Lemmas\<close>

text \<open>A name: one component that stands for itself.\<close>

definition plain_name :: "string \<Rightarrow> bool" where
  "plain_name p \<longleftrightarrow> p \<noteq> '''' \<and> p \<noteq> ''.'' \<and> p \<noteq> ''..'' \<and> slash \<notin> set p"

lemma components_not_Nil [simp]: "components s \<noteq> []"
  by (cases s) (auto split: list.splits)

lemma components_no_slash: "slash \<notin> set s \<Longrightarrow> components s = [s]"
  by (induction s) auto

lemma components_append: "components (s @ slash # t) = components s @ components t"
proof (induction s)
  case Nil
  then show ?case by simp
next
  case (Cons c s)
  then show ?case by (cases "components s") auto
qed

lemma components_slash_free: "p \<in> set (components s) \<Longrightarrow> slash \<notin> set p"
  by (induction s arbitrary: p) (fastforce split: if_splits list.splits)+

lemma join_components_Cons: "ps \<noteq> [] \<Longrightarrow> join_components (p # ps) = p @ slash # join_components ps"
  by (cases ps) auto

lemma components_join: "ps \<noteq> [] \<Longrightarrow> \<forall>p \<in> set ps. slash \<notin> set p \<Longrightarrow> components (join_components ps) = ps"
proof (induction ps)
  case Nil
  then show ?case by simp
next
  case (Cons p ps)
  then show ?case
    by (cases "ps = []") (simp_all add: components_no_slash join_components_Cons components_append)
qed

lemma cleaned_snoc: "cleaned r (ps @ [p]) = clean_step r p (cleaned r ps)"
  by (simp add: cleaned_def)

lemma cleaned_plain: "\<forall>p \<in> set qs. plain_name p \<Longrightarrow> cleaned r (ps @ qs) = cleaned r ps @ qs"
proof (induction qs rule: rev_induct)
  case Nil
  then show ?case by simp
next
  case (snoc q qs)
  have "cleaned r (ps @ qs @ [q]) = clean_step r q (cleaned r (ps @ qs))"
    using cleaned_snoc [of r "ps @ qs" q] by simp
  with snoc show ?case by (simp add: clean_step_def plain_name_def)
qed

text \<open>A rooted path has only plain names left.\<close>

lemma cleaned_rooted: "\<forall>p \<in> set ps. slash \<notin> set p \<Longrightarrow> \<forall>p \<in> set (cleaned True ps). plain_name p"
proof (induction ps rule: rev_induct)
  case Nil
  then show ?case by (simp add: cleaned_def)
next
  case (snoc p ps)
  then have "\<forall>q \<in> set (cleaned True ps). plain_name q" by simp
  moreover from this have "cleaned True ps \<noteq> [] \<Longrightarrow> last (cleaned True ps) \<noteq> ''..''"
    by (auto simp: plain_name_def)
  ultimately show ?case
    using snoc.prems unfolding cleaned_snoc clean_step_def
    by (auto simp: plain_name_def dest: in_set_butlastD)
qed

text \<open>The names of a clean rooted path.\<close>

definition names :: "string \<Rightarrow> string list" where
  "names s = cleaned True (components s)"

lemma Clean_names: "IsAbs s \<Longrightarrow> Clean s = slash # join_components (names s)"
  by (simp add: Clean_def names_def)

lemma IsAbs_Clean: "IsAbs s \<Longrightarrow> IsAbs (Clean s)"
  by (simp add: Clean_def IsAbs_def)

lemma names_plain: "\<forall>p \<in> set (names s). plain_name p"
  unfolding names_def by (rule cleaned_rooted) (blast dest: components_slash_free)

lemma names_Clean: "IsAbs s \<Longrightarrow> names (Clean s) = names s"
proof -
  assume s: "IsAbs s"
  have "cleaned True ([] # names s) = names s"
    using cleaned_plain [OF names_plain [of s], of True "[[]]"] by (simp add: cleaned_def clean_step_def)
  moreover have "components (slash # join_components (names s)) = [] # names s" if "names s \<noteq> []"
    using components_join [OF that] names_plain [of s] by (auto simp: plain_name_def)
  moreover have "cleaned True [[], []] = []" by (simp add: cleaned_def clean_step_def)
  ultimately show ?thesis by (cases "names s = []") (simp_all add: Clean_names [OF s] names_def [of "slash # _"])
qed

lemma Clean_Clean: "IsAbs s \<Longrightarrow> Clean (Clean s) = Clean s"
  by (metis Clean_names IsAbs_Clean names_Clean)

lemma IsAbs_Join: "IsAbs base \<Longrightarrow> IsAbs (Join (base # ps))"
proof -
  assume base: "IsAbs base"
  then have ne: "base \<noteq> ''''" by (auto simp: IsAbs_def)
  have "IsAbs (join_components (base # ps))" using base by (cases ps) (auto simp: IsAbs_def)
  with ne show ?thesis by (simp add: Join_def IsAbs_Clean del: join_components.simps)
qed

lemma Clean_Join: "IsAbs base \<Longrightarrow> Clean (Join (base # ps)) = Join (base # ps)"
proof -
  assume base: "IsAbs base"
  then have ne: "base \<noteq> ''''" by (auto simp: IsAbs_def)
  have "IsAbs (join_components (base # ps))" using base by (cases ps) (auto simp: IsAbs_def)
  with ne show ?thesis by (simp add: Join_def Clean_Clean del: join_components.simps)
qed

lemma Abs_Inr:
  assumes "Abs cwd s = Inr a" "\<forall>wd. cwd = Inr wd \<longrightarrow> IsAbs wd"
  shows "IsAbs a" "Clean a = a"
  using assms by (auto simp: Abs_def IsAbs_Clean Clean_Clean IsAbs_Join Clean_Join split: if_splits sum.splits)

lemma Abs_rooted: "IsAbs s \<Longrightarrow> Abs cwd s = Inr (Clean s)"
  by (simp add: Abs_def)

lemma IsAbs_Dir: "IsAbs s \<Longrightarrow> IsAbs (Dir s)"
proof -
  assume s: "IsAbs s"
  then obtain t where t: "s = slash # t" by (cases s) (auto simp: IsAbs_def)
  have "IsAbs (rev (dropWhile (\<lambda>c. c \<noteq> slash) (rev s)))"
  proof (cases "slash \<in> set t")
    case True
    then show ?thesis by (simp add: t dropWhile_append1 IsAbs_def)
  next
    case False
    then show ?thesis by (simp add: t IsAbs_def dropWhile_append3)
  qed
  then show ?thesis by (simp add: Dir_def IsAbs_Clean)
qed

lemma resolve_regular_Inr:
  "resolve_regular cwd fs s = Inr a \<longleftrightarrow> Abs cwd s = Inr a \<and> (\<exists>c. fs a = RegularFile c)"
  by (auto simp: resolve_regular_def split: sum.splits file_node.splits)

text \<open>Names joined to a rooted path stay below it.\<close>

lemma names_Join:
  assumes "IsAbs base" "\<forall>p \<in> set ps. plain_name p"
  shows "names (Join (base # ps)) = names base @ ps" "IsAbs (Join (base # ps))"
proof -
  have ne: "base \<noteq> ''''" using assms(1) by (auto simp: IsAbs_def)
  have abs: "IsAbs (join_components (base # ps))"
    using assms(1) by (cases ps) (auto simp: IsAbs_def)
  have "components (join_components (base # ps)) = components base @ ps"
  proof (cases "ps = []")
    case False
    with assms(2) show ?thesis
      by (simp add: join_components_Cons components_append components_join plain_name_def)
  qed simp
  then have "names (join_components (base # ps)) = names base @ ps"
    using cleaned_plain [OF assms(2)] by (simp add: names_def)
  with ne abs show "names (Join (base # ps)) = names base @ ps" "IsAbs (Join (base # ps))"
    by (simp_all add: Join_def names_Clean IsAbs_Clean del: join_components.simps)
qed

text \<open>The last name of a path.\<close>

lemma Base_cases: "Base s = ''/'' \<or> (Base s \<noteq> '''' \<and> slash \<notin> set (Base s))"
proof -
  let ?t = "dropWhile (\<lambda>c. c = slash) (rev s)"
  have "takeWhile (\<lambda>c. c \<noteq> slash) ?t \<noteq> []" if "?t \<noteq> []"
    using that hd_dropWhile [OF that] by (cases ?t) auto
  then show ?thesis by (auto simp: Base_def Let_def dest: set_takeWhileD)
qed

lemma Base_append: "p \<noteq> '''' \<Longrightarrow> slash \<notin> set p \<Longrightarrow> Base (pre @ slash # p) = p"
proof -
  assume p: "p \<noteq> ''''" "slash \<notin> set p"
  obtain q c where cq: "p = q @ [c]" using p(1) by (cases p rule: rev_cases) auto
  have "takeWhile (\<lambda>c. c \<noteq> slash) (xs @ slash # ys) = xs" if "slash \<notin> set xs" for xs ys
    using that by (induction xs) auto
  from this [of "rev q" "rev pre"] show ?thesis using p(2) by (auto simp: Base_def Let_def cq)
qed

lemma join_last: "ps \<noteq> [] \<Longrightarrow> \<exists>pre. slash # join_components ps = pre @ slash # last ps"
proof (induction ps)
  case (Cons p ps)
  show ?case
  proof (cases "ps = []")
    case True
    then show ?thesis by (intro exI [of _ "[]"]) simp
  next
    case False
    with Cons.IH obtain pre where "slash # join_components ps = pre @ slash # last ps" by blast
    then have "slash # join_components (p # ps) = (slash # p @ pre) @ slash # last ps"
      using False by (simp add: join_components_Cons)
    with False show ?thesis by auto
  qed
qed simp

lemma Base_plain:
  assumes "IsAbs s" "Clean s = s" "Base s \<noteq> ''/''"
  shows "plain_name (Base s)"
proof (cases "names s = []")
  case True
  with assms(1,2) have "s = ''/''" by (metis Clean_names join_components.simps(1))
  with assms(3) show ?thesis by (simp add: Base_def)
next
  case False
  have last: "plain_name (last (names s))" using names_plain last_in_set [OF False] by blast
  obtain pre where "slash # join_components (names s) = pre @ slash # last (names s)" using join_last [OF False] by blast
  then have "s = pre @ slash # last (names s)" using Clean_names [OF assms(1)] assms(2) by simp
  then have "Base s = last (names s)" using last Base_append [of "last (names s)" pre] by (simp add: plain_name_def)
  with last show ?thesis by simp
qed

text \<open>A slash is no white space.\<close>

lemma space_not_slash:
  "ascii_space (byte a) \<Longrightarrow> a \<noteq> slash"
  "space2 (byte a) (byte b) \<Longrightarrow> a \<noteq> slash \<and> b \<noteq> slash"
  "space3 (byte a) (byte b) (byte c) \<Longrightarrow> a \<noteq> slash \<and> b \<noteq> slash \<and> c \<noteq> slash"
  by (auto simp: ascii_space_def space2_def space3_def)

lemma trim_left_slash: "slash \<in> set s \<Longrightarrow> slash \<in> set (trim_left s)"
proof (induction s rule: trim_left.induct)
  case (1 a b c s)
  then show ?case
    using space_not_slash(1) [of a] space_not_slash(2) [of a b] space_not_slash(3) [of a b c]
    by (simp split: if_split) blast
next
  case (2 a b)
  then show ?case
    using space_not_slash(1) [of a] space_not_slash(1) [of b] space_not_slash(2) [of a b] by auto
next
  case (3 a)
  then show ?case using space_not_slash(1) [of a] by auto
qed simp

lemma trim_rev_slash: "slash \<in> set s \<Longrightarrow> slash \<in> set (trim_rev s)"
proof (induction s rule: trim_rev.induct)
  case (1 c b a s)
  then show ?case
    using space_not_slash(1) [of c] space_not_slash(2) [of b c] space_not_slash(3) [of a b c]
    by (simp split: if_split) blast
next
  case (2 c b)
  then show ?case
    using space_not_slash(1) [of c] space_not_slash(1) [of b] space_not_slash(2) [of b c] by auto
next
  case (3 c)
  then show ?case using space_not_slash(1) [of c] by auto
qed simp

lemma not_blank_rooted: "IsAbs s \<Longrightarrow> \<not> blank s"
proof -
  assume "IsAbs s"
  then have "slash \<in> set s" by (cases s) (auto simp: IsAbs_def)
  then have "slash \<in> set (trim_rev (rev (trim_left s)))" by (intro trim_rev_slash) (simp add: trim_left_slash)
  then have "trim_rev (rev (trim_left s)) \<noteq> []" by auto
  then show ?thesis by (simp add: blank_def trim_space_def)
qed

end
