(* ===== verification/ConfigLoad.thy ===== *)
theory ConfigLoad
  imports Config Json Paths
begin

text \<open>
  Reading the configuration, \<^verbatim>\<open>src/pkg/config/config.go\<close>: \<^verbatim>\<open>Load\<close> finds one
  JSON object in a regular file, \<^verbatim>\<open>validate\<close> checks it and resolves the paths of the
  workers below the directory of the file. The file system and the working directory are
  parameters. The two timeouts are milliseconds in a 64-bit integer; as durations they are
  multiplied by a million at that width.
\<close>

section \<open>The file\<close>

record Config =
  StartupTimeoutMs :: i64
  ScanTimeoutMs :: i64
  StdioWorker :: Worker
  SocketWorker :: Worker
  GRPCWorker :: Worker
  BaseDir :: string

definition zeroConfig :: Config where
  "zeroConfig = \<lparr>StartupTimeoutMs = 0, ScanTimeoutMs = 0, StdioWorker = zeroWorker,
     SocketWorker = zeroWorker, GRPCWorker = zeroWorker, BaseDir = ''''\<rparr>"

text \<open>The struct tags; \<^verbatim>\<open>Transport\<close> and \<^verbatim>\<open>BaseDir\<close> are not in the file.\<close>

definition workerFields :: "(string \<times> Worker setter) list" where
  "workerFields =
     [(''scannerId'', store_string cScannerID_update),
      (''workerVersion'', store_string cWorkerVersion_update),
      (''executable'', store_string cExecutable_update),
      (''signaturePath'', store_string cSignaturePath_update),
      (''delayMs'', store_int cDelayMs_update),
      (''crashOnScan'', store_bool cCrashOnScan_update),
      (''failHealth'', store_bool cFailHealth_update)]"

definition configFields :: "(string \<times> Config setter) list" where
  "configFields =
     [(''startupTimeoutMs'', store_int StartupTimeoutMs_update),
      (''scanTimeoutMs'', store_int ScanTimeoutMs_update),
      (''stdioWorker'', store_nested StdioWorker StdioWorker_update (store_struct workerFields)),
      (''socketWorker'', store_nested SocketWorker SocketWorker_update (store_struct workerFields)),
      (''grpcWorker'', store_nested GRPCWorker GRPCWorker_update (store_struct workerFields))]"

datatype load_config_error =
    ConfigPath string
  | ConfigStat string
  | ConfigNotRegular
  | ConfigRead string
  | ConfigSyntax
  | ConfigTrailing
  | ConfigMultiple
  | StartupNotPositive
  | ScanNotPositive
  | EmptyScannerID string
  | DuplicatedScannerID string
  | EmptyWorkerVersion string
  | NegativeWorkerDelay string
  | WorkerPath string string path_error

section \<open>Validation\<close>

definition regularPath :: "string + string \<Rightarrow> files \<Rightarrow> string \<Rightarrow> string \<Rightarrow> path_error + string" where
  "regularPath cwd fs base path =
     (if blank path then Inl EmptyPath
      else resolve_regular cwd fs (if IsAbs path then path else Join [base, path]))"

text \<open>The loop over the workers; \<open>seen\<close> are the scanner ids so far.\<close>

fun validateWorkers ::
  "string + string \<Rightarrow> files \<Rightarrow> string \<Rightarrow> string list \<Rightarrow> (string \<times> string \<times> Worker) list \<Rightarrow>
     load_config_error + Worker list" where
  "validateWorkers cwd fs base seen [] = Inr []"
| "validateWorkers cwd fs base seen ((name, transport, w) # rest) =
     (if blank (cScannerID w) then Inl (EmptyScannerID name)
      else if cScannerID w \<in> set seen then Inl (DuplicatedScannerID (cScannerID w))
      else if blank (cWorkerVersion w) then Inl (EmptyWorkerVersion name)
      else if cDelayMs w <s 0 then Inl (NegativeWorkerDelay name)
      else case regularPath cwd fs base (cExecutable w) of
        Inl e \<Rightarrow> Inl (WorkerPath name ''executable'' e)
      | Inr executable \<Rightarrow>
          (case regularPath cwd fs base (cSignaturePath w) of
             Inl e \<Rightarrow> Inl (WorkerPath name ''signaturePath'' e)
           | Inr signatures \<Rightarrow>
               (case validateWorkers cwd fs base (cScannerID w # seen) rest of
                  Inl e \<Rightarrow> Inl e
                | Inr ws \<Rightarrow> Inr (w\<lparr>cTransport := transport, cExecutable := executable,
                                cSignaturePath := signatures\<rparr> # ws))))"

definition validate :: "string + string \<Rightarrow> files \<Rightarrow> Config \<Rightarrow> load_config_error + Config" where
  "validate cwd fs c =
     (if StartupTimeoutMs c \<le>s 0 then Inl StartupNotPositive
      else if ScanTimeoutMs c \<le>s 0 then Inl ScanNotPositive
      else case validateWorkers cwd fs (BaseDir c) []
             [(''stdioWorker'', ''stdio'', StdioWorker c),
              (''socketWorker'', ''socket'', SocketWorker c),
              (''grpcWorker'', ''grpc'', GRPCWorker c)] of
        Inl e \<Rightarrow> Inl e
      | Inr ws \<Rightarrow> Inr (c\<lparr>StdioWorker := ws ! 0, SocketWorker := ws ! 1, GRPCWorker := ws ! 2\<rparr>))"

section \<open>Loading\<close>

definition Load :: "string + string \<Rightarrow> files \<Rightarrow> string \<Rightarrow> load_config_error + Config" where
  "Load cwd fs path =
     (case Abs cwd path of Inl e \<Rightarrow> Inl (ConfigPath e) | Inr absolutePath \<Rightarrow>
      (case fs absolutePath of
         Absent e \<Rightarrow> Inl (ConfigStat e)
       | Irregular \<Rightarrow> Inl ConfigNotRegular
       | RegularFile (Inl e) \<Rightarrow> Inl (ConfigRead e)
       | RegularFile (Inr data) \<Rightarrow>
           (case next_value data of
              Value v rest \<Rightarrow>
                (case store_struct configFields v zeroConfig of
                   None \<Rightarrow> Inl ConfigSyntax
                 | Some result \<Rightarrow>
                     (case next_value rest of
                        Value _ _ \<Rightarrow> Inl ConfigMultiple
                      | SyntaxError \<Rightarrow> Inl ConfigTrailing
                      | EndOfInput \<Rightarrow> validate cwd fs (result\<lparr>BaseDir := Dir absolutePath\<rparr>)))
            | _ \<Rightarrow> Inl ConfigSyntax)))"

definition Workers :: "Config \<Rightarrow> Worker list" where
  "Workers c = [StdioWorker c, SocketWorker c, GRPCWorker c]"

text \<open>\<^verbatim>\<open>time.Millisecond\<close> is a million nanoseconds.\<close>

definition StartupTimeout :: "Config \<Rightarrow> i64" where
  "StartupTimeout c = StartupTimeoutMs c * 1000000"

definition ScanTimeout :: "Config \<Rightarrow> i64" where
  "ScanTimeout c = ScanTimeoutMs c * 1000000"

section \<open>Lemmas\<close>

lemma regularPath_Inr:
  "regularPath cwd fs base path = Inr a \<longleftrightarrow>
     \<not> blank path \<and> Abs cwd (if IsAbs path then path else Join [base, path]) = Inr a \<and>
     (\<exists>c. fs a = RegularFile c)"
  by (auto simp: regularPath_def resolve_regular_Inr)

definition worker_valid :: "string + string \<Rightarrow> files \<Rightarrow> string \<Rightarrow> Worker \<Rightarrow> bool" where
  "worker_valid cwd fs base w \<longleftrightarrow>
     \<not> blank (cScannerID w) \<and> \<not> blank (cWorkerVersion w) \<and> 0 \<le>s cDelayMs w \<and>
     \<not> isl (regularPath cwd fs base (cExecutable w)) \<and> \<not> isl (regularPath cwd fs base (cSignaturePath w))"

definition resolved :: "string + string \<Rightarrow> files \<Rightarrow> string \<Rightarrow> string \<Rightarrow> Worker \<Rightarrow> Worker" where
  "resolved cwd fs base transport w =
     w\<lparr>cTransport := transport, cExecutable := projr (regularPath cwd fs base (cExecutable w)),
       cSignaturePath := projr (regularPath cwd fs base (cSignaturePath w))\<rparr>"

lemma validateWorkers_Cons:
  "validateWorkers cwd fs base seen ((name, transport, w) # rest) = Inr us \<longleftrightarrow>
     worker_valid cwd fs base w \<and> cScannerID w \<notin> set seen \<and>
     (\<exists>vs. validateWorkers cwd fs base (cScannerID w # seen) rest = Inr vs \<and>
        us = resolved cwd fs base transport w # vs)"
  by (auto simp: worker_valid_def resolved_def word_sle_eq word_sless_alt split: sum.splits)

declare validateWorkers.simps(2) [simp del]

lemma validateWorkers_Inr:
  "validateWorkers cwd fs base seen ws = Inr us \<longleftrightarrow>
     list_all (\<lambda>p. worker_valid cwd fs base (snd (snd p)) \<and> cScannerID (snd (snd p)) \<notin> set seen) ws \<and>
     distinct (map (\<lambda>p. cScannerID (snd (snd p))) ws) \<and>
     us = map (\<lambda>(n, t, w). resolved cwd fs base t w) ws"
proof (induction ws arbitrary: seen us)
  case Nil
  then show ?case by auto
next
  case (Cons p ws)
  obtain n t w where p: "p = (n, t, w)" by (cases p)
  show ?case
    by (simp only: p validateWorkers_Cons Cons.IH) (fastforce simp: list_all_iff image_iff)
qed

definition config_valid :: "string + string \<Rightarrow> files \<Rightarrow> Config \<Rightarrow> bool" where
  "config_valid cwd fs c \<longleftrightarrow> 0 <s StartupTimeoutMs c \<and> 0 <s ScanTimeoutMs c \<and>
     list_all (worker_valid cwd fs (BaseDir c)) (Workers c) \<and> distinct (map cScannerID (Workers c))"

definition resolved_config :: "string + string \<Rightarrow> files \<Rightarrow> Config \<Rightarrow> Config" where
  "resolved_config cwd fs c = c\<lparr>
     StdioWorker := resolved cwd fs (BaseDir c) ''stdio'' (StdioWorker c),
     SocketWorker := resolved cwd fs (BaseDir c) ''socket'' (SocketWorker c),
     GRPCWorker := resolved cwd fs (BaseDir c) ''grpc'' (GRPCWorker c)\<rparr>"

lemma validate_Inr:
  "validate cwd fs c = Inr c' \<longleftrightarrow> config_valid cwd fs c \<and> c' = resolved_config cwd fs c"
proof -
  let ?ws = "[(''stdioWorker'', ''stdio'', StdioWorker c), (''socketWorker'', ''socket'', SocketWorker c),
    (''grpcWorker'', ''grpc'', GRPCWorker c)]"
  have "validate cwd fs c = Inr c' \<longleftrightarrow> 0 <s StartupTimeoutMs c \<and> 0 <s ScanTimeoutMs c \<and>
      (\<exists>us. validateWorkers cwd fs (BaseDir c) [] ?ws = Inr us \<and>
         c' = c\<lparr>StdioWorker := us ! 0, SocketWorker := us ! 1, GRPCWorker := us ! 2\<rparr>)"
    unfolding validate_def by (auto simp: word_sle_eq word_sless_alt split: sum.split)
  then show ?thesis
    unfolding validateWorkers_Inr
    by (simp add: config_valid_def resolved_config_def Workers_def eval_nat_numeral)
qed

lemma resolved_paths:
  assumes "worker_valid cwd fs base w" "\<forall>wd. cwd = Inr wd \<longrightarrow> IsAbs wd"
    and "p = cExecutable (resolved cwd fs base t w) \<or> p = cSignaturePath (resolved cwd fs base t w)"
  shows "IsAbs p \<and> Clean p = p \<and> (\<exists>c. fs p = RegularFile c)"
proof -
  have "\<exists>q. regularPath cwd fs base q = Inr p"
    using assms(1,3) by (auto simp: worker_valid_def resolved_def intro: sum.collapse(2))
  with Abs_Inr [OF _ assms(2)] show ?thesis unfolding regularPath_Inr by blast
qed

text \<open>What the conditions give for the result.\<close>

lemma Load_valid:
  assumes "Load cwd fs path = Inr c" "\<forall>wd. cwd = Inr wd \<longrightarrow> IsAbs wd"
  shows "0 <s StartupTimeoutMs c" "0 <s ScanTimeoutMs c" "distinct (map cScannerID (Workers c))"
    "map cTransport (Workers c) = [''stdio'', ''socket'', ''grpc'']"
    "list_all (\<lambda>w. \<not> blank (cScannerID w) \<and> \<not> blank (cWorkerVersion w) \<and> 0 \<le>s cDelayMs w \<and>
      list_all (\<lambda>p. IsAbs p \<and> Clean p = p \<and> (\<exists>content. fs p = RegularFile content))
        [cExecutable w, cSignaturePath w]) (Workers c)"
proof -
  from assms(1) obtain b where c: "config_valid cwd fs b" "c = resolved_config cwd fs b"
    unfolding Load_def by (auto simp: validate_Inr split: sum.splits file_node.splits decoded.splits option.splits)
  have "list_all (\<lambda>p. IsAbs p \<and> Clean p = p \<and> (\<exists>content. fs p = RegularFile content))
      [cExecutable (resolved cwd fs (BaseDir b) t w), cSignaturePath (resolved cwd fs (BaseDir b) t w)]"
    if "w \<in> set (Workers b)" for w t
    using c(1) that resolved_paths [OF _ assms(2), of fs "BaseDir b" w _ t]
    by (simp add: config_valid_def list_all_iff)
  then show "0 <s StartupTimeoutMs c" "0 <s ScanTimeoutMs c" "distinct (map cScannerID (Workers c))"
    "map cTransport (Workers c) = [''stdio'', ''socket'', ''grpc'']"
    "list_all (\<lambda>w. \<not> blank (cScannerID w) \<and> \<not> blank (cWorkerVersion w) \<and> 0 \<le>s cDelayMs w \<and>
      list_all (\<lambda>p. IsAbs p \<and> Clean p = p \<and> (\<exists>content. fs p = RegularFile content))
        [cExecutable w, cSignaturePath w]) (Workers c)" using c
    by (simp_all add: config_valid_def resolved_config_def Workers_def resolved_def worker_valid_def)
qed

section \<open>Properties\<close>

text \<open>
  Loading is exact. \<^verbatim>\<open>Load\<close> succeeds for a readable regular file that holds one JSON
  value which decodes into the struct (no unknown member), with positive timeouts, workers
  whose scanner ids and versions are not blank, no negative delay, three different scanner
  ids, and paths of regular files; the result is what the file says, with the transports
  filled in and the paths resolved below the directory of the file. In every other case it
  is an error.
\<close>

theorem Load_exact:
  "Load cwd fs path = Inr c \<longleftrightarrow>
     (\<exists>a data v file. Abs cwd path = Inr a \<and> fs a = RegularFile (Inr data) \<and>
        single_value data = Some v \<and> store_struct configFields v zeroConfig = Some file \<and>
        config_valid cwd fs (file\<lparr>BaseDir := Dir a\<rparr>) \<and>
        c = resolved_config cwd fs (file\<lparr>BaseDir := Dir a\<rparr>))"
  unfolding Load_def single_value_iff
  by (auto simp: validate_Inr split: sum.splits file_node.splits decoded.splits option.splits)

text \<open>
  What is loaded can be run: the timeouts are positive, the three workers have distinct
  scanner ids that are not blank, the transports are stdio, socket and gRPC in this order,
  and the executable and the signatures of each are absolute clean paths of regular files.
\<close>

theorem Load_workers:
  assumes "Load cwd fs path = Inr c" "\<forall>wd. cwd = Inr wd \<longrightarrow> IsAbs wd"
  shows "0 <s StartupTimeoutMs c \<and> 0 <s ScanTimeoutMs c \<and>
    distinct (map cScannerID (Workers c)) \<and> map cTransport (Workers c) = [''stdio'', ''socket'', ''grpc''] \<and>
    list_all (\<lambda>w. \<not> blank (cScannerID w) \<and> \<not> blank (cWorkerVersion w) \<and> 0 \<le>s cDelayMs w \<and>
      list_all (\<lambda>p. IsAbs p \<and> Clean p = p \<and> (\<exists>content. fs p = RegularFile content))
        [cExecutable w, cSignaturePath w]) (Workers c)"
  using Load_valid [OF assms] by simp

text \<open>A configuration file with a given startup timeout.\<close>

definition demo_worker_json :: "string \<Rightarrow> json" where
  "demo_worker_json name = JObj
     [(''scannerId'', JStr name), (''workerVersion'', JStr ''1''), (''executable'', JStr ''./w''),
      (''signaturePath'', JStr ''../sig''), (''delayMs'', JNum (dec_int 5))]"

definition demo_config_json :: "int \<Rightarrow> json" where
  "demo_config_json ms = JObj
     [(''startupTimeoutMs'', JNum (dec_int ms)), (''scanTimeoutMs'', JNum (dec_int 50)),
      (''stdioWorker'', demo_worker_json ''a''), (''socketWorker'', demo_worker_json ''b''),
      (''grpcWorker'', demo_worker_json ''c'')]"

definition demo_config_files :: "int \<Rightarrow> files" where
  "demo_config_files ms path =
     (if path = ''/etc/av/c'' then RegularFile (Inr (print_json (demo_config_json ms)))
      else if path = ''/etc/av/w'' \<or> path = ''/etc/sig'' then RegularFile (Inr [])
      else Absent ''no such file'')"

definition demo_loaded_worker :: "string \<Rightarrow> string \<Rightarrow> Worker" where
  "demo_loaded_worker name transport = \<lparr>cScannerID = name, cWorkerVersion = ''1'', cTransport = transport,
     cExecutable = ''/etc/av/w'', cSignaturePath = ''/etc/sig'', cDelayMs = 5, cCrashOnScan = False,
     cFailHealth = False\<rparr>"

definition demo_loaded :: "int \<Rightarrow> Config" where
  "demo_loaded ms = \<lparr>StartupTimeoutMs = word_of_int ms, ScanTimeoutMs = 50,
     StdioWorker = demo_loaded_worker ''a'' ''stdio'', SocketWorker = demo_loaded_worker ''b'' ''socket'',
     GRPCWorker = demo_loaded_worker ''c'' ''grpc'', BaseDir = ''/etc/av''\<rparr>"

lemma demo_config_text:
  "single_value (print_json (demo_config_json ms)) = Some (demo_config_json ms)"
proof -
  have "printable (demo_config_json ms)"
    by (auto simp: demo_config_json_def demo_worker_json_def)
  moreover have "\<forall>s \<in> json_strings (demo_config_json ms). ascii s"
    by (simp add: demo_config_json_def demo_worker_json_def ascii_def)
  then have "coerce_json (demo_config_json ms) = demo_config_json ms"
    by (intro coerce_json_valid) (blast intro: ascii_valid)
  ultimately show ?thesis by (simp add: single_printed)
qed

lemma demo_store:
  assumes "- (2 ^ 63) \<le> ms" "ms < 2 ^ 63"
  shows "store_struct configFields (demo_config_json ms) zeroConfig =
    Some ((demo_loaded ms)\<lparr>BaseDir := '''',
      StdioWorker := (demo_loaded_worker ''a'' '''')\<lparr>cExecutable := ''./w'', cSignaturePath := ''../sig''\<rparr>,
      SocketWorker := (demo_loaded_worker ''b'' '''')\<lparr>cExecutable := ''./w'', cSignaturePath := ''../sig''\<rparr>,
      GRPCWorker := (demo_loaded_worker ''c'' '''')\<lparr>cExecutable := ''./w'', cSignaturePath := ''../sig''\<rparr>\<rparr>)"
  using assms
  by (simp add: demo_config_json_def demo_worker_json_def store_struct_def configFields_def workerFields_def
      find_field_def store_nested_def store_int_def store_string_def int64_def read_dec_int
      zeroConfig_def zeroWorker_def demo_loaded_def demo_loaded_worker_def)

lemma demo_Load:
  assumes "0 < ms" "ms < 2 ^ 63"
  shows "Load (Inr ''/etc'') (demo_config_files ms) ''av/c'' = Inr (demo_loaded ms)"
proof -
  have paths: "Abs (Inr ''/etc'') ''av/c'' = Inr ''/etc/av/c''" "Dir ''/etc/av/c'' = ''/etc/av''"
    "Join [''/etc/av'', ''./w''] = ''/etc/av/w''" "Join [''/etc/av'', ''../sig''] = ''/etc/sig''"
    "Clean ''/etc/av/w'' = ''/etc/av/w''" "Clean ''/etc/sig'' = ''/etc/sig''"
    "\<not> IsAbs ''./w''" "\<not> IsAbs ''../sig''" "IsAbs ''/etc/av/w''" "IsAbs ''/etc/sig''"
    "\<not> blank ''./w''" "\<not> blank ''../sig''" "\<not> blank ''a''" "\<not> blank ''b''" "\<not> blank ''c''" "\<not> blank ''1''"
    by code_simp+
  have files: "demo_config_files ms ''/etc/av/c'' = RegularFile (Inr (print_json (demo_config_json ms)))"
    "demo_config_files ms ''/etc/av/w'' = RegularFile (Inr [])"
    "demo_config_files ms ''/etc/sig'' = RegularFile (Inr [])"
    by (simp_all add: demo_config_files_def)
  obtain r where parsed: "next_value (print_json (demo_config_json ms)) = Value (demo_config_json ms) r"
    "next_value r = EndOfInput"
    using demo_config_text [of ms] unfolding single_value_iff by blast
  have regular: "regularPath (Inr ''/etc'') (demo_config_files ms) ''/etc/av'' ''./w'' = Inr ''/etc/av/w''"
    "regularPath (Inr ''/etc'') (demo_config_files ms) ''/etc/av'' ''../sig'' = Inr ''/etc/sig''"
    unfolding regularPath_Inr by (simp_all add: paths files Abs_rooted)
  have "sint (word_of_int ms :: i64) = ms"
    using assms by (simp add: sint_sbintrunc' signed_take_bit_int_eq_self)
  then have sign: "0 <s (word_of_int ms :: i64)" using assms(1) by (simp add: word_sless_alt)
  have "Load (Inr ''/etc'') (demo_config_files ms) ''av/c'' =
      validate (Inr ''/etc'') (demo_config_files ms)
        ((demo_loaded ms)\<lparr>StdioWorker := (demo_loaded_worker ''a'' '''')\<lparr>cExecutable := ''./w'', cSignaturePath := ''../sig''\<rparr>,
          SocketWorker := (demo_loaded_worker ''b'' '''')\<lparr>cExecutable := ''./w'', cSignaturePath := ''../sig''\<rparr>,
          GRPCWorker := (demo_loaded_worker ''c'' '''')\<lparr>cExecutable := ''./w'', cSignaturePath := ''../sig''\<rparr>\<rparr>)"
    using demo_store [of ms] assms
    by (simp add: Load_def paths files parsed) (simp add: demo_loaded_def)
  also have "\<dots> = Inr (demo_loaded ms)"
    unfolding validate_Inr using sign
    by (simp add: config_valid_def resolved_config_def Workers_def worker_valid_def resolved_def regular
        demo_loaded_def demo_loaded_worker_def paths word_sless_alt word_sle_eq)
  finally show ?thesis .
qed

theorem Load_workers_witness:
  "distinct (map cScannerID (Workers (demo_loaded 100))) \<and>
   map cTransport (Workers (demo_loaded 100)) = [''stdio'', ''socket'', ''grpc''] \<and>
   IsAbs (cExecutable (GRPCWorker (demo_loaded 100)))"
proof -
  have 1: "Load (Inr ''/etc'') (demo_config_files 100) ''av/c'' = Inr (demo_loaded 100)"
    by (rule demo_Load) simp_all
  have 2: "\<forall>wd. Inr ''/etc'' = (Inr wd :: string + string) \<longrightarrow> IsAbs wd" by (simp add: IsAbs_def)
  from Load_workers [OF 1 2] show ?thesis by (simp add: Workers_def)
qed

end
