(* ===== verification/Manifest.thy ===== *)
theory Manifest
  imports Json Paths
begin

text \<open>
  The manifest of a release, \<^verbatim>\<open>src/pkg/update/update.go\<close>: \<^verbatim>\<open>decodeManifest\<close>
  walks over the tokens of a JSON text and refuses duplicate and unknown names,
  \<^verbatim>\<open>validateManifest\<close> refuses names that could leave the staging directory, and
  \<^verbatim>\<open>equalDigest\<close> compares digests without an early exit. The token calls are those
  of \<^verbatim>\<open>json.Decoder\<close>, on the text that is left to read.
\<close>

section \<open>Decoding\<close>

record Manifest =
  mfScannerID :: string
  mfWorkerVersion :: string
  mfSignatureVersion :: string
  mfArtifactPath :: string
  mfSHA256 :: string

definition zeroManifest :: Manifest where
  "zeroManifest = \<lparr>mfScannerID = '''', mfWorkerVersion = '''', mfSignatureVersion = '''',
     mfArtifactPath = '''', mfSHA256 = ''''\<rparr>"

definition manifestFields :: "(string \<times> Manifest setter) list" where
  "manifestFields =
     [(''scannerId'', store_string mfScannerID_update),
      (''workerVersion'', store_string mfWorkerVersion_update),
      (''signatureVersion'', store_string mfSignatureVersion_update),
      (''artifactPath'', store_string mfArtifactPath_update),
      (''sha256'', store_string mfSHA256_update)]"

datatype manifest_error =
    ManifestSyntax
  | NotAnObject
  | DuplicateField string
  | UnknownField string
  | BadField string
  | ManifestTrailing
  | ManifestMultiple

text \<open>
  \<^verbatim>\<open>Token\<close> where a key may stand: the first key follows the opening brace, any other
  key a comma.
\<close>

definition token_key :: "bool \<Rightarrow> string \<Rightarrow> (string \<times> string) option" where
  "token_key first s =
     (case skip_space s of [] \<Rightarrow> None | c # r \<Rightarrow>
      if first then (if c = dquote then unquote r else None)
      else if c = CHR '','' then
        (case skip_space r of [] \<Rightarrow> None | d # r' \<Rightarrow> if d = dquote then unquote r' else None)
      else None)"

text \<open>\<^verbatim>\<open>Decode\<close> after a key: a colon and a value.\<close>

definition member_value :: "string \<Rightarrow> (json \<times> string) option" where
  "member_value s =
     (case skip_space s of [] \<Rightarrow> None | c # r \<Rightarrow>
      if c = CHR '':'' then (case next_value r of Value v r' \<Rightarrow> Some (v, r') | _ \<Rightarrow> None)
      else None)"

lemma token_key_length: "token_key first s = Some (k, r) \<Longrightarrow> length r < length s"
  by (auto simp: token_key_def dest!: skip_space_ConsD unquote_length split: list.splits if_splits)

lemma next_value_length: "next_value s = Value v r \<Longrightarrow> length r < length s"
  using skip_space_length [of s]
  by (auto simp: next_value_def simp del: parse_value.simps dest!: parse_length(1)
      split: list.splits option.splits)

lemma member_value_length: "member_value s = Some (v, r) \<Longrightarrow> length r < length s"
  by (auto simp: member_value_def dest!: skip_space_ConsD next_value_length
      split: list.splits if_splits decoded.splits)

text \<open>
  The loop over the members, while \<^verbatim>\<open>More\<close> says so, and the closing brace;
  \<open>seen\<close> are the names so far.
\<close>

function manifest_loop ::
  "string list \<Rightarrow> bool \<Rightarrow> Manifest \<Rightarrow> string \<Rightarrow> manifest_error + Manifest \<times> string" where
  "manifest_loop seen first m s =
     (case skip_space s of [] \<Rightarrow> Inl ManifestSyntax | c # r \<Rightarrow>
      if c = CHR ''}'' then Inr (m, r)
      else if c = CHR '']'' then Inl ManifestSyntax
      else case token_key first s of None \<Rightarrow> Inl ManifestSyntax | Some (name, r1) \<Rightarrow>
        if name \<in> set seen then Inl (DuplicateField name)
        else case map_of manifestFields name of None \<Rightarrow> Inl (UnknownField name) | Some target \<Rightarrow>
         (case member_value r1 of None \<Rightarrow> Inl (BadField name) | Some (v, r2) \<Rightarrow>
          (case target v m of
             None \<Rightarrow> Inl (BadField name)
           | Some m' \<Rightarrow> manifest_loop (name # seen) False m' r2)))"
  by pat_completeness auto
termination
  by (relation "measure (\<lambda>(seen, first, m, s). length s)")
    (auto dest!: token_key_length member_value_length)

declare manifest_loop.simps [simp del]

definition decodeManifest :: "string \<Rightarrow> manifest_error + Manifest" where
  "decodeManifest s =
     (case skip_space s of [] \<Rightarrow> Inl ManifestSyntax | c # r \<Rightarrow>
      if c = CHR ''{'' then
        (case manifest_loop [] True zeroManifest r of
           Inl e \<Rightarrow> Inl e
         | Inr (m, rest) \<Rightarrow>
             (case skip_space rest of
                [] \<Rightarrow> Inr m
              | d # _ \<Rightarrow>
                  if d = CHR ''{'' \<or> d = CHR ''['' then Inl ManifestMultiple
                  else (case next_value rest of
                          Value _ _ \<Rightarrow> Inl ManifestMultiple
                        | _ \<Rightarrow> Inl ManifestTrailing)))
      else if c = CHR ''['' then Inl NotAnObject
      else (case next_value s of Value _ _ \<Rightarrow> Inl NotAnObject | _ \<Rightarrow> Inl ManifestSyntax))"

section \<open>Validation\<close>

text \<open>\<^verbatim>\<open>filepath.VolumeName\<close> is empty for every path here.\<close>

definition safePathComponent :: "string \<Rightarrow> bool" where
  "safePathComponent s \<longleftrightarrow>
     s \<noteq> ''.'' \<and> s \<noteq> ''..'' \<and> \<not> list_ex (\<lambda>c. c = slash \<or> c = CHR 0x5C) s"

text \<open>\<^verbatim>\<open>hex.DecodeString\<close>.\<close>

fun hex_decode :: "string \<Rightarrow> bytes option" where
  "hex_decode [] = Some []"
| "hex_decode [c] = None"
| "hex_decode (a # b # s) =
     (case hex_value a of None \<Rightarrow> None | Some x \<Rightarrow>
      (case hex_value b of None \<Rightarrow> None | Some y \<Rightarrow>
       map_option ((#) (char_of (16 * x + y))) (hex_decode s)))"

datatype invalid_manifest =
    BlankField string
  | UnsafeScannerID string
  | UnsafeWorkerVersion string
  | DigestLength
  | DigestNotHex

definition validateManifest :: "Manifest \<Rightarrow> invalid_manifest option" where
  "validateManifest m =
     (case find (\<lambda>(name, v). blank v)
             [(''scannerId'', mfScannerID m), (''workerVersion'', mfWorkerVersion m),
              (''signatureVersion'', mfSignatureVersion m), (''artifactPath'', mfArtifactPath m),
              (''sha256'', mfSHA256 m)] of
        Some (name, _) \<Rightarrow> Some (BlankField name)
      | None \<Rightarrow>
          if \<not> safePathComponent (mfScannerID m) then Some (UnsafeScannerID (mfScannerID m))
          else if \<not> safePathComponent (mfWorkerVersion m) then Some (UnsafeWorkerVersion (mfWorkerVersion m))
          else if length (mfSHA256 m) \<noteq> 64 then Some DigestLength
          else if hex_decode (mfSHA256 m) = None then Some DigestNotHex
          else None)"

text \<open>
  \<^verbatim>\<open>strings.ToLower\<close> on ASCII. It is asked for a digest, which is hexadecimal, and to
  find the prefixes of a URL, whose letters no other character lowers to.
\<close>

definition to_lower :: "string \<Rightarrow> string" where
  "to_lower s = map (\<lambda>c. if 65 \<le> byte c \<and> byte c \<le> 90 then char_of (byte c + 32) else c) s"


section \<open>Digests\<close>

definition byte_word :: "char \<Rightarrow> 8 word" where
  "byte_word c = of_nat (byte c)"

fun difference :: "8 word \<Rightarrow> bytes \<Rightarrow> bytes \<Rightarrow> 8 word" where
  "difference d (a # left) (b # right) =
     difference (or d (xor (byte_word a) (byte_word b))) left right"
| "difference d _ _ = d"

definition equalDigest :: "bytes \<Rightarrow> bytes \<Rightarrow> bool" where
  "equalDigest left right \<longleftrightarrow> length left = length right \<and> difference 0 left right = 0"

section \<open>Lemmas\<close>

text \<open>What the value parser finds where the loop stands.\<close>

definition rest_members :: "nat \<Rightarrow> bool \<Rightarrow> string \<Rightarrow> ((string \<times> json) list \<times> string) option" where
  "rest_members n first s =
     (case skip_space s of [] \<Rightarrow> None | c # r \<Rightarrow>
      if c = CHR ''}'' then Some ([], r)
      else if first then parse_members n (c # r)
      else if c = CHR '','' then parse_members n (skip_space r)
      else None)"

lemma skip_skip: "skip_space s = c # r \<Longrightarrow> skip_space (c # r) = c # r"
  unfolding skip_space_def by (metis dropWhile_idem)

lemma next_value_parse:
  "2 * length s \<le> n \<Longrightarrow>
     (case next_value s of Value v r \<Rightarrow> Some (v, r) | _ \<Rightarrow> None) = parse_value n (skip_space s)"
proof (cases "skip_space s")
  case Nil
  then show ?thesis by (cases n) (simp_all add: next_value_def)
next
  case (Cons c r)
  assume "2 * length s \<le> n"
  then have "2 * length (c # r) \<le> n" using skip_space_ConsD [OF Cons] by simp
  then have "parse_value n (c # r) = parse_value (2 * length (c # r)) (c # r)" by (rule parse_value_fuel)
  then show ?thesis
    by (simp only: next_value_def Cons list.case) (simp split: option.split)
qed

lemma rest_members_step:
  assumes "2 * length s \<le> n"
  shows "rest_members (Suc n) first s =
     (case skip_space s of [] \<Rightarrow> None | c # r \<Rightarrow>
      if c = CHR ''}'' then Some ([], r)
      else case token_key first s of None \<Rightarrow> None | Some (name, r1) \<Rightarrow>
       (case member_value r1 of None \<Rightarrow> None | Some (v, r2) \<Rightarrow>
        map_option (apfst ((#) (name, v))) (rest_members n False r2)))"
proof -
  have members: "parse_members (Suc n) t =
      (case t of [] \<Rightarrow> None | c # r \<Rightarrow>
       if c \<noteq> dquote then None
       else case unquote r of None \<Rightarrow> None | Some (name, r1) \<Rightarrow>
        (case member_value r1 of None \<Rightarrow> None | Some (v, r2) \<Rightarrow>
         map_option (apfst ((#) (name, v))) (rest_members n False r2)))"
    if "length t \<le> length s" for t
  proof -
    have "(case skip_space r1 of [] \<Rightarrow> None | d # r2 \<Rightarrow>
        if d \<noteq> CHR '':'' then None
        else case parse_value n (skip_space r2) of None \<Rightarrow> None | Some (v, r3) \<Rightarrow>
         (case skip_space r3 of
            [] \<Rightarrow> None
          | e # r4 \<Rightarrow>
              if e = CHR ''}'' then Some ([(k, v)], r4)
              else if e = CHR '','' then
                map_option (apfst ((#) (k, v))) (parse_members n (skip_space r4))
              else None)) =
       (case member_value r1 of None \<Rightarrow> None | Some (v, r2) \<Rightarrow>
         map_option (apfst ((#) (k, v))) (rest_members n False r2))"
      if "length r1 < length s" for k r1
    proof (cases "skip_space r1")
      case Nil
      then show ?thesis by (simp add: member_value_def)
    next
      case (Cons d r2)
      have "2 * length r2 \<le> n" using skip_space_ConsD [OF Cons] that assms by simp
      note eq = next_value_parse [OF this, symmetric]
      show ?thesis
        by (auto simp: member_value_def rest_members_def Cons eq simp del: parse_value.simps
            split: decoded.split list.split)
    qed
    then show ?thesis
      using \<open>length t \<le> length s\<close>
      by (cases t) (auto dest!: unquote_length simp del: parse_value.simps split: option.split)
  qed
  show ?thesis
  proof (cases "skip_space s")
    case Nil
    then show ?thesis by (simp add: rest_members_def)
  next
    case (Cons c r)
    note len = skip_space_ConsD [OF Cons] skip_space_length [of r]
    show ?thesis
      using len
      by (auto simp: rest_members_def token_key_def Cons members simp del: parse_members.simps parse_value.simps
          split: list.split)
  qed
qed

lemma loop_members:
  assumes "2 * length s < n"
  shows "manifest_loop seen first m s = Inr (m', r) \<longleftrightarrow>
     (\<exists>ms. rest_members n first s = Some (ms, r) \<and> distinct (map fst ms) \<and>
        set (map fst ms) \<inter> set seen = {} \<and> set (map fst ms) \<subseteq> set (map fst manifestFields) \<and>
        store_members manifestFields ms m = Some m')"
  using assms
proof (induction seen first m s arbitrary: n rule: manifest_loop.induct)
  case (1 seen first m s)
  then obtain k where n: "n = Suc k" "2 * length s \<le> k" by (cases n) auto
  show ?case
  proof (cases "skip_space s")
    case Nil
    then show ?thesis by (subst manifest_loop.simps) (simp add: rest_members_def)
  next
    case (Cons c r0)
    consider (close) "c = CHR ''}''" | (bracket) "c = CHR '']''" | (key) "c \<noteq> CHR ''}''" "c \<noteq> CHR '']''"
      by blast
    then show ?thesis
    proof cases
      case close
      with Cons show ?thesis
        by (subst manifest_loop.simps) (auto simp: rest_members_def)
    next
      case bracket
      have "token_key first s = None" using bracket Cons by (simp add: token_key_def)
      with bracket Cons show ?thesis
        by (subst manifest_loop.simps) (simp add: n(1) rest_members_step [OF n(2)])
    next
      case key
      show ?thesis
      proof (cases "token_key first s")
        case None
        with key Cons show ?thesis
          by (subst manifest_loop.simps) (simp add: n(1) rest_members_step [OF n(2)])
      next
        case (Some p)
        obtain name r1 where tok: "token_key first s = Some (name, r1)" using Some by (cases p) auto
        show ?thesis
        proof (cases "name \<in> set seen \<or> map_of manifestFields name = None \<or> member_value r1 = None")
          case True
          then have "\<not> (\<exists>m' r. manifest_loop seen first m s = Inr (m', r))"
            using key Cons tok by (subst manifest_loop.simps) (auto split: option.splits)
          moreover have "name \<in> set seen \<or> name \<notin> set (map fst manifestFields) \<or> member_value r1 = None"
            using True by (auto simp: map_of_eq_None_iff)
          ultimately show ?thesis
            using key Cons tok
            by (auto simp: n(1) rest_members_step [OF n(2)] split: option.splits)
        next
          case False
          then obtain target v r2 where step: "name \<notin> set seen" "map_of manifestFields name = Some target"
            "member_value r1 = Some (v, r2)" by auto
          have known: "name \<in> set (map fst manifestFields)"
            using step(2) by (metis domI dom_map_of_conv_image_fst set_map)
          have fuel: "2 * length r2 < k"
            using token_key_length [OF tok] member_value_length [OF step(3)] n(2) by simp
          have field: "find_field manifestFields name = Some target" by (simp add: find_field_def step(2))
          have loop: "manifest_loop seen first m s =
              (case target v m of None \<Rightarrow> Inl (BadField name) | Some m' \<Rightarrow> manifest_loop (name # seen) False m' r2)"
            using key Cons tok step by (subst manifest_loop.simps) simp
          have rest: "rest_members n first s = map_option (apfst ((#) (name, v))) (rest_members k False r2)"
            using key Cons tok step(3) by (simp add: n(1) rest_members_step [OF n(2)])
          show ?thesis
          proof (cases "target v m")
            case None
            then show ?thesis by (auto simp: loop rest field)
          next
            case (Some m1)
            note IH = "1.IH" [OF Cons key tok refl step(1,2,3) refl Some fuel]
            show ?thesis
              unfolding loop rest Some option.case IH using step(1) known
              by (auto simp: field Some) (metis fst_conv image_eqI)
          qed
        qed
      qed
    qed
  qed
qed

text \<open>The exclusive or of two bytes is zero exactly if they are equal.\<close>

lemma difference_zero: "length left = length right \<Longrightarrow> difference d left right = 0 \<longleftrightarrow> d = 0 \<and> left = right"
proof (induction d left right rule: difference.induct)
  case (1 d a left b right)
  have "xor (byte_word a) (byte_word b) = 0 \<longleftrightarrow> byte_word a = byte_word b"
    by (metis xor.assoc xor.right_neutral xor_self_eq xor.left_neutral)
  also have "\<dots> \<longleftrightarrow> byte a = byte b"
    by (auto simp: byte_word_def word_of_nat_eq_iff take_bit_eq_mod)
  finally have "xor (byte_word a) (byte_word b) = 0 \<longleftrightarrow> a = b" by simp
  with 1 show ?case by (auto simp: or_eq_0_iff)
qed auto

lemma equalDigest_eq: "equalDigest left right \<longleftrightarrow> left = right"
  by (auto simp: equalDigest_def difference_zero)

lemma safe_plain: "safePathComponent s \<Longrightarrow> s \<noteq> '''' \<Longrightarrow> plain_name s"
  by (auto simp: safePathComponent_def plain_name_def list_ex_iff)

lemma validateManifest_None:
  "validateManifest m = None \<longleftrightarrow>
     list_all (\<lambda>s. \<not> blank s) [mfScannerID m, mfWorkerVersion m, mfSignatureVersion m, mfArtifactPath m, mfSHA256 m] \<and>
     safePathComponent (mfScannerID m) \<and> safePathComponent (mfWorkerVersion m) \<and>
     length (mfSHA256 m) = 64 \<and> hex_decode (mfSHA256 m) \<noteq> None"
  by (auto simp: validateManifest_def)

lemma hex_decode_length: "hex_decode s = Some d \<Longrightarrow> 2 * length d = length s"
  by (induction s arbitrary: d rule: hex_decode.induct) (auto split: option.splits)

lemma next_value_object:
  "next_value s = Value (JObj ms) rest \<longleftrightarrow>
     (\<exists>r. skip_space s = CHR ''{'' # r \<and> rest_members (Suc (2 * length r)) True r = Some (ms, rest))"
proof (cases "skip_space s")
  case Nil
  then show ?thesis by (simp add: next_value_def)
next
  case (Cons c r)
  have fuel: "2 * length (c # r) = Suc (Suc (2 * length r))" by simp
  have "parse_value (Suc n) (c # r) = Some (JObj ms, rest) \<longleftrightarrow>
      c = CHR ''{'' \<and> rest_members n True r = Some (ms, rest)" for n
    by (auto simp: rest_members_def literal_def split: list.splits if_splits)
  note object = this [of "Suc (2 * length r)", folded fuel]
  have "(case x of None \<Rightarrow> SyntaxError | Some (v, r') \<Rightarrow> Value v r') = Value w t \<longleftrightarrow> x = Some (w, t)"
    for x w t by (auto split: option.splits)
  then show ?thesis
    by (simp only: next_value_def Cons list.case object) simp
qed

lemma next_value_end: "next_value s = EndOfInput \<longleftrightarrow> skip_space s = []"
  by (auto simp: next_value_def simp del: parse_value.simps split: list.splits option.splits)

lemma decodeManifest_Inr:
  "decodeManifest s = Inr m \<longleftrightarrow>
     (\<exists>r rest. skip_space s = CHR ''{'' # r \<and> manifest_loop [] True zeroManifest r = Inr (m, rest) \<and>
        next_value rest = EndOfInput)"
  by (auto simp: decodeManifest_def next_value_end split: list.splits sum.splits decoded.splits)

section \<open>Properties\<close>

text \<open>
  C22. The token loop reads exactly what a reader of whole values would. A manifest is decoded
  if and only if the text is one JSON object whose member names are distinct and among the
  five of the struct, letter for letter, and whose values are strings or \<^verbatim>\<open>null\<close>; the
  fields are those values. The loop ends on every text.
\<close>

theorem decodeManifest_exact:
  "decodeManifest s = Inr m \<longleftrightarrow>
     (\<exists>ms. single_value s = Some (JObj ms) \<and> distinct (map fst ms) \<and>
        set (map fst ms) \<subseteq> set (map fst manifestFields) \<and>
        store_members manifestFields ms zeroManifest = Some m)"
proof -
  have "manifest_loop [] True zeroManifest r = Inr (m, rest) \<longleftrightarrow>
      (\<exists>ms. rest_members (Suc (2 * length r)) True r = Some (ms, rest) \<and> distinct (map fst ms) \<and>
        set (map fst ms) \<subseteq> set (map fst manifestFields) \<and>
        store_members manifestFields ms zeroManifest = Some m)" for r rest
    using loop_members [of r "Suc (2 * length r)" "[]" True zeroManifest m rest] by simp
  then show ?thesis
    unfolding decodeManifest_Inr single_value_iff next_value_object by blast
qed

end
