(* ===== verification/Staging.thy ===== *)
theory Staging
  imports Manifest
begin

text \<open>
  The staging area of \<^verbatim>\<open>src/pkg/update/update.go\<close>: an artifact is copied (or
  downloaded) into a temporary directory, checked against its digest, and published by
  renaming the directory to the one of its version. The file system is a tree of nodes by
  path; any call may fail, and other processes may change the tree before any call. SHA-256
  is a parameter \<open>sha\<close>.
\<close>

section \<open>The file system\<close>

text \<open>
  A regular file has its permission bits and its content; reading any other file that is not
  a directory gives what it gives.
\<close>

datatype node = Directory | Regular nat bytes | Special "string + bytes"

type_synonym tree = "string list \<Rightarrow> node option"

datatype os_call =
    StatDirectory
  | StatManifest
  | OpenManifest
  | ReadManifest
  | StatArtifact
  | OpenArtifact
  | ReadArtifact
  | StatStaged
  | OpenStaged
  | ReadStaged
  | MakeRoot
  | MakeTemp
  | OpenSource
  | CreateStaged
  | CopyStaged
  | CloseStaged
  | ChmodStaged
  | RenameStaged
  | StatStagedAgain
  | OpenStagedAgain
  | ReadStagedAgain
  | RemoveTemp
  | ContextStart
  | ContextRename
  | GetManifest
  | GetArtifact

text \<open>
  \<^term>\<open>fails\<close> is the error a call returns, \<^term>\<open>world\<close> is what others do just
  before it, \<^term>\<open>random\<close> is the random part of the temporary name, \<^term>\<open>created\<close>
  are the permissions that a new file gets under the process's mask, and \<^term>\<open>partial\<close>
  is how much a failing copy has written.
\<close>

record os =
  fails :: "os_call \<Rightarrow> string option"
  world :: "os_call \<Rightarrow> tree \<Rightarrow> tree"
  random :: string
  created :: "nat \<Rightarrow> nat"
  partial :: nat

datatype update_error =
    CallFailed os_call string
  | StagedNotRegular
  | PermissionConflict
  | ContentConflict
  | NoFileName
  | UnsafeFileName
  | ArtifactChanged
  | DigestMismatch
  | TooBig
  | HTTPStatus nat
  | BlankPath
  | NotADirectory
  | UpdatePath path_error
  | BadManifest manifest_error
  | InvalidManifest invalid_manifest
  | BadURL
  | NotSameOrigin

text \<open>A path with a component that is not a directory cannot be reached.\<close>

definition blocked :: "tree \<Rightarrow> string list \<Rightarrow> bool" where
  "blocked t p \<longleftrightarrow>
     list_ex (\<lambda>q. q \<noteq> p \<and> t q \<noteq> None \<and> t q \<noteq> Some Directory) (prefixes p)"

datatype stat_result = NotExist | StatError string | Node node

definition stat :: "os \<Rightarrow> os_call \<Rightarrow> tree \<Rightarrow> string \<Rightarrow> stat_result \<times> tree" where
  "stat os c t path =
     (let t = world os c t in
      (case fails os c of
         Some e \<Rightarrow> StatError e
       | None \<Rightarrow>
           if blocked t (names path) then StatError ''not a directory''
           else case t (names path) of None \<Rightarrow> NotExist | Some n \<Rightarrow> Node n, t))"

text \<open>Opening a file for reading, and reading it to its end.\<close>

definition open_file :: "os \<Rightarrow> os_call \<Rightarrow> tree \<Rightarrow> string \<Rightarrow> update_error option \<times> tree" where
  "open_file os c t path =
     (let t = world os c t in
      (case fails os c of
         Some e \<Rightarrow> Some (CallFailed c e)
       | None \<Rightarrow> if t (names path) = None then Some (CallFailed c ''no such file'') else None, t))"

definition read_file :: "os \<Rightarrow> os_call \<Rightarrow> tree \<Rightarrow> string \<Rightarrow> (update_error + bytes) \<times> tree" where
  "read_file os c t path =
     (let t = world os c t in
      (case fails os c of
         Some e \<Rightarrow> Inl (CallFailed c e)
       | None \<Rightarrow>
           (case t (names path) of
              Some (Regular _ content) \<Rightarrow> Inr content
            | Some (Special (Inr content)) \<Rightarrow> Inr content
            | Some (Special (Inl e)) \<Rightarrow> Inl (CallFailed c e)
            | _ \<Rightarrow> Inl (CallFailed c ''is a directory'')), t))"

text \<open>\<^verbatim>\<open>os.MkdirAll\<close>, \<^verbatim>\<open>os.MkdirTemp\<close>, \<^verbatim>\<open>os.RemoveAll\<close> and \<^verbatim>\<open>os.Rename\<close> of a directory.\<close>

definition MkdirAll :: "os \<Rightarrow> tree \<Rightarrow> string \<Rightarrow> update_error option \<times> tree" where
  "MkdirAll os t path =
     (let t = world os MakeRoot t; p = names path in
      case fails os MakeRoot of
        Some e \<Rightarrow> (Some (CallFailed MakeRoot e), t)
      | None \<Rightarrow>
          if blocked t p \<or> (t p \<noteq> None \<and> t p \<noteq> Some Directory)
          then (Some (CallFailed MakeRoot ''not a directory''), t)
          else (None, \<lambda>q. if prefix q p \<and> t q = None then Some Directory else t q))"

definition temp_name :: "string \<Rightarrow> string \<Rightarrow> string" where
  "temp_name pattern rnd =
     (if CHR ''*'' \<in> set pattern then
        rev (tl (dropWhile (\<lambda>c. c \<noteq> CHR ''*'') (rev pattern))) @ rnd @
        rev (takeWhile (\<lambda>c. c \<noteq> CHR ''*'') (rev pattern))
      else pattern @ rnd)"

definition MkdirTemp :: "os \<Rightarrow> tree \<Rightarrow> string \<Rightarrow> string \<Rightarrow> (update_error + string) \<times> tree" where
  "MkdirTemp os t dir pattern =
     (let t = world os MakeTemp t; path = Join [dir, temp_name pattern (random os)]; p = names path in
      case fails os MakeTemp of
        Some e \<Rightarrow> (Inl (CallFailed MakeTemp e), t)
      | None \<Rightarrow>
          if t p \<noteq> None \<or> t (names dir) \<noteq> Some Directory then (Inl (CallFailed MakeTemp ''cannot create''), t)
          else (Inr path, t(p \<mapsto> Directory)))"

definition RemoveAll :: "os \<Rightarrow> tree \<Rightarrow> string \<Rightarrow> tree" where
  "RemoveAll os t path =
     (let t = world os RemoveTemp t in
      case fails os RemoveTemp of
        Some e \<Rightarrow> t
      | None \<Rightarrow> (\<lambda>q. if prefix (names path) q then None else t q))"

definition Rename :: "os \<Rightarrow> tree \<Rightarrow> string \<Rightarrow> string \<Rightarrow> update_error option \<times> tree" where
  "Rename os t old new =
     (let t = world os RenameStaged t; p = names old; p' = names new in
      case fails os RenameStaged of
        Some e \<Rightarrow> (Some (CallFailed RenameStaged e), t)
      | None \<Rightarrow>
          if t p \<noteq> Some Directory \<or> t p' \<noteq> None \<or> t (butlast p') \<noteq> Some Directory
          then (Some (CallFailed RenameStaged ''cannot rename''), t)
          else (None, \<lambda>q. if prefix p' q then t (p @ drop (length p') q)
                          else if prefix p q then None else t q))"

section \<open>Checking a staged artifact\<close>

definition hashFile :: "os \<Rightarrow> (bytes \<Rightarrow> bytes) \<Rightarrow> os_call \<Rightarrow> os_call \<Rightarrow> tree \<Rightarrow> string \<Rightarrow>
    (update_error + bytes) \<times> tree" where
  "hashFile os sha opening reading t path =
     (case open_file os opening t path of
        (Some e, t) \<Rightarrow> (Inl e, t)
      | (None, t) \<Rightarrow>
          (case read_file os reading t path of
             (Inl e, t) \<Rightarrow> (Inl e, t)
           | (Inr content, t) \<Rightarrow> (Inr (sha content), t)))"

text \<open>The calls of the first check and of the one after a failed rename.\<close>

definition reusableStagedArtifact ::
  "os \<Rightarrow> (bytes \<Rightarrow> bytes) \<Rightarrow> os_call \<times> os_call \<times> os_call \<Rightarrow> tree \<Rightarrow> string \<Rightarrow> nat \<Rightarrow> bytes \<Rightarrow>
     (update_error + bool) \<times> tree" where
  "reusableStagedArtifact os sha calls t path mode expected =
     (let (stating, opening, reading) = calls in
      case stat os stating t path of
        (NotExist, t) \<Rightarrow> (Inr False, t)
      | (StatError e, t) \<Rightarrow> (Inl (CallFailed stating e), t)
      | (Node n, t) \<Rightarrow>
          (case n of
             Regular perm _ \<Rightarrow>
               if perm \<noteq> mode then (Inl PermissionConflict, t)
               else (case hashFile os sha opening reading t path of
                       (Inl e, t) \<Rightarrow> (Inl e, t)
                     | (Inr digest, t) \<Rightarrow>
                         if digest \<noteq> expected then (Inl ContentConflict, t) else (Inr True, t))
           | _ \<Rightarrow> (Inl StagedNotRegular, t)))"

definition firstCheck :: "os_call \<times> os_call \<times> os_call" where
  "firstCheck = (StatStaged, OpenStaged, ReadStaged)"

definition secondCheck :: "os_call \<times> os_call \<times> os_call" where
  "secondCheck = (StatStagedAgain, OpenStagedAgain, ReadStagedAgain)"

section \<open>Filling the temporary directory\<close>

text \<open>Creating a file that must not exist; writing to it, closing it, setting its mode.\<close>

definition create_file :: "os \<Rightarrow> tree \<Rightarrow> string \<Rightarrow> nat \<Rightarrow> update_error option \<times> tree" where
  "create_file os t path mode =
     (let t = world os CreateStaged t; p = names path in
      case fails os CreateStaged of
        Some e \<Rightarrow> (Some (CallFailed CreateStaged e), t)
      | None \<Rightarrow>
          if t p \<noteq> None \<or> t (butlast p) \<noteq> Some Directory
          then (Some (CallFailed CreateStaged ''cannot create''), t)
          else (None, t(p \<mapsto> Regular (created os mode) [])))"

definition write_file :: "tree \<Rightarrow> string \<Rightarrow> bytes \<Rightarrow> tree" where
  "write_file t path content =
     (case t (names path) of
        Some (Regular perm _) \<Rightarrow> t(names path \<mapsto> Regular perm content)
      | _ \<Rightarrow> t)"

definition Chmod :: "os \<Rightarrow> tree \<Rightarrow> string \<Rightarrow> nat \<Rightarrow> update_error option \<times> tree" where
  "Chmod os t path mode =
     (let t = world os ChmodStaged t in
      case fails os ChmodStaged of
        Some e \<Rightarrow> (Some (CallFailed ChmodStaged e), t)
      | None \<Rightarrow>
          (case t (names path) of
             Some (Regular _ content) \<Rightarrow> (None, t(names path \<mapsto> Regular mode content))
           | _ \<Rightarrow> (Some (CallFailed ChmodStaged ''no such file''), t)))"

text \<open>What follows the copying in both functions: closing, the mode and the digest.\<close>

definition close_file :: "os \<Rightarrow> tree \<Rightarrow> update_error option \<times> tree" where
  "close_file os t =
     (map_option (CallFailed CloseStaged) (fails os CloseStaged), world os CloseStaged t)"

definition copyAndVerify ::
  "os \<Rightarrow> (bytes \<Rightarrow> bytes) \<Rightarrow> string \<Rightarrow> nat \<Rightarrow> bytes \<Rightarrow> tree \<Rightarrow> string \<Rightarrow> update_error option \<times> tree" where
  "copyAndVerify os sha sourcePath mode expected t destinationPath =
     (case open_file os OpenSource t sourcePath of
        (Some e, t) \<Rightarrow> (Some e, t)
      | (None, t) \<Rightarrow>
     (case create_file os t destinationPath mode of
        (Some e, t) \<Rightarrow> (Some e, t)
      | (None, t) \<Rightarrow>
     (case read_file os CopyStaged t sourcePath of
        (Inl e, t) \<Rightarrow> (Some e, snd (close_file os (write_file t destinationPath
           (case t (names sourcePath) of Some (Regular _ content) \<Rightarrow> take (partial os) content | _ \<Rightarrow> []))))
      | (Inr content, t) \<Rightarrow>
     (case close_file os (write_file t destinationPath content) of
        (Some e, t) \<Rightarrow> (Some e, t)
      | (None, t) \<Rightarrow>
     (case Chmod os t destinationPath mode of
        (Some e, t) \<Rightarrow> (Some e, t)
      | (None, t) \<Rightarrow>
          (if equalDigest (sha content) expected then None else Some ArtifactChanged, t))))))"

section \<open>Staging\<close>

text \<open>
  The steps that \<^verbatim>\<open>stageArtifact\<close> and \<^verbatim>\<open>stageRemoteArtifact\<close> share; \<open>fetch\<close>
  fills the file of the temporary directory.
\<close>

definition scannerRoot :: "string \<Rightarrow> Manifest \<Rightarrow> string" where
  "scannerRoot base m = Join [base, ''staging'', mfScannerID m]"

definition versionRoot :: "string \<Rightarrow> Manifest \<Rightarrow> string" where
  "versionRoot base m = Join [scannerRoot base m, mfWorkerVersion m]"

definition publish ::
  "os \<Rightarrow> (bytes \<Rightarrow> bytes) \<Rightarrow> (tree \<Rightarrow> string \<Rightarrow> update_error option \<times> tree) \<Rightarrow> string \<Rightarrow> string \<Rightarrow> string \<Rightarrow>
     nat \<Rightarrow> bytes \<Rightarrow> tree \<Rightarrow> string \<Rightarrow> (update_error + string) \<times> tree" where
  "publish os sha fetch vroot stagedPath artifactName mode expected t temporaryRoot =
     (case fetch t (Join [temporaryRoot, artifactName]) of
        (Some e, t) \<Rightarrow> (Inl e, RemoveAll os t temporaryRoot)
      | (None, t) \<Rightarrow>
     (case fails os ContextRename of
        Some e \<Rightarrow> (Inl (CallFailed ContextRename e), RemoveAll os t temporaryRoot)
      | None \<Rightarrow>
     (case Rename os t temporaryRoot vroot of
        (None, t) \<Rightarrow> (Inr stagedPath, t)
      | (Some e, t) \<Rightarrow>
          (case reusableStagedArtifact os sha secondCheck t stagedPath mode expected of
             (Inl e', t) \<Rightarrow> (Inl e', RemoveAll os t temporaryRoot)
           | (Inr existing, t) \<Rightarrow>
               (if existing then Inr stagedPath else Inl e, RemoveAll os t temporaryRoot)))))"

definition stage ::
  "os \<Rightarrow> (bytes \<Rightarrow> bytes) \<Rightarrow> (tree \<Rightarrow> string \<Rightarrow> update_error option \<times> tree) \<Rightarrow> string \<Rightarrow> Manifest \<Rightarrow> string \<Rightarrow>
     nat \<Rightarrow> bytes \<Rightarrow> tree \<Rightarrow> (update_error + string) \<times> tree" where
  "stage os sha fetch base m artifactName mode expected t =
     (let vroot = versionRoot base m; stagedPath = Join [vroot, artifactName] in
      case reusableStagedArtifact os sha firstCheck t stagedPath mode expected of
        (Inl e, t) \<Rightarrow> (Inl e, t)
      | (Inr existing, t) \<Rightarrow>
          if existing then (Inr stagedPath, t)
          else
     (case MkdirAll os t (scannerRoot base m) of
        (Some e, t) \<Rightarrow> (Inl e, t)
      | (None, t) \<Rightarrow>
     (case MkdirTemp os t (scannerRoot base m) (CHR ''.'' # mfWorkerVersion m @ ''-'') of
        (Inl e, t) \<Rightarrow> (Inl e, t)
      | (Inr temporaryRoot, t) \<Rightarrow>
          publish os sha fetch vroot stagedPath artifactName mode expected t temporaryRoot)))"

definition stageArtifact ::
  "os \<Rightarrow> (bytes \<Rightarrow> bytes) \<Rightarrow> string \<Rightarrow> Manifest \<Rightarrow> string \<Rightarrow> nat \<Rightarrow> bytes \<Rightarrow> tree \<Rightarrow> (update_error + string) \<times> tree" where
  "stageArtifact os sha base m sourcePath mode expected t =
     (if Base sourcePath = ''.'' \<or> Base sourcePath = ''/'' then (Inl NoFileName, t)
      else stage os sha (copyAndVerify os sha sourcePath mode expected) base m (Base sourcePath) mode expected t)"

section \<open>Trees and interference\<close>

text \<open>The parent of every node is a directory.\<close>

definition wf_tree :: "tree \<Rightarrow> bool" where
  "wf_tree t \<longleftrightarrow> (\<forall>q x. t (q @ [x]) \<noteq> None \<longrightarrow> t q = Some Directory)"

text \<open>
  What the others may do: keep the tree well formed, leave the temporary directory alone,
  keep what is at a path, or leave a path alone altogether.
\<close>

definition orderly :: "os \<Rightarrow> bool" where
  "orderly os \<longleftrightarrow> (\<forall>c t. wf_tree t \<longrightarrow> wf_tree (world os c t))"

definition stable :: "os \<Rightarrow> string list \<Rightarrow> bool" where
  "stable os q \<longleftrightarrow> (\<forall>c t n. t q = Some n \<longrightarrow> world os c t q = Some n)"

definition quiet :: "os \<Rightarrow> string list \<Rightarrow> bool" where
  "quiet os q \<longleftrightarrow> (\<forall>c t. world os c t q = t q)"

definition keeps :: "tree \<Rightarrow> tree \<Rightarrow> string list \<Rightarrow> bool" where
  "keeps t t' q \<longleftrightarrow> (\<forall>n. t q = Some n \<longrightarrow> t' q = Some n)"

definition adds :: "tree \<Rightarrow> tree \<Rightarrow> string list \<Rightarrow> bool" where
  "adds t t' q \<longleftrightarrow> t' q = t q \<or> (t q = None \<and> t' q = Some Directory)"

named_theorems trees \<open>what the calls do to the tree\<close>

lemma keeps_refl [trees]: "keeps t t q" by (simp add: keeps_def)
lemma keeps_trans: "keeps t u q \<Longrightarrow> keeps u v q \<Longrightarrow> keeps t v q" by (simp add: keeps_def)
lemma adds_refl [trees]: "adds t t q" by (simp add: adds_def)
lemma adds_trans: "adds t u q \<Longrightarrow> adds u v q \<Longrightarrow> adds t v q" by (auto simp: adds_def)
lemma adds_keeps: "adds t u q \<Longrightarrow> keeps t u q" by (auto simp: adds_def keeps_def)

lemma world_keeps [trees]: "stable os q \<Longrightarrow> keeps t (world os c t) q" by (simp add: stable_def keeps_def)
lemma world_adds [trees]: "quiet os q \<Longrightarrow> adds t (world os c t) q" by (simp add: quiet_def adds_def)
lemma world_wf [trees]: "orderly os \<Longrightarrow> wf_tree t \<Longrightarrow> wf_tree (world os c t)" by (simp add: orderly_def)
lemma quiet_stable: "quiet os q \<Longrightarrow> stable os q" by (simp add: quiet_def stable_def)
lemma quiet_world: "quiet os q \<Longrightarrow> world os c t q = t q" by (simp add: quiet_def)

lemma wf_tree_below: "wf_tree t \<Longrightarrow> t p = None \<Longrightarrow> prefix p q \<Longrightarrow> t q = None"
proof (induction q rule: rev_induct)
  case (snoc x q)
  show ?case
  proof (cases "p = q @ [x]")
    case False
    with snoc have "t q = None" by simp
    with snoc.prems(1) show ?thesis by (metis wf_tree_def option.distinct(1))
  qed (use snoc in simp)
qed simp

lemma wf_tree_file: "wf_tree t \<Longrightarrow> t p = Some n \<Longrightarrow> n \<noteq> Directory \<Longrightarrow> strict_prefix p q \<Longrightarrow> t q = None"
proof -
  assume t: "wf_tree t" "t p = Some n" "n \<noteq> Directory" "strict_prefix p q"
  from t(4) obtain x r where "q = p @ x # r" by (rule strict_prefixE')
  then have q: "q = (p @ [x]) @ r" by simp
  have "t (p @ [x]) = None"
  proof (rule ccontr)
    assume "t (p @ [x]) \<noteq> None"
    then have "t p = Some Directory" using t(1) unfolding wf_tree_def by blast
    with t(2,3) show False by simp
  qed
  from wf_tree_below [OF t(1) this] q show ?thesis by (simp add: prefix_def)
qed

text \<open>Calls that only look.\<close>

lemma looks [simp]:
  "snd (stat os c t path) = world os c t" "snd (open_file os c t path) = world os c t"
  "snd (read_file os c t path) = world os c t" "snd (close_file os t) = world os CloseStaged t"
  by (simp_all add: stat_def open_file_def read_file_def close_file_def Let_def)

definition steps :: "os \<Rightarrow> tree \<Rightarrow> tree \<Rightarrow> bool" where
  "steps os t t' \<longleftrightarrow> (\<exists>cs. t' = fold (world os) cs t)"

lemma steps_refl [intro]: "steps os t t"
  unfolding steps_def by (rule exI [of _ "[]"]) simp

lemma steps_world [intro]: "steps os t u \<Longrightarrow> steps os t (world os c u)"
  unfolding steps_def by (elim exE, rule_tac x = "cs @ [c]" in exI) simp

lemma steps_wf: "steps os t t' \<Longrightarrow> orderly os \<Longrightarrow> wf_tree t \<Longrightarrow> wf_tree t'"
proof -
  have "orderly os \<Longrightarrow> wf_tree t \<Longrightarrow> wf_tree (fold (world os) cs t)" for cs
    by (induction cs arbitrary: t) (auto intro: world_wf)
  then show "steps os t t' \<Longrightarrow> orderly os \<Longrightarrow> wf_tree t \<Longrightarrow> wf_tree t'" by (auto simp: steps_def)
qed

lemma steps_keeps: "steps os t t' \<Longrightarrow> stable os q \<Longrightarrow> keeps t t' q"
proof -
  have "stable os q \<Longrightarrow> keeps t (fold (world os) cs t) q" for cs
    by (induction cs arbitrary: t) (auto intro: world_keeps keeps_trans keeps_refl)
  then show "steps os t t' \<Longrightarrow> stable os q \<Longrightarrow> keeps t t' q" by (auto simp: steps_def)
qed

lemma steps_quiet: "steps os t t' \<Longrightarrow> quiet os q \<Longrightarrow> t' q = t q"
proof -
  have "quiet os q \<Longrightarrow> fold (world os) cs t q = t q" for cs
    by (induction cs arbitrary: t) (auto simp: quiet_world)
  then show "steps os t t' \<Longrightarrow> quiet os q \<Longrightarrow> t' q = t q" by (auto simp: steps_def)
qed

lemma hashFile_steps: "hashFile os sha c c' t path = (r, t') \<Longrightarrow> steps os t t'"
proof -
  obtain e u where 1: "open_file os c t path = (e, u)" by fastforce
  obtain x v where 2: "read_file os c' u path = (x, v)" by fastforce
  have "v = world os c' u" using looks(3) [of os c' u path] 2 by simp
  moreover have "u = world os c t" using looks(2) [of os c t path] 1 by simp
  ultimately have "steps os t u" "steps os t v" by auto
  then show "hashFile os sha c c' t path = (r, t') \<Longrightarrow> steps os t t'"
    by (auto simp: hashFile_def 1 2 split: option.splits sum.splits)
qed

lemma reusable_steps:
  assumes "reusableStagedArtifact os sha calls t path mode expected = (r, t')"
  shows "steps os t t'"
proof -
  obtain a b c where calls: "calls = (a, b, c)" by (cases calls)
  obtain s u where 1: "stat os a t path = (s, u)" by fastforce
  then have u: "steps os t u" using looks(1) [of os a t path] by auto
  obtain x v where 2: "hashFile os sha b c u path = (x, v)" by fastforce
  have "steps os t v"
  proof -
    obtain e w where "open_file os b u path = (e, w)" by fastforce
    with 1 2 show ?thesis
      using hashFile_steps [OF 2] u unfolding steps_def by (metis fold_append comp_apply)
  qed
  with u assms show ?thesis
    by (auto simp: reusableStagedArtifact_def calls 1 2 split: stat_result.splits node.splits if_splits sum.splits)
qed

section \<open>Calls that change the tree\<close>

lemma wf_put: "wf_tree t \<Longrightarrow> t p = Some Directory \<Longrightarrow> t (p @ [x]) = None \<Longrightarrow> wf_tree (t(p @ [x] \<mapsto> n))"
  unfolding wf_tree_def
proof (intro allI impI)
  fix q y
  assume t: "\<forall>q x. t (q @ [x]) \<noteq> None \<longrightarrow> t q = Some Directory" "t p = Some Directory" "t (p @ [x]) = None"
    and made: "(t(p @ [x] \<mapsto> n)) (q @ [y]) \<noteq> None"
  show "(t(p @ [x] \<mapsto> n)) q = Some Directory"
  proof (cases "q @ [y] = p @ [x]")
    case True
    with t(2) show ?thesis by simp
  next
    case False
    with made have "t (q @ [y]) \<noteq> None" by (metis fun_upd_other)
    with t(1) have "t q = Some Directory" by blast
    with t(3) show ?thesis by auto
  qed
qed

lemma wf_replace: "wf_tree t \<Longrightarrow> t p = Some (Regular a b) \<Longrightarrow> wf_tree (t(p \<mapsto> Regular c d))"
  unfolding wf_tree_def
proof (intro allI impI)
  fix q y
  assume t: "\<forall>q x. t (q @ [x]) \<noteq> None \<longrightarrow> t q = Some Directory" "t p = Some (Regular a b)"
    and made: "(t(p \<mapsto> Regular c d)) (q @ [y]) \<noteq> None"
  from made t(2) have "t (q @ [y]) \<noteq> None" by (auto split: if_splits)
  with t(1) have "t q = Some Directory" by blast
  with t(2) show "(t(p \<mapsto> Regular c d)) q = Some Directory" by auto
qed

lemma MkdirAll_tree:
  assumes "MkdirAll os t path = (r, t')"
  shows "orderly os \<Longrightarrow> wf_tree t \<Longrightarrow> wf_tree t'" "stable os q \<Longrightarrow> keeps t t' q" "quiet os q \<Longrightarrow> adds t t' q"
proof -
  let ?u = "world os MakeRoot t" and ?p = "names path"
  have t': "t' = ?u \<or> (\<not> blocked ?u ?p \<and> (?u ?p = None \<or> ?u ?p = Some Directory) \<and>
      t' = (\<lambda>q. if prefix q ?p \<and> ?u q = None then Some Directory else ?u q))"
    using assms by (auto simp: MkdirAll_def Let_def split: option.splits if_splits)
  show "wf_tree t'" if "orderly os" "wf_tree t"
  proof -
    have wf: "wf_tree ?u" using that by (rule world_wf)
    have dirs: "?u q = None \<or> ?u q = Some Directory"
      if "\<not> blocked ?u ?p" "?u ?p = None \<or> ?u ?p = Some Directory" "prefix q ?p" for q
      using that in_set_prefixes [of q ?p] by (cases "q = ?p") (auto simp: blocked_def list_ex_iff)
    have parent: "t' q = Some Directory" if made: "t' (q @ [x]) \<noteq> None" and "t' \<noteq> ?u" for q x
    proof -
      from t' \<open>t' \<noteq> ?u\<close> have made': "\<not> blocked ?u ?p" "?u ?p = None \<or> ?u ?p = Some Directory"
        and eq: "\<And>q. t' q = (if prefix q ?p \<and> ?u q = None then Some Directory else ?u q)" by auto
      show ?thesis
      proof (cases "?u (q @ [x]) = None")
        case True
        with made eq [of "q @ [x]"] have "prefix (q @ [x]) ?p" by (auto split: if_splits)
        then have "prefix q ?p" by (meson prefix_order.dual_order.trans prefixI)
        with dirs [OF made' this] eq [of q] show ?thesis by auto
      next
        case False
        with wf have "?u q = Some Directory" unfolding wf_tree_def by blast
        with eq [of q] show ?thesis by simp
      qed
    qed
    show ?thesis
    proof (cases "t' = ?u")
      case False
      with parent show ?thesis unfolding wf_tree_def by blast
    qed (use wf in simp)
  qed
  have "adds ?u t' q" for q using t' unfolding adds_def by (elim disjE conjE) (simp_all split: if_split)
  then show "stable os q \<Longrightarrow> keeps t t' q" "quiet os q \<Longrightarrow> adds t t' q"
    by (metis adds_keeps keeps_trans world_keeps, metis adds_trans world_adds)
qed

lemma MkdirAll_new:
  assumes "MkdirAll os t path = (r, t')" "quiet os q"
  shows "t' q = t q \<or> (t q = None \<and> t' q = Some Directory \<and> prefix q (names path))"
  using assms by (auto simp: MkdirAll_def Let_def quiet_world split: option.splits if_splits)

lemma MkdirTemp_error: "MkdirTemp os t dir pattern = (Inl e, t') \<Longrightarrow> t' = world os MakeTemp t"
  by (auto simp: MkdirTemp_def Let_def split: option.splits if_splits)

lemma MkdirTemp_tree:
  assumes "MkdirTemp os t dir pattern = (r, t')"
    and T: "names (Join [dir, temp_name pattern (random os)]) = names dir @ [x]"
  shows "orderly os \<Longrightarrow> wf_tree t \<Longrightarrow> wf_tree t'" "stable os q \<Longrightarrow> keeps t t' q" "quiet os q \<Longrightarrow> adds t t' q"
    "r = Inr path \<Longrightarrow> path = Join [dir, temp_name pattern (random os)] \<and>
       world os MakeTemp t (names dir @ [x]) = None \<and> t' = (world os MakeTemp t)(names dir @ [x] \<mapsto> Directory)"
proof -
  let ?u = "world os MakeTemp t"
  have t': "(t' = ?u \<and> isl r) \<or> (?u (names dir @ [x]) = None \<and> ?u (names dir) = Some Directory \<and>
      t' = ?u(names dir @ [x] \<mapsto> Directory) \<and> r = Inr (Join [dir, temp_name pattern (random os)]))"
    using assms by (auto simp: MkdirTemp_def Let_def split: option.splits if_splits)
  then show "orderly os \<Longrightarrow> wf_tree t \<Longrightarrow> wf_tree t'" by (metis world_wf wf_put)
  have "adds ?u t' q" for q using t' by (cases "q = names dir @ [x]") (auto simp: adds_def)
  then show "stable os q \<Longrightarrow> keeps t t' q" "quiet os q \<Longrightarrow> adds t t' q"
    by (metis adds_keeps keeps_trans world_keeps, metis adds_trans world_adds)
  show "r = Inr path \<Longrightarrow> path = Join [dir, temp_name pattern (random os)] \<and>
       ?u (names dir @ [x]) = None \<and> t' = ?u(names dir @ [x] \<mapsto> Directory)"
    using t' by auto
qed

lemma RemoveAll_tree:
  "orderly os \<Longrightarrow> wf_tree t \<Longrightarrow> wf_tree (RemoveAll os t path)"
  "stable os q \<Longrightarrow> \<not> prefix (names path) q \<Longrightarrow> keeps t (RemoveAll os t path) q"
  "quiet os q \<Longrightarrow> \<not> prefix (names path) q \<Longrightarrow> adds t (RemoveAll os t path) q"
  "fails os RemoveTemp = None \<Longrightarrow> prefix (names path) q \<Longrightarrow> RemoveAll os t path q = None"
proof -
  let ?u = "world os RemoveTemp t"
  show "wf_tree (RemoveAll os t path)" if "orderly os" "wf_tree t"
  proof -
    have wf: "wf_tree ?u" using that by (rule world_wf)
    have "\<not> prefix (names path) q" if "\<not> prefix (names path) (q @ [x])" for q x
      using that by (meson prefix_order.dual_order.trans prefixI)
    then have "wf_tree (\<lambda>q. if prefix (names path) q then None else ?u q)"
      using wf unfolding wf_tree_def by (metis option.distinct(1))
    with wf show ?thesis by (simp add: RemoveAll_def Let_def split: option.split)
  qed
  show "stable os q \<Longrightarrow> \<not> prefix (names path) q \<Longrightarrow> keeps t (RemoveAll os t path) q"
    using world_keeps [of os q t RemoveTemp] by (simp add: RemoveAll_def Let_def keeps_def split: option.split)
  show "quiet os q \<Longrightarrow> \<not> prefix (names path) q \<Longrightarrow> adds t (RemoveAll os t path) q"
    using world_adds [of os q t RemoveTemp] by (simp add: RemoveAll_def Let_def adds_def split: option.split)
  show "fails os RemoveTemp = None \<Longrightarrow> prefix (names path) q \<Longrightarrow> RemoveAll os t path q = None"
    by (simp add: RemoveAll_def Let_def)
qed

lemma Rename_tree:
  assumes "Rename os t old new = (r, t')"
  shows "r \<noteq> None \<Longrightarrow> t' = world os RenameStaged t"
    "r = None \<Longrightarrow> let u = world os RenameStaged t in u (names old) = Some Directory \<and> u (names new) = None \<and>
       u (butlast (names new)) = Some Directory \<and>
       t' = (\<lambda>q. if prefix (names new) q then u (names old @ drop (length (names new)) q)
                 else if prefix (names old) q then None else u q)"
  using assms by (auto simp: Rename_def Let_def split: option.splits if_splits)

lemma create_tree:
  assumes "create_file os t path mode = (r, t')"
  shows "orderly os \<Longrightarrow> wf_tree t \<Longrightarrow> wf_tree t'"
    "q \<noteq> names path \<Longrightarrow> t' q = world os CreateStaged t q"
    "r = None \<Longrightarrow> \<exists>perm content. t' (names path) = Some (Regular perm content)"
proof -
  let ?u = "world os CreateStaged t" and ?p = "names path"
  have t': "(t' = ?u \<and> r \<noteq> None) \<or> (?u ?p = None \<and> ?u (butlast ?p) = Some Directory \<and>
      t' = ?u(?p \<mapsto> Regular (created os mode) []))"
    using assms by (auto simp: create_file_def Let_def split: option.splits if_splits)
  show "wf_tree t'" if "orderly os" "wf_tree t"
  proof -
    have wf: "wf_tree ?u" using that by (rule world_wf)
    show ?thesis
    proof (cases "t' = ?u")
      case False
      with t' have p: "?u ?p = None" "?u (butlast ?p) = Some Directory"
        "t' = ?u(?p \<mapsto> Regular (created os mode) [])" by auto
      then have "?p \<noteq> []" by auto
      then have "?p = butlast ?p @ [last ?p]" by simp
      with p wf_put [OF wf p(2), of "last ?p"] show ?thesis by metis
    qed (use wf in simp)
  qed
  show "q \<noteq> names path \<Longrightarrow> t' q = ?u q" using t' by auto
  show "r = None \<Longrightarrow> \<exists>perm content. t' (names path) = Some (Regular perm content)" using t' by auto
qed

lemma write_tree:
  "wf_tree t \<Longrightarrow> wf_tree (write_file t path content)"
  "q \<noteq> names path \<Longrightarrow> write_file t path content q = t q"
  by (auto simp: write_file_def wf_replace split: option.split node.split)

lemma Chmod_tree:
  assumes "Chmod os t path mode = (r, t')"
  shows "orderly os \<Longrightarrow> wf_tree t \<Longrightarrow> wf_tree t'" "q \<noteq> names path \<Longrightarrow> t' q = world os ChmodStaged t q"
    "r = None \<Longrightarrow> \<exists>perm content. world os ChmodStaged t (names path) = Some (Regular perm content) \<and>
       t' (names path) = Some (Regular mode content)"
proof -
  let ?u = "world os ChmodStaged t"
  have t': "(t' = ?u \<and> r \<noteq> None) \<or> (\<exists>perm content. ?u (names path) = Some (Regular perm content) \<and>
      t' = ?u(names path \<mapsto> Regular mode content))"
    using assms by (auto simp: Chmod_def Let_def split: option.splits if_splits node.splits)
  show "orderly os \<Longrightarrow> wf_tree t \<Longrightarrow> wf_tree t'" using t' by (metis world_wf wf_replace)
  show "q \<noteq> names path \<Longrightarrow> t' q = ?u q" using t' by auto
  show "r = None \<Longrightarrow> \<exists>perm content. ?u (names path) = Some (Regular perm content) \<and>
       t' (names path) = Some (Regular mode content)"
    using t' by auto
qed

lemma wf_rename:
  assumes "wf_tree u" "u B = Some Directory" "u (B @ [v]) = None" "u (B @ [x]) = Some Directory"
  shows "wf_tree (\<lambda>q. if prefix (B @ [v]) q then u ((B @ [x]) @ drop (length (B @ [v])) q)
           else if prefix (B @ [x]) q then None else u q)" (is "wf_tree ?t")
  unfolding wf_tree_def
proof (intro allI impI)
  fix q y
  assume made: "?t (q @ [y]) \<noteq> None"
  have up: "prefix p q \<Longrightarrow> prefix p (q @ [y])" for p by simp
  consider (moved) "prefix (B @ [v]) q" | (root) "q = B" "y = v" | (other) "\<not> prefix (B @ [v]) (q @ [y])"
    using prefix_snoc [of "B @ [v]" q y] by auto
  then show "?t q = Some Directory"
  proof cases
    case moved
    then obtain r where q: "q = (B @ [v]) @ r" by (auto elim: prefixE)
    with made have "u (((B @ [x]) @ r) @ [y]) \<noteq> None" by (simp add: prefix_def)
    with assms(1) have "u ((B @ [x]) @ r) = Some Directory" unfolding wf_tree_def by blast
    with q show ?thesis by (simp add: prefix_def)
  next
    case root
    with assms(2) show ?thesis by (simp add: prefix_length_le)
  next
    case other
    with made have old: "\<not> prefix (B @ [x]) (q @ [y])" "u (q @ [y]) \<noteq> None" by (auto split: if_splits)
    with other up [of "B @ [v]"] up [of "B @ [x]"] have "\<not> prefix (B @ [v]) q" "\<not> prefix (B @ [x]) q" by blast+
    moreover have "u q = Some Directory" using old(2) assms(1) unfolding wf_tree_def by blast
    ultimately show ?thesis by simp
  qed
qed

section \<open>Lemmas on the check and the copy\<close>

lemma reusable_True:
  assumes "reusableStagedArtifact os sha calls t path mode expected = (Inr True, t')" "stable os (names path)"
  shows "\<exists>content. t' (names path) = Some (Regular mode content) \<and> sha content = expected"
proof -
  obtain a b c where calls: "calls = (a, b, c)" by (cases calls)
  let ?u = "world os a t" and ?v = "world os b (world os a t)" and ?w = "world os c (world os b (world os a t))"
  have snds: "snd (stat os a t path) = ?u" "snd (open_file os b ?u path) = ?v" "snd (read_file os c ?v path) = ?w"
    by simp_all
  obtain content where regular: "?u (names path) = Some (Regular mode content)"
    and hash: "hashFile os sha b c ?u path = (Inr expected, t')"
    using assms(1) snds(1)
    by (auto simp: reusableStagedArtifact_def calls stat_def Let_def
        split: stat_result.splits node.splits if_splits sum.splits prod.splits option.splits)
  have same: "?w (names path) = Some (Regular mode content)"
    using assms(2) regular unfolding stable_def by blast
  have "hashFile os sha b c ?u path = (Inr (sha content), ?w) \<or> (\<exists>e u. hashFile os sha b c ?u path = (Inl e, u))"
    using same by (auto simp: hashFile_def open_file_def read_file_def Let_def split: option.split)
  with hash same show ?thesis by auto
qed

text \<open>What staging asks of the function that fills the temporary directory.\<close>

locale fetcher =
  fixes os :: os
    and sha :: "bytes \<Rightarrow> bytes"
    and fetch :: "tree \<Rightarrow> string \<Rightarrow> update_error option \<times> tree"
    and mode :: nat
    and expected :: bytes
  assumes fetch_wf: "fetch t dest = (r, t') \<Longrightarrow> orderly os \<Longrightarrow> wf_tree t \<Longrightarrow> wf_tree t'"
    and fetch_keeps: "fetch t dest = (r, t') \<Longrightarrow> stable os q \<Longrightarrow> q \<noteq> names dest \<Longrightarrow> keeps t t' q"
    and fetch_quiet: "fetch t dest = (r, t') \<Longrightarrow> quiet os q \<Longrightarrow> q \<noteq> names dest \<Longrightarrow> t' q = t q"
    and fetch_done: "fetch t dest = (None, t') \<Longrightarrow> quiet os (names dest) \<Longrightarrow>
      \<exists>content. t' (names dest) = Some (Regular mode content) \<and> sha content = expected"

text \<open>
  The end of both functions, from the tree \<open>u\<close> in which the file is created: some content,
  the close, the mode and the digest, or a failure on the way.
\<close>

definition fill_end ::
  "os \<Rightarrow> (bytes \<Rightarrow> bytes) \<Rightarrow> nat \<Rightarrow> bytes \<Rightarrow> string \<Rightarrow> tree \<Rightarrow> update_error option \<Rightarrow> tree \<Rightarrow> bool" where
  "fill_end os sha mode expected dest u r t' \<longleftrightarrow>
     (let (r2, u2) = create_file os u dest mode;
          u4 = (\<lambda>content. world os CloseStaged (write_file (world os CopyStaged u2) dest content))
      in (r \<noteq> None \<and> (t' = u \<or> t' = u2 \<or> (\<exists>content. t' = u4 content))) \<or>
         (\<exists>content r5. r2 = None \<and> Chmod os (u4 content) dest mode = (r5, t') \<and>
            (r = None \<longrightarrow> r5 = None \<and> sha content = expected)))"

lemma fill_tree:
  assumes "fill_end os sha mode expected dest t r t'"
  shows "orderly os \<Longrightarrow> wf_tree t \<Longrightarrow> wf_tree t'" "stable os q \<Longrightarrow> q \<noteq> names dest \<Longrightarrow> keeps t t' q"
    "quiet os q \<Longrightarrow> q \<noteq> names dest \<Longrightarrow> t' q = t q"
    "r = None \<Longrightarrow> quiet os (names dest) \<Longrightarrow>
       \<exists>content. t' (names dest) = Some (Regular mode content) \<and> sha content = expected"
proof -
  obtain r2 u2 where 2: "create_file os t dest mode = (r2, u2)" by fastforce
  define u4 where "u4 content = world os CloseStaged (write_file (world os CopyStaged u2) dest content)" for content
  have cases: "(r \<noteq> None \<and> (t' = t \<or> t' = u2 \<or> (\<exists>content. t' = u4 content))) \<or>
      (\<exists>content r5. r2 = None \<and> Chmod os (u4 content) dest mode = (r5, t') \<and>
         (r = None \<longrightarrow> r5 = None \<and> sha content = expected))"
    using assms by (simp add: fill_end_def 2 u4_def)
  then have ends: "t' = t \<or> t' = u2 \<or> (\<exists>content. t' = u4 content) \<or>
      (\<exists>content r5. Chmod os (u4 content) dest mode = (r5, t'))" by blast
  show "wf_tree t'" if o: "orderly os" "wf_tree t"
  proof -
    have u: "wf_tree u2" using create_tree(1) [OF 2 o] .
    then have "wf_tree (u4 content)" for content using o(1) by (simp add: u4_def world_wf write_tree(1))
    with o u ends Chmod_tree(1) [OF _ o(1)] show ?thesis by metis
  qed
  show "keeps t t' q" if s: "stable os q" "q \<noteq> names dest"
  proof -
    have k: "keeps u (world os c u) q" for c u using s(1) by (rule world_keeps)
    have u2: "keeps t u2 q" using k [of t CreateStaged] create_tree(2) [OF 2 s(2)] by (simp add: keeps_def)
    have u4: "keeps t (u4 content) q" for content
      using u2 k [of u2 CopyStaged] k [of "write_file (world os CopyStaged u2) dest content" CloseStaged]
      by (simp add: keeps_def u4_def write_tree(2) [OF s(2)])
    have "keeps t t' q" if "Chmod os (u4 content) dest mode = (r5, t')" for content r5
      using u4 [of content] k [of "u4 content" ChmodStaged] Chmod_tree(2) [OF that s(2)] by (simp add: keeps_def)
    with keeps_refl u2 u4 ends show ?thesis by blast
  qed
  show "t' q = t q" if s: "quiet os q" "q \<noteq> names dest"
  proof -
    have u2: "u2 q = t q" using create_tree(2) [OF 2 s(2)] by (simp add: quiet_world [OF s(1)])
    have u4: "u4 content q = t q" for content
      using u2 by (simp add: u4_def write_tree(2) [OF s(2)] quiet_world [OF s(1)])
    have "t' q = t q" if "Chmod os (u4 content) dest mode = (r5, t')" for content r5
      using u4 [of content] Chmod_tree(2) [OF that s(2)] by (simp add: quiet_world [OF s(1)])
    with u2 u4 ends show ?thesis by metis
  qed
  show "\<exists>content. t' (names dest) = Some (Regular mode content) \<and> sha content = expected"
    if "r = None" and q: "quiet os (names dest)"
  proof -
    from cases \<open>r = None\<close> obtain content where c: "r2 = None" "Chmod os (u4 content) dest mode = (None, t')"
      "sha content = expected" by auto
    from create_tree(3) [OF 2 c(1)] obtain perm old where "u2 (names dest) = Some (Regular perm old)" by blast
    then have "u4 content (names dest) = Some (Regular perm content)"
      by (simp add: u4_def write_file_def quiet_world [OF q])
    with Chmod_tree(3) [OF c(2)] have "t' (names dest) = Some (Regular mode content)"
      by (simp add: quiet_world [OF q])
    with c(3) show ?thesis by blast
  qed
qed

lemma copy_end:
  assumes "copyAndVerify os sha src mode expected t dest = (r, t')"
  shows "fill_end os sha mode expected dest (world os OpenSource t) r t'"
proof -
  obtain r2 u2 where 2: "create_file os (world os OpenSource t) dest mode = (r2, u2)" by fastforce
  show ?thesis
    using assms 2
    by (auto simp: fill_end_def copyAndVerify_def open_file_def read_file_def close_file_def Let_def equalDigest_eq
        split: option.splits prod.splits sum.splits if_splits)
qed

interpretation copying: fetcher os sha "copyAndVerify os sha src mode expected" mode expected
  for os sha src mode expected
proof unfold_locales
  fix t dest r t' q
  assume run: "copyAndVerify os sha src mode expected t dest = (r, t')"
  note fill = fill_tree [OF copy_end [OF run]]
  show "orderly os \<Longrightarrow> wf_tree t \<Longrightarrow> wf_tree t'" by (rule fill(1)) (simp_all add: world_wf)
  show "stable os q \<Longrightarrow> q \<noteq> names dest \<Longrightarrow> keeps t t' q" using fill(2) world_keeps keeps_trans by blast
  show "quiet os q \<Longrightarrow> q \<noteq> names dest \<Longrightarrow> t' q = t q" using fill(3) by (simp add: quiet_world)
next
  fix t dest t'
  assume "copyAndVerify os sha src mode expected t dest = (None, t')" "quiet os (names dest)"
  then show "\<exists>content. t' (names dest) = Some (Regular mode content) \<and> sha content = expected"
    using fill_tree(4) [OF copy_end refl] by blast
qed

section \<open>Staging\<close>

text \<open>Nobody else writes below the temporary directory.\<close>

definition undisturbed :: "os \<Rightarrow> string list \<Rightarrow> bool" where
  "undisturbed os p \<longleftrightarrow> (\<forall>q. prefix p q \<longrightarrow> quiet os q)"

context fetcher
begin

text \<open>The four ends of \<open>publish\<close>, from the tree in which the temporary directory is there and empty.\<close>

lemma publish_cases:
  assumes "publish os sha fetch vroot P a mode expected t tmp = (r, t')"
  obtains (removed) e u where "r = Inl e" "t' = RemoveAll os u tmp" "steps os (snd (fetch t (Join [tmp, a]))) u"
  | (reused) u where "r = Inr P" "t' = RemoveAll os u tmp" "steps os (snd (fetch t (Join [tmp, a]))) u"
      "\<exists>v. reusableStagedArtifact os sha secondCheck v P mode expected = (Inr True, u)"
  | (published) u where "r = Inr P" "fetch t (Join [tmp, a]) = (None, u)" "Rename os u tmp vroot = (None, t')"
proof -
  obtain f u where f: "fetch t (Join [tmp, a]) = (f, u)" by fastforce
  obtain n v where n: "Rename os u tmp vroot = (n, v)" by fastforce
  obtain x w where x: "reusableStagedArtifact os sha secondCheck v P mode expected = (x, w)" by fastforce
  have v: "steps os u v" if "n \<noteq> None" using Rename_tree(1) [OF n that] by auto
  have w: "steps os u w" if "n \<noteq> None"
    using v [OF that] reusable_steps [OF x] unfolding steps_def by (metis fold_append comp_apply)
  from assms consider "f \<noteq> None \<or> fails os ContextRename \<noteq> None" | "f = None" "n = None" "r = Inr P" "t' = v"
    | "f = None" "n \<noteq> None" "t' = RemoveAll os w tmp" "(\<exists>e. r = Inl e) \<or> (r = Inr P \<and> x = Inr True)"
    by (auto simp: publish_def f n x split: option.splits sum.splits if_splits)
  then show ?thesis
  proof cases
    case 1
    then obtain e where "r = Inl e" "t' = RemoveAll os u tmp"
      using assms by (auto simp: publish_def f split: option.splits)
    then show ?thesis using removed f by auto
  next
    case 2
    then show ?thesis using published f n by simp
  next
    case 3
    then show ?thesis using removed reused w [OF 3(2)] f x by auto
  qed
qed

end

context fetcher
begin

text \<open>The directory \<open>R\<close> of the scanner, the names \<open>v\<close> of the version, \<open>x\<close> of the
  temporary directory and \<open>a\<close> of the artifact.\<close>

lemma publish_verified:
  assumes pub: "publish os sha fetch vroot P a mode expected t tmp = (Inr p, t')"
    and paths: "names vroot = R @ [v]" "names P = R @ [v, a]" "names tmp = R @ [x]"
      "names (Join [tmp, a]) = R @ [x, a]" "x \<noteq> v"
    and others: "undisturbed os (R @ [x])" "stable os (names P)"
  shows "p = P \<and> (\<exists>content. t' (names P) = Some (Regular mode content) \<and> sha content = expected)"
  using pub
proof (cases rule: publish_cases)
  case (reused u)
  then obtain w where "reusableStagedArtifact os sha secondCheck w P mode expected = (Inr True, u)" by blast
  from reusable_True [OF this others(2)] obtain content
    where c: "u (names P) = Some (Regular mode content)" "sha content = expected" by blast
  have "\<not> prefix (names tmp) (names P)" using paths by auto
  with c reused(1,2) RemoveAll_tree(2) [OF others(2), of tmp u] show ?thesis by (simp add: keeps_def)
next
  case (published u)
  have quiet: "quiet os (R @ [x, a])" using others(1) by (simp add: undisturbed_def)
  from fetch_done [OF published(2)] quiet paths(4)
  obtain content where c: "u (R @ [x, a]) = Some (Regular mode content)" "sha content = expected" by auto
  have "t' (names P) = world os RenameStaged u (R @ [x, a])"
    using Rename_tree(2) [OF published(3) refl] paths by (simp add: Let_def)
  with c published(1) show ?thesis by (simp add: quiet_world [OF quiet])
qed simp

lemma publish_keeps:
  assumes pub: "publish os sha fetch vroot P a mode expected t tmp = (r, t')"
    and paths: "names vroot = R @ [v]" "names tmp = R @ [x]" "names (Join [tmp, a]) = R @ [x, a]"
    and tree: "orderly os" "wf_tree t" "stable os q" "\<not> prefix (R @ [x]) q"
  shows "keeps t t' q"
proof -
  obtain f u where f: "fetch t (Join [tmp, a]) = (f, u)" by fastforce
  have "q \<noteq> names (Join [tmp, a])" using tree(4) paths(3) by auto
  then have u: "keeps t u q" by (rule fetch_keeps [OF f tree(3)])
  have wf: "wf_tree u" by (rule fetch_wf [OF f tree(1,2)])
  have gone: "keeps t (RemoveAll os w tmp) q" if "steps os u w" for w
    using keeps_trans [OF u steps_keeps [OF that tree(3)]] RemoveAll_tree(2) [OF tree(3), of tmp w] tree(4) paths(2)
    by (auto intro: keeps_trans)
  from pub show ?thesis
  proof (cases rule: publish_cases)
    case (removed e w)
    with f show ?thesis using gone by simp
  next
    case (reused w)
    with f show ?thesis using gone by simp
  next
    case (published w)
    let ?w = "world os RenameStaged w"
    have w: "w = u" using published(2) f by simp
    have "keeps t ?w q" using keeps_trans [OF u world_keeps [OF tree(3)]] w by blast
    moreover have "?w (R @ [v]) = None" "wf_tree ?w"
      using Rename_tree(2) [OF published(3) refl] paths(1) world_wf [OF tree(1) wf] w by (simp_all add: Let_def)
    then have "prefix (R @ [v]) q \<Longrightarrow> ?w q = None" using wf_tree_below by blast
    ultimately show ?thesis
      using Rename_tree(2) [OF published(3) refl] paths tree(4) by (auto simp: Let_def keeps_def)
  qed
qed

end

context fetcher
begin

lemma publish_frame:
  assumes pub: "publish os sha fetch vroot P a mode expected t tmp = (r, t')"
    and paths: "names vroot = R @ [v]" "names P = R @ [v, a]" "names tmp = R @ [x]" "names (Join [tmp, a]) = R @ [x, a]"
    and tree: "orderly os" "wf_tree t" "undisturbed os (R @ [x])" "t (R @ [x]) = Some Directory"
      "\<forall>q. strict_prefix (R @ [x]) q \<longrightarrow> t q = None"
    and q: "quiet os q" "fails os RemoveTemp = None"
  shows "t' q = (if prefix (R @ [x]) q then None else t q) \<or>
    (r = Inr P \<and> t q = None \<and> (q = R @ [v] \<and> t' q = Some Directory \<or> q = names P))"
proof -
  obtain f u where f: "fetch t (Join [tmp, a]) = (f, u)" by fastforce
  have u: "u p = t p" if "quiet os p" "p \<noteq> R @ [x, a]" for p
    using fetch_quiet [OF f that(1)] that(2) paths(4) by simp
  have gone: "RemoveAll os w tmp q = (if prefix (R @ [x]) q then None else t q)" if "steps os u w" for w
  proof (cases "prefix (R @ [x]) q")
    case True
    then show ?thesis using RemoveAll_tree(4) [OF q(2), of tmp q w] paths(3) by simp
  next
    case False
    then have "q \<noteq> R @ [x, a]" by auto
    with False u [OF q(1)] steps_quiet [OF that q(1)] q show ?thesis
      by (simp add: RemoveAll_def Let_def paths(3) quiet_world)
  qed
  from pub show ?thesis
  proof (cases rule: publish_cases)
    case (removed e w)
    with f gone show ?thesis by simp
  next
    case (reused w)
    with f gone show ?thesis by simp
  next
    case (published w)
    let ?w = "world os RenameStaged u"
    have w: "w = u" using published(2) f by simp
    from Rename_tree(2) [OF published(3) refl] w paths
    have dirs: "?w (R @ [x]) = Some Directory" "?w (R @ [v]) = None"
      and t': "t' = (\<lambda>q. if prefix (R @ [v]) q then ?w (R @ x # drop (Suc (length R)) q)
                 else if prefix (R @ [x]) q then None else ?w q)" by (simp_all add: Let_def cong: if_cong)
    show ?thesis
    proof (cases "prefix (R @ [v]) q")
      case False
      then have "t' q = (if prefix (R @ [x]) q then None else u q)" by (simp add: t' quiet_world [OF q(1)])
      moreover have "q \<noteq> R @ [x, a]" if "\<not> prefix (R @ [x]) q" using that by auto
      note this [THEN u [OF q(1)]]
      ultimately show ?thesis by simp
    next
      case True
      then obtain s where s: "q = R @ v # s" by (auto simp: prefix_def)
      have "v \<noteq> x" using dirs by auto
      then have apart: "\<not> prefix (R @ [x]) q" "q \<noteq> R @ [x, a]" by (simp_all add: s)
      have "wf_tree ?w" using fetch_wf [OF f tree(1,2)] tree(1) by (simp add: world_wf)
      from wf_tree_below [OF this dirs(2) True] u [OF q(1) apart(2)]
      have none: "t q = None" by (simp add: quiet_world [OF q(1)])
      have below: "quiet os (R @ x # s)" using tree(3) by (simp add: undisturbed_def)
      have t'q: "t' q = u (R @ x # s)" by (simp add: t' s quiet_world [OF below])
      consider "s = []" | "s = [a]" | "s \<noteq> []" "s \<noteq> [a]" by blast
      then show ?thesis
      proof cases
        case 1
        then have "t' q = Some Directory" using u [of "R @ [x]"] below tree(4) by (simp add: t'q)
        with 1 none published(1) show ?thesis by (simp add: s)
      next
        case 2
        with none published(1) show ?thesis by (simp add: s paths)
      next
        case 3
        then have "strict_prefix (R @ [x]) (R @ x # s)" by (auto simp: strict_prefix_def)
        with 3 u [OF below] tree(5) have "t' q = None" by (simp add: t'q)
        with none apart show ?thesis by simp
      qed
    qed
  qed
qed

end

section \<open>The paths of a release\<close>

lemma temp_name_plain:
  assumes "plain_name v" "slash \<notin> set rnd"
  shows "plain_name (temp_name (CHR ''.'' # v @ ''-'') rnd)" "temp_name (CHR ''.'' # v @ ''-'') rnd \<noteq> v"
proof -
  let ?p = "CHR ''.'' # v @ ''-''" and ?n = "temp_name (CHR ''.'' # v @ ''-'') rnd"
  have n: "set ?n \<subseteq> set ?p \<union> set rnd \<and> CHR ''-'' \<in> set ?n \<and> length v < length ?n"
  proof (cases "CHR ''*'' \<in> set ?p")
    case False
    then show ?thesis by (auto simp: temp_name_def)
  next
    case True
    obtain l r where p: "?p = l @ CHR ''*'' # r" "CHR ''*'' \<notin> set r"
      using split_list_last [OF True] by blast
    have "rev ?p = rev r @ CHR ''*'' # rev l" by (simp only: p(1)) simp
    moreover have "takeWhile (\<lambda>c. c \<noteq> d) (xs @ d # ys) = xs \<and> dropWhile (\<lambda>c. c \<noteq> d) (xs @ d # ys) = d # ys"
      if "d \<notin> set xs" for d :: char and xs ys using that by (induction xs) auto
    from this [of "CHR ''*''" "rev r" "rev l"] p(2)
    have "takeWhile (\<lambda>c. c \<noteq> CHR ''*'') (rev r @ CHR ''*'' # rev l) = rev r"
      "dropWhile (\<lambda>c. c \<noteq> CHR ''*'') (rev r @ CHR ''*'' # rev l) = CHR ''*'' # rev l" by simp_all
    ultimately have eq: "?n = l @ rnd @ r" using True by (simp only: temp_name_def if_True) simp
    have "last ?p = CHR ''-''" by simp
    then have "r \<noteq> [] \<and> last r = CHR ''-''" unfolding p(1) by (auto split: if_splits)
    then have "CHR ''-'' \<in> set r" using last_in_set by metis
    moreover have "set ?p = insert (CHR ''*'') (set l \<union> set r)" unfolding p(1) by auto
    moreover have "length ?p = Suc (length l + length r)" unfolding p(1) by simp
    ultimately show ?thesis unfolding eq by auto
  qed
  then show "?n \<noteq> v" by auto
  from n assms show "plain_name ?n" by (auto simp: plain_name_def)
qed

definition release_paths :: "string \<Rightarrow> Manifest \<Rightarrow> string \<Rightarrow> bool" where
  "release_paths base m a \<longleftrightarrow> IsAbs base \<and> plain_name (mfScannerID m) \<and> plain_name (mfWorkerVersion m) \<and> plain_name a"

definition stagedNames :: "string \<Rightarrow> Manifest \<Rightarrow> string \<Rightarrow> string list" where
  "stagedNames base m a = names base @ [''staging'', mfScannerID m, mfWorkerVersion m, a]"

definition temporaryNames :: "os \<Rightarrow> string \<Rightarrow> Manifest \<Rightarrow> string list" where
  "temporaryNames os base m = names base @
     [''staging'', mfScannerID m, temp_name (CHR ''.'' # mfWorkerVersion m @ ''-'') (random os)]"

lemma release_names:
  assumes "release_paths base m a"
  shows "names (scannerRoot base m) = names base @ [''staging'', mfScannerID m]" "IsAbs (scannerRoot base m)"
    "names (versionRoot base m) = names (scannerRoot base m) @ [mfWorkerVersion m]"
    "names (Join [versionRoot base m, a]) = stagedNames base m a"
    "plain_name x \<Longrightarrow> names (Join [scannerRoot base m, x]) = names (scannerRoot base m) @ [x]"
    "plain_name x \<Longrightarrow> names (Join [Join [scannerRoot base m, x], a]) = names (scannerRoot base m) @ [x, a]"
proof -
  have staging: "plain_name ''staging''" by (simp add: plain_name_def)
  have base: "IsAbs base" "plain_name (mfScannerID m)" "plain_name (mfWorkerVersion m)" "plain_name a"
    using assms by (simp_all add: release_paths_def)
  note root = names_Join [OF base(1), of "[''staging'', mfScannerID m]", folded scannerRoot_def]
  show 1: "names (scannerRoot base m) = names base @ [''staging'', mfScannerID m]" "IsAbs (scannerRoot base m)"
    using root staging base by simp_all
  note version = names_Join [OF 1(2), of "[mfWorkerVersion m]", folded versionRoot_def]
  show 2: "names (versionRoot base m) = names (scannerRoot base m) @ [mfWorkerVersion m]"
    using version base by simp
  show "names (Join [versionRoot base m, a]) = stagedNames base m a"
    using names_Join [of "versionRoot base m" "[a]"] version base by (simp add: 1 stagedNames_def)
  show "names (Join [scannerRoot base m, x]) = names (scannerRoot base m) @ [x]" if "plain_name x"
    using names_Join [OF 1(2), of "[x]"] that by simp
  show "names (Join [Join [scannerRoot base m, x], a]) = names (scannerRoot base m) @ [x, a]" if "plain_name x"
    using names_Join [OF 1(2), of "[x]"] names_Join [of "Join [scannerRoot base m, x]" "[a]"] that base by simp
qed

section \<open>Staging as a whole\<close>

context fetcher
begin

lemma stage_cases:
  assumes "stage os sha fetch base m a mode expected t = (r, t')" "release_paths base m a" "slash \<notin> set (random os)"
  obtains (checked) "steps os t t'" "isl r \<or>
      reusableStagedArtifact os sha firstCheck t (Join [versionRoot base m, a]) mode expected = (Inr True, t') \<and>
      r = Inr (Join [versionRoot base m, a])"
  | (failed) u v q where "isl r" "steps os t u" "MkdirAll os u (scannerRoot base m) = (q, v)"
      "t' = v \<or> (\<exists>e. MkdirTemp os v (scannerRoot base m) (CHR ''.'' # mfWorkerVersion m @ ''-'') = (Inl e, t'))"
  | (filled) u v w tmp where "steps os t u" "MkdirAll os u (scannerRoot base m) = (None, v)"
      "MkdirTemp os v (scannerRoot base m) (CHR ''.'' # mfWorkerVersion m @ ''-'') = (Inr tmp, w)"
      "publish os sha fetch (versionRoot base m) (Join [versionRoot base m, a]) a mode expected w tmp = (r, t')"
proof -
  obtain x u where x: "reusableStagedArtifact os sha firstCheck t (Join [versionRoot base m, a]) mode expected = (x, u)"
    by fastforce
  note u = reusable_steps [OF x]
  obtain y v where y: "MkdirAll os u (scannerRoot base m) = (y, v)" by fastforce
  obtain z w where z: "MkdirTemp os v (scannerRoot base m) (CHR ''.'' # mfWorkerVersion m @ ''-'') = (z, w)" by fastforce
  note stage = assms(1) [unfolded stage_def Let_def x]
  show ?thesis
  proof (cases "x = Inr False")
    case False
    then have "t' = u \<and> (isl r \<or> x = Inr True \<and> r = Inr (Join [versionRoot base m, a]))"
      using stage by (cases x) (auto split: if_splits)
    with checked u x show ?thesis by blast
  next
    case True
    note stage = stage [unfolded True, simplified, unfolded y]
    show ?thesis
    proof (cases "y = None \<and> \<not> isl z")
      case True
      then obtain tmp where "y = None" "z = Inr tmp" by (cases z) auto
      with filled [OF u, of v tmp w] y z stage show ?thesis by simp
    next
      case False
      then have "isl r \<and> (t' = v \<or> (\<exists>e. z = Inl e \<and> t' = w))"
        using stage by (cases y; cases z) (auto simp: z)
      with failed [OF _ u y] z show ?thesis by blast
    qed
  qed
qed

text \<open>The tree in which \<open>publish\<close> begins.\<close>

lemma temp_fresh:
  assumes rel: "release_paths base m a" "slash \<notin> set (random os)" and tree: "orderly os" "wf_tree t"
    and calls: "steps os t u" "MkdirAll os u (scannerRoot base m) = (y, v)"
      "MkdirTemp os v (scannerRoot base m) (CHR ''.'' # mfWorkerVersion m @ ''-'') = (z, w)"
  defines "T \<equiv> temporaryNames os base m"
  shows "wf_tree w" "stable os q \<Longrightarrow> keeps t w q" "quiet os q \<Longrightarrow> adds t w q"
    "z = Inr tmp \<Longrightarrow> names tmp = T \<and> names (Join [tmp, a]) = T @ [a] \<and> w T = Some Directory \<and>
       (\<forall>q. strict_prefix T q \<longrightarrow> w q = None)"
    "z = Inr tmp \<Longrightarrow> stable os q \<Longrightarrow> prefix T q \<Longrightarrow> t q = None"
proof -
  let ?n = "temp_name (CHR ''.'' # mfWorkerVersion m @ ''-'') (random os)"
  have plain: "plain_name ?n" using temp_name_plain(1) rel by (simp add: release_paths_def)
  note paths = release_names [OF rel(1)] release_names(5) [OF rel(1) plain] release_names(6) [OF rel(1) plain]
  have T: "names (scannerRoot base m) @ [?n] = T" by (simp add: paths(1) T_def temporaryNames_def)
  note temp = MkdirTemp_tree [OF calls(3) paths(7)]
  have wfv: "wf_tree v" using MkdirAll_tree(1) [OF calls(2) tree(1) steps_wf [OF calls(1) tree]] .
  show "wf_tree w" by (rule temp(1) [OF tree(1) wfv])
  have keep: "stable os q \<Longrightarrow> keeps t v q" for q
    using steps_keeps [OF calls(1)] MkdirAll_tree(2) [OF calls(2)] keeps_trans by blast
  then show "stable os q \<Longrightarrow> keeps t w q" using temp(2) keeps_trans by blast
  show "quiet os q \<Longrightarrow> adds t w q"
    using steps_quiet [OF calls(1)] MkdirAll_tree(3) [OF calls(2)] temp(3) adds_trans by (metis adds_def)
  let ?v = "world os MakeTemp v"
  have wf: "wf_tree ?v" by (rule world_wf [OF tree(1) wfv])
  show "names tmp = T \<and> names (Join [tmp, a]) = T @ [a] \<and> w T = Some Directory \<and>
      (\<forall>q. strict_prefix T q \<longrightarrow> w q = None)" if "z = Inr tmp"
  proof -
    from temp(4) [OF that] have made: "tmp = Join [scannerRoot base m, ?n]" "?v T = None" "w = ?v(T \<mapsto> Directory)"
      by (simp_all add: T)
    have "w q = None" if "strict_prefix T q" for q
      using wf_tree_below [OF wf made(2), of q] that made(3) by (auto simp: strict_prefix_def)
    with made paths(7,8) T show ?thesis by auto
  qed
  show "t q = None" if "z = Inr tmp" "stable os q" "prefix T q"
  proof -
    from temp(4) [OF that(1)] have "?v T = None" by (simp add: T)
    from wf_tree_below [OF wf this that(3)] have "?v q = None" .
    moreover have "keeps t ?v q" using keeps_trans [OF keep [OF that(2)] world_keeps [OF that(2)]] .
    ultimately show ?thesis by (cases "t q") (auto simp: keeps_def)
  qed
qed

end

context fetcher
begin

lemma stage_path:
  assumes "stage os sha fetch base m a mode expected t = (Inr p, t')" "release_paths base m a"
  shows "names p = stagedNames base m a"
proof -
  have "p = Join [versionRoot base m, a]"
    using assms(1) by (auto simp: stage_def publish_def Let_def split: prod.splits sum.splits option.splits if_splits)
  then show ?thesis using release_names(4) [OF assms(2)] by simp
qed

lemma stage_verified:
  assumes run: "stage os sha fetch base m a mode expected t = (Inr p, t')"
    and rel: "release_paths base m a" "slash \<notin> set (random os)" and tree: "orderly os" "wf_tree t"
    and others: "undisturbed os (temporaryNames os base m)" "stable os (stagedNames base m a)"
  shows "names p = stagedNames base m a \<and>
    (\<exists>content. t' (stagedNames base m a) = Some (Regular mode content) \<and> sha content = expected)"
proof -
  let ?n = "temp_name (CHR ''.'' # mfWorkerVersion m @ ''-'') (random os)"
  note P = release_names(4) [OF rel(1)]
  from run rel show ?thesis
  proof (cases rule: stage_cases)
    case checked
    then have "p = Join [versionRoot base m, a]"
      "reusableStagedArtifact os sha firstCheck t (Join [versionRoot base m, a]) mode expected = (Inr True, t')" by auto
    with reusable_True [of os sha firstCheck t "Join [versionRoot base m, a]"] others(2) P show ?thesis by simp
  next
    case (filled u v w tmp)
    note fresh = temp_fresh(4) [OF rel tree filled(1-3) refl]
    have T: "temporaryNames os base m = names (scannerRoot base m) @ [?n]"
      by (simp add: temporaryNames_def release_names(1) [OF rel(1)])
    have "?n \<noteq> mfWorkerVersion m" using temp_name_plain(2) rel by (simp add: release_paths_def)
    from publish_verified [OF filled(4) release_names(3) [OF rel(1)] _ _ _ this] fresh others P T
    show ?thesis by (simp add: release_names(1) [OF rel(1)] stagedNames_def)
  qed simp
qed

lemma stage_keeps:
  assumes run: "stage os sha fetch base m a mode expected t = (r, t')"
    and rel: "release_paths base m a" "slash \<notin> set (random os)" and tree: "orderly os" "wf_tree t"
    and q: "stable os q" "t q = Some n"
  shows "t' q = Some n"
proof -
  have "keeps t t' q"
    using run rel
  proof (cases rule: stage_cases)
    case checked
    then show ?thesis using steps_keeps [OF _ q(1)] by blast
  next
    case (failed u v y)
    have "keeps t v q"
      using keeps_trans [OF steps_keeps [OF failed(2) q(1)] MkdirAll_tree(2) [OF failed(3) q(1)]] .
    moreover have "keeps t t' q"
      if "MkdirTemp os v (scannerRoot base m) (CHR ''.'' # mfWorkerVersion m @ ''-'') = (Inl e, t')" for e
      by (rule temp_fresh(2) [OF rel tree failed(2,3) that q(1)])
    ultimately show ?thesis using failed(4) by blast
  next
    case (filled u v w tmp)
    note fresh = temp_fresh [OF rel tree filled(1-3)]
    have T: "names tmp = names (scannerRoot base m) @ [temp_name (CHR ''.'' # mfWorkerVersion m @ ''-'') (random os)]"
      using fresh(4) [OF refl] by (simp add: temporaryNames_def release_names(1) [OF rel(1)])
    have "\<not> prefix (temporaryNames os base m) q" using fresh(5) [OF refl q(1)] q(2) by auto
    with fresh(4) [OF refl] T
    have "keeps w t' q"
      by (intro publish_keeps [OF filled(4) release_names(3) [OF rel(1)] T _ tree(1) fresh(1) q(1)]) simp_all
    with fresh(2) [OF q(1)] show ?thesis by (rule keeps_trans)
  qed
  with q(2) show ?thesis by (simp add: keeps_def)
qed

lemma stage_frame:
  assumes run: "stage os sha fetch base m a mode expected t = (r, t')"
    and rel: "release_paths base m a" "slash \<notin> set (random os)" and tree: "orderly os" "wf_tree t"
    and others: "undisturbed os (temporaryNames os base m)" "quiet os q" "fails os RemoveTemp = None"
  shows "t' q = t q \<or> (t q = None \<and> ((t' q = Some Directory \<and> \<not> prefix (temporaryNames os base m) q) \<or>
    (\<not> isl r \<and> q = stagedNames base m a)))"
  using run rel
proof (cases rule: stage_cases)
  case checked
  then show ?thesis using steps_quiet [OF _ others(2)] by blast
next
  case (failed u v y)
  have "v q = t q \<or> (t q = None \<and> v q = Some Directory \<and> prefix q (names (scannerRoot base m)))"
    using steps_quiet [OF failed(2) others(2)] MkdirAll_new [OF failed(3) others(2)] by simp
  moreover have "t' q = v q"
    if "MkdirTemp os v (scannerRoot base m) (CHR ''.'' # mfWorkerVersion m @ ''-'') = (Inl e, t')" for e
    using MkdirTemp_error [OF that] others(2) by (simp add: quiet_world)
  moreover have "\<not> prefix (temporaryNames os base m) q" if "prefix q (names (scannerRoot base m))"
    using prefix_length_le [OF that] prefix_length_le [of "temporaryNames os base m" q]
    by (auto simp: temporaryNames_def release_names(1) [OF rel(1)])
  ultimately show ?thesis using failed(4) by metis
next
  case (filled u v w tmp)
  note fresh = temp_fresh [OF rel tree filled(1-3)]
  note T = fresh(4) [OF refl]
  have R: "temporaryNames os base m =
      names (scannerRoot base m) @ [temp_name (CHR ''.'' # mfWorkerVersion m @ ''-'') (random os)]"
    by (simp add: temporaryNames_def release_names(1) [OF rel(1)])
  have P: "names (Join [versionRoot base m, a]) = names (scannerRoot base m) @ [mfWorkerVersion m, a]"
    using release_names(1,4) [OF rel(1)] by (simp add: stagedNames_def)
  have "t' q = (if prefix (temporaryNames os base m) q then None else w q) \<or>
      (r = Inr (Join [versionRoot base m, a]) \<and> w q = None \<and>
       (q = names (versionRoot base m) \<and> t' q = Some Directory \<or> q = stagedNames base m a))"
    using publish_frame [OF filled(4) release_names(3) [OF rel(1)] P _ _ tree(1) fresh(1) _ _ _ others(2,3)] T others(1)
    by (simp add: R release_names(3,4) [OF rel(1)])
  moreover have "adds t w q" by (rule fresh(3) [OF others(2)])
  moreover have "prefix (temporaryNames os base m) q \<Longrightarrow> t q = None"
    by (rule fresh(5) [OF refl quiet_stable [OF others(2)]])
  moreover have "\<not> prefix (temporaryNames os base m) (names (versionRoot base m))"
    using prefix_length_le [of "temporaryNames os base m" "names (versionRoot base m)"]
      temp_name_plain(2) [of "mfWorkerVersion m" "random os"] rel
    by (auto simp: R release_names(3) [OF rel(1)] release_paths_def)
  ultimately show ?thesis by (cases "prefix (temporaryNames os base m) q") (auto simp: adds_def)
qed

end

end
