(* ===== verification/Update.thy ===== *)
theory Update
  imports Staging
begin

text \<open>
  Preparing a release, \<^verbatim>\<open>src/pkg/update/update.go\<close>: from a manifest in the
  configuration directory or at a loopback URL to an artifact in the staging directory whose
  SHA-256 is the one of the manifest. The parsing of URLs and addresses, the resolution of
  references and what servers answer are parameters.
\<close>

section \<open>The local manifest\<close>

record PreparedRelease =
  relManifest :: Manifest
  relManifestPath :: string
  relSourcePath :: string
  relStagedPath :: string

definition absoluteDirectory ::
  "os \<Rightarrow> string + string \<Rightarrow> tree \<Rightarrow> string \<Rightarrow> (update_error + string) \<times> tree" where
  "absoluteDirectory os cwd t path =
     (if blank path then (Inl BlankPath, t)
      else case Abs cwd path of
        Inl e \<Rightarrow> (Inl (UpdatePath (ResolveFailed e)), t)
      | Inr absolute \<Rightarrow>
          (case stat os StatDirectory t absolute of
             (NotExist, t) \<Rightarrow> (Inl (CallFailed StatDirectory ''no such file''), t)
           | (StatError e, t) \<Rightarrow> (Inl (CallFailed StatDirectory e), t)
           | (Node n, t) \<Rightarrow> (if n = Directory then Inr (Clean absolute) else Inl NotADirectory, t)))"

definition resolvePath :: "string + string \<Rightarrow> string \<Rightarrow> string \<Rightarrow> update_error + string" where
  "resolvePath cwd base path =
     (if blank path then Inl BlankPath
      else case Abs cwd (if IsAbs path then path else Join [base, path]) of
        Inl e \<Rightarrow> Inl (UpdatePath (ResolveFailed e))
      | Inr absolute \<Rightarrow> Inr (Clean absolute))"

text \<open>A stat that must find a regular file; its permissions.\<close>

definition stat_regular :: "os \<Rightarrow> os_call \<Rightarrow> tree \<Rightarrow> string \<Rightarrow> (update_error + nat) \<times> tree" where
  "stat_regular os c t path =
     (case stat os c t path of
        (NotExist, t) \<Rightarrow> (Inl (CallFailed c ''no such file''), t)
      | (StatError e, t) \<Rightarrow> (Inl (CallFailed c e), t)
      | (Node n, t) \<Rightarrow>
          (case n of Regular perm _ \<Rightarrow> Inr perm | _ \<Rightarrow> Inl (UpdatePath PathNotRegular), t))"

definition readManifest :: "os \<Rightarrow> tree \<Rightarrow> string \<Rightarrow> (update_error + Manifest) \<times> tree" where
  "readManifest os t path =
     (case stat_regular os StatManifest t path of
        (Inl e, t) \<Rightarrow> (Inl e, t)
      | (Inr _, t) \<Rightarrow>
     (case open_file os OpenManifest t path of
        (Some e, t) \<Rightarrow> (Inl e, t)
      | (None, t) \<Rightarrow>
     (case read_file os ReadManifest t path of
        (Inl e, t) \<Rightarrow> (Inl e, t)
      | (Inr content, t) \<Rightarrow>
          (case decodeManifest content of Inl e \<Rightarrow> Inl (BadManifest e) | Inr m \<Rightarrow> Inr m, t))))"

definition lowered :: "Manifest \<Rightarrow> Manifest" where
  "lowered m = m\<lparr>mfSHA256 := to_lower (mfSHA256 m)\<rparr>"

definition prepareLocal ::
  "os \<Rightarrow> (bytes \<Rightarrow> bytes) \<Rightarrow> string + string \<Rightarrow> string \<Rightarrow> string \<Rightarrow> tree \<Rightarrow>
     (update_error + PreparedRelease) \<times> tree" where
  "prepareLocal os sha cwd base manifestPath t =
     (case resolvePath cwd base manifestPath of Inl e \<Rightarrow> (Inl e, t) | Inr resolvedManifest \<Rightarrow>
     (case readManifest os t resolvedManifest of (Inl e, t) \<Rightarrow> (Inl e, t) | (Inr m, t) \<Rightarrow>
     (case validateManifest m of Some e \<Rightarrow> (Inl (InvalidManifest e), t) | None \<Rightarrow>
     (let m = lowered m in
      case resolvePath cwd base (mfArtifactPath m) of Inl e \<Rightarrow> (Inl e, t) | Inr sourcePath \<Rightarrow>
     (case stat_regular os StatArtifact t sourcePath of (Inl e, t) \<Rightarrow> (Inl e, t) | (Inr perm, t) \<Rightarrow>
     (case hex_decode (mfSHA256 m) of
        None \<Rightarrow> (Inl (InvalidManifest DigestNotHex), t)
      | Some expected \<Rightarrow>
     (case hashFile os sha OpenArtifact ReadArtifact t sourcePath of
        (Inl e, t) \<Rightarrow> (Inl e, t)
      | (Inr actual, t) \<Rightarrow>
          if \<not> equalDigest actual expected then (Inl DigestMismatch, t)
          else (case stageArtifact os sha base m sourcePath perm actual t of
                  (Inl e, t) \<Rightarrow> (Inl e, t)
                | (Inr stagedPath, t) \<Rightarrow>
                    (Inr \<lparr>relManifest = m, relManifestPath = resolvedManifest, relSourcePath = sourcePath,
                        relStagedPath = stagedPath\<rparr>, t)))))))))"

section \<open>The remote manifest\<close>

record url =
  uScheme :: string
  uUser :: bool
  uHost :: string
  uHostname :: string
  uPath :: string
  uFragment :: string

text \<open>A response; a body is its bytes and the error that ends it, if any.\<close>

record response =
  statusCode :: nat
  contentLength :: int
  body :: "bytes \<times> string option"

record net =
  parseRequestURI :: "string \<Rightarrow> url option"
  parseURL :: "string \<Rightarrow> url option"
  resolveReference :: "url \<Rightarrow> url \<Rightarrow> url"
  render :: "url \<Rightarrow> string"
  loopback :: "string \<Rightarrow> bool"
  respond :: "os_call \<Rightarrow> url \<Rightarrow> string + response"

definition isRemoteSource :: "string \<Rightarrow> bool" where
  "isRemoteSource source \<longleftrightarrow>
     (let lower = to_lower (trim_space source) in prefix ''http://'' lower \<or> prefix ''https://'' lower)"

definition validateRemoteURL :: "net \<Rightarrow> string \<Rightarrow> update_error + url" where
  "validateRemoteURL net source =
     (case parseRequestURI net (trim_space source) of
        None \<Rightarrow> Inl BadURL
      | Some u \<Rightarrow>
          if uScheme u \<noteq> ''http'' \<and> uScheme u \<noteq> ''https'' then Inl BadURL
          else if uUser u \<or> uFragment u \<noteq> '''' then Inl BadURL
          else if \<not> loopback net (uHostname u) then Inl BadURL
          else Inr u)"

definition maxManifestSize :: nat where "maxManifestSize = 64 * 1024"
definition maxArtifactSize :: nat where "maxArtifactSize = 128 * 1024 * 1024"

definition getRemote :: "net \<Rightarrow> os_call \<Rightarrow> url \<Rightarrow> update_error + response" where
  "getRemote net c u =
     (case respond net c u of
        Inl e \<Rightarrow> Inl (CallFailed c e)
      | Inr r \<Rightarrow> if statusCode r \<noteq> 200 then Inl (HTTPStatus (statusCode r)) else Inr r)"

text \<open>What an \<^verbatim>\<open>io.LimitReader\<close> lets through of a body.\<close>

definition limited :: "nat \<Rightarrow> bytes \<times> string option \<Rightarrow> bytes \<times> string option" where
  "limited n b = (take n (fst b), if length (fst b) < n then snd b else None)"

definition downloadBytes :: "net \<Rightarrow> url \<Rightarrow> nat \<Rightarrow> update_error + bytes" where
  "downloadBytes net source limit =
     (case getRemote net GetManifest source of
        Inl e \<Rightarrow> Inl e
      | Inr r \<Rightarrow>
          if contentLength r > int limit then Inl TooBig
          else let (data, err) = limited (limit + 1) (body r)
               in case err of
                    Some e \<Rightarrow> Inl (CallFailed GetManifest e)
                  | None \<Rightarrow> if length data > limit then Inl TooBig else Inr data)"

definition downloadArtifact ::
  "os \<Rightarrow> (bytes \<Rightarrow> bytes) \<Rightarrow> net \<Rightarrow> url \<Rightarrow> nat \<Rightarrow> bytes \<Rightarrow> tree \<Rightarrow> string \<Rightarrow> update_error option \<times> tree" where
  "downloadArtifact os sha net source mode expected t destinationPath =
     (case getRemote net GetArtifact source of
        Inl e \<Rightarrow> (Some e, t)
      | Inr r \<Rightarrow>
          if contentLength r > int maxArtifactSize then (Some TooBig, t)
          else
     (case create_file os t destinationPath mode of
        (Some e, t) \<Rightarrow> (Some e, t)
      | (None, t) \<Rightarrow>
          let t = world os CopyStaged t;
              (content, readErr) = limited (maxArtifactSize + 1) (body r);
              copyErr = (case fails os CopyStaged of Some e \<Rightarrow> Some e | None \<Rightarrow> readErr);
              written = (if fails os CopyStaged = None then content else take (partial os) content)
          in case close_file os (write_file t destinationPath written) of
               (closeErr, t) \<Rightarrow>
                 if copyErr \<noteq> None then (Some (CallFailed CopyStaged (the copyErr)), t)
                 else if closeErr \<noteq> None then (closeErr, t)
                 else if length written > maxArtifactSize then (Some TooBig, t)
                 else (case Chmod os t destinationPath mode of
                         (Some e, t) \<Rightarrow> (Some e, t)
                       | (None, t) \<Rightarrow>
                           (if equalDigest (sha written) expected then None else Some DigestMismatch, t))))"

definition stageRemoteArtifact ::
  "os \<Rightarrow> (bytes \<Rightarrow> bytes) \<Rightarrow> net \<Rightarrow> string \<Rightarrow> Manifest \<Rightarrow> url \<Rightarrow> bytes \<Rightarrow> tree \<Rightarrow> (update_error + string) \<times> tree" where
  "stageRemoteArtifact os sha net base m source expected t =
     (if \<not> safePathComponent (Base (uPath source)) then (Inl UnsafeFileName, t)
      else stage os sha (downloadArtifact os sha net source 493 expected) base m (Base (uPath source))
             493 expected t)"

text \<open>\<^verbatim>\<open>copy\<close> into an array of 32 bytes.\<close>

definition digest_array :: "bytes \<Rightarrow> bytes" where
  "digest_array d = take 32 (d @ replicate 32 (char_of (0 :: nat)))"

definition prepareRemote ::
  "os \<Rightarrow> (bytes \<Rightarrow> bytes) \<Rightarrow> net \<Rightarrow> string \<Rightarrow> string \<Rightarrow> tree \<Rightarrow> (update_error + PreparedRelease) \<times> tree" where
  "prepareRemote os sha net base manifestSource t =
     (case validateRemoteURL net manifestSource of Inl e \<Rightarrow> (Inl e, t) | Inr manifestURL \<Rightarrow>
     (case downloadBytes net manifestURL maxManifestSize of Inl e \<Rightarrow> (Inl e, t) | Inr manifestData \<Rightarrow>
     (case decodeManifest manifestData of Inl e \<Rightarrow> (Inl (BadManifest e), t) | Inr m \<Rightarrow>
     (case validateManifest m of Some e \<Rightarrow> (Inl (InvalidManifest e), t) | None \<Rightarrow>
     (let m = lowered m in
      case parseURL net (mfArtifactPath m) of None \<Rightarrow> (Inl BadURL, t) | Some reference \<Rightarrow>
      if uScheme reference \<noteq> '''' \<or> uHost reference \<noteq> '''' then (Inl NotSameOrigin, t)
      else let artifactURL = resolveReference net manifestURL reference in
      if uScheme artifactURL \<noteq> uScheme manifestURL \<or> uHost artifactURL \<noteq> uHost manifestURL
      then (Inl NotSameOrigin, t)
      else case validateRemoteURL net (render net artifactURL) of Inl e \<Rightarrow> (Inl e, t) | Inr _ \<Rightarrow>
     (case hex_decode (mfSHA256 m) of
        None \<Rightarrow> (Inl (InvalidManifest DigestNotHex), t)
      | Some expected \<Rightarrow>
     (case stageRemoteArtifact os sha net base m artifactURL (digest_array expected) t of
        (Inl e, t) \<Rightarrow> (Inl e, t)
      | (Inr stagedPath, t) \<Rightarrow>
          (Inr \<lparr>relManifest = m, relManifestPath = render net manifestURL,
              relSourcePath = render net artifactURL, relStagedPath = stagedPath\<rparr>, t))))))))"

section \<open>Preparing\<close>

definition Prepare ::
  "os \<Rightarrow> (bytes \<Rightarrow> bytes) \<Rightarrow> net \<Rightarrow> string + string \<Rightarrow> string \<Rightarrow> string \<Rightarrow> tree \<Rightarrow>
     (update_error + PreparedRelease) \<times> tree" where
  "Prepare os sha net cwd configDir manifestPath t =
     (case fails os ContextStart of Some e \<Rightarrow> (Inl (CallFailed ContextStart e), t) | None \<Rightarrow>
     (case absoluteDirectory os cwd t configDir of (Inl e, t) \<Rightarrow> (Inl e, t) | (Inr base, t) \<Rightarrow>
      if isRemoteSource manifestPath then prepareRemote os sha net base manifestPath t
      else prepareLocal os sha cwd base manifestPath t))"

section \<open>Lemmas\<close>

lemma hex_value_lower: "hex_value (if 65 \<le> byte c \<and> byte c \<le> 90 then char_of (byte c + 32) else c) = hex_value c"
  by (auto simp: hex_value_def)

lemma hex_decode_lower: "hex_decode (to_lower s) = hex_decode s"
  unfolding to_lower_def
  by (induction s rule: hex_decode.induct)
    (simp_all only: list.map hex_decode.simps hex_value_lower cong: option.case_cong)

lemma digest_array_32: "length d = 32 \<Longrightarrow> digest_array d = d"
  by (simp add: digest_array_def)

lemma steps_trans: "steps os t u \<Longrightarrow> steps os u v \<Longrightarrow> steps os t v"
  unfolding steps_def by (metis fold_append comp_apply)

lemma stat_tree: "stat os c t path = (s, u) \<Longrightarrow> u = world os c t"
  by (metis looks(1) snd_conv)

lemma absoluteDirectory_steps:
  assumes "absoluteDirectory os cwd t path = (r, t')"
  shows "steps os t t'" "r = Inr base \<Longrightarrow> (\<exists>a. Abs cwd path = Inr a \<and> base = Clean a)"
proof -
  show "steps os t t'"
    using assms
    by (auto simp: absoluteDirectory_def dest!: stat_tree split: if_splits sum.splits prod.splits stat_result.splits)
  show "r = Inr base \<Longrightarrow> (\<exists>a. Abs cwd path = Inr a \<and> base = Clean a)"
    using assms by (auto simp: absoluteDirectory_def split: if_splits sum.splits prod.splits stat_result.splits)
qed

lemma stat_regular_tree: "snd (stat_regular os c t path) = world os c t"
  by (auto simp: stat_regular_def dest: stat_tree split: prod.split stat_result.split)

lemma readManifest_steps: "steps os t (snd (readManifest os t path))"
proof -
  obtain x u where 1: "stat_regular os StatManifest t path = (x, u)" by fastforce
  obtain y v where 2: "open_file os OpenManifest u path = (y, v)" by fastforce
  obtain z w where 3: "read_file os ReadManifest v path = (z, w)" by fastforce
  have "steps os t u" using stat_regular_tree [of os StatManifest t path] 1 by auto
  moreover have "steps os u v" using looks(2) [of os OpenManifest u path] 2 by auto
  moreover have "steps os v w" using looks(3) [of os ReadManifest v path] 3 by auto
  ultimately have "steps os t u" "steps os t v" "steps os t w" by (blast intro: steps_trans)+
  then show ?thesis by (auto simp: readManifest_def 1 2 3 split: sum.split option.split)
qed

lemma resolvePath_Inr:
  assumes "resolvePath cwd base path = Inr a" "\<forall>wd. cwd = Inr wd \<longrightarrow> IsAbs wd"
  shows "IsAbs a" "Clean a = a"
  using assms Abs_Inr [OF _ assms(2)]
  by (auto simp: resolvePath_def IsAbs_Clean Clean_Clean split: if_splits sum.splits)

text \<open>The download fills the file as the copy does.\<close>

lemma download_end:
  assumes "downloadArtifact os sha net source mode expected t dest = (r, t')"
  shows "fill_end os sha mode expected dest t r t'"
proof -
  obtain r2 u2 where 2: "create_file os t dest mode = (r2, u2)" by fastforce
  show ?thesis
    using assms 2
    by (auto simp: fill_end_def downloadArtifact_def close_file_def Let_def equalDigest_eq
        split: option.splits prod.splits sum.splits if_splits)
qed

interpretation downloading: fetcher os sha "downloadArtifact os sha net source mode expected" mode expected
  for os sha net source mode expected
proof unfold_locales
  fix t dest r t' q
  assume run: "downloadArtifact os sha net source mode expected t dest = (r, t')"
  note fill = fill_tree [OF download_end [OF run]]
  show "orderly os \<Longrightarrow> wf_tree t \<Longrightarrow> wf_tree t'" by (rule fill(1))
  show "stable os q \<Longrightarrow> q \<noteq> names dest \<Longrightarrow> keeps t t' q" by (rule fill(2))
  show "quiet os q \<Longrightarrow> q \<noteq> names dest \<Longrightarrow> t' q = t q" by (rule fill(3))
next
  fix t dest t'
  assume "downloadArtifact os sha net source mode expected t dest = (None, t')" "quiet os (names dest)"
  then show "\<exists>content. t' (names dest) = Some (Regular mode content) \<and> sha content = expected"
    using fill_tree(4) [OF download_end refl] by blast
qed

text \<open>Either no staging began, or staging decided the result.\<close>

definition staged_by ::
  "os \<Rightarrow> (bytes \<Rightarrow> bytes) \<Rightarrow> string \<Rightarrow> tree \<Rightarrow> update_error + PreparedRelease \<Rightarrow> tree \<Rightarrow> bool" where
  "staged_by os sha base t r t' \<longleftrightarrow>
     (\<exists>u m a fetch mode expected x. steps os t u \<and> fetcher os sha fetch mode expected \<and> release_paths base m a \<and>
        hex_decode (mfSHA256 m) = Some expected \<and> stage os sha fetch base m a mode expected u = (x, t') \<and>
        (case x of Inl e \<Rightarrow> r = Inl e
         | Inr p \<Rightarrow> \<exists>rel. r = Inr rel \<and> relManifest rel = m \<and> relStagedPath rel = p))"

lemma valid_names:
  assumes "validateManifest m = None"
  shows "plain_name (mfScannerID (lowered m))" "plain_name (mfWorkerVersion (lowered m))"
    "length (mfSHA256 (lowered m)) = 64"
  using assms safe_plain by (auto simp: validateManifest_None lowered_def to_lower_def dest: not_blank_not_Nil)

lemma stageArtifact_staged:
  assumes "stageArtifact os sha base m src mode expected u = (x, t')" "steps os t u" "IsAbs src" "Clean src = src"
    and "IsAbs base" "plain_name (mfScannerID m)" "plain_name (mfWorkerVersion m)" "hex_decode (mfSHA256 m) = Some expected"
    and "case x of Inl e \<Rightarrow> r = Inl e | Inr p \<Rightarrow> \<exists>rel. r = Inr rel \<and> relManifest rel = m \<and> relStagedPath rel = p"
  shows "(steps os t t' \<and> isl r) \<or> staged_by os sha base t r t'"
proof (cases "Base src = ''.'' \<or> Base src = ''/''")
  case True
  with assms show ?thesis by (auto simp: stageArtifact_def)
next
  case False
  then have run: "stage os sha (copyAndVerify os sha src mode expected) base m (Base src) mode expected u = (x, t')"
    using assms(1) by (simp add: stageArtifact_def)
  have "release_paths base m (Base src)"
    using assms False Base_plain [of src] by (simp add: release_paths_def)
  with run assms copying.fetcher_axioms show ?thesis unfolding staged_by_def by blast
qed

lemma prepareLocal_staged:
  assumes run: "prepareLocal os sha cwd base path t = (r, t')" and base: "IsAbs base" "\<forall>wd. cwd = Inr wd \<longrightarrow> IsAbs wd"
  shows "(steps os t t' \<and> isl r) \<or> staged_by os sha base t r t'"
proof (cases "resolvePath cwd base path")
  case (Inl e)
  with run show ?thesis by (auto simp: prepareLocal_def)
next
  case (Inr resolved)
  obtain x u where 1: "readManifest os t resolved = (x, u)" by fastforce
  have u: "steps os t u" using readManifest_steps [of os t resolved] 1 by simp
  show ?thesis
  proof (cases "\<exists>m src. x = Inr m \<and> validateManifest m = None \<and> resolvePath cwd base (mfArtifactPath (lowered m)) = Inr src")
    case False
    then have "isl r \<and> t' = u"
      using run Inr by (auto simp: prepareLocal_def 1 Let_def split: sum.splits option.splits)
    with u show ?thesis by simp
  next
    case True
    then obtain m src where m: "x = Inr m" "validateManifest m = None"
      "resolvePath cwd base (mfArtifactPath (lowered m)) = Inr src" by blast
    obtain y v where 2: "stat_regular os StatArtifact u src = (y, v)" by fastforce
    have v: "steps os t v" using steps_world [OF u] stat_regular_tree [of os StatArtifact u src] 2 by simp
    obtain z w where 3: "hashFile os sha OpenArtifact ReadArtifact v src = (z, w)" by fastforce
    have w: "steps os t w" using steps_trans [OF v hashFile_steps [OF 3]] .
    note run' = run [unfolded prepareLocal_def Inr sum.case 1 prod.case m Let_def option.case 2]
    show ?thesis
    proof (cases "\<exists>perm expected. y = Inr perm \<and> hex_decode (mfSHA256 (lowered m)) = Some expected \<and> z = Inr expected")
      case False
      then have "isl r \<and> (t' = v \<or> t' = w)"
        using run' by (auto simp: 3 equalDigest_eq split: sum.splits option.splits if_splits)
      with v w show ?thesis by auto
    next
      case True
      then obtain perm expected where ok: "y = Inr perm" "hex_decode (mfSHA256 (lowered m)) = Some expected"
        "z = Inr expected" by blast
      obtain q s where 4: "stageArtifact os sha base (lowered m) src perm expected w = (q, s)" by fastforce
      have "t' = s \<and> (case q of Inl e \<Rightarrow> r = Inl e | Inr p \<Rightarrow> \<exists>rel. r = Inr rel \<and> relManifest rel = lowered m \<and> relStagedPath rel = p)"
        using run' by (auto simp: 3 4 ok equalDigest_eq split: sum.splits)
      with stageArtifact_staged [OF 4 w resolvePath_Inr [OF m(3) base(2)] base(1) valid_names(1,2) [OF m(2)] ok(2)]
      show ?thesis by blast
    qed
  qed
qed

lemma prepareRemote_staged:
  assumes run: "prepareRemote os sha net base source t = (r, t')" and base: "IsAbs base"
  shows "(steps os t t' \<and> isl r) \<or> staged_by os sha base t r t'"
proof (cases "isl r \<and> t' = t")
  case True
  then show ?thesis by auto
next
  case False
  have rt: "(r, t') = prepareRemote os sha net base source t" using run by simp
  obtain u where u: "validateRemoteURL net source = Inr u"
    using rt False by (cases "validateRemoteURL net source") (simp_all add: prepareRemote_def)
  obtain data where data: "downloadBytes net u maxManifestSize = Inr data"
    using rt False by (cases "downloadBytes net u maxManifestSize") (simp_all add: prepareRemote_def u)
  obtain m where m: "decodeManifest data = Inr m"
    using rt False by (cases "decodeManifest data") (simp_all add: prepareRemote_def u data)
  have valid: "validateManifest m = None"
    using rt False by (cases "validateManifest m") (simp_all add: prepareRemote_def u data m)
  note 1 = u data m valid
  obtain ref where ref: "parseURL net (mfArtifactPath (lowered m)) = Some ref"
    using rt False by (cases "parseURL net (mfArtifactPath (lowered m))") (simp_all add: prepareRemote_def 1 Let_def)
  define artifact where "artifact = resolveReference net u ref"
  have origin: "uScheme ref = ''''" "uHost ref = ''''" "uScheme artifact = uScheme u" "uHost artifact = uHost u"
    using rt False by (auto simp: prepareRemote_def 1 ref Let_def artifact_def [symmetric] split: if_splits)
  obtain w where w: "validateRemoteURL net (render net artifact) = Inr w"
    using rt False origin
    by (cases "validateRemoteURL net (render net artifact)") (simp_all add: prepareRemote_def 1 ref Let_def artifact_def [symmetric])
  obtain expected where expected: "hex_decode (mfSHA256 (lowered m)) = Some expected"
    using rt False origin w
    by (cases "hex_decode (mfSHA256 (lowered m))") (simp_all add: prepareRemote_def 1 ref Let_def artifact_def [symmetric])
  obtain q s where 3: "stageRemoteArtifact os sha net base (lowered m) artifact (digest_array expected) t = (q, s)"
    by fastforce
  have q: "stageRemoteArtifact os sha net base (lowered m) artifact (digest_array expected) t = (q, t')"
    "case q of Inl e \<Rightarrow> r = Inl e | Inr p \<Rightarrow> \<exists>rel. r = Inr rel \<and> relManifest rel = lowered m \<and> relStagedPath rel = p"
    using rt False 3 origin w expected
    by (auto simp: prepareRemote_def 1 ref Let_def artifact_def [symmetric] split: sum.splits)
  note m = valid expected
  have digest: "digest_array expected = expected"
    using hex_decode_length [OF m(2)] valid_names(3) [OF m(1)] by (simp add: digest_array_32)
  show ?thesis
  proof (cases "safePathComponent (Base (uPath artifact))")
    case False
    with q show ?thesis by (auto simp: stageRemoteArtifact_def)
  next
    case True
    then have "plain_name (Base (uPath artifact))"
    proof -
      have "Base (uPath artifact) \<noteq> ''''" using Base_cases [of "uPath artifact"] by (metis list.distinct(1))
      with True show ?thesis by (rule safe_plain)
    qed
    then have "release_paths base (lowered m) (Base (uPath artifact))"
      using base valid_names(1,2) [OF m(1)] by (simp add: release_paths_def)
    moreover have "stage os sha (downloadArtifact os sha net artifact 493 expected) base (lowered m) (Base (uPath artifact))
        493 expected t = (q, t')"
      using q(1) True by (simp add: stageRemoteArtifact_def digest)
    ultimately show ?thesis
      using m(2) q(2) downloading.fetcher_axioms steps_refl unfolding staged_by_def by blast
  qed
qed

lemma Prepare_staged:
  assumes run: "Prepare os sha net cwd dir path t = (r, t')" and cwd: "\<forall>wd. cwd = Inr wd \<longrightarrow> IsAbs wd"
  shows "(steps os t t' \<and> isl r) \<or> (\<exists>a. Abs cwd dir = Inr a \<and> staged_by os sha a t r t')"
proof (cases "fails os ContextStart")
  case (Some e)
  with run show ?thesis by (auto simp: Prepare_def)
next
  case None
  obtain x u where 1: "absoluteDirectory os cwd t dir = (x, u)" by fastforce
  have u: "steps os t u" by (rule absoluteDirectory_steps(1) [OF 1])
  show ?thesis
  proof (cases x)
    case (Inl e)
    with run u None show ?thesis by (auto simp: Prepare_def 1)
  next
    case (Inr base)
    from absoluteDirectory_steps(2) [OF 1 Inr] obtain a where a: "Abs cwd dir = Inr a" "base = Clean a" by blast
    with Abs_Inr [OF a(1) cwd] have base: "base = a" "IsAbs a" by simp_all
    have "(steps os u t' \<and> isl r) \<or> staged_by os sha a u r t'"
      using run None Inr base prepareRemote_staged [of os sha net a path u r t']
        prepareLocal_staged [of os sha cwd a path u r t'] cwd
      by (simp add: Prepare_def 1 split: if_splits)
    moreover have "staged_by os sha a u r t' \<Longrightarrow> staged_by os sha a t r t'"
      unfolding staged_by_def using steps_trans [OF u] by meson
    ultimately show ?thesis using a(1) steps_trans [OF u] by blast
  qed
qed

section \<open>A run\<close>

definition demo_os :: os where
  "demo_os = \<lparr>fails = \<lambda>_. None, world = \<lambda>_ t. t, random = ''7'', created = \<lambda>m. m, partial = 0\<rparr>"

definition demo_sha :: "bytes \<Rightarrow> bytes" where
  "demo_sha content = take 32 (content @ replicate 32 (CHR 0x00))"

definition demo_net :: net where
  "demo_net = \<lparr>parseRequestURI = \<lambda>_. None, parseURL = \<lambda>_. None, resolveReference = \<lambda>u v. v, render = \<lambda>_. '''',
     loopback = \<lambda>_. False, respond = \<lambda>_ _. Inl ''refused''\<rparr>"

definition demo_manifest :: Manifest where
  "demo_manifest = \<lparr>mfScannerID = ''s'', mfWorkerVersion = ''2'', mfSignatureVersion = ''1'', mfArtifactPath = ''a'',
     mfSHA256 = ''78797a'' @ replicate 58 (CHR ''0'')\<rparr>"

definition demo_manifest_json :: json where
  "demo_manifest_json = JObj
     [(''scannerId'', JStr ''s''), (''workerVersion'', JStr ''2''), (''signatureVersion'', JStr ''1''),
      (''artifactPath'', JStr ''a''), (''sha256'', JStr (''78797A'' @ replicate 58 (CHR ''0'')))]"

definition demo_tree :: tree where
  "demo_tree = [[] \<mapsto> Directory, [''c''] \<mapsto> Directory, [''c'', ''a''] \<mapsto> Regular 493 ''xyz'',
     [''c'', ''m''] \<mapsto> Regular 420 (print_json demo_manifest_json)]"

definition demo_prepared :: "(update_error + PreparedRelease) \<times> tree" where
  "demo_prepared = Prepare demo_os demo_sha demo_net (Inr ''/'') ''/c'' ''m'' demo_tree"

lemma demo_prepared_result:
  "fst demo_prepared = Inr \<lparr>relManifest = demo_manifest, relManifestPath = ''/c/m'', relSourcePath = ''/c/a'',
     relStagedPath = ''/c/staging/s/2/a''\<rparr>"
  by code_simp

lemma demo_wf: "wf_tree demo_tree"
  by (auto simp: wf_tree_def demo_tree_def Cons_eq_append_conv split: if_splits)

lemma demo_os_alone: "orderly demo_os" "quiet demo_os q" "stable demo_os q" "undisturbed demo_os p"
  "fails demo_os RemoveTemp = None" "slash \<notin> set (random demo_os)"
  by (simp_all add: orderly_def quiet_def stable_def undisturbed_def demo_os_def)

section \<open>The staged artifact\<close>

lemma prepared_artifact:
  assumes "Prepare os sha net cwd configDir manifestPath t = (Inr rel, t')"
    and "\<forall>wd. cwd = Inr wd \<longrightarrow> IsAbs wd" "slash \<notin> set (random os)" "wf_tree t" "orderly os"
    and "Abs cwd configDir = Inr base" "undisturbed os (temporaryNames os base (relManifest rel))"
    and "stable os (names (relStagedPath rel))"
  shows "\<exists>a mode content. release_paths base (relManifest rel) a \<and> names (relStagedPath rel) = stagedNames base (relManifest rel) a \<and>
    t' (names (relStagedPath rel)) = Some (Regular mode content) \<and>
    hex_decode (mfSHA256 (relManifest rel)) = Some (sha content)"
proof -
  from Prepare_staged [OF assms(1,2)] assms(6) have "staged_by os sha base t (Inr rel) t'" by auto
  then obtain u m a fetch mode expected x where s: "steps os t u" "fetcher os sha fetch mode expected"
    "release_paths base m a" "hex_decode (mfSHA256 m) = Some expected"
    "stage os sha fetch base m a mode expected u = (x, t')"
    "case x of Inl e \<Rightarrow> Inr rel = (Inl e :: update_error + PreparedRelease)
     | Inr p \<Rightarrow> \<exists>rel'. Inr rel = (Inr rel' :: update_error + PreparedRelease) \<and> relManifest rel' = m \<and> relStagedPath rel' = p"
    unfolding staged_by_def by blast
  then obtain p where p: "x = Inr p" "relManifest rel = m" "relStagedPath rel = p" by (cases x) auto
  have P: "names p = stagedNames base m a"
    using s(5) p fetcher.stage_path [OF s(2) _ s(3)] by blast
  have "names p = stagedNames base m a \<and>
      (\<exists>content. t' (stagedNames base m a) = Some (Regular mode content) \<and> sha content = expected)"
    using fetcher.stage_verified [OF s(2) s(5) [unfolded p(1)] s(3) assms(3,5) steps_wf [OF s(1) assms(5,4)]]
      assms(7,8) p P by simp
  then show ?thesis using s(3,4) p by auto
qed

section \<open>Properties\<close>

text \<open>
  C20. Only verified artifacts are released. When \<^verbatim>\<open>Prepare\<close> succeeds, the staged path
  is four names below the configuration directory (\<^verbatim>\<open>staging\<close>, the scanner, the version, the
  artifact), whatever the manifest says, and it is a regular file whose SHA-256 is the digest of
  the manifest. This holds for local and remote manifests and while others stage the same
  release, as long as nobody writes into this run's temporary directory or replaces a staged
  artifact.
\<close>

theorem Prepare_verified:
  assumes "Prepare os sha net cwd configDir manifestPath t = (Inr rel, t')"
    and "\<forall>wd. cwd = Inr wd \<longrightarrow> IsAbs wd" "slash \<notin> set (random os)" "wf_tree t" "orderly os"
    and "Abs cwd configDir = Inr base" "undisturbed os (temporaryNames os base (relManifest rel))"
    and "stable os (names (relStagedPath rel))"
  shows "\<exists>a mode content. plain_name (mfScannerID (relManifest rel)) \<and> plain_name (mfWorkerVersion (relManifest rel)) \<and>
    plain_name a \<and>
    names (relStagedPath rel) =
      names base @ [''staging'', mfScannerID (relManifest rel), mfWorkerVersion (relManifest rel), a] \<and>
    t' (names (relStagedPath rel)) = Some (Regular mode content) \<and>
    hex_decode (mfSHA256 (relManifest rel)) = Some (sha content)"
  using prepared_artifact [OF assms] by (auto simp: release_paths_def stagedNames_def)

theorem Prepare_verified_witness:
  "names ''/c/staging/s/2/a'' = [''c'', ''staging'', ''s'', ''2'', ''a''] \<and>
   (\<exists>mode content. snd demo_prepared [''c'', ''staging'', ''s'', ''2'', ''a''] = Some (Regular mode content) \<and>
      hex_decode (mfSHA256 demo_manifest) = Some (demo_sha content))"
proof -
  let ?rel = "\<lparr>relManifest = demo_manifest, relManifestPath = ''/c/m'', relSourcePath = ''/c/a'',
     relStagedPath = ''/c/staging/s/2/a''\<rparr>"
  have 1: "Prepare demo_os demo_sha demo_net (Inr ''/'') ''/c'' ''m'' demo_tree = (Inr ?rel, snd demo_prepared)"
    using demo_prepared_result unfolding demo_prepared_def by (metis prod.collapse)
  have 2: "\<forall>wd. (Inr ''/'' :: string + string) = Inr wd \<longrightarrow> IsAbs wd" by (simp add: IsAbs_def)
  have 3: "Abs (Inr ''/'') ''/c'' = Inr ''/c''" by code_simp
  have 4: "names ''/c/staging/s/2/a'' = [''c'', ''staging'', ''s'', ''2'', ''a'']" by code_simp
  from Prepare_verified [OF 1 2 demo_os_alone(6) demo_wf demo_os_alone(1) 3 demo_os_alone(4,3)] 4
  show ?thesis by auto
qed

text \<open>
  C21. Releases are immutable, and a failed preparation leaves nothing behind. Whatever the result,
  what is at a path stays as it was, unless others change it: an artifact that is staged is
  never overwritten or removed. Where nobody else writes, a path is new afterwards only as a
  directory, or as the staged artifact of a successful run: no partly written file is left
  (if the system could remove the temporary directory).
\<close>

theorem Prepare_frame:
  assumes "Prepare os sha net cwd configDir manifestPath t = (r, t')"
    and "\<forall>wd. cwd = Inr wd \<longrightarrow> IsAbs wd" "slash \<notin> set (random os)" "wf_tree t" "orderly os"
  shows "(stable os q \<longrightarrow> t q = Some n \<longrightarrow> t' q = Some n) \<and>
    (quiet os q \<longrightarrow> (\<forall>base m. Abs cwd configDir = Inr base \<longrightarrow> undisturbed os (temporaryNames os base m)) \<longrightarrow>
      fails os RemoveTemp = None \<longrightarrow>
      t' q = t q \<or> (t q = None \<and> (t' q = Some Directory \<or>
        (\<exists>rel. r = Inr rel \<and> q = names (relStagedPath rel)))))"
proof (cases "steps os t t' \<and> isl r")
  case True
  then show ?thesis using steps_keeps [of os t t' q] steps_quiet [of os t t' q] by (auto simp: keeps_def)
next
  case False
  with Prepare_staged [OF assms(1,2)] obtain base where base: "Abs cwd configDir = Inr base" "staged_by os sha base t r t'"
    by blast
  then obtain u m a fetch mode expected x where s: "steps os t u" "fetcher os sha fetch mode expected"
    "release_paths base m a" "stage os sha fetch base m a mode expected u = (x, t')"
    "case x of Inl e \<Rightarrow> r = Inl e | Inr p \<Rightarrow> \<exists>rel. r = Inr rel \<and> relManifest rel = m \<and> relStagedPath rel = p"
    unfolding staged_by_def by blast
  have wf: "wf_tree u" by (rule steps_wf [OF s(1) assms(5,4)])
  have "t' q = Some n" if "stable os q" "t q = Some n"
    using fetcher.stage_keeps [OF s(2,4,3) assms(3,5) wf that(1)] steps_keeps [OF s(1) that(1)] that(2)
    by (simp add: keeps_def)
  moreover have "t' q = t q \<or> (t q = None \<and> (t' q = Some Directory \<or> (\<exists>rel. r = Inr rel \<and> q = names (relStagedPath rel))))"
    if q: "quiet os q" "undisturbed os (temporaryNames os base m)" "fails os RemoveTemp = None"
  proof -
    have "\<exists>rel. r = Inr rel \<and> stagedNames base m a = names (relStagedPath rel)" if "\<not> isl x"
      using that s(4,5) fetcher.stage_path [OF s(2) _ s(3)] by (cases x) fastforce+
    with fetcher.stage_frame [OF s(2,4,3) assms(3,5) wf q(2,1,3)] steps_quiet [OF s(1) q(1)]
    show ?thesis by auto
  qed
  ultimately show ?thesis using base(1) by blast
qed

theorem Prepare_frame_witness:
  "snd demo_prepared [''c'', ''a''] = Some (Regular 493 ''xyz'') \<and>
   (let u = snd demo_prepared [''c'', ''staging'', ''s'', ''.2-7'']
    in u = None \<or> u = Some Directory)"
proof -
  have 1: "Prepare demo_os demo_sha demo_net (Inr ''/'') ''/c'' ''m'' demo_tree = (fst demo_prepared, snd demo_prepared)"
    by (simp add: demo_prepared_def)
  have 2: "\<forall>wd. (Inr ''/'' :: string + string) = Inr wd \<longrightarrow> IsAbs wd" by (simp add: IsAbs_def)
  note frame = Prepare_frame [OF 1 2 demo_os_alone(6) demo_wf demo_os_alone(1)]
  have "names ''/c/staging/s/2/a'' = [''c'', ''staging'', ''s'', ''2'', ''a'']" by code_simp
  moreover have "demo_tree [''c'', ''staging'', ''s'', ''.2-7''] = None"
    "demo_tree [''c'', ''a''] = Some (Regular 493 ''xyz'')" by (simp_all add: demo_tree_def)
  ultimately show ?thesis
    using frame [of "[''c'', ''a'']" "Regular 493 ''xyz''"] frame [of "[''c'', ''staging'', ''s'', ''.2-7'']" Directory]
    by (auto simp: demo_os_alone demo_prepared_result Let_def)
qed

end
