(* ===== verification/Flags.thy ===== *)
theory Flags
  imports Json
begin

text \<open>
  The command-line parser of Go's \<^verbatim>\<open>flag\<close> package as the program uses it (a
  \<^verbatim>\<open>FlagSet\<close> with \<^verbatim>\<open>ContinueOnError\<close>), and the readers of
  \<^verbatim>\<open>strconv\<close> behind it: \<^verbatim>\<open>ParseInt\<close> with base 0 and 64 bits, and
  \<^verbatim>\<open>ParseBool\<close>. The usage texts that the package prints are not modelled.
\<close>

section \<open>Integers in Go syntax\<close>

text \<open>\<^verbatim>\<open>lower\<close> sets the bit that makes an ASCII letter lower case.\<close>

definition lower :: "char \<Rightarrow> nat" where
  "lower c = (if byte c div 32 mod 2 = 1 then byte c else byte c + 32)"

definition digit_value :: "char \<Rightarrow> nat option" where
  "digit_value c =
     (if 48 \<le> byte c \<and> byte c \<le> 57 then Some (byte c - 48)
      else if 97 \<le> lower c \<and> lower c \<le> 122 then Some (lower c - 87)
      else None)"

text \<open>
  The base of a literal and its digits: after a leading zero, a letter that has something
  behind it chooses the base; without one it is octal.
\<close>

definition literal_base :: "string \<Rightarrow> nat \<times> string" where
  "literal_base s =
     (case s of
        z # c # d # r \<Rightarrow>
          if z \<noteq> CHR ''0'' then (10, s)
          else if lower c = byte (CHR ''b'') then (2, d # r)
          else if lower c = byte (CHR ''o'') then (8, d # r)
          else if lower c = byte (CHR ''x'') then (16, d # r)
          else (8, c # d # r)
      | z # r \<Rightarrow> if z = CHR ''0'' then (8, r) else (10, s)
      | [] \<Rightarrow> (10, s))"

text \<open>
  The value of the digits; underscores are skipped. The numbers do not wrap: the code stops
  with an error at the first digit that exceeds 64 bits, which here the caller's bound does.
\<close>

fun digits_value :: "nat \<Rightarrow> int \<Rightarrow> string \<Rightarrow> int option" where
  "digits_value base n [] = Some n"
| "digits_value base n (c # s) =
     (if c = CHR ''_'' then digits_value base n s
      else case digit_value c of
        None \<Rightarrow> None
      | Some d \<Rightarrow> if base \<le> d then None else digits_value base (n * int base + int d) s)"

text \<open>
  \<^verbatim>\<open>underscoreOK\<close>: an underscore stands between digits, where a base prefix counts as
  a digit. The state is what the previous character was.
\<close>

datatype previous = AtStart | Digit | Underscore | Other

fun underscores_ok :: "bool \<Rightarrow> previous \<Rightarrow> string \<Rightarrow> bool" where
  "underscores_ok hex i [] \<longleftrightarrow> i \<noteq> Underscore"
| "underscores_ok hex i (c # s) \<longleftrightarrow>
     (if 48 \<le> byte c \<and> byte c \<le> 57 \<or> hex \<and> 97 \<le> lower c \<and> lower c \<le> 102 then
        underscores_ok hex Digit s
      else if c = CHR ''_'' then i = Digit \<and> underscores_ok hex Underscore s
      else i \<noteq> Underscore \<and> underscores_ok hex Other s)"

definition underscoreOK :: "string \<Rightarrow> bool" where
  "underscoreOK s =
     (case s of
        z # c # r \<Rightarrow>
          if z = CHR ''0'' \<and> lower c \<in> {byte (CHR ''b''), byte (CHR ''o''), byte (CHR ''x'')} then
            underscores_ok (lower c = byte (CHR ''x'')) Digit r
          else underscores_ok False AtStart s
      | _ \<Rightarrow> underscores_ok False AtStart s)"

text \<open>\<^verbatim>\<open>ParseUint\<close> with base 0; its caller has removed the sign.\<close>

definition ParseUint :: "string \<Rightarrow> int option" where
  "ParseUint s =
     (if s = '''' then None
      else let (base, ds) = literal_base s in
        (case digits_value base 0 ds of
           None \<Rightarrow> None
         | Some n \<Rightarrow>
             if n < 2 ^ 64 \<and> (CHR ''_'' \<in> set ds \<longrightarrow> underscoreOK s) then Some n else None))"

definition ParseInt :: "string \<Rightarrow> int option" where
  "ParseInt s =
     (case s of
        [] \<Rightarrow> None
      | c # r \<Rightarrow>
          (case ParseUint (if c = CHR ''+'' \<or> c = CHR ''-'' then r else s) of
             None \<Rightarrow> None
           | Some n \<Rightarrow>
               if c = CHR ''-'' then (if n \<le> 2 ^ 63 then Some (- n) else None)
               else (if n < 2 ^ 63 then Some n else None)))"

definition ParseBool :: "string \<Rightarrow> bool option" where
  "ParseBool s =
     (if s \<in> set [''1'', ''t'', ''T'', ''true'', ''TRUE'', ''True''] then Some True
      else if s \<in> set [''0'', ''f'', ''F'', ''false'', ''FALSE'', ''False''] then Some False
      else None)"

section \<open>A set of flags\<close>

text \<open>The kinds of flags the program declares; the value is the default or the one set last.\<close>

datatype flag_value = FString string | FBool bool | FInt i64

type_synonym flags = "(string \<times> flag_value) list"

datatype flag_error =
    BadFlagSyntax string
  | HelpRequested
  | UndefinedFlag string
  | InvalidBool string string
  | MissingArgument string
  | InvalidFlagValue string string

fun set_value :: "flag_value \<Rightarrow> string \<Rightarrow> flag_value option" where
  "set_value (FString _) s = Some (FString s)"
| "set_value (FBool _) s = map_option FBool (ParseBool s)"
| "set_value (FInt _) s = map_option (\<lambda>i. FInt (word_of_int i)) (ParseInt s)"

definition set_flag :: "string \<Rightarrow> flag_value \<Rightarrow> flags \<Rightarrow> flags" where
  "set_flag name v fl = map (\<lambda>(n, u). (n, if n = name then v else u)) fl"

text \<open>\<^verbatim>\<open>-name\<close>, \<^verbatim>\<open>--name\<close>, and the value behind the first equals sign.\<close>

definition split_equals :: "string \<Rightarrow> string \<times> string option" where
  "split_equals name =
     (let rest = dropWhile (\<lambda>c. c \<noteq> CHR ''='') (tl name) in
      if rest = [] then (name, None)
      else (hd name # takeWhile (\<lambda>c. c \<noteq> CHR ''='') (tl name), Some (tl rest)))"

text \<open>
  One flag at the head of the arguments: nothing when they begin with no flag, an error, or
  the new values. In each case the arguments that are left.
\<close>

datatype parsed = Stop "string list" | Fail flag_error | Go_on flags "string list"

definition parseNamed :: "string \<Rightarrow> string option \<Rightarrow> flags \<Rightarrow> string list \<Rightarrow> parsed" where
  "parseNamed name value fl args =
     (case map_of fl name of
        None \<Rightarrow> if name = ''help'' \<or> name = ''h'' then Fail HelpRequested else Fail (UndefinedFlag name)
      | Some (FBool b) \<Rightarrow>
          (case set_value (FBool b) (case value of Some v \<Rightarrow> v | None \<Rightarrow> ''true'') of
             Some u \<Rightarrow> Go_on (set_flag name u fl) args
           | None \<Rightarrow> Fail (InvalidBool (case value of Some v \<Rightarrow> v | None \<Rightarrow> ''true'') name))
      | Some f \<Rightarrow>
          (case (case value of
                   Some v \<Rightarrow> Some (v, args)
                 | None \<Rightarrow> (case args of [] \<Rightarrow> None | v # rest \<Rightarrow> Some (v, rest))) of
             None \<Rightarrow> Fail (MissingArgument name)
           | Some (v, rest) \<Rightarrow>
               (case set_value f v of
                  Some u \<Rightarrow> Go_on (set_flag name u fl) rest
                | None \<Rightarrow> Fail (InvalidFlagValue v name))))"

definition parseOne :: "flags \<Rightarrow> string list \<Rightarrow> parsed" where
  "parseOne fl args =
     (case args of
        [] \<Rightarrow> Stop args
      | s # rest \<Rightarrow>
          if length s < 2 \<or> hd s \<noteq> CHR ''-'' then Stop args
          else if s = ''--'' then Stop rest
          else let name = (if s ! 1 = CHR ''-'' then drop 2 s else drop 1 s) in
            if name = [] \<or> hd name = CHR ''-'' \<or> hd name = CHR ''='' then Fail (BadFlagSyntax s)
            else (case split_equals name of (n, v) \<Rightarrow> parseNamed n v fl rest))"

lemma parseNamed_length: "parseNamed n v fl args = Go_on fl' rest \<Longrightarrow> length rest \<le> length args"
  by (auto simp: parseNamed_def split: option.splits flag_value.splits list.splits if_splits)

lemma parseOne_length: "parseOne fl args = Go_on fl' rest \<Longrightarrow> length rest < length args"
  by (auto simp: parseOne_def Let_def split: list.splits if_splits prod.splits dest!: parseNamed_length)

function Parse :: "flags \<Rightarrow> string list \<Rightarrow> flag_error + flags \<times> string list" where
  "Parse fl args =
     (case parseOne fl args of
        Stop rest \<Rightarrow> Inr (fl, rest)
      | Fail e \<Rightarrow> Inl e
      | Go_on fl' rest \<Rightarrow> Parse fl' rest)"
  by pat_completeness auto
termination
  by (relation "measure (length \<circ> snd)") (auto dest: parseOne_length)

declare Parse.simps [simp del]

section \<open>Lemmas\<close>

lemma digit_value_digit: "is_digit c \<Longrightarrow> digit_value c = Some (byte c - 48)"
  by (simp add: digit_value_def is_digit_def)

lemma digits_value_decimal:
  "list_all is_digit s \<Longrightarrow>
     digits_value 10 (int m) s = Some (int (foldl (\<lambda>n c. 10 * n + (byte c - 48)) m s))"
proof (induction s arbitrary: m)
  case Nil
  then show ?case by simp
next
  case (Cons c s)
  then have c: "is_digit c" by simp
  then have "c \<noteq> CHR ''_''" "\<not> 10 \<le> byte c - 48" by (auto simp: is_digit_def)
  then have "digits_value 10 (int m) (c # s) = digits_value 10 (int m * 10 + int (byte c - 48)) s"
    by (simp add: digit_value_digit [OF c])
  also have "int m * 10 + int (byte c - 48) = int (10 * m + (byte c - 48))" by simp
  also have "digits_value 10 \<dots> s =
      Some (int (foldl (\<lambda>n c. 10 * n + (byte c - 48)) (10 * m + (byte c - 48)) s))"
    using Cons by (simp del: of_nat_add of_nat_mult)
  finally show ?case by simp
qed

text \<open>What \<^verbatim>\<open>fmt.Sprint\<close> writes for an integer is read back.\<close>

lemma ParseUint_dec_nat: "int n < 2 ^ 64 \<Longrightarrow> ParseUint (dec_nat n) = Some (int n)"
proof -
  assume n: "int n < 2 ^ 64"
  have digits: "list_all is_digit (dec_nat n)" "dec_nat n \<noteq> []" by (rule dec_nat_digits)+
  then have no: "CHR ''_'' \<notin> set (dec_nat n)" by (auto simp: list_all_iff is_digit_def)
  show ?thesis
  proof (cases "hd (dec_nat n) = CHR ''0''")
    case True
    then have zero: "dec_nat n = ''0''" by (rule dec_nat_zero)
    with read_dec_nat [of n] have "n = 0" by (simp add: read_nat_def is_digit_def)
    moreover have "ParseUint ''0'' = Some 0" by (simp add: ParseUint_def literal_base_def)
    ultimately show ?thesis using zero by simp
  next
    case False
    with digits(2) have "literal_base (dec_nat n) = (10, dec_nat n)"
      by (auto simp: literal_base_def split: list.splits)
    moreover have "digits_value 10 0 (dec_nat n) = Some (int n)"
      using digits_value_decimal [OF digits(1), of 0] by (simp add: foldl_dec_nat)
    ultimately show ?thesis using n no digits(2) by (simp add: ParseUint_def)
  qed
qed

lemma ParseInt_dec_int:
  assumes "- (2 ^ 63) \<le> i" "i < 2 ^ 63"
  shows "ParseInt (dec_int i) = Some i"
proof (cases "i < 0")
  case True
  with assms ParseUint_dec_nat [of "nat (- i)"] show ?thesis
    by (simp add: dec_int_def ParseInt_def)
next
  case False
  obtain c r where cr: "dec_nat (nat i) = c # r"
    using dec_nat_digits(2) [of "nat i"] by (cases "dec_nat (nat i)") auto
  from dec_nat_head [OF cr] have "c \<noteq> CHR ''-''" "c \<noteq> CHR ''+''" by (auto simp: is_digit_def)
  with False assms cr ParseUint_dec_nat [of "nat i"] show ?thesis
    by (simp add: dec_int_def ParseInt_def)
qed

lemma Parse_Go_on: "parseOne fl args = Go_on fl' rest \<Longrightarrow> Parse fl args = Parse fl' rest"
  by (subst Parse.simps) simp

lemma Parse_Nil: "Parse fl [] = Inr (fl, [])"
  by (subst Parse.simps) (simp add: parseOne_def)

text \<open>A flag by its name, with its value behind it or, for a switch, alone.\<close>

definition flag_name :: "string \<Rightarrow> bool" where
  "flag_name name \<longleftrightarrow> name \<noteq> [] \<and> hd name \<noteq> CHR ''-'' \<and> CHR ''='' \<notin> set name"

lemma parseOne_name:
  assumes "flag_name name"
  shows "parseOne fl ((CHR ''-'' # name) # args) = parseNamed name None fl args"
    "parseOne fl ((CHR ''-'' # CHR ''-'' # name) # args) = parseNamed name None fl args"
proof -
  obtain c r where name: "name = c # r" "c \<noteq> CHR ''-''" "c \<noteq> CHR ''=''" "CHR ''='' \<notin> set r"
    using assms by (cases name) (auto simp: flag_name_def)
  then have "dropWhile (\<lambda>c. c \<noteq> CHR ''='') r = []" by auto
  with name show "parseOne fl ((CHR ''-'' # name) # args) = parseNamed name None fl args"
    "parseOne fl ((CHR ''-'' # CHR ''-'' # name) # args) = parseNamed name None fl args"
    by (simp_all add: parseOne_def split_equals_def)
qed

lemma parseNamed_value:
  assumes "map_of fl name = Some f" "set_value f v = Some u" "\<forall>b. f \<noteq> FBool b"
  shows "parseNamed name None fl (v # rest) = Go_on (set_flag name u fl) rest"
  using assms by (cases f) (auto simp: parseNamed_def)

lemma parseNamed_switch:
  "map_of fl name = Some (FBool b) \<Longrightarrow>
     parseNamed name None fl rest = Go_on (set_flag name (FBool True) fl) rest"
  by (simp add: parseNamed_def ParseBool_def)

lemma Parse_value:
  assumes "flag_name name" "map_of fl name = Some f" "set_value f v = Some u" "\<forall>b. f \<noteq> FBool b"
  shows "Parse fl ((CHR ''-'' # name) # v # rest) = Parse (set_flag name u fl) rest"
  by (rule Parse_Go_on) (simp only: parseOne_name(1) [OF assms(1)] parseNamed_value [OF assms(2-4)])

lemma Parse_switch:
  assumes "flag_name name" "map_of fl name = Some (FBool b)"
  shows "Parse fl ((CHR ''-'' # name) # rest) = Parse (set_flag name (FBool True) fl) rest"
  by (rule Parse_Go_on) (simp only: parseOne_name(1) [OF assms(1)] parseNamed_switch [OF assms(2)])

end
