(* ===== verification/WorkerMain.thy ===== *)
theory WorkerMain
  imports Flags Session
begin

text \<open>
  The entry point of a worker executable, \<^verbatim>\<open>src/pkg/worker/main.go\<close>, and the three
  scanners that call it, \<^verbatim>\<open>src/cmd/scanner-a\<close>, \<^verbatim>\<open>scanner-b\<close> and
  \<^verbatim>\<open>scanner-c\<close>: the flags become the configuration of a session. What runs the
  session, over the standard streams or over a listener, is a parameter.
\<close>

section \<open>Flags\<close>

definition workerFlags :: flags where
  "workerFlags =
     [(''worker-version'', FString ''1.0.0''), (''signatures'', FString ''''),
      (''delay'', FInt 0), (''crash-on-scan'', FBool False), (''fail-health'', FBool False),
      (''listen'', FString ''127.0.0.1:0'')]"

definition string_flag :: "flags \<Rightarrow> string \<Rightarrow> string" where
  "string_flag fl name = (case map_of fl name of Some (FString s) \<Rightarrow> s | _ \<Rightarrow> '''')"

definition bool_flag :: "flags \<Rightarrow> string \<Rightarrow> bool" where
  "bool_flag fl name = (case map_of fl name of Some (FBool b) \<Rightarrow> b | _ \<Rightarrow> False)"

definition int_flag :: "flags \<Rightarrow> string \<Rightarrow> i64" where
  "int_flag fl name = (case map_of fl name of Some (FInt i) \<Rightarrow> i | _ \<Rightarrow> 0)"

datatype usage_error = FlagFailed flag_error | PositionalArguments

text \<open>
  The configuration and the listener's address. The delay is milliseconds; as a duration it
  is multiplied by a million at 64 bits.
\<close>

definition workerOptions :: "string \<Rightarrow> string list \<Rightarrow> usage_error + session_config \<times> string" where
  "workerOptions scannerID args =
     (case Parse workerFlags args of
        Inl e \<Rightarrow> Inl (FlagFailed e)
      | Inr (fl, rest) \<Rightarrow>
          if rest \<noteq> [] then Inl PositionalArguments
          else Inr (\<lparr>scScannerID = scannerID, scWorkerVersion = string_flag fl ''worker-version'',
                      scSignaturePath = string_flag fl ''signatures'',
                      scDelay = sint (int_flag fl ''delay'' * 1000000),
                      scCrashOnScan = bool_flag fl ''crash-on-scan'',
                      scFailHealth = bool_flag fl ''fail-health''\<rparr>,
                    string_flag fl ''listen''))"

section \<open>The exit code\<close>

datatype serving_mode = OverStdio | OverListener string string

definition workerMain ::
  "(serving_mode \<Rightarrow> session_config \<Rightarrow> 'e option) \<Rightarrow> string \<Rightarrow> string \<Rightarrow> string list \<Rightarrow> int" where
  "workerMain run scannerID transport args =
     (case workerOptions scannerID args of
        Inl e \<Rightarrow> 2
      | Inr (config, listen) \<Rightarrow>
          (case run (if transport = ''stdio'' then OverStdio else OverListener transport listen) config of
             Some e \<Rightarrow> 1
           | None \<Rightarrow> 0))"

definition scanner_a :: "(serving_mode \<Rightarrow> session_config \<Rightarrow> 'e option) \<Rightarrow> string list \<Rightarrow> int" where
  "scanner_a run args = workerMain run ''scanner-a'' ''stdio'' args"

definition scanner_b :: "(serving_mode \<Rightarrow> session_config \<Rightarrow> 'e option) \<Rightarrow> string list \<Rightarrow> int" where
  "scanner_b run args = workerMain run ''scanner-b'' ''socket'' args"

definition scanner_c :: "(serving_mode \<Rightarrow> session_config \<Rightarrow> 'e option) \<Rightarrow> string list \<Rightarrow> int" where
  "scanner_c run args = workerMain run ''scanner-c'' ''grpc'' args"

section \<open>Flags as the core passes them\<close>

text \<open>The values of the six flags as a state of the parser.\<close>

definition given :: "string \<Rightarrow> string \<Rightarrow> i64 \<Rightarrow> bool \<Rightarrow> bool \<Rightarrow> string \<Rightarrow> flags" where
  "given version signatures delay crash unhealthy listen =
     [(''worker-version'', FString version), (''signatures'', FString signatures),
      (''delay'', FInt delay), (''crash-on-scan'', FBool crash), (''fail-health'', FBool unhealthy),
      (''listen'', FString listen)]"

lemma workerFlags_given: "workerFlags = given ''1.0.0'' '''' 0 False False ''127.0.0.1:0''"
  by (simp add: workerFlags_def given_def)

lemma flag_names:
  "flag_name ''worker-version''" "flag_name ''signatures''" "flag_name ''delay''"
  "flag_name ''crash-on-scan''" "flag_name ''fail-health''" "flag_name ''listen''"
  by (simp_all add: flag_name_def)

lemma Parse_given:
  "Parse (given v s d c f l) (''-worker-version'' # x # rest) = Parse (given x s d c f l) rest"
  "Parse (given v s d c f l) (''-signatures'' # x # rest) = Parse (given v x d c f l) rest"
  "Parse (given v s d c f l) (''-listen'' # x # rest) = Parse (given v s d c f x) rest"
  "ParseInt x = Some i \<Longrightarrow>
     Parse (given v s d c f l) (''-delay'' # x # rest) = Parse (given v s (word_of_int i) c f l) rest"
  "Parse (given v s d c f l) (''-crash-on-scan'' # rest) = Parse (given v s d True f l) rest"
  "Parse (given v s d c f l) (''-fail-health'' # rest) = Parse (given v s d c True l) rest"
  using Parse_value [OF flag_names(1), of "given v s d c f l" "FString v" x "FString x" rest]
    Parse_value [OF flag_names(2), of "given v s d c f l" "FString s" x "FString x" rest]
    Parse_value [OF flag_names(6), of "given v s d c f l" "FString l" x "FString x" rest]
    Parse_value [OF flag_names(3), of "given v s d c f l" "FInt d" x "FInt (word_of_int i)" rest]
    Parse_switch [OF flag_names(4), of "given v s d c f l" c rest]
    Parse_switch [OF flag_names(5), of "given v s d c f l" f rest]
  by (simp_all add: given_def set_flag_def)

lemma options_given:
  "Parse workerFlags args = Inr (given v s d c f l, []) \<Longrightarrow>
     workerOptions scannerID args = Inr (\<lparr>scScannerID = scannerID, scWorkerVersion = v, scSignaturePath = s,
       scDelay = sint (d * 1000000), scCrashOnScan = c, scFailHealth = f\<rparr>, l)"
  by (simp add: workerOptions_def given_def string_flag_def bool_flag_def int_flag_def)

end
