(* ===== verification/Address.thy ===== *)
theory Address
  imports Json
begin

text \<open>
  The check that an address is on the loopback, \<^verbatim>\<open>ValidateLoopbackAddress\<close> of
  \<^verbatim>\<open>src/pkg/workertransport/transport.go\<close> and \<^verbatim>\<open>validateLoopbackAddress\<close> of
  \<^verbatim>\<open>src/cmd/miniav/transport.go\<close>, with the standard library's
  \<^verbatim>\<open>net.SplitHostPort\<close>, \<^verbatim>\<open>netip.ParseAddr\<close> and \<^verbatim>\<open>IsLoopback\<close>. The texts
  of their errors are not modelled. (\<^verbatim>\<open>IsLoopback\<close> looks through IPv4-mapped IPv6
  addresses since Go 1.22.4, as here.)
\<close>

section \<open>Host and port\<close>

text \<open>The bytes before and behind the last colon.\<close>

definition split_last_colon :: "string \<Rightarrow> (string \<times> string) option" where
  "split_last_colon s =
     (let port = rev (takeWhile (\<lambda>c. c \<noteq> CHR '':'') (rev s)) in
      if length port = length s then None
      else Some (take (length s - length port - 1) s, port))"

definition SplitHostPort :: "string \<Rightarrow> (string \<times> string) option" where
  "SplitHostPort s =
     (case split_last_colon s of None \<Rightarrow> None | Some (front, port) \<Rightarrow>
      if hd s = CHR ''['' then
        (let host = takeWhile (\<lambda>c. c \<noteq> CHR '']'') (tl s) in
         if s = CHR ''['' # host @ '']:'' @ port \<and> front = CHR ''['' # host @ '']'' \<and>
            CHR ''['' \<notin> set (host @ port) \<and> CHR '']'' \<notin> set port
         then Some (host, port) else None)
      else if CHR '':'' \<in> set front \<or> CHR ''['' \<in> set s \<or> CHR '']'' \<in> set s then None
      else Some (front, port))"

section \<open>Literal addresses\<close>

datatype ip = IPv4 "int list" | IPv6 "int list" string

fun split_dots :: "string \<Rightarrow> string list" where
  "split_dots [] = [[]]"
| "split_dots (c # s) =
     (if c = CHR ''.'' then [] # split_dots s
      else case split_dots s of [] \<Rightarrow> [[c]] | p # ps \<Rightarrow> (c # p) # ps)"

text \<open>A field of an IPv4 address: digits without a leading zero, at most 255.\<close>

definition octet :: "string \<Rightarrow> int option" where
  "octet s =
     (case read_nat s of None \<Rightarrow> None
      | Some n \<Rightarrow> if n \<le> 255 \<and> (hd s = CHR ''0'' \<longrightarrow> s = ''0'') then Some (int n) else None)"

definition ipv4_fields :: "string \<Rightarrow> int list option" where
  "ipv4_fields s =
     (case map octet (split_dots s) of
        [Some a, Some b, Some c, Some d] \<Rightarrow> Some [a, b, c, d]
      | _ \<Rightarrow> None)"

definition hex_int :: "string \<Rightarrow> int" where
  "hex_int s = foldl (\<lambda>n c. 16 * n + int (the (hex_value c))) 0 s"

text \<open>
  The loop of \<^verbatim>\<open>parseIPv6\<close>: groups of hexadecimal digits between colons, one empty group
  for zeros, an IPv4 address in place of the last two groups. The first argument is the
  number of groups that are still missing.
\<close>

fun ipv6_groups :: "nat \<Rightarrow> int list \<Rightarrow> nat option \<Rightarrow> string \<Rightarrow> (int list \<times> nat option \<times> string) option" where
  "ipv6_groups 0 gs ellipsis s = Some (gs, ellipsis, s)"
| "ipv6_groups (Suc n) gs ellipsis s =
     (let ds = takeWhile (\<lambda>c. hex_value c \<noteq> None) s; r = drop (length ds) s; gs' = gs @ [hex_int ds] in
      if ds = [] \<or> length ds > 4 then None
      else if r \<noteq> [] \<and> hd r = CHR ''.'' then
        (if ellipsis = None \<and> length gs \<noteq> 6 \<or> length gs > 6 then None
         else case ipv4_fields s of
           Some [a, b, c, d] \<Rightarrow> Some (gs @ [a * 256 + b, c * 256 + d], ellipsis, [])
         | _ \<Rightarrow> None)
      else if r = [] then Some (gs', ellipsis, [])
      else if hd r \<noteq> CHR '':'' \<or> length r = 1 then None
      else if hd (tl r) = CHR '':'' then
        (if ellipsis \<noteq> None then None
         else if tl (tl r) = [] then Some (gs', Some (length gs'), [])
         else ipv6_groups n gs' (Some (length gs')) (tl (tl r)))
      else ipv6_groups n gs' ellipsis (tl r))"

definition parseIPv6 :: "string \<Rightarrow> ip option" where
  "parseIPv6 text =
     (let s = takeWhile (\<lambda>c. c \<noteq> CHR ''%'') text; z = drop (length s) text; zone = tl z in
      if z \<noteq> [] \<and> zone = [] then None
      else if s = ''::'' then Some (IPv6 (replicate 8 0) zone)
      else case (if take 2 s = ''::'' then ipv6_groups 8 [] (Some 0) (drop 2 s)
                 else ipv6_groups 8 [] None s) of
        None \<Rightarrow> None
      | Some (gs, ellipsis, rest) \<Rightarrow>
          if rest \<noteq> [] then None
          else if length gs < 8 then
            (case ellipsis of None \<Rightarrow> None
             | Some i \<Rightarrow> Some (IPv6 (take i gs @ replicate (8 - length gs) 0 @ drop i gs) zone))
          else if ellipsis \<noteq> None then None
          else Some (IPv6 gs zone))"

text \<open>The first separator decides the form.\<close>

definition ParseAddr :: "string \<Rightarrow> ip option" where
  "ParseAddr s =
     (case dropWhile (\<lambda>c. c \<notin> set ''.:%'') s of
        [] \<Rightarrow> None
      | c # _ \<Rightarrow>
          if c = CHR ''.'' then map_option IPv4 (ipv4_fields s)
          else if c = CHR '':'' then parseIPv6 s
          else None)"

definition IsLoopback :: "ip \<Rightarrow> bool" where
  "IsLoopback a \<longleftrightarrow>
     (case a of
        IPv4 fs \<Rightarrow> hd fs = 127
      | IPv6 gs _ \<Rightarrow>
          if take 6 gs = [0, 0, 0, 0, 0, 65535] then gs ! 6 div 256 = 127
          else gs = [0, 0, 0, 0, 0, 0, 0, 1])"

section \<open>The check\<close>

datatype address_error = InvalidAddress | NotLoopback

definition ValidateLoopbackAddress :: "string \<Rightarrow> address_error option" where
  "ValidateLoopbackAddress address =
     (case SplitHostPort address of
        None \<Rightarrow> Some InvalidAddress
      | Some (host, port) \<Rightarrow>
          (case ParseAddr host of
             Some ip \<Rightarrow> if IsLoopback ip then None else Some NotLoopback
           | None \<Rightarrow> Some NotLoopback))"

text \<open>The control plane's own copy of the check.\<close>

definition validateLoopbackAddress :: "string \<Rightarrow> address_error option" where
  "validateLoopbackAddress address =
     (case SplitHostPort address of
        None \<Rightarrow> Some InvalidAddress
      | Some (host, port) \<Rightarrow>
          (case ParseAddr host of
             Some ip \<Rightarrow> if \<not> IsLoopback ip then Some NotLoopback else None
           | None \<Rightarrow> Some NotLoopback))"

section \<open>Lemmas\<close>

lemma split_dots_not_Nil [simp]: "split_dots s \<noteq> []"
  by (cases s) (auto split: list.split)

lemma split_dots_plain: "CHR ''.'' \<notin> set p \<Longrightarrow> split_dots p = [p]"
  by (induction p) auto

lemma split_dots_join: "CHR ''.'' \<notin> set p \<Longrightarrow> split_dots (p @ CHR ''.'' # s) = p # split_dots s"
  by (induction p) auto

lemma split_dots_Cons:
  "split_dots s = p # ps \<Longrightarrow>
     (if ps = [] then s = p else \<exists>r. s = p @ CHR ''.'' # r \<and> split_dots r = ps)"
proof (induction s arbitrary: p ps)
  case Nil
  then show ?case by auto
next
  case (Cons c s)
  show ?case
  proof (cases "c = CHR ''.''")
    case True
    with Cons.prems show ?thesis by auto
  next
    case False
    obtain q qs where q: "split_dots s = q # qs" by (cases "split_dots s") auto
    with False Cons.prems have "p = c # q" "ps = qs" by simp_all
    with Cons.IH [OF q] show ?thesis by auto
  qed
qed

text \<open>A decimal without a leading zero is what \<^verbatim>\<open>strconv\<close> writes for its value.\<close>

lemma dec_nat_of_digits:
  assumes "list_all is_digit s" "s \<noteq> []" "hd s = CHR ''0'' \<longrightarrow> s = ''0''"
  shows "dec_nat (foldl (\<lambda>n c. 10 * n + (byte c - 48)) 0 s) = s"
  using assms
proof (induction s rule: rev_induct)
  case Nil
  then show ?case by simp
next
  case (snoc c t)
  let ?v = "foldl (\<lambda>n c. 10 * n + (byte c - 48)) 0"
  from snoc.prems have c: "48 \<le> byte c" "byte c \<le> 57" by (simp_all add: is_digit_def)
  then have digit: "char_of (48 + (byte c - 48)) = c" "byte c - 48 < 10" by simp_all
  show ?case
  proof (cases "t = []")
    case True
    with digit show ?thesis by (simp add: dec_nat_small)
  next
    case False
    with snoc.prems have head: "hd t \<noteq> CHR ''0''" by (cases t) auto
    with snoc False have t: "dec_nat (?v t) = t" by simp
    have "?v t \<noteq> 0"
    proof
      assume "?v t = 0"
      with t have "dec_nat 0 = t" by (simp only:)
      moreover have "hd (dec_nat 0) = CHR ''0''" by code_simp
      ultimately show False using head by simp
    qed
    then have large: "\<not> 10 * ?v t + (byte c - 48) < 10" by simp
    have "(10 * ?v t + (byte c - 48)) div 10 = ?v t" "(10 * ?v t + (byte c - 48)) mod 10 = byte c - 48"
      using digit(2) by simp_all
    with large digit(1) t show ?thesis by (simp add: dec_nat_large [OF large])
  qed
qed

lemma octet_iff: "octet s = Some i \<longleftrightarrow> (\<exists>n \<le> 255. s = dec_nat n \<and> i = int n)"
proof
  assume "octet s = Some i"
  then obtain n where n: "read_nat s = Some n" "n \<le> 255" "hd s = CHR ''0'' \<longrightarrow> s = ''0''" "i = int n"
    by (auto simp: octet_def split: option.splits if_splits)
  from n(1) have "s \<noteq> []" "list_all is_digit s" "n = foldl (\<lambda>n c. 10 * n + (byte c - 48)) 0 s"
    by (auto simp: read_nat_def split: if_splits)
  with dec_nat_of_digits [of s] n show "\<exists>n \<le> 255. s = dec_nat n \<and> i = int n" by auto
next
  assume "\<exists>n \<le> 255. s = dec_nat n \<and> i = int n"
  then show "octet s = Some i" using dec_nat_zero by (auto simp: octet_def read_dec_nat)
qed

lemma dec_nat_plain: "c \<in> set (dec_nat n) \<Longrightarrow> is_digit c"
  using dec_nat_digits(1) [of n] by (simp add: list_all_iff)

text \<open>Four decimals between dots.\<close>

definition dotted :: "nat \<Rightarrow> nat \<Rightarrow> nat \<Rightarrow> nat \<Rightarrow> string" where
  "dotted a b c d = dec_nat a @ ''.'' @ dec_nat b @ ''.'' @ dec_nat c @ ''.'' @ dec_nat d"

lemma ipv4_fields_iff:
  "ipv4_fields s = Some fs \<longleftrightarrow>
     (\<exists>a b c d. list_all (\<lambda>n. n \<le> 255) [a, b, c, d] \<and> s = dotted a b c d \<and> fs = map int [a, b, c, d])"
proof
  assume "ipv4_fields s = Some fs"
  then obtain i j k l where f: "map octet (split_dots s) = [Some i, Some j, Some k, Some l]"
    "fs = [i, j, k, l]"
    by (auto simp: ipv4_fields_def split: list.splits option.splits)
  then obtain p q r t where p: "split_dots s = [p, q, r, t]" "octet p = Some i" "octet q = Some j"
    "octet r = Some k" "octet t = Some l" by auto
  from split_dots_Cons [OF p(1)] obtain s2 where s2: "s = p @ CHR ''.'' # s2" "split_dots s2 = [q, r, t]"
    by auto
  from split_dots_Cons [OF s2(2)] obtain s3 where s3: "s2 = q @ CHR ''.'' # s3" "split_dots s3 = [r, t]"
    by auto
  from split_dots_Cons [OF s3(2)] have s4: "s3 = r @ CHR ''.'' # t"
    by (auto dest: split_dots_Cons)
  from p(2-5) obtain a b c d where "a \<le> 255" "p = dec_nat a" "i = int a" "b \<le> 255" "q = dec_nat b"
    "j = int b" "c \<le> 255" "r = dec_nat c" "k = int c" "d \<le> 255" "t = dec_nat d" "l = int d"
    unfolding octet_iff by blast
  with f(2) s2(1) s3(1) s4
  show "\<exists>a b c d. list_all (\<lambda>n. n \<le> 255) [a, b, c, d] \<and> s = dotted a b c d \<and> fs = map int [a, b, c, d]"
    by (intro exI [of _ a] exI [of _ b] exI [of _ c] exI [of _ d]) (simp add: dotted_def)
next
  assume "\<exists>a b c d. list_all (\<lambda>n. n \<le> 255) [a, b, c, d] \<and> s = dotted a b c d \<and> fs = map int [a, b, c, d]"
  then obtain a b c d where h: "a \<le> 255" "b \<le> 255" "c \<le> 255" "d \<le> 255" "s = dotted a b c d"
    "fs = map int [a, b, c, d]" by auto
  have no: "CHR ''.'' \<notin> set (dec_nat n)" for n using dec_nat_plain [of "CHR ''.''" n] by (auto simp: is_digit_def)
  have "split_dots s = [dec_nat a, dec_nat b, dec_nat c, dec_nat d]"
    by (simp add: h dotted_def split_dots_join [OF no] split_dots_plain [OF no])
  moreover have "octet (dec_nat n) = Some (int n)" if "n \<le> 255" for n using that by (auto simp: octet_iff)
  ultimately show "ipv4_fields s = Some fs" using h by (simp add: ipv4_fields_def)
qed

lemma dotted_chars: "x \<in> set (dotted a b c d) \<Longrightarrow> is_digit x \<or> x = CHR ''.''"
  by (auto simp: dotted_def dest: dec_nat_plain)

lemma ParseAddr_plain:
  assumes "CHR '':'' \<notin> set s"
  shows "ParseAddr s = Some a \<longleftrightarrow> (\<exists>fs. ipv4_fields s = Some fs \<and> a = IPv4 fs)"
proof (cases "dropWhile (\<lambda>c. c \<notin> set ''.:%'') s")
  case Nil
  then have "CHR ''.'' \<notin> set s" by auto
  then have "ipv4_fields s = None" by (simp add: ipv4_fields_def split_dots_plain split: option.split)
  moreover have "ParseAddr s = None" unfolding ParseAddr_def Nil by simp
  ultimately show ?thesis by simp
next
  case (Cons c r)
  then have c: "c \<in> set ''.:%''" "c \<in> set s"
    using hd_dropWhile [of "\<lambda>c. c \<notin> set ''.:%''" s] set_dropWhileD [of c "\<lambda>c. c \<notin> set ''.:%''" s] by auto
  have "ipv4_fields s = None" if "c = CHR ''%''"
    using that c(2) by (auto simp: ipv4_fields_iff is_digit_def simp flip: not_Some_eq dest!: dotted_chars)
  with Cons c assms show ?thesis by (auto simp: ParseAddr_def)
qed

lemma SplitHostPort_plain:
  assumes "set host \<inter> set '':[]'' = {}" "set port \<inter> set '':[]'' = {}"
  shows "SplitHostPort (host @ '':'' @ port) = Some (host, port)"
proof -
  have "takeWhile (\<lambda>c. c \<noteq> CHR '':'') (rev port @ CHR '':'' # rev host) = rev port"
    using assms(2) by (subst takeWhile_append2) auto
  then have "split_last_colon (host @ '':'' @ port) = Some (host, port)"
    by (simp add: split_last_colon_def)
  moreover have "hd (host @ '':'' @ port) \<noteq> CHR ''[''" using assms(1) by (cases host) auto
  ultimately show ?thesis using assms by (simp add: SplitHostPort_def)
qed

section \<open>Properties\<close>

text \<open>
  Without brackets only a literal IPv4 loopback address passes: host and port separated by
  a colon are accepted exactly when the host is 127 and three more decimals up to 255 without
  leading zeros, separated by dots. No name, \<^verbatim>\<open>localhost\<close> included, and no other
  address is. Both copies of the check agree on every address.
\<close>

theorem ValidateLoopbackAddress_exact:
  assumes "set host \<inter> set '':[]'' = {}" "set port \<inter> set '':[]'' = {}"
  shows "(ValidateLoopbackAddress (host @ '':'' @ port) = None \<longleftrightarrow>
      (\<exists>b c d. list_all (\<lambda>n. n \<le> 255) [b, c, d] \<and> host = dotted 127 b c d)) \<and>
    validateLoopbackAddress = ValidateLoopbackAddress"
proof -
  have "CHR '':'' \<notin> set host" using assms(1) by auto
  note addr = ParseAddr_plain [OF this]
  have "ValidateLoopbackAddress (host @ '':'' @ port) = None \<longleftrightarrow>
      (\<exists>a. ParseAddr host = Some a \<and> IsLoopback a)"
    unfolding ValidateLoopbackAddress_def SplitHostPort_plain [OF assms]
    by (simp split: option.split)
  also have "\<dots> \<longleftrightarrow> (\<exists>fs. ipv4_fields host = Some fs \<and> hd fs = 127)"
    unfolding addr by (auto simp: IsLoopback_def)
  also have "\<dots> \<longleftrightarrow> (\<exists>b c d. list_all (\<lambda>n. n \<le> 255) [b, c, d] \<and> host = dotted 127 b c d)"
  proof
    assume "\<exists>fs. ipv4_fields host = Some fs \<and> hd fs = 127"
    then obtain a b c d where "list_all (\<lambda>n. n \<le> 255) [a, b, c, d]" "host = dotted a b c d" "int a = 127"
      by (auto simp: ipv4_fields_iff)
    moreover from this have "a = 127" by simp
    ultimately show "\<exists>b c d. list_all (\<lambda>n. n \<le> 255) [b, c, d] \<and> host = dotted 127 b c d" by auto
  next
    assume "\<exists>b c d. list_all (\<lambda>n. n \<le> 255) [b, c, d] \<and> host = dotted 127 b c d"
    then obtain b c d where "list_all (\<lambda>n. n \<le> 255) [b, c, d]" "host = dotted 127 b c d" by blast
    then have "ipv4_fields host = Some (map int [127, b, c, d])"
      unfolding ipv4_fields_iff
      by (intro exI [of _ 127] exI [of _ b] exI [of _ c] exI [of _ d]) simp
    then show "\<exists>fs. ipv4_fields host = Some fs \<and> hd fs = 127" by simp
  qed
  finally show ?thesis
    by (simp add: validateLoopbackAddress_def ValidateLoopbackAddress_def fun_eq_iff split: option.split)
qed

theorem ValidateLoopbackAddress_exact_witness:
  "ValidateLoopbackAddress (dotted 127 0 0 1 @ '':'' @ ''7331'') = None"
proof -
  have "set (dotted 127 0 0 1) \<inter> set '':[]'' = {}" "set ''7331'' \<inter> set '':[]'' = {}" by code_simp+
  from ValidateLoopbackAddress_exact [OF this]
  have "ValidateLoopbackAddress (dotted 127 0 0 1 @ '':'' @ ''7331'') = None \<longleftrightarrow>
      (\<exists>b c d. list_all (\<lambda>n. n \<le> 255) [b, c, d] \<and> dotted 127 0 0 1 = dotted 127 b c d)" by (rule conjunct1)
  moreover have "list_all (\<lambda>n. n \<le> 255) [0, 0, 1 :: nat]" by simp
  ultimately show ?thesis by blast
qed

end
