(* ===== verification/Frames.thy ===== *)
theory Frames
  imports Ipc
begin

text \<open>
  Reading one line with a bound, as \<^verbatim>\<open>src/cmd/miniav/transport.go\<close> (\<^verbatim>\<open>readFrame\<close>)
  and \<^verbatim>\<open>src/pkg/workertransport/transport.go\<close> (\<^verbatim>\<open>ReadBootstrap\<close>) do it: a
  \<^verbatim>\<open>bufio.Reader\<close> of the standard size over an \<^verbatim>\<open>io.LimitReader\<close>, whose
  \<^verbatim>\<open>ReadBytes\<close> collects slices until one ends with the newline. Then one JSON value is
  decoded from the line into a struct without unknown members.
\<close>

section \<open>The standard library's readers\<close>

text \<open>\<^verbatim>\<open>io.LimitReader\<close>: the first \<open>n\<close> bytes, then the end of the stream.\<close>

fun LimitReader :: "nat \<Rightarrow> reader \<Rightarrow> reader" where
  "LimitReader n [] = []"
| "LimitReader n ((chunk, err) # rest) =
     (if n = 0 then []
      else if length chunk \<le> n then (chunk, err) # LimitReader (n - length chunk) rest
      else [(take n chunk, None)])"

abbreviation bufioSize :: nat where
  "bufioSize \<equiv> 4096"

definition NewReader :: "reader \<Rightarrow> bufio" where
  "NewReader rs = \<lparr>unread = [], source = rs, pending = None\<rparr>"

text \<open>The bytes that are still to come; a full slice takes at least a buffer of them.\<close>

definition left_over :: "bufio \<Rightarrow> nat" where
  "left_over b = length (unread b) + sum_list (map (length \<circ> fst) (source b))"

lemma left_over_fill: "left_over (fill cap i b) = left_over b"
proof (induction i arbitrary: b)
  case 0
  then show ?case by (simp add: left_over_def)
next
  case (Suc i)
  have "length (fst (fst (read_some k rs))) + sum_list (map (length \<circ> fst) (snd (read_some k rs))) =
      sum_list (map (length \<circ> fst) rs)" for k rs
    by (induction k rs rule: read_some.induct) auto
  from this [of "cap - length (unread b)" "source b"] Suc show ?case
    by (auto simp: Let_def split_def left_over_def)
qed

lemma left_over_ReadSlice:
  "left_over (snd (ReadSlice cap b)) + length (fst (fst (ReadSlice cap b))) = left_over b \<and>
   (snd (fst (ReadSlice cap b)) = Some BufferFull \<longrightarrow> cap \<le> length (fst (fst (ReadSlice cap b))))"
proof (induction cap b rule: ReadSlice.induct)
  case (1 cap b)
  let ?line = "takeWhile (\<lambda>c. c \<noteq> newline) (unread b)"
  show ?case
  proof (cases "length ?line < length (unread b)")
    case True
    then show ?thesis by (subst (1 2 3 4) ReadSlice.simps) (simp add: Let_def left_over_def)
  next
    case no: False
    show ?thesis
    proof (cases "pending b")
      case (Some e)
      then show ?thesis using no
        by (subst (1 2 3 4) ReadSlice.simps) (simp only: Let_def if_False option.case left_over_def, simp)
    next
      case None
      show ?thesis
      proof (cases "cap \<le> length (unread b)")
        case True
        then show ?thesis using no None
          by (subst (1 2 3 4) ReadSlice.simps)
            (simp only: Let_def if_False if_True option.case left_over_def, simp)
      next
        case False
        have eq: "ReadSlice cap b = ReadSlice cap (fill cap 100 b)"
          using no None False by (subst ReadSlice.simps) (simp only: Let_def if_False option.case)
        from "1.IH" [OF refl no None False] show ?thesis unfolding eq left_over_fill .
      qed
    qed
  qed
qed

lemma left_over_full:
  assumes "((frag, Some BufferFull), b') = ReadSlice bufioSize b"
  shows "left_over b' < left_over b"
  using left_over_ReadSlice [of bufioSize b] unfolding assms [symmetric] by simp

text \<open>\<^verbatim>\<open>ReadBytes\<close> with the newline as delimiter.\<close>

function ReadBytes :: "bufio \<Rightarrow> bytes \<times> read_error option" where
  "ReadBytes b =
     (case ReadSlice bufioSize b of
        ((frag, None), b') \<Rightarrow> (frag, None)
      | ((frag, Some (SliceError e)), b') \<Rightarrow> (frag, Some e)
      | ((frag, Some BufferFull), b') \<Rightarrow> apfst (append frag) (ReadBytes b'))"
  by pat_completeness auto
termination
  by (relation "measure left_over") (auto dest: left_over_full)

declare ReadBytes.simps [simp del]

section \<open>One line\<close>

datatype line_error = LineTooLong | LineFailed read_error

definition readLine :: "nat \<Rightarrow> reader \<Rightarrow> line_error + bytes" where
  "readLine limit rs =
     (case ReadBytes (NewReader (LimitReader (limit + 1) rs)) of (frame, err) \<Rightarrow>
      if length frame > limit then Inl LineTooLong
      else case err of Some e \<Rightarrow> Inl (LineFailed e) | None \<Rightarrow> Inr frame)"

text \<open>
  The JSON value at the head of a line, decoded with \<^verbatim>\<open>DisallowUnknownFields\<close>. What
  follows the value on the line is not looked at.
\<close>

definition decodeStrict :: "(string \<times> 'a setter) list \<Rightarrow> 'a \<Rightarrow> bytes \<Rightarrow> 'a option" where
  "decodeStrict table zero frame =
     (case next_value frame of Value v _ \<Rightarrow> store_struct table v zero | _ \<Rightarrow> None)"

text \<open>
  \<^verbatim>\<open>json.NewEncoder(w).Encode(x)\<close>: the text and a newline in one call of
  \<^verbatim>\<open>Write\<close>, whose byte count is not looked at. The second component is what the writer took.
\<close>

definition encodeLine :: "writer \<Rightarrow> json \<Rightarrow> string option \<times> bytes" where
  "encodeLine w v =
     (let data = print_json v @ [newline] in (snd (w data), take (fst (w data)) data))"

section \<open>Lemmas\<close>

lemma steady_LimitReader: "steady rs \<Longrightarrow> steady (LimitReader n rs)"
  by (induction n rs rule: LimitReader.induct) (auto simp: steady_def)

text \<open>A limit that is not reached changes nothing; else the first bytes are delivered.\<close>

lemma delivered_LimitReader:
  "length (fst (delivered rs)) < n \<Longrightarrow> delivered (LimitReader n rs) = delivered rs"
  "n \<le> length (fst (delivered rs)) \<Longrightarrow> fst (delivered (LimitReader n rs)) = take n (fst (delivered rs))"
proof (induction n rs rule: LimitReader.induct)
  case (1 n)
  {
    case 1
    then show ?case by simp
  next
    case 2
    then show ?case by simp
  }
next
  case (2 n chunk err rest)
  {
    case 1
    then show ?case
      using "2.IH"(1) by (cases err) (auto simp: apfst_def map_prod_def split: prod.splits)
  next
    case 2
    show ?case
    proof (cases "n = 0 \<or> \<not> length chunk \<le> n")
      case True
      then show ?thesis by (auto simp: apfst_def map_prod_def split: option.splits prod.splits)
    next
      case False
      with 2 "2.IH"(2) show ?thesis
        by (cases err) (auto simp: apfst_def map_prod_def split: prod.splits)
    qed
  }
qed

lemma ReadBytes_result:
  "bufio_ok bufioSize b \<Longrightarrow> content b = (c, e) \<Longrightarrow>
     ReadBytes b = (if newline \<in> set c then (takeWhile (\<lambda>x. x \<noteq> newline) c @ [newline], None)
                    else (c, Some e))"
proof (induction b arbitrary: c rule: ReadBytes.induct)
  case (1 b)
  let ?p = "ReadSlice bufioSize b"
  obtain frag err b' where p: "?p = ((frag, err), b')" by (metis prod.exhaust)
  from ReadSlice_result [OF "1.prems"] consider
      (line) line rest where "c = line @ newline # rest" "newline \<notin> set line" "frag = line @ [newline]" "err = None"
    | (failed) "newline \<notin> set c" "frag = c" "err = Some (SliceError e)"
    | (full) pre post where "c = pre @ post" "newline \<notin> set pre" "frag = pre" "err = Some BufferFull"
        "content b' = (post, e)" "bufio_ok bufioSize b'"
    unfolding slice_result_def p by auto
  then show ?case
  proof cases
    case line
    then have "takeWhile (\<lambda>x. x \<noteq> newline) c = line"
      by (simp add: takeWhile_tail) (metis takeWhile_eq_all_conv)
    with line p show ?thesis by (subst ReadBytes.simps) simp
  next
    case failed
    with p show ?thesis by (subst ReadBytes.simps) simp
  next
    case full
    have "ReadBytes b' = (if newline \<in> set post then (takeWhile (\<lambda>x. x \<noteq> newline) post @ [newline], None)
        else (post, Some e))"
      by (rule "1.IH" [OF p [symmetric] refl full(4) refl full(6,5)])
    moreover have "takeWhile (\<lambda>x. x \<noteq> newline) c = pre @ takeWhile (\<lambda>x. x \<noteq> newline) post"
      unfolding full(1) using full(2) by (intro takeWhile_append2) auto
    ultimately show ?thesis using p full(1-4) by (subst ReadBytes.simps) simp
  qed
qed

lemma NewReader_content: "content (NewReader rs) = delivered rs"
  by (simp add: NewReader_def content_def apfst_def map_prod_def split_def)

text \<open>
  The line that is read: the bytes up to the first newline if that comes within the limit
  (which counts the newline), else the reader's error, else too long.
\<close>

lemma readLine_exact:
  assumes "steady rs" "delivered rs = (c, e)"
  shows "readLine limit rs =
    (let n = length (takeWhile (\<lambda>x. x \<noteq> newline) c) in
     if n < length c \<and> n < limit then Inr (take (Suc n) c)
     else if length c \<le> limit then Inl (LineFailed e)
     else Inl LineTooLong)"
proof -
  let ?rs = "LimitReader (Suc limit) rs"
  let ?line = "takeWhile (\<lambda>x. x \<noteq> newline)"
  obtain c' e' where d: "delivered ?rs = (c', e')" by fastforce
  have rb: "ReadBytes (NewReader ?rs) = (if newline \<in> set c' then (?line c' @ [newline], None) else (c', Some e'))"
    by (rule ReadBytes_result)
      (simp_all add: NewReader_content d, simp add: NewReader_def bufio_ok_def steady_LimitReader [OF assms(1)])
  have split: "take (Suc (length (?line s))) s = ?line s @ [newline]" if "newline \<in> set s" for s
    using that by (elim split_newline) simp
  show ?thesis
  proof (cases "length c \<le> limit")
    case True
    have "c' = c" "e' = e"
      using True delivered_LimitReader(1) [of rs "Suc limit"] assms(2) d by simp_all
    note rb' = rb [unfolded this]
    show ?thesis
    proof (cases "newline \<in> set c")
      case nl: True
      with True takeWhile_newline [of c] have "length (?line c) < length c" "length (?line c) < limit"
        by simp_all
      with True rb' nl split [OF nl] show ?thesis by (simp add: readLine_def)
    next
      case False
      with True rb' takeWhile_newline [of c] show ?thesis by (simp add: readLine_def)
    qed
  next
    case False
    have c': "c' = take (Suc limit) c"
      using False delivered_LimitReader(2) [of "Suc limit" rs] assms(2) d by simp
    show ?thesis
    proof (cases "newline \<in> set c'")
      case True
      have "c = c' @ drop (Suc limit) c" by (simp add: c')
      then have "?line c = ?line c'" using takeWhile_append1 [OF True, of _ "drop (Suc limit) c"] by simp
      moreover from True c' have "newline \<in> set c" by (auto dest: in_set_takeD)
      ultimately have line: "?line c' = ?line c" "newline \<in> set c" by simp_all
      then have "length (?line c) < length c" by (simp add: takeWhile_newline)
      with rb True False split [OF line(2)] line(1) show ?thesis by (simp add: readLine_def)
    next
      case no: False
      have "\<not> length (?line c) < limit \<or> newline \<notin> set c"
      proof (rule disjCI, rule notI)
        assume "\<not> newline \<notin> set c" "length (?line c) < limit"
        then obtain line rest where "c = line @ newline # rest" "length line < limit"
          by (auto elim: split_newline)
        then have "newline \<in> set c'" unfolding c' by (cases "Suc limit - length line") auto
        with no show False by simp
      qed
      then have "\<not> (length (?line c) < length c \<and> length (?line c) < limit)"
        by (auto simp: takeWhile_newline)
      with rb no False c' show ?thesis by (auto simp: readLine_def Let_def)
    qed
  qed
qed

section \<open>A struct on a line\<close>

text \<open>
  What the two ends agree on: one writes a struct as a JSON text and a newline, the other
  reads the line and decodes it. The laws are those of the struct: its text is one that
  \<^verbatim>\<open>json.Marshal\<close> writes, its strings survive (valid UTF-8), and storing the members of
  the text gives the struct back.
\<close>

locale struct_line =
  fixes to_json :: "'m \<Rightarrow> json"
    and table :: "(string \<times> 'm setter) list"
    and zero :: 'm
    and faithful :: "'m \<Rightarrow> bool"
  assumes printed: "printable (to_json m)"
    and survives: "faithful m \<Longrightarrow> coerce_json (to_json m) = to_json m"
    and stored: "faithful m \<Longrightarrow> store_struct table (to_json m) zero = Some m"
begin

lemma no_newline: "newline \<notin> set (print_json (to_json m))"
  by (rule no_control_newline) (rule print_no_control [OF printed])

lemma decodes: "faithful m \<Longrightarrow> decodeStrict table zero (print_json (to_json m) @ newline # s) = Some m"
  by (simp add: decodeStrict_def next_printed_before [OF printed] stops_def survives stored)

text \<open>The line arrives whatever follows it and however it is cut, if it is within the limit.\<close>

lemma arrives:
  assumes "faithful m" "length (print_json (to_json m)) < limit" "steady rs"
    and "delivered rs = (print_json (to_json m) @ newline # rest, e)"
  shows "\<exists>frame. readLine limit rs = Inr frame \<and> decodeStrict table zero frame = Some m"
proof -
  let ?p = "print_json (to_json m)"
  have "takeWhile (\<lambda>x. x \<noteq> newline) (?p @ newline # rest) = ?p"
    using no_newline by (simp add: takeWhile_tail) (metis takeWhile_eq_all_conv)
  then have "readLine limit rs = Inr (?p @ [newline])"
    using assms(2) by (simp add: readLine_exact [OF assms(3,4)])
  with decodes [OF assms(1), of "[]"] show ?thesis by simp
qed

end

end
