(* ===== verification/Bootstrap.thy ===== *)
theory Bootstrap
  imports Frames Address Transport
begin

text \<open>
  How a core reaches a worker over TCP, \<^verbatim>\<open>src/pkg/workertransport/transport.go\<close> and
  \<^verbatim>\<open>src/pkg/worker/server.go\<close>: the worker listens, writes the address it is bound to
  as one line on its standard output, and the core reads the line and dials. The network is
  a parameter: the answers of \<^verbatim>\<open>net.Listen\<close>, of the dialers and of the accepting socket.
\<close>

section \<open>The bootstrap line\<close>

record Bootstrap =
  Address :: string

definition bootstrapFields :: "(string \<times> Bootstrap setter) list" where
  "bootstrapFields = [(''address'', store_string Address_update)]"

definition bootstrap_json :: "Bootstrap \<Rightarrow> json" where
  "bootstrap_json b = JObj [(''address'', JStr (Address b))]"

datatype bootstrap_error =
    BootstrapTooLong
  | BootstrapRead read_error
  | BootstrapDecode
  | BootstrapEmpty
  | BootstrapWrite string

definition ReadBootstrap :: "reader \<Rightarrow> bootstrap_error + Bootstrap" where
  "ReadBootstrap rs =
     (case readLine MaxFrameSize rs of
        Inl LineTooLong \<Rightarrow> Inl BootstrapTooLong
      | Inl (LineFailed e) \<Rightarrow> Inl (BootstrapRead e)
      | Inr frame \<Rightarrow>
          (case decodeStrict bootstrapFields \<lparr>Address = ''''\<rparr> frame of
             None \<Rightarrow> Inl BootstrapDecode
           | Some b \<Rightarrow> if blank (Address b) then Inl BootstrapEmpty else Inr b))"

definition WriteBootstrap :: "writer \<Rightarrow> string \<Rightarrow> bootstrap_error option \<times> bytes" where
  "WriteBootstrap w address =
     (if blank address then (Some BootstrapEmpty, [])
      else apfst (map_option BootstrapWrite) (encodeLine w (bootstrap_json \<lparr>Address = address\<rparr>)))"

section \<open>Connections\<close>

text \<open>\<^verbatim>\<open>Close\<close> calls every closer and returns the first error.\<close>

definition closeStream :: "string option list \<Rightarrow> string option" where
  "closeStream errs = fold (\<lambda>err result. if err \<noteq> None \<and> result = None then err else result) errs None"

text \<open>The answers of the network to one dialer.\<close>

record network =
  dialTCP :: "string \<Rightarrow> string option"
  dialGRPC :: "string \<Rightarrow> string option"
  openExchange :: "string \<Rightarrow> string option"

datatype Connection = StdioStream | StreamTo string | GRPCTo string

datatype dial_error =
    DialAddress address_error
  | DialFailed string
  | ExchangeFailed string
  | DialUnsupported string

definition Dial :: "network \<Rightarrow> string \<Rightarrow> string \<Rightarrow> dial_error + Connection" where
  "Dial net mode address =
     (case ValidateLoopbackAddress address of Some e \<Rightarrow> Inl (DialAddress e) | None \<Rightarrow>
      if mode = ''socket'' then
        (case dialTCP net address of Some e \<Rightarrow> Inl (DialFailed e) | None \<Rightarrow> Inr (StreamTo address))
      else if mode = ''grpc'' then
        (case dialGRPC net address of Some e \<Rightarrow> Inl (DialFailed e) | None \<Rightarrow>
         (case openExchange net address of Some e \<Rightarrow> Inl (ExchangeFailed e) | None \<Rightarrow> Inr (GRPCTo address)))
      else Inl (DialUnsupported mode))"

text \<open>A gRPC stream carries the protobuf form of a message, in both directions.\<close>

datatype grpc_error = ConvertFailed transport_error | StreamFailed string

definition grpcSend :: "(protoMessage \<Rightarrow> string option) \<Rightarrow> Message \<Rightarrow> grpc_error option" where
  "grpcSend stream m =
     (case ToProto m of
        Inl e \<Rightarrow> Some (ConvertFailed e)
      | Inr payload \<Rightarrow> map_option StreamFailed (stream payload))"

definition grpcReceive :: "string + protoMessage option \<Rightarrow> grpc_error + Message" where
  "grpcReceive received =
     (case received of
        Inl e \<Rightarrow> Inl (StreamFailed e)
      | Inr payload \<Rightarrow> (case FromProto payload of Inl e \<Rightarrow> Inl (ConvertFailed e) | Inr m \<Rightarrow> Inr m))"

section \<open>The listening worker\<close>

datatype 'e serve_error =
    ServeUnsupported string
  | ServeAddress address_error
  | ListenFailed string
  | ServeBootstrap bootstrap_error
  | AcceptFailed string
  | ServeContext string
  | ServerStopped
  | ServerFailed string
  | SessionFailed 'e

text \<open>One connection is accepted; its session is \<open>run\<close>. The listener closes when the context ends.\<close>

definition serveSocket :: "string option \<Rightarrow> string option \<Rightarrow> 'e option \<Rightarrow> 'e serve_error option" where
  "serveSocket ctx accept run =
     (case accept of
        Some e \<Rightarrow> (case ctx of Some c \<Rightarrow> Some (ServeContext c) | None \<Rightarrow> Some (AcceptFailed e))
      | None \<Rightarrow> map_option SessionFailed run)"

text \<open>
  What ends a gRPC server first: the server itself, the first exchange, or the context. After
  the first exchange the server is stopped and says how its \<^verbatim>\<open>Serve\<close> returned, where
  \<^verbatim>\<open>ErrServerStopped\<close> is no failure.
\<close>

datatype 'e grpc_event =
    ServerReturned "'e serve_error option"
  | ExchangeFinished "'e serve_error option"
  | ContextOver string

definition serveGRPC :: "'e grpc_event \<Rightarrow> 'e serve_error option" where
  "serveGRPC event =
     (case event of
        ServerReturned r \<Rightarrow> r
      | ExchangeFinished r \<Rightarrow> (case r of Some ServerStopped \<Rightarrow> None | _ \<Rightarrow> r)
      | ContextOver e \<Rightarrow> Some (ServeContext e))"

text \<open>
  The bound address is written before anything is served.
\<close>

definition Serve ::
  "(string \<Rightarrow> string + string) \<Rightarrow> writer \<Rightarrow> string option \<Rightarrow> string option \<Rightarrow> 'e option \<Rightarrow> 'e grpc_event \<Rightarrow>
     string \<Rightarrow> string \<Rightarrow> 'e serve_error option \<times> bytes" where
  "Serve listen w ctx accept run grpc mode address =
     (if mode \<noteq> ''socket'' \<and> mode \<noteq> ''grpc'' then (Some (ServeUnsupported mode), [])
      else case ValidateLoopbackAddress address of Some e \<Rightarrow> (Some (ServeAddress e), []) | None \<Rightarrow>
       (case listen address of Inl e \<Rightarrow> (Some (ListenFailed e), []) | Inr bound \<Rightarrow>
        (case WriteBootstrap w bound of
           (Some e, out) \<Rightarrow> (Some (ServeBootstrap e), out)
         | (None, out) \<Rightarrow>
             (if mode = ''socket'' then serveSocket ctx accept run else serveGRPC grpc, out))))"

section \<open>The line as a struct\<close>

definition faithful_bootstrap :: "Bootstrap \<Rightarrow> bool" where
  "faithful_bootstrap b \<longleftrightarrow> utf8_valid (Address b)"

interpretation bootstrap: struct_line bootstrap_json bootstrapFields "\<lparr>Address = ''''\<rparr>" faithful_bootstrap
proof
  fix m :: Bootstrap
  show "printable (bootstrap_json m)" by (simp add: bootstrap_json_def)
  assume m: "faithful_bootstrap m"
  have "ascii ''address''" by (simp add: ascii_def)
  then show "coerce_json (bootstrap_json m) = bootstrap_json m"
    using m by (simp add: bootstrap_json_def faithful_bootstrap_def coerce_ascii coerce_valid)
  show "store_struct bootstrapFields (bootstrap_json m) \<lparr>Address = ''''\<rparr> = Some m"
    by (simp add: store_struct_def bootstrap_json_def bootstrapFields_def find_field_def store_string_def)
qed

text \<open>
  An \<^verbatim>\<open>io.Writer\<close> that takes less than it is given returns an error (its documented
  contract).
\<close>

definition whole_writes :: "writer \<Rightarrow> bool" where
  "whole_writes w \<longleftrightarrow> (\<forall>data. snd (w data) = None \<longrightarrow> fst (w data) = length data)"

lemma encodeLine_None: "whole_writes w \<Longrightarrow> encodeLine w v = (None, out) \<Longrightarrow> out = print_json v @ [newline]"
  unfolding encodeLine_def whole_writes_def Let_def by (auto dest: spec)

lemma Dial_loopback: "Dial net mode address = Inr c \<Longrightarrow> ValidateLoopbackAddress address = None"
  by (simp add: Dial_def split: option.splits)

section \<open>Properties\<close>

text \<open>
  C26. The address arrives: when a worker that listens has written its bootstrap line without an
  error, the core reads back exactly the address the listener is bound to, however the pipe
  cuts the bytes and whatever the worker prints behind the line, as long as the address is
  valid UTF-8 and the line is within the limit. A worker starts to serve only with a
  supported mode, on a loopback address, and after that line.
\<close>

theorem bootstrap_roundtrip:
  assumes "Serve listen w ctx accept run grpc mode address = (result, out)" "out \<noteq> []"
    and "\<forall>e. result \<noteq> Some (ServeBootstrap e)" "whole_writes w"
    and "steady rs" "delivered rs = (out @ rest, e)" "length out \<le> MaxFrameSize"
    and "\<forall>bound. listen address = Inr bound \<longrightarrow> utf8_valid bound"
  shows "\<exists>bound. listen address = Inr bound \<and> ReadBootstrap rs = Inr \<lparr>Address = bound\<rparr> \<and>
    ValidateLoopbackAddress address = None \<and> mode \<in> {''socket'', ''grpc''}"
proof -
  from assms(1,2) obtain bound where b: "listen address = Inr bound" "ValidateLoopbackAddress address = None"
    "mode = ''socket'' \<or> mode = ''grpc''"
    by (auto simp: Serve_def split: if_splits option.splits sum.splits)
  obtain err out' where wb: "WriteBootstrap w bound = (err, out')" by fastforce
  have serve: "Serve listen w ctx accept run grpc mode address =
      (case err of Some e \<Rightarrow> (Some (ServeBootstrap e), out')
       | None \<Rightarrow> (if mode = ''socket'' then serveSocket ctx accept run else serveGRPC grpc, out'))"
    using b by (auto simp: Serve_def wb)
  with assms(1,3) have "err = None" "out' = out" by (auto split: option.splits)
  with wb have nb: "\<not> blank bound" and
    "encodeLine w (bootstrap_json \<lparr>Address = bound\<rparr>) = (None, out)"
    by (auto simp: WriteBootstrap_def apfst_def map_prod_def split: if_splits prod.splits)
  with assms(4) have out: "out = print_json (bootstrap_json \<lparr>Address = bound\<rparr>) @ [newline]"
    by (simp add: encodeLine_None)
  have "faithful_bootstrap \<lparr>Address = bound\<rparr>" using assms(8) b(1) by (simp add: faithful_bootstrap_def)
  from bootstrap.arrives [OF this _ assms(5), of MaxFrameSize rest e] assms(6,7) out obtain frame where
    "readLine MaxFrameSize rs = Inr frame"
    "decodeStrict bootstrapFields \<lparr>Address = ''''\<rparr> frame = Some \<lparr>Address = bound\<rparr>" by auto
  with nb have "ReadBootstrap rs = Inr \<lparr>Address = bound\<rparr>" by (simp add: ReadBootstrap_def)
  with b show ?thesis by blast
qed

text \<open>A listener that is bound to a port of its own choice.\<close>

definition demo_listen :: "string \<Rightarrow> string + string" where
  "demo_listen address = Inr ''127.0.0.1:4040''"

definition pipe_writer :: writer where
  "pipe_writer data = (length data, None)"

definition demo_line :: bytes where
  "demo_line = print_json (bootstrap_json \<lparr>Address = ''127.0.0.1:4040''\<rparr>) @ [newline]"

theorem bootstrap_roundtrip_witness:
  "ReadBootstrap [(take 5 demo_line, None), (drop 5 demo_line @ ''log'', Some EOF)] =
     Inr \<lparr>Address = ''127.0.0.1:4040''\<rparr>"
proof -
  let ?rs = "[(take 5 demo_line, None), (drop 5 demo_line @ ''log'', Some EOF)]"
  let ?none = "None :: unit serve_error option"
  have line: "length demo_line = 29" by code_simp
  have facts: "ValidateLoopbackAddress ''127.0.0.1:0'' = None" "\<not> blank ''127.0.0.1:4040''"
    "utf8_valid ''127.0.0.1:4040''" by code_simp+
  have 1: "Serve demo_listen pipe_writer None None None (ContextOver '''') ''socket'' ''127.0.0.1:0'' = (?none, demo_line)"
    by (simp add: Serve_def serveSocket_def facts demo_listen_def WriteBootstrap_def encodeLine_def pipe_writer_def demo_line_def)
  have 2: "demo_line \<noteq> []" using line by auto
  have 3: "\<forall>e. ?none \<noteq> Some (ServeBootstrap e)" by simp
  have 4: "whole_writes pipe_writer" by (simp add: whole_writes_def pipe_writer_def)
  have 5: "steady ?rs" using 2 by (simp add: steady_def)
  have 6: "delivered ?rs = (demo_line @ ''log'', EOF)" by (simp flip: append_assoc)
  have 7: "length demo_line \<le> MaxFrameSize" by (simp add: line)
  have 8: "\<forall>bound. demo_listen ''127.0.0.1:0'' = Inr bound \<longrightarrow> utf8_valid bound"
    by (simp add: demo_listen_def facts)
  from bootstrap_roundtrip [OF 1 2 3 4 5 6 7 8] show ?thesis by (auto simp: demo_listen_def)
qed

end
