(* ===== verification/Launch.thy ===== *)
theory Launch
  imports WorkerMain ConfigLoad Bootstrap Runtime
begin

text \<open>
  The callers of the runtime's loop, \<^verbatim>\<open>src/pkg/coordinator/runtime.go\<close>:
  \<^verbatim>\<open>NewRuntime\<close>, \<^verbatim>\<open>StartWorker\<close>, which starts a process and takes it through
  registration, handshake, health check and activation, the methods that send one command
  and wait for its answer, and the goroutines that carry messages between a worker and the
  loop. What the operating system, the network and the loop answer are arguments; what a
  caller does is a list of actions.
\<close>

section \<open>Starting the runtime\<close>

definition NewRuntime :: "i64 \<Rightarrow> i64 \<Rightarrow> string + i64 \<times> i64" where
  "NewRuntime startupTimeout scanTimeout =
     (if startupTimeout \<le>s 0 \<or> scanTimeout \<le>s 0
      then Inl ''runtime timeouts must be greater than zero''
      else Inr (startupTimeout, scanTimeout))"

section \<open>Calls of the loop\<close>

text \<open>A select between the loop, the context and the end of the runtime.\<close>

datatype stop = ContextEnded string | RuntimeStopped

datatype client_error = Interrupted stop | Refused runtime_error

definition waitRuntimeReply :: "stop + runtime_error option \<Rightarrow> client_error option" where
  "waitRuntimeReply answer =
     (case answer of Inr reply \<Rightarrow> map_option Refused reply | Inl e \<Rightarrow> Some (Interrupted e))"

text \<open>How the loop answers: whether it takes an event, and what comes through a channel.\<close>

record loop_answers =
  taken :: "event \<Rightarrow> stop option"
  replied :: "chan \<Rightarrow> stop + runtime_error option"

datatype action =
    StartProcess string "string list"
  | Connect string
  | Send event
  | Await chan
  | CloseConnection
  | TerminateChild

definition call_loop :: "loop_answers \<Rightarrow> event \<Rightarrow> chan \<Rightarrow> client_error option \<times> action list" where
  "call_loop a e c =
     (case taken a e of
        Some x \<Rightarrow> (Some (Interrupted x), [Send e])
      | None \<Rightarrow> (waitRuntimeReply (replied a c), [Send e, Await c]))"

definition hello :: "loop_answers \<Rightarrow> WorkerKey \<Rightarrow> chan \<Rightarrow> client_error option \<times> action list" where
  "hello a k c = call_loop a (HelloRuntime k c) c"

definition health :: "loop_answers \<Rightarrow> WorkerKey \<Rightarrow> chan \<Rightarrow> client_error option \<times> action list" where
  "health a k c = call_loop a (HealthRuntime k c) c"

definition activate :: "loop_answers \<Rightarrow> WorkerKey \<Rightarrow> chan \<Rightarrow> client_error option \<times> action list" where
  "activate a k c = call_loop a (ActivateRuntime k c) c"

text \<open>The answer to the failure of a candidate is not looked at.\<close>

definition failCandidate :: "loop_answers \<Rightarrow> WorkerKey \<Rightarrow> string \<Rightarrow> chan \<Rightarrow> action list" where
  "failCandidate a k reason c = snd (call_loop a (FailRuntime k reason c) c)"

section \<open>Connecting\<close>

text \<open>What comes first: the worker's output, its exit, or the end of the context.\<close>

datatype bootstrap_wait = BootstrapReady reader | ExitedFirst int | ContextFirst string

datatype connect_error =
    NoBootstrap bootstrap_error
  | NoConnection dial_error
  | ExitedDuringBootstrap string int
  | BootstrapTimeout string string

definition connectWorker :: "network \<Rightarrow> bootstrap_wait \<Rightarrow> string \<Rightarrow> connect_error + Connection" where
  "connectWorker net first mode =
     (if mode = ''stdio'' then Inr StdioStream
      else case first of
        BootstrapReady rs \<Rightarrow>
          (case ReadBootstrap rs of
             Inl e \<Rightarrow> Inl (NoBootstrap e)
           | Inr b \<Rightarrow> (case Dial net mode (Address b) of Inl e \<Rightarrow> Inl (NoConnection e) | Inr c \<Rightarrow> Inr c))
      | ExitedFirst code \<Rightarrow> Inl (ExitedDuringBootstrap mode code)
      | ContextFirst e \<Rightarrow> Inl (BootstrapTimeout mode e))"

section \<open>Starting a worker\<close>

definition workerArgs :: "Worker \<Rightarrow> string list" where
  "workerArgs w =
     [''-worker-version'', cWorkerVersion w, ''-signatures'', cSignaturePath w] @
     (if cTransport w \<noteq> ''stdio'' then [''-listen'', ''127.0.0.1:0''] else []) @
     (if cDelayMs w \<noteq> 0 then [''-delay'', dec_int (sint (cDelayMs w))] else []) @
     (if cCrashOnScan w then [''-crash-on-scan''] else []) @
     (if cFailHealth w then [''-fail-health''] else [])"

datatype start_error =
    NotStarted process_error
  | NotConnected connect_error
  | NotRegistered client_error
  | NoHandshake WorkerKey client_error
  | NoHealth WorkerKey client_error
  | NotActivated client_error

definition worker_key :: "Worker \<Rightarrow> WorkerKey" where
  "worker_key w = \<lparr>ScannerID = cScannerID w, Version = cWorkerVersion w\<rparr>"

text \<open>
  Each call makes a reply channel of its own: \<open>c\<close> and the four after it. \<open>txt\<close> is the
  error's text, which becomes the reason of the candidate's failure.
\<close>

definition StartWorker ::
  "loop_answers \<Rightarrow> os_start \<Rightarrow> network \<Rightarrow> bootstrap_wait \<Rightarrow> (client_error \<Rightarrow> string) \<Rightarrow>
     Worker \<Rightarrow> chan \<Rightarrow> start_error option \<times> action list" where
  "StartWorker a os net first txt w c =
     (let started = [StartProcess (cExecutable w) (workerArgs w)]; k = worker_key w in
      case Start os (cExecutable w) of Inl e \<Rightarrow> (Some (NotStarted e), started) | Inr child \<Rightarrow>
      apsnd (append (started @ [Connect (cTransport w)]))
       (case connectWorker net first (cTransport w) of Inl e \<Rightarrow> (Some (NotConnected e), [TerminateChild])
        | Inr connection \<Rightarrow>
        (case call_loop a (RegisterRuntime w child c) c of
           (Some e, acts) \<Rightarrow> (Some (NotRegistered e), acts @ [CloseConnection, TerminateChild])
         | (None, acts) \<Rightarrow> apsnd (append acts)
        (case hello a k (c + 1) of
           (Some e, acts) \<Rightarrow> (Some (NoHandshake k e), acts @ failCandidate a k (txt e) (c + 4))
         | (None, acts) \<Rightarrow> apsnd (append acts)
        (case health a k (c + 2) of
           (Some e, acts) \<Rightarrow> (Some (NoHealth k e), acts @ failCandidate a k (txt e) (c + 4))
         | (None, acts) \<Rightarrow> apsnd (append acts)
        (case activate a k (c + 3) of
           (Some e, acts) \<Rightarrow> (Some (NotActivated e), acts @ failCandidate a k (txt e) (c + 4))
         | (None, acts) \<Rightarrow> (None, acts)))))))"

section \<open>The other calls\<close>

definition filepathRegular :: "string + string \<Rightarrow> files \<Rightarrow> string \<Rightarrow> path_error + string" where
  "filepathRegular cwd fs path = (if blank path then Inl EmptyPath else resolve_regular cwd fs path)"

datatype call_error = BadPath path_error | CallStopped stop | CallRefused runtime_error

text \<open>The event that was sent, if any, and what the caller gets.\<close>

definition Scan_call ::
  "string + string \<Rightarrow> files \<Rightarrow> (event \<Rightarrow> stop option) \<Rightarrow> stop + ScanOutcome \<times> runtime_error option \<Rightarrow>
     chan \<Rightarrow> string \<Rightarrow> (ScanOutcome \<times> call_error option) \<times> event option" where
  "Scan_call cwd fs loop answer c path =
     (case filepathRegular cwd fs path of Inl e \<Rightarrow> ((zeroScan, Some (BadPath e)), None) | Inr absolute \<Rightarrow>
      let e = ScanRuntime absolute c in
      case loop e of Some x \<Rightarrow> ((zeroScan, Some (CallStopped x)), Some e) | None \<Rightarrow>
       (case answer of
          Inr (result, err) \<Rightarrow> ((result, map_option CallRefused err), Some e)
        | Inl x \<Rightarrow> ((zeroScan, Some (CallStopped x)), Some e)))"

definition Reload_call ::
  "string + string \<Rightarrow> files \<Rightarrow> (event \<Rightarrow> stop option) \<Rightarrow> stop + ReloadOutcome \<times> runtime_error option \<Rightarrow>
     chan \<Rightarrow> string \<Rightarrow> string \<Rightarrow> (ReloadOutcome \<times> call_error option) \<times> event option" where
  "Reload_call cwd fs loop answer c scannerID path =
     (case filepathRegular cwd fs path of Inl e \<Rightarrow> ((zeroReload, Some (BadPath e)), None) | Inr absolute \<Rightarrow>
      let e = ReloadRuntime scannerID absolute c in
      case loop e of Some x \<Rightarrow> ((zeroReload, Some (CallStopped x)), Some e) | None \<Rightarrow>
       (case answer of
          Inr (result, err) \<Rightarrow> ((result, map_option CallRefused err), Some e)
        | Inl x \<Rightarrow> ((zeroReload, Some (CallStopped x)), Some e)))"

definition ActiveWorker ::
  "(event \<Rightarrow> stop option) \<Rightarrow> stop + Worker \<times> runtime_error option \<Rightarrow> chan \<Rightarrow> string \<Rightarrow>
     Worker \<times> call_error option" where
  "ActiveWorker loop answer c scannerID =
     (case loop (ActiveRuntime scannerID c) of Some x \<Rightarrow> (zeroWorker, Some (CallStopped x)) | None \<Rightarrow>
      (case answer of
         Inr (w, err) \<Rightarrow> (w, map_option CallRefused err)
       | Inl x \<Rightarrow> (zeroWorker, Some (CallStopped x))))"

definition Snapshot_call ::
  "(event \<Rightarrow> stop option) \<Rightarrow> stop + WorkerSnapshot list \<Rightarrow> chan \<Rightarrow> call_error + WorkerSnapshot list" where
  "Snapshot_call loop answer c =
     (case loop (SnapshotRuntime c) of Some x \<Rightarrow> Inl (CallStopped x) | None \<Rightarrow>
      (case answer of Inr ws \<Rightarrow> Inr ws | Inl x \<Rightarrow> Inl (CallStopped x)))"

text \<open>A caller that gives up cancels the runtime; one that finds it stopped is content.\<close>

definition Shutdown_call ::
  "(event \<Rightarrow> stop option) \<Rightarrow> stop + runtime_error option \<Rightarrow> chan \<Rightarrow> call_error option \<times> bool" where
  "Shutdown_call loop answer c =
     (case loop (ShutdownRuntime c) of Some x \<Rightarrow> (Some (CallStopped x), False) | None \<Rightarrow>
      (case answer of
         Inr err \<Rightarrow> (map_option CallRefused err, False)
       | Inl (ContextEnded e) \<Rightarrow> (Some (CallStopped (ContextEnded e)), True)
       | Inl RuntimeStopped \<Rightarrow> (None, False)))"

section \<open>Carrying messages\<close>

text \<open>
  \<^verbatim>\<open>errors.Is(err, io.EOF)\<close>: the end of the stream, and also a line that holds no JSON
  value, since the decoder's errors wrap it.
\<close>

definition is_EOF :: "ipc_error \<Rightarrow> bool" where
  "is_EOF e \<longleftrightarrow> e = EndOfStream \<or> e = BadFrame DecodeEOF"

text \<open>The events a worker's reader emits for what the connection delivers.\<close>

fun readWorker :: "(ipc_error \<Rightarrow> string) \<Rightarrow> WorkerKey \<Rightarrow> (ipc_error + Message) list \<Rightarrow> event list" where
  "readWorker txt k [] = []"
| "readWorker txt k (Inr m # rs) = WorkerMessage k m # readWorker txt k rs"
| "readWorker txt k (Inl e # rs) =
     (if is_EOF e then [] else [WorkerFailure k (''read worker protocol: '' @ txt e)])"

text \<open>What the writer sends of the queue, and the event it emits when that fails.\<close>

fun writeWorker :: "(Message \<Rightarrow> string option) \<Rightarrow> WorkerKey \<Rightarrow> Message list \<Rightarrow> Message list \<times> event list" where
  "writeWorker send k [] = ([], [])"
| "writeWorker send k (m # ms) =
     (case send m of
        None \<Rightarrow> apfst (Cons m) (writeWorker send k ms)
      | Some e \<Rightarrow> ([], [WorkerFailure k (''write worker protocol: '' @ e)]))"

section \<open>Lemmas\<close>

lemma ParseInt_delay: "ParseInt (dec_int (sint (i :: i64))) = Some (sint i)"
  using word_sint_range [of i] by (intro ParseInt_dec_int) simp_all

lemma Parse_workerArgs:
  "Parse workerFlags (workerArgs w) = Inr (given (cWorkerVersion w) (cSignaturePath w) (cDelayMs w)
     (cCrashOnScan w) (cFailHealth w) ''127.0.0.1:0'', [])"
proof -
  have delay: "Parse (given v s d c f l) ((if i \<noteq> 0 then [''-delay'', dec_int (sint i)] else []) @ rest) =
      Parse (given v s (if i \<noteq> 0 then i else d) c f l) rest" for v s d c f l rest and i :: i64
    by (simp add: Parse_given(4) [OF ParseInt_delay])
  have listen: "Parse (given v s d c f ''127.0.0.1:0'') ((if b then [''-listen'', ''127.0.0.1:0''] else []) @ rest) =
      Parse (given v s d c f ''127.0.0.1:0'') rest" for v s d c f b rest
    by (simp add: Parse_given(3))
  have crash: "Parse (given v s d False f l) ((if b then [''-crash-on-scan''] else []) @ rest) =
      Parse (given v s d b f l) rest" for v s d f l b rest
    by (simp add: Parse_given(5))
  have unhealthy: "Parse (given v s d c False l) (if b then [''-fail-health''] else []) =
      Inr (given v s d c b l, [])" for v s d c l b
    by (simp add: Parse_given(6) Parse_Nil)
  show ?thesis
    unfolding workerArgs_def workerFlags_given append.simps append_assoc Parse_given(1,2) listen delay crash
      unhealthy by simp
qed

lemma request_None:
  "call_loop a e c = (None, acts) \<longleftrightarrow> taken a e = None \<and> replied a c = Inr None \<and> acts = [Send e, Await c]"
  by (auto simp: call_loop_def waitRuntimeReply_def split: option.splits sum.splits)

lemma request_Some:
  "call_loop a e c = (Some x, acts) \<Longrightarrow> \<not> (taken a e = None \<and> replied a c = Inr None) \<and>
     (acts = [Send e] \<or> acts = [Send e, Await c])"
  by (auto simp: call_loop_def waitRuntimeReply_def split: option.splits sum.splits)

lemma failCandidate_actions: "Send (FailRuntime k reason c) \<in> set (failCandidate a k reason c)"
  by (auto simp: failCandidate_def call_loop_def split: option.split)

section \<open>Properties\<close>

text \<open>
  The configuration reaches the worker: whatever the strings of a configured worker are,
  flags and dashes included, the worker's flag parser reads from the arguments that the core
  passes exactly the version, the signature path, the delay and the two switches of the
  configuration, and the default listener; it finds no positional argument and no error.
\<close>

theorem worker_args_roundtrip:
  "workerOptions scannerID (workerArgs w) =
     Inr (\<lparr>scScannerID = scannerID, scWorkerVersion = cWorkerVersion w, scSignaturePath = cSignaturePath w,
            scDelay = sint (cDelayMs w * 1000000), scCrashOnScan = cCrashOnScan w,
            scFailHealth = cFailHealth w\<rparr>, ''127.0.0.1:0'')"
  by (rule options_given [OF Parse_workerArgs])

text \<open>The loop took an event and answered it without an error.\<close>

definition granted :: "loop_answers \<Rightarrow> event \<Rightarrow> chan \<Rightarrow> bool" where
  "granted a e c \<longleftrightarrow> taken a e = None \<and> replied a c = Inr None"

lemma request_granted:
  assumes "call_loop a e c = (x, acts)"
  shows "(x = None) = granted a e c" "set acts \<subseteq> {Send e, Await c}" "Send e \<in> set acts"
    "x = None \<Longrightarrow> acts = [Send e, Await c]"
  using assms
  by (auto simp: call_loop_def granted_def waitRuntimeReply_def split: option.splits sum.splits)

lemma failCandidate_others [simp]:
  "Send (HelloRuntime l d) \<notin> set (failCandidate a k reason c)"
  "Send (HealthRuntime l d) \<notin> set (failCandidate a k reason c)"
  "Send (ActivateRuntime l d) \<notin> set (failCandidate a k reason c)"
  by (auto simp: failCandidate_def call_loop_def split: option.split)

text \<open>
  The five ways through \<^verbatim>\<open>StartWorker\<close> once the process has been started: the error, and the
  actions after the start, piece by piece.
\<close>

lemma StartWorker_cases:
  assumes "StartWorker a os net first txt w c = (err, acts)" "Start os (cExecutable w) = Inr child"
  defines "k \<equiv> worker_key w"
  defines "p \<equiv> [StartProcess (cExecutable w) (workerArgs w), Connect (cTransport w)]"
  defines "r \<equiv> RegisterRuntime w child c"
  obtains (connect) e where "isl (connectWorker net first (cTransport w))" "err = Some (NotConnected e)"
      "acts = p @ [TerminateChild]"
  | (register) e as where "\<not> isl (connectWorker net first (cTransport w))" "err = Some (NotRegistered e)"
      "call_loop a r c = (Some e, as)" "acts = p @ as @ [CloseConnection, TerminateChild]"
  | (hello) e as where "\<not> isl (connectWorker net first (cTransport w))" "err = Some (NoHandshake k e)"
      "granted a r c" "call_loop a (HelloRuntime k (c + 1)) (c + 1) = (Some e, as)"
      "acts = p @ [Send r, Await c] @ as @ failCandidate a k (txt e) (c + 4)"
  | (health) e as where "\<not> isl (connectWorker net first (cTransport w))" "err = Some (NoHealth k e)"
      "granted a r c" "granted a (HelloRuntime k (c + 1)) (c + 1)"
      "call_loop a (HealthRuntime k (c + 2)) (c + 2) = (Some e, as)"
      "acts = p @ [Send r, Await c, Send (HelloRuntime k (c + 1)), Await (c + 1)] @ as @
         failCandidate a k (txt e) (c + 4)"
  | (activate) x as where "\<not> isl (connectWorker net first (cTransport w))" "err = map_option NotActivated x"
      "granted a r c" "granted a (HelloRuntime k (c + 1)) (c + 1)" "granted a (HealthRuntime k (c + 2)) (c + 2)"
      "call_loop a (ActivateRuntime k (c + 3)) (c + 3) = (x, as)"
      "acts = p @ [Send r, Await c, Send (HelloRuntime k (c + 1)), Await (c + 1),
         Send (HealthRuntime k (c + 2)), Await (c + 2)] @ as @
         (case x of None \<Rightarrow> [] | Some e \<Rightarrow> failCandidate a k (txt e) (c + 4))"
proof (cases "connectWorker net first (cTransport w)")
  case (Inl e)
  with assms(1,2) show ?thesis by (intro connect [of e]) (auto simp: StartWorker_def Let_def p_def)
next
  case (Inr conn)
  then have c: "\<not> isl (connectWorker net first (cTransport w))" by simp
  obtain x0 a0 where 0: "call_loop a r c = (x0, a0)" by fastforce
  obtain x1 a1 where 1: "call_loop a (HelloRuntime k (c + 1)) (c + 1) = (x1, a1)" by fastforce
  obtain x2 a2 where 2: "call_loop a (HealthRuntime k (c + 2)) (c + 2) = (x2, a2)" by fastforce
  obtain x3 a3 where 3: "call_loop a (ActivateRuntime k (c + 3)) (c + 3) = (x3, a3)" by fastforce
  note g = request_granted [OF 0] request_granted [OF 1] request_granted [OF 2]
  have eq: "(err, acts) = apsnd (append p)
      (case (x0, a0) of
         (Some e, acts) \<Rightarrow> (Some (NotRegistered e), acts @ [CloseConnection, TerminateChild])
       | (None, acts) \<Rightarrow> apsnd (append acts)
      (case (x1, a1) of
         (Some e, acts) \<Rightarrow> (Some (NoHandshake k e), acts @ failCandidate a k (txt e) (c + 4))
       | (None, acts) \<Rightarrow> apsnd (append acts)
      (case (x2, a2) of
         (Some e, acts) \<Rightarrow> (Some (NoHealth k e), acts @ failCandidate a k (txt e) (c + 4))
       | (None, acts) \<Rightarrow> apsnd (append acts)
      (case (x3, a3) of
         (Some e, acts) \<Rightarrow> (Some (NotActivated e), acts @ failCandidate a k (txt e) (c + 4))
       | (None, acts) \<Rightarrow> (None, acts)))))"
    unfolding 0 [symmetric] 1 [symmetric] 2 [symmetric] 3 [symmetric] assms(1) [symmetric]
    unfolding StartWorker_def Let_def assms(2) Inr sum.case hello_def health_def activate_def k_def p_def r_def
      append.simps ..
  show ?thesis
  proof (cases x0)
    case (Some e)
    with eq 0 c show ?thesis by (intro register [of e a0]) simp_all
  next
    case x0: None
    show ?thesis
    proof (cases x1)
      case (Some e)
      with eq c x0 g 1 show ?thesis by (intro hello [of e a1]) simp_all
    next
      case x1: None
      show ?thesis
      proof (cases x2)
        case (Some e)
        with eq c x0 x1 g 2 show ?thesis by (intro health [of e a2]) simp_all
      next
        case None
        with eq c x0 x1 g 3 show ?thesis by (intro activate [of x3 a3]) (cases x3; simp)+
      qed
    qed
  qed
qed

text \<open>
  C25. Starting a worker keeps the order and cleans up. It succeeds exactly when the worker is
  connected and the loop grants registration, handshake, health check and activation, which
  are asked for in this order and no later one before the earlier are granted; the activation
  in particular only after the health check. When it fails after the process was started, the
  process is terminated or the loop is told to fail the candidate; when it succeeds, neither.
\<close>

theorem StartWorker_order:
  assumes "StartWorker a os net first txt w c = (err, acts)" "Start os (cExecutable w) = Inr child"
  shows "let k = worker_key w; register = RegisterRuntime w child c; hello = HelloRuntime k (c + 1);
      health = HealthRuntime k (c + 2); activate = ActivateRuntime k (c + 3);
      cleaned = (TerminateChild \<in> set acts \<or> (\<exists>reason. Send (FailRuntime k reason (c + 4)) \<in> set acts))
    in (err = None \<longleftrightarrow> \<not> isl (connectWorker net first (cTransport w)) \<and> granted a register c \<and>
          granted a hello (c + 1) \<and> granted a health (c + 2) \<and> granted a activate (c + 3)) \<and>
       (err = None \<longrightarrow> acts = [StartProcess (cExecutable w) (workerArgs w), Connect (cTransport w),
          Send register, Await c, Send hello, Await (c + 1), Send health, Await (c + 2),
          Send activate, Await (c + 3)]) \<and>
       (Send hello \<in> set acts \<longrightarrow> granted a register c) \<and>
       (Send health \<in> set acts \<longrightarrow> granted a register c \<and> granted a hello (c + 1)) \<and>
       (Send activate \<in> set acts \<longrightarrow>
          granted a register c \<and> granted a hello (c + 1) \<and> granted a health (c + 2)) \<and>
       (err \<noteq> None \<longleftrightarrow> cleaned)"
proof (cases rule: StartWorker_cases [OF assms])
  case (1 e)
  then show ?thesis by (simp add: Let_def)
next
  case (2 e as)
  note g = request_granted [OF 2(3)]
  from g(2) have "Send (HelloRuntime k d) \<notin> set as" "Send (HealthRuntime k d) \<notin> set as"
    "Send (ActivateRuntime k d) \<notin> set as" for k d by auto
  with 2 g(1) show ?thesis by (simp add: Let_def)
next
  case (3 e as)
  note g = request_granted [OF 3(4)]
  from g(2) have s: "Send (HealthRuntime l d) \<notin> set as" "Send (ActivateRuntime l d) \<notin> set as" for l d by auto
  from 3 g(1) s failCandidate_actions [of "worker_key w" "txt e" "c + 4" a] show ?thesis
    by (auto simp: Let_def)
next
  case (4 e as)
  note g = request_granted [OF 4(5)]
  from g(2) have s: "Send (HelloRuntime l d) \<notin> set as" "Send (ActivateRuntime l d) \<notin> set as" for l d by auto
  from 4 g(1) s failCandidate_actions [of "worker_key w" "txt e" "c + 4" a] show ?thesis
    by (auto simp: Let_def)
next
  case (5 x as)
  note g = request_granted [OF 5(6)]
  show ?thesis
  proof (cases x)
    case None
    with 5 g(1,4) show ?thesis by (simp add: Let_def)
  next
    case (Some e)
    from g(2) have s: "TerminateChild \<notin> set as" by auto
    from 5 Some g(1) s failCandidate_actions [of "worker_key w" "txt e" "c + 4" a] show ?thesis
      by (auto simp: Let_def)
  qed
qed

text \<open>A loop that grants everything but the health check.\<close>

definition demo_launch :: Worker where
  "demo_launch = zeroWorker\<lparr>cScannerID := ''a'', cWorkerVersion := ''-1'', cTransport := ''stdio'',
     cExecutable := ''/w'', cSignaturePath := ''--s'', cDelayMs := 5, cFailHealth := True\<rparr>"

definition demo_answers :: loop_answers where
  "demo_answers = \<lparr>taken = (\<lambda>_. None),
     replied = (\<lambda>c. if c = 2 then Inr (Some (ReportedUnhealthy ''no'')) else Inr None)\<rparr>"

definition launch_os :: os_start where
  "launch_os = \<lparr>osStdin = None, osStdout = None, osStart = Inr 77\<rparr>"

definition demo_network :: network where
  "demo_network = \<lparr>dialTCP = (\<lambda>_. None), dialGRPC = (\<lambda>_. None), openExchange = (\<lambda>_. None)\<rparr>"

theorem StartWorker_order_witness:
  "\<exists>reason. Send (FailRuntime (worker_key demo_launch) reason 4) \<in>
     set (snd (StartWorker demo_answers launch_os demo_network (ContextFirst '''') (\<lambda>_. ''unhealthy'') demo_launch 0))"
proof -
  let ?s = "StartWorker demo_answers launch_os demo_network (ContextFirst '''') (\<lambda>_. ''unhealthy'') demo_launch 0"
  have 1: "?s = (fst ?s, snd ?s)" by simp
  have 2: "Start launch_os (cExecutable demo_launch) = Inr \<lparr>pid = 77, terminate = False, terminateErr = None\<rparr>"
    by code_simp
  have failed: "fst ?s \<noteq> None \<and> TerminateChild \<notin> set (snd ?s)" by code_simp
  from StartWorker_order [OF 1 2] failed show ?thesis by (simp add: Let_def)
qed

definition readable :: "ipc_error + Message \<Rightarrow> bool" where
  "readable r \<longleftrightarrow> \<not> isl r"

text \<open>
  C27. What the loop hears from a worker is what the worker sent, up to the first failure: every
  message event carries a valid message, in the order of the stream, and the first failure
  ends the reader with one failure event. There is no event, though, when that failure is the
  end of the stream, or a line without a JSON value: an empty line silences a worker, and
  what it sends behind that line is never read.
\<close>

theorem readWorker_exact:
  "readWorker txt k (decode_calls n d) =
     (let results = decode_calls n d; heard = takeWhile readable results; rest = dropWhile readable results
      in map (\<lambda>r. WorkerMessage k (projr r)) heard @
         (if rest = [] \<or> is_EOF (projl (hd rest)) then []
          else [WorkerFailure k (''read worker protocol: '' @ txt (projl (hd rest)))])) \<and>
   list_all (\<lambda>r. Validate (projr r) = None) (takeWhile readable (decode_calls n d)) \<and>
   is_EOF (projl (frame_result '' ''))"
proof -
  have split: "readWorker txt k rs = map (\<lambda>r. WorkerMessage k (projr r)) (takeWhile readable rs) @
      (case dropWhile readable rs of
         [] \<Rightarrow> []
       | r # _ \<Rightarrow> if is_EOF (projl r) then [] else [WorkerFailure k (''read worker protocol: '' @ txt (projl r))])"
    for rs
    by (induction "txt" k rs rule: readWorker.induct) (simp_all add: readable_def)
  have valid: "list_all (\<lambda>r. \<not> isl r \<longrightarrow> Validate (projr r) = None) (decode_calls n d)" for n d
  proof (induction n arbitrary: d)
    case 0
    then show ?case by simp
  next
    case (Suc n)
    have "Validate m = None" if "fst (Decode d) = Inr m" for m
      using that by (auto simp: Decode_def Let_def split_def dest: Unmarshal_valid
          split: option.splits slice_error.splits read_error.splits if_splits sum.splits)
    with Suc show ?case by (cases "fst (Decode d)") simp_all
  qed
  have "is_EOF (projl (frame_result '' ''))" by code_simp
  moreover have "list_all (\<lambda>r. Validate (projr r) = None) (takeWhile readable (decode_calls n d))"
    using valid [of n d] by (auto simp: list_all_iff readable_def dest: set_takeWhileD)
  ultimately show ?thesis
    unfolding Let_def split
    by (cases "dropWhile readable (decode_calls n d)") (simp_all del: dropWhile_eq_Nil_conv)
qed

section \<open>Durations\<close>

lemma duration_exact:
  assumes "0 \<le> sint (ms :: i64)" "sint ms \<le> 9223372036854"
  shows "sint (ms * 1000000) = sint ms * 1000000"
proof -
  have "sint (ms * 1000000) = signed_take_bit 63 (sint ms * sint (1000000 :: i64))"
    by (simp add: sint_word_ariths(3))
  also have "sint (1000000 :: i64) = 1000000" by simp
  also have "signed_take_bit 63 (sint ms * 1000000) = sint ms * 1000000"
    using assms by (intro signed_take_bit_int_eq_self) simp_all
  finally show ?thesis .
qed

text \<open>Milliseconds whose duration is exact: about 292 years.\<close>

definition fits :: "i64 \<Rightarrow> bool" where
  "fits ms \<longleftrightarrow> sint ms \<le> 9223372036854"

text \<open>
  A loaded configuration starts: if its timeouts and delays are at most 9223372036854
  milliseconds, the runtime accepts the two timeouts, which are exact, and each worker's
  session accepts the configuration that it reads from the arguments the core passes, with
  an exact delay. (One millisecond more wraps to a negative duration, which the runtime
  refuses although the file was loaded.)
\<close>

theorem config_starts:
  assumes "Load cwd fs path = Inr c" "\<forall>wd. cwd = Inr wd \<longrightarrow> IsAbs wd"
    and "fits (StartupTimeoutMs c)" "fits (ScanTimeoutMs c)" "\<forall>w \<in> set (Workers c). fits (cDelayMs w)"
  shows "NewRuntime (StartupTimeout c) (ConfigLoad.ScanTimeout c) = Inr (StartupTimeout c, ConfigLoad.ScanTimeout c) \<and>
    sint (StartupTimeout c) = sint (StartupTimeoutMs c) * 1000000 \<and>
    sint (ConfigLoad.ScanTimeout c) = sint (ScanTimeoutMs c) * 1000000 \<and>
    list_all (\<lambda>w. \<exists>conf listen. workerOptions (cScannerID w) (workerArgs w) = Inr (conf, listen) \<and>
      validateConfig conf = None \<and> scDelay conf = sint (cDelayMs w) * 1000000 \<and>
      ValidateLoopbackAddress listen = None) (Workers c)"
proof -
  note l = Load_valid [OF assms(1,2)]
  have pos: "0 < sint (StartupTimeoutMs c)" "0 < sint (ScanTimeoutMs c)"
    using l(1,2) by (simp_all add: word_sless_alt)
  then have d: "sint (StartupTimeout c) = sint (StartupTimeoutMs c) * 1000000"
    "sint (ConfigLoad.ScanTimeout c) = sint (ScanTimeoutMs c) * 1000000"
    using assms(3,4) by (simp_all add: StartupTimeout_def ConfigLoad.ScanTimeout_def fits_def duration_exact)
  have runtime: "NewRuntime (StartupTimeout c) (ConfigLoad.ScanTimeout c) = Inr (StartupTimeout c, ConfigLoad.ScanTimeout c)"
    using pos by (simp add: NewRuntime_def word_sle_eq d)
  have listen: "ValidateLoopbackAddress ''127.0.0.1:0'' = None" by code_simp
  have worker: "validateConfig \<lparr>scScannerID = cScannerID w, scWorkerVersion = cWorkerVersion w,
      scSignaturePath = cSignaturePath w, scDelay = sint (cDelayMs w) * 1000000,
      scCrashOnScan = cCrashOnScan w, scFailHealth = cFailHealth w\<rparr> = None \<and>
      sint (cDelayMs w * 1000000) = sint (cDelayMs w) * 1000000" if w: "w \<in> set (Workers c)" for w
  proof -
    from l(5) w have v: "\<not> blank (cScannerID w)" "\<not> blank (cWorkerVersion w)" "0 \<le> sint (cDelayMs w)"
      "IsAbs (cSignaturePath w)" by (simp_all add: list_all_iff word_sle_eq)
    from v(3) assms(5) w have "sint (cDelayMs w * 1000000) = sint (cDelayMs w) * 1000000"
      by (intro duration_exact) (simp_all add: fits_def)
    with v show ?thesis by (simp add: validateConfig_def not_blank_rooted)
  qed
  have "\<exists>conf listen. workerOptions (cScannerID w) (workerArgs w) = Inr (conf, listen) \<and>
      validateConfig conf = None \<and> scDelay conf = sint (cDelayMs w) * 1000000 \<and>
      ValidateLoopbackAddress listen = None" if w: "w \<in> set (Workers c)" for w
    by (rule exI, rule exI, rule conjI, rule options_given [OF Parse_workerArgs])
      (use worker [OF w] listen in simp)
  then show ?thesis using runtime d by (simp add: list_all_iff)
qed

theorem config_starts_witness:
  "NewRuntime (StartupTimeout (demo_loaded 100)) (ConfigLoad.ScanTimeout (demo_loaded 100)) =
     Inr (100000000, 50000000)"
proof -
  let ?c = "demo_loaded 100"
  have 1: "Load (Inr ''/etc'') (demo_config_files 100) ''av/c'' = Inr ?c"
    by (rule demo_Load) simp_all
  have 2: "\<forall>wd. Inr ''/etc'' = (Inr wd :: string + string) \<longrightarrow> IsAbs wd" by (simp add: IsAbs_def)
  have 3: "fits (StartupTimeoutMs ?c)" "fits (ScanTimeoutMs ?c)" "\<forall>w \<in> set (Workers ?c). fits (cDelayMs w)"
    by (simp_all add: fits_def demo_loaded_def Workers_def demo_loaded_worker_def)
  have "StartupTimeout ?c = 100000000" "ConfigLoad.ScanTimeout ?c = 50000000"
    by (simp_all add: StartupTimeout_def ConfigLoad.ScanTimeout_def demo_loaded_def)
  with config_starts [OF 1 2 3] show ?thesis by simp
qed

text \<open>One millisecond above the bound: the file is loaded, and the runtime refuses it.\<close>

lemma timeout_wraps:
  "Load (Inr ''/etc'') (demo_config_files 9223372036855) ''av/c'' = Inr (demo_loaded 9223372036855) \<and>
   isl (NewRuntime (StartupTimeout (demo_loaded 9223372036855))
          (ConfigLoad.ScanTimeout (demo_loaded 9223372036855)))"
proof -
  have "StartupTimeout (demo_loaded 9223372036855) \<le>s 0"
    by (simp add: StartupTimeout_def demo_loaded_def word_sle_eq)
  then show ?thesis using demo_Load [of 9223372036855] by (simp add: NewRuntime_def)
qed

end
