(* ===== verification/Startup.thy ===== *)
theory Startup
  imports Launch RuntimeProps
begin

text \<open>
  The start of a worker as a whole: what \<^verbatim>\<open>StartWorker\<close> asks of the runtime's loop
  (\<open>Launch\<close>), what the started process answers with the arguments it was given
  (\<open>WorkerMain\<close>, \<open>Session\<close>), and what the loop makes of it (\<open>Runtime\<close>),
  all in \<^verbatim>\<open>src/pkg/coordinator/runtime.go\<close> and
  \<^verbatim>\<open>src/pkg/worker/worker.go\<close>. Other events are not interleaved here; what they may
  do at any time is the subject of \<open>RuntimeProps\<close>.
\<close>

section \<open>A state with the new worker\<close>

definition with_worker :: "runtimeState \<Rightarrow> WorkerKey \<Rightarrow> runtimeWorker \<Rightarrow> (chan \<times> answer) list \<Rightarrow> runtimeState" where
  "with_worker s k w replies = s\<lparr>rworkers := mput k w (rworkers s), sent := sent s @ replies\<rparr>"

lemma with_worker_fields [simp]:
  "rworkers (with_worker s k w rs) = mput k w (rworkers s)"
  "ractive (with_worker s k w rs) = ractive s" "rrequests (with_worker s k w rs) = rrequests s"
  "stopReply (with_worker s k w rs) = stopReply s" "sent (with_worker s k w rs) = sent s @ rs"
  by (simp_all add: with_worker_def)

lemma madjust_fresh: "k \<notin> set (keys m) \<Longrightarrow> madjust k f (mput k w m) = mput k (f w) m"
  by (force simp: mput_fresh madjust_def intro!: map_idI)

lemma with_worker_adjust:
  "mget (rworkers s) k = None \<Longrightarrow> adjust_runtime k f (with_worker s k w rs) = with_worker s k (f w) rs"
  by (simp add: adjust_runtime_def with_worker_def madjust_fresh mget_None_iff)

lemma with_worker_send: "send_reply c a (with_worker s k w rs) = with_worker s k w (rs @ [(c, a)])"
  by (simp add: send_reply_def with_worker_def)

lemma turn_handle:
  "stopReply s = None \<Longrightarrow> stopReply (handle kill render e s) = None \<Longrightarrow> runtime_turn kill render e s = handle kill render e s"
  unfolding runtime_turn_def stop_check_def by (cases e) (simp_all del: handle.simps)

section \<open>The steps of a start\<close>

text \<open>The states of the new worker between the calls.\<close>

definition said_hello :: "Worker \<Rightarrow> Child \<Rightarrow> runtimeWorker" where
  "said_hello w ch = (newWorker w ch)\<lparr>outbound := [helloMessage]\<rparr>"

definition checked :: "Worker \<Rightarrow> Child \<Rightarrow> runtimeWorker" where
  "checked w ch = (newWorker w ch)\<lparr>outbound := [helloMessage, healthMessage]\<rparr>"

lemma fresh_find:
  assumes "\<forall>(_, v) \<in> set (rworkers s). ScannerID (rkey v) = i \<longrightarrow> \<not> Lifecycle.candidate (rstate v)"
  shows "find (\<lambda>(_, v). ScannerID (rkey v) = i \<and> Lifecycle.candidate (rstate v)) (rworkers s) = None"
  using assms by (auto simp: find_None_iff)

lemma turn_register:
  assumes "stopReply s = None" "mget (rworkers s) (worker_key w) = None"
    and "\<forall>(_, v) \<in> set (rworkers s). ScannerID (rkey v) = cScannerID w \<longrightarrow> \<not> Lifecycle.candidate (rstate v)"
  shows "runtime_turn kill render (RegisterRuntime w ch c) s =
    with_worker s (worker_key w) (newWorker w ch) [(c, DoneReply None)]"
proof -
  have "handle kill render (RegisterRuntime w ch c) s =
      with_worker s (worker_key w) (newWorker w ch) [(c, DoneReply None)]"
    using assms(2) fresh_find [OF assms(3)]
    by (simp add: send_done_def registerRuntimeWorker_def worker_key_def with_worker_def send_reply_def)
  then show ?thesis using turn_handle [OF assms(1)] assms(1) by (simp del: handle.simps)
qed

lemma turn_with_worker:
  assumes "stopReply s = None" "handle kill render e (with_worker s k w rs) = with_worker s k w' rs'"
  shows "runtime_turn kill render e (with_worker s k w rs) = with_worker s k w' rs'"
  using turn_handle [of "with_worker s k w rs" kill render e] assms by (simp del: handle.simps)

lemma turn_hello:
  assumes "stopReply s = None" "mget (rworkers s) k = None"
  shows "runtime_turn kill render (HelloRuntime k c) (with_worker s k (newWorker w ch) rs) =
    with_worker s k ((said_hello w ch)\<lparr>helloReply := Some c\<rparr>) rs"
  by (rule turn_with_worker [OF assms(1)])
    (simp add: beginHello_def map_laws queueWorkerMessage_def with_worker_adjust [OF assms(2)] newWorker_def
      said_hello_def)

lemma turn_hello_ack:
  assumes "stopReply s = None" "mget (rworkers s) (worker_key w) = None"
    and "mType m = TypeHelloAck" "mScannerID m = cScannerID w" "mWorkerVersion m = cWorkerVersion w"
  shows "runtime_turn kill render (WorkerMessage (worker_key w) m)
      (with_worker s (worker_key w) ((said_hello w ch)\<lparr>helloReply := Some c\<rparr>) rs) =
    with_worker s (worker_key w) (said_hello w ch) (rs @ [(c, DoneReply None)])"
  by (rule turn_with_worker [OF assms(1)])
    (simp add: handleWorkerMessage_def map_laws assms(3-5) answerHello_def take_reply_def with_worker_send
      with_worker_adjust [OF assms(2) [unfolded worker_key_def]] newWorker_def said_hello_def worker_key_def)

lemma turn_health:
  assumes "stopReply s = None" "mget (rworkers s) k = None"
  shows "runtime_turn kill render (HealthRuntime k c) (with_worker s k (said_hello w ch) rs) =
    with_worker s k ((checked w ch)\<lparr>healthReply := Some c\<rparr>) rs"
  by (rule turn_with_worker [OF assms(1)])
    (simp add: beginHealth_def map_laws queueWorkerMessage_def with_worker_adjust [OF assms(2)] newWorker_def
      said_hello_def checked_def)

lemma turn_health_result:
  assumes "stopReply s = None" "mget (rworkers s) k = None"
    and "mType m = TypeHealthResult"
  shows "runtime_turn kill render (WorkerMessage k m)
      (with_worker s k ((checked w ch)\<lparr>healthReply := Some c\<rparr>) rs) =
    (if mStatus m = ''ok'' then with_worker s k ((checked w ch)\<lparr>rstate := WorkerHealthy\<rparr>) (rs @ [(c, DoneReply None)])
     else with_worker s k (checked w ch) (rs @ [(c, DoneReply (Some (ReportedUnhealthy (mError m))))]))"
proof (cases "mStatus m = ''ok''")
  case True
  show ?thesis unfolding if_P [OF True]
    by (rule turn_with_worker [OF assms(1)])
      (simp add: handleWorkerMessage_def map_laws assms(3) True answerHealth_def take_reply_def with_worker_send
        with_worker_adjust [OF assms(2)] newWorker_def checked_def)
next
  case False
  show ?thesis unfolding if_not_P [OF False]
    by (rule turn_with_worker [OF assms(1)])
      (simp add: handleWorkerMessage_def map_laws assms(3) False answerHealth_def take_reply_def with_worker_send
        with_worker_adjust [OF assms(2)] newWorker_def checked_def)
qed

text \<open>The activation drains the worker that had the route.\<close>

definition after_cutover :: "runtimeState \<Rightarrow> string \<Rightarrow> WorkerKey \<Rightarrow> runtimeWorker option" where
  "after_cutover s scanner j =
     (if mget (ractive s) scanner = Some j then map_option supersede (mget (rworkers s) j)
      else mget (rworkers s) j)"

lemma turn_activate:
  assumes "stopReply s = None" "mget (rworkers s) k = None" "rstate v = WorkerHealthy"
    and "\<forall>old. mget (ractive s) (ScannerID k) = Some old \<longrightarrow> mget (rworkers s) old \<noteq> None"
    and "t = runtime_turn kill render (ActivateRuntime k c) (with_worker s k v rs)"
  shows "mget (rworkers t) j = (if j = k then Some (v\<lparr>rstate := WorkerActive\<rparr>) else after_cutover s (ScannerID k) j)"
    and "mget (ractive t) i = (if i = ScannerID k then Some k else mget (ractive s) i)"
    and "rrequests t = rrequests s" "sent t = sent s @ rs @ [(c, DoneReply None)]" "stopReply t = None"
proof -
  let ?s = "with_worker s k v rs"
  let ?act = "activateRuntimeWorker k ?s"
  have h: "handle kill render (ActivateRuntime k c) ?s = send_reply c (DoneReply (fst ?act)) (snd ?act)"
    by (simp add: send_done_def)
  have "fst ?act = None \<and> rrequests (snd ?act) = rrequests s \<and> sent (snd ?act) = sent s @ rs \<and>
      stopReply (snd ?act) = None \<and>
      mget (ractive (snd ?act)) i = (if i = ScannerID k then Some k else mget (ractive s) i) \<and>
      mget (rworkers (snd ?act)) j =
        (if j = k then Some (v\<lparr>rstate := WorkerActive\<rparr>) else after_cutover s (ScannerID k) j)"
  proof (cases "mget (ractive s) (ScannerID k)")
    case None
    then show ?thesis using assms(1,3)
      by (simp add: activateRuntimeWorker_def map_laws adjust_runtime_def after_cutover_def)
  next
    case (Some old)
    with assms(4) obtain ov where ov: "mget (rworkers s) old = Some ov" by blast
    with assms(2) have "old \<noteq> k" by auto
    with Some ov assms(1,3) show ?thesis
      by (simp add: activateRuntimeWorker_def map_laws adjust_runtime_def after_cutover_def)
  qed
  moreover have "t = handle kill render (ActivateRuntime k c) ?s"
    unfolding assms(5) by (rule turn_handle) (use calculation assms(1) h in \<open>simp_all add: send_reply_def\<close>)
  ultimately show "mget (rworkers t) j = (if j = k then Some (v\<lparr>rstate := WorkerActive\<rparr>) else after_cutover s (ScannerID k) j)"
    and "mget (ractive t) i = (if i = ScannerID k then Some k else mget (ractive s) i)"
    and "rrequests t = rrequests s" "sent t = sent s @ rs @ [(c, DoneReply None)]" "stopReply t = None"
    unfolding h by (simp_all add: send_reply_def)
qed

text \<open>A candidate that is given up: nobody waited for it and no request includes it.\<close>

definition given_up :: "kill \<Rightarrow> string \<Rightarrow> runtimeWorker \<Rightarrow> runtimeWorker" where
  "given_up kill reason w = w\<lparr>rstate := WorkerFailed, rfailureReason := reason, killTimer := True,
     rchild := snd (Terminate kill (rchild w))\<rparr>"

lemma turn_fail:
  assumes "runtime_reach s" "stopReply s = None" "mget (rworkers s) k = None"
  shows "runtime_turn kill render (FailRuntime k reason c) (with_worker s k (checked w ch) rs) =
    with_worker s k (given_up kill reason (checked w ch)) (rs @ [(c, DoneReply None)])"
proof (rule turn_with_worker [OF assms(2)])
  note inv = runtime_reach_inv [OF assms(1)]
  have route: "mget (ractive s) (ScannerID k) \<noteq> Some k"
    using rroutes_okD [OF rt_invD(3) [OF inv], of "ScannerID k" k] assms(3) by (auto simp: runtime_states_def)
  have "mget (reqResults r) k = None" if "mget (rrequests s) i = Some r" for i r
  proof (cases "mget (reqResults r) k")
    case (Some m)
    from rrequests_okD(1) [OF rt_invD(5) [OF inv] that] Some obtain v where "mget (rworkers s) k = Some v"
      by (rule req_okE)
    with assms(3) show ?thesis by simp
  qed
  then have requests: "fold (failResult k reason) is (with_worker s k v rs) = with_worker s k v rs" for "is" v
    by (induction "is") (auto simp: failResult_def split: option.split)
  have fields: "rstate (checked w ch) = WorkerStarting" "helloReply (checked w ch) = None"
    "healthReply (checked w ch) = None" "reloadReply (checked w ch) = None"
    by (simp_all add: checked_def newWorker_def)
  have nobody: "take_reply k get clear a (with_worker s k v rs) = with_worker s k v rs" if "get v = None" for get clear a v
    using that by (simp add: take_reply_def map_laws)
  have "handleWorkerFailure k reason (with_worker s k (checked w ch) rs) =
      with_worker s k ((checked w ch)\<lparr>rstate := WorkerFailed, rfailureReason := reason, killTimer := True\<rparr>) rs"
    using route fields
    by (simp add: handleWorkerFailure_def map_laws with_worker_adjust [OF assms(3)] answerHello_def answerHealth_def
        answerReload_def nobody requests)
  moreover note fields(1)
  ultimately show "handle kill render (FailRuntime k reason c) (with_worker s k (checked w ch) rs) =
      with_worker s k (given_up kill reason (checked w ch)) (rs @ [(c, DoneReply None)])"
    by (simp add: send_done_def failRuntimeWorker_def map_laws with_worker_adjust [OF assms(3)] with_worker_send
        given_up_def)
qed

section \<open>Whole starts\<close>

text \<open>
  The loop's events of one start, \<open>conf\<close> being the configuration of the session: a worker
  whose session reports health, and one whose session reports a failure.
\<close>

definition handshake :: "Worker \<Rightarrow> Child \<Rightarrow> session_config \<Rightarrow> chan \<Rightarrow> event list" where
  "handshake w ch conf c =
     [RegisterRuntime w ch c, HelloRuntime (worker_key w) (c + 1), WorkerMessage (worker_key w) (helloReplyMessage conf),
      HealthRuntime (worker_key w) (c + 2), WorkerMessage (worker_key w) (healthReplyMessage conf)]"

definition loop_run :: "kill \<Rightarrow> render \<Rightarrow> event list \<Rightarrow> runtimeState \<Rightarrow> runtimeState" where
  "loop_run kill render es s = fold (runtime_turn kill render) es s"

text \<open>What the callers get through their channels, and the events they send.\<close>

definition answers_of :: "(chan \<times> answer) list \<Rightarrow> loop_answers" where
  "answers_of replies = \<lparr>taken = (\<lambda>_. None),
     replied = (\<lambda>c. case map_of replies c of Some (DoneReply e) \<Rightarrow> Inr e | _ \<Rightarrow> Inl (ContextEnded ''deadline exceeded''))\<rparr>"

definition sends :: "action list \<Rightarrow> event list" where
  "sends acts = concat (map (\<lambda>a. case a of Send e \<Rightarrow> [e] | _ \<Rightarrow> []) acts)"

definition from_callers :: "event list \<Rightarrow> event list" where
  "from_callers es = filter (\<lambda>e. case e of WorkerMessage _ _ \<Rightarrow> False | _ \<Rightarrow> True) es"

lemma unregistered:
  assumes "runtime_reach s" "\<forall>j a. runtime_states s j = Some a \<longrightarrow> Lifecycle.candidate a \<longrightarrow> ScannerID j \<noteq> i"
  shows "\<forall>(_, v) \<in> set (rworkers s). ScannerID (rkey v) = i \<longrightarrow> \<not> Lifecycle.candidate (rstate v)"
proof -
  note inv = runtime_reach_inv [OF assms(1)]
  have "ScannerID (rkey v) \<noteq> i" if "(j, v) \<in> set (rworkers s)" "Lifecycle.candidate (rstate v)" for j v
  proof -
    have v: "mget (rworkers s) j = Some v"
      using that(1) mget_set [OF rkeys_okD(1) [OF rt_invD(1) [OF inv]]] by blast
    then have "rkey v = j" using rworkers_okD [OF rt_invD(2) [OF inv] v] by (simp add: wk_ok_def)
    with assms(2) v that(2) show ?thesis by (auto simp: runtime_states_def)
  qed
  then show ?thesis by blast
qed

lemma session_of_args:
  assumes "workerOptions (cScannerID w) (workerArgs w) = Inr (conf, listen)"
  shows "scScannerID conf = cScannerID w" "scWorkerVersion conf = cWorkerVersion w"
    "scFailHealth conf = cFailHealth w"
  using assms unfolding options_given [OF Parse_workerArgs] by auto

lemma handshake_run:
  assumes "runtime_reach s" "stopReply s = None" "mget (rworkers s) (worker_key w) = None"
    and "\<forall>j a. runtime_states s j = Some a \<longrightarrow> Lifecycle.candidate a \<longrightarrow> ScannerID j \<noteq> cScannerID w"
    and "workerOptions (cScannerID w) (workerArgs w) = Inr (conf, listen)"
  shows "loop_run kill render (handshake w ch conf c) s =
    (if cFailHealth w
     then with_worker s (worker_key w) (checked w ch) [(c, DoneReply None), (c + 1, DoneReply None),
            (c + 2, DoneReply (Some (ReportedUnhealthy ''health check failed by fault injection'')))]
     else with_worker s (worker_key w) ((checked w ch)\<lparr>rstate := WorkerHealthy\<rparr>)
            [(c, DoneReply None), (c + 1, DoneReply None), (c + 2, DoneReply None)])"
proof -
  note conf = session_of_args [OF assms(5)]
  have ack: "mType (helloReplyMessage conf) = TypeHelloAck" "mScannerID (helloReplyMessage conf) = cScannerID w"
    "mWorkerVersion (helloReplyMessage conf) = cWorkerVersion w"
    by (simp_all add: helloReplyMessage_def conf)
  have result: "mType (healthReplyMessage conf) = TypeHealthResult"
    "mStatus (healthReplyMessage conf) = (if cFailHealth w then ''error'' else ''ok'')"
    "cFailHealth w \<Longrightarrow> mError (healthReplyMessage conf) = ''health check failed by fault injection''"
    by (simp_all add: healthReplyMessage_def conf)
  show ?thesis
    using result(3)
    by (simp add: loop_run_def handshake_def turn_register [OF assms(2,3) unregistered [OF assms(1,4)]]
        turn_hello [OF assms(2,3)] turn_hello_ack [OF assms(2,3) ack] turn_health [OF assms(2,3)]
        turn_health_result [OF assms(2,3) result(1)] result(2))
qed

section \<open>Properties\<close>

text \<open>
  Starting a worker takes over the scanner. In every reachable state of a runtime that is
  not shutting down, a worker with a new key and without a rival candidate that connects and runs
  with the arguments it is given, and whose health check does not fail, becomes the active worker:
  the handshake, the health check and the activation are all granted, so \<^verbatim>\<open>StartWorker\<close>
  succeeds and has sent exactly the callers' events of the run; the scanner's route leads to
  the new worker and the worker that had it drains (it is asked to stop at once when no scan waits
  for it); the routes of the other scanners, all other workers and all open scans stay as they were.
\<close>

theorem startup_takes_over:
  assumes "runtime_reach s" "stopReply s = None" "mget (rworkers s) (worker_key w) = None"
    and "\<forall>j a. runtime_states s j = Some a \<longrightarrow> Lifecycle.candidate a \<longrightarrow> ScannerID j \<noteq> cScannerID w"
    and "workerOptions (cScannerID w) (workerArgs w) = Inr (conf, listen)" "\<not> cFailHealth w"
    and "Start os (cExecutable w) = Inr ch" "\<not> isl (connectWorker net first (cTransport w))"
    and "es = handshake w ch conf c @ [ActivateRuntime (worker_key w) (c + 3)]" "t = loop_run kill render es s"
    and "StartWorker (answers_of (drop (length (sent s)) (sent t))) os net first txt w c = (err, acts)"
  shows "err = None \<and> sends acts = from_callers es \<and>
    mget (ractive t) i = (if i = cScannerID w then Some (worker_key w) else mget (ractive s) i) \<and>
    runtime_states t (worker_key w) = Some WorkerActive \<and>
    (j = worker_key w \<or> mget (rworkers t) j = after_cutover s (cScannerID w) j) \<and>
    rrequests t = rrequests s"
proof -
  let ?k = "worker_key w"
  let ?rs = "[(c, DoneReply None), (c + 1, DoneReply None), (c + 2, DoneReply None)]"
  let ?v = "(checked w ch)\<lparr>rstate := WorkerHealthy\<rparr>"
  have routes: "\<forall>old. mget (ractive s) (ScannerID ?k) = Some old \<longrightarrow> mget (rworkers s) old \<noteq> None"
    using rroutes_okD [OF rt_invD(3) [OF runtime_reach_inv [OF assms(1)]]] by (auto simp: runtime_states_def)
  have t: "t = runtime_turn kill render (ActivateRuntime ?k (c + 3)) (with_worker s ?k ?v ?rs)"
    using handshake_run [OF assms(1-5), of kill render ch c] assms(6,9,10) by (simp add: loop_run_def)
  have id: "ScannerID ?k = cScannerID w" by (simp add: worker_key_def)
  note final = turn_activate [OF assms(2,3) _ routes t, unfolded id]
  have replies: "drop (length (sent s)) (sent t) = ?rs @ [(c + 3, DoneReply None)]"
    using final(4) by simp
  have "err = None" "acts = [StartProcess (cExecutable w) (workerArgs w), Connect (cTransport w),
      Send (RegisterRuntime w ch c), Await c, Send (HelloRuntime ?k (c + 1)), Await (c + 1),
      Send (HealthRuntime ?k (c + 2)), Await (c + 2), Send (ActivateRuntime ?k (c + 3)), Await (c + 3)]"
    using assms(8,11) unfolding replies StartWorker_def assms(7) Let_def
    by (auto simp: answers_of_def call_loop_def hello_def health_def activate_def waitRuntimeReply_def
        split: sum.splits)
  moreover from this have "sends acts = from_callers es"
    by (simp add: sends_def from_callers_def assms(9) handshake_def)
  ultimately show ?thesis using final(1-3) by (simp add: runtime_states_def)
qed

text \<open>A runtime with version 1 of a scanner, and version 2, healthy or not.\<close>

definition version1 :: runtimeState where
  "version1 = rt_exec dkill drender (take 4 devents) initialRuntime"

definition version2 :: "bool \<Rightarrow> Worker" where
  "version2 unhealthy = zeroWorker\<lparr>cScannerID := ''a'', cWorkerVersion := ''2'', cTransport := ''stdio'',
     cExecutable := ''/w'', cSignaturePath := ''/s'', cDelayMs := 5, cFailHealth := unhealthy\<rparr>"

definition version2_session :: "bool \<Rightarrow> session_config" where
  "version2_session unhealthy = \<lparr>scScannerID = ''a'', scWorkerVersion = ''2'', scSignaturePath = ''/s'',
     scDelay = 5000000, scCrashOnScan = False, scFailHealth = unhealthy\<rparr>"

lemma version1_facts:
  "runtime_reach version1" "stopReply version1 = None" "mget (rworkers version1) (worker_key (version2 b)) = None"
  "\<forall>j a. runtime_states version1 j = Some a \<longrightarrow> Lifecycle.candidate a \<longrightarrow> ScannerID j \<noteq> i"
  "mget (ractive version1) ''a'' = Some dkey1"
proof -
  have "rt_ok dkill drender (take 4 devents) initialRuntime" by code_simp
  then show "runtime_reach version1" unfolding version1_def by (rule rt_exec_reach)
  have keys: "keys (rworkers version1) = [dkey1]" and active: "runtime_states version1 dkey1 = Some WorkerActive"
    by code_simp+
  show "stopReply version1 = None" "mget (ractive version1) ''a'' = Some dkey1" by code_simp+
  have "worker_key (version2 b) \<noteq> dkey1" by (simp add: worker_key_def version2_def dkey1_def)
  with keys show "mget (rworkers version1) (worker_key (version2 b)) = None" by (simp add: mget_None_iff)
  show "\<forall>j a. runtime_states version1 j = Some a \<longrightarrow> Lifecycle.candidate a \<longrightarrow> ScannerID j \<noteq> i"
  proof (intro allI impI)
    fix j a assume j: "runtime_states version1 j = Some a" "Lifecycle.candidate a"
    then have "j \<in> set (keys (rworkers version1))" by (auto simp: runtime_states_def dest: mget_SomeD)
    with keys j active show "ScannerID j \<noteq> i" by (simp add: Lifecycle.candidate_def)
  qed
qed

lemma version2_starts:
  "workerOptions (cScannerID (version2 b)) (workerArgs (version2 b)) = Inr (version2_session b, ''127.0.0.1:0'')"
  "Start launch_os (cExecutable (version2 b)) = Inr \<lparr>pid = 77, terminate = False, terminateErr = None\<rparr>"
  "\<not> isl (connectWorker demo_network (ContextFirst '''') (cTransport (version2 b)))"
  "cFailHealth (version2 b) = b" "cScannerID (version2 b) = ''a''"
proof -
  have "\<not> blank ''/w''" by code_simp
  then show "workerOptions (cScannerID (version2 b)) (workerArgs (version2 b)) = Inr (version2_session b, ''127.0.0.1:0'')"
    "Start launch_os (cExecutable (version2 b)) = Inr \<lparr>pid = 77, terminate = False, terminateErr = None\<rparr>"
    "\<not> isl (connectWorker demo_network (ContextFirst '''') (cTransport (version2 b)))"
    "cFailHealth (version2 b) = b" "cScannerID (version2 b) = ''a''"
    by (simp_all add: options_given [OF Parse_workerArgs] version2_session_def version2_def Start_def launch_os_def
        connectWorker_def zeroWorker_def)
qed

theorem startup_takes_over_witness:
  "runtime_states (loop_run dkill drender (handshake (version2 False) \<lparr>pid = 77, terminate = False, terminateErr = None\<rparr>
       (version2_session False) 20 @ [ActivateRuntime (worker_key (version2 False)) 23]) version1)
     (worker_key (version2 False)) = Some WorkerActive"
proof -
  let ?es = "handshake (version2 False) \<lparr>pid = 77, terminate = False, terminateErr = None\<rparr>
       (version2_session False) 20 @ [ActivateRuntime (worker_key (version2 False)) (20 + 3)]"
  let ?t = "loop_run dkill drender ?es version1"
  let ?s = "StartWorker (answers_of (drop (length (sent version1)) (sent ?t))) launch_os demo_network
    (ContextFirst '''') (\<lambda>_. '''') (version2 False) 20"
  have "?s = (fst ?s, snd ?s)" by simp
  from startup_takes_over [OF version1_facts(1-4) version2_starts(1) _ version2_starts(2,3) refl refl this]
  show ?thesis by (simp add: version2_starts(4))
qed

text \<open>
  C6. A worker that reports a failed health check is rolled back. From the same states its
  start fails with the worker's report, \<^verbatim>\<open>StartWorker\<close> tells the loop to give it up with
  that reason, and afterwards the candidate has failed and its process is killed, while every route,
  every other worker and every open scan is as it was before.
\<close>

theorem startup_rolls_back:
  assumes "runtime_reach s" "stopReply s = None" "mget (rworkers s) (worker_key w) = None"
    and "\<forall>j a. runtime_states s j = Some a \<longrightarrow> Lifecycle.candidate a \<longrightarrow> ScannerID j \<noteq> cScannerID w"
    and "workerOptions (cScannerID w) (workerArgs w) = Inr (conf, listen)" "cFailHealth w"
    and "Start os (cExecutable w) = Inr ch" "\<not> isl (connectWorker net first (cTransport w))"
    and "report = Refused (ReportedUnhealthy ''health check failed by fault injection'')"
    and "es = handshake w ch conf c @ [FailRuntime (worker_key w) (txt report) (c + 4)]" "t = loop_run kill render es s"
    and "StartWorker (answers_of (drop (length (sent s)) (sent t))) os net first txt w c = (err, acts)"
  shows "err = Some (NoHealth (worker_key w) report) \<and> sends acts = from_callers es \<and>
    ractive t = ractive s \<and> rrequests t = rrequests s \<and>
    mget (rworkers t) (worker_key w) = Some (given_up kill (txt report) (checked w ch)) \<and>
    (j = worker_key w \<or> mget (rworkers t) j = mget (rworkers s) j)"
proof -
  let ?k = "worker_key w"
  let ?rs = "[(c, DoneReply None), (c + 1, DoneReply None),
    (c + 2, DoneReply (Some (ReportedUnhealthy ''health check failed by fault injection'')))]"
  have t: "t = with_worker s ?k (given_up kill (txt report) (checked w ch)) (?rs @ [(c + 4, DoneReply None)])"
    using handshake_run [OF assms(1-5), of kill render ch c] assms(6,10,11)
    by (simp add: loop_run_def turn_fail [OF assms(1-3)])
  then have replies: "drop (length (sent s)) (sent t) = ?rs @ [(c + 4, DoneReply None)]" by simp
  have "err = Some (NoHealth ?k report)" "acts = [StartProcess (cExecutable w) (workerArgs w), Connect (cTransport w),
      Send (RegisterRuntime w ch c), Await c, Send (HelloRuntime ?k (c + 1)), Await (c + 1),
      Send (HealthRuntime ?k (c + 2)), Await (c + 2), Send (FailRuntime ?k (txt report) (c + 4)), Await (c + 4)]"
    using assms(8,12) unfolding replies StartWorker_def assms(7) Let_def
    by (auto simp: answers_of_def call_loop_def hello_def health_def failCandidate_def waitRuntimeReply_def assms(9)
        split: sum.splits)
  moreover from this have "sends acts = from_callers es"
    by (simp add: sends_def from_callers_def assms(10) handshake_def)
  ultimately show ?thesis by (simp add: t map_laws)
qed

theorem startup_rolls_back_witness:
  "ractive (loop_run dkill drender (handshake (version2 True) \<lparr>pid = 77, terminate = False, terminateErr = None\<rparr>
       (version2_session True) 20 @ [FailRuntime (worker_key (version2 True)) ''unhealthy'' 24]) version1) =
   ractive version1"
proof -
  let ?report = "Refused (ReportedUnhealthy ''health check failed by fault injection'')"
  let ?es = "handshake (version2 True) \<lparr>pid = 77, terminate = False, terminateErr = None\<rparr>
       (version2_session True) 20 @ [FailRuntime (worker_key (version2 True)) ((\<lambda>_. ''unhealthy'') ?report) (20 + 4)]"
  let ?t = "loop_run dkill drender ?es version1"
  let ?s = "StartWorker (answers_of (drop (length (sent version1)) (sent ?t))) launch_os demo_network
    (ContextFirst '''') (\<lambda>_. ''unhealthy'') (version2 True) 20"
  have "?s = (fst ?s, snd ?s)" by simp
  from startup_rolls_back [OF version1_facts(1-4) version2_starts(1) _ version2_starts(2,3) refl refl refl this]
  show ?thesis by (simp add: version2_starts(4))
qed

section \<open>A rollback that comes too late\<close>

text \<open>
  The context of a start ends after the loop has activated the worker and before the caller has
  seen the reply: the start fails, the loop is told to give the candidate up and refuses, and the
  new worker keeps the route.
\<close>

definition late_rollback :: "event list" where
  "late_rollback = handshake (version2 False) \<lparr>pid = 77, terminate = False, terminateErr = None\<rparr>
     (version2_session False) 20 @
     [ActivateRuntime (worker_key (version2 False)) 23, FailRuntime (worker_key (version2 False)) '''' 24]"

definition after_late_rollback :: runtimeState where
  "after_late_rollback = loop_run dkill drender late_rollback version1"

lemma rollback_after_cutover:
  "(let result = StartWorker (answers_of (filter (\<lambda>(c, _). c \<noteq> 23) (sent after_late_rollback))) launch_os demo_network
       (ContextFirst '''') (\<lambda>_. '''') (version2 False) 20
    in fst result \<noteq> None \<and> sends (snd result) = from_callers late_rollback) \<and>
   map_of (sent after_late_rollback) 24 =
     Some (DoneReply (Some (CannotFailFrom (worker_key (version2 False)) WorkerActive))) \<and>
   mget (ractive after_late_rollback) ''a'' = Some (worker_key (version2 False))"
  by code_simp

end
