(* ===== verification/Races.thy ===== *)
theory Races
  imports RuntimeProps
begin

text \<open>
  Late and unlucky events of the runtime, \<^verbatim>\<open>src/pkg/coordinator/runtime.go\<close>: concrete
  runs, evaluated, that show what the loop does where a message or a timer belongs to an earlier
  command. Each run is one of the step relation (\<open>rt_ok\<close>).
\<close>

text \<open>One active worker.\<close>

definition one_active :: "event list" where
  "one_active = take 4 devents"

definition dreloaded :: Message where
  "dreloaded = emptyMessage\<lparr>mVersion := 1, mType := TypeReloadResult, mSuccess := True, mSignatureCount := 3\<rparr>"

definition dshutdown_ack :: Message where
  "dshutdown_ack = emptyMessage\<lparr>mVersion := 1, mType := TypeShutdownAck\<rparr>"

text \<open>
  A reload of \<open>/old\<close> times out, a reload of \<open>/new\<close> is sent, and then the worker's result
  for \<open>/old\<close> arrives: the second caller is told that its reload succeeded, and \<open>/new\<close> is
  recorded as the worker's signature file.
\<close>

definition late_result :: "event list" where
  "late_result = one_active @
     [ReloadRuntime ''a'' ''/old'' 4, ReloadTimeout dkey1, ReloadRuntime ''a'' ''/new'' 5, WorkerMessage dkey1 dreloaded]"

lemma late_reload_result:
  "rt_ok dkill drender late_result initialRuntime \<and>
   map_of (sent (rt_exec dkill drender late_result initialRuntime)) 5 =
     Some (ReloadReply \<lparr>roScannerID = ''a'', roWorkerVersion = ''1'', roSignatureCount = 3\<rparr> None) \<and>
   map_option signaturePath (mget (rworkers (rt_exec dkill drender late_result initialRuntime)) dkey1) = Some ''/new''"
  by code_simp

text \<open>
  The timer of a reload fires while its result is being handled; its event is taken after the next
  reload has begun, and times that one out.
\<close>

definition stale_timeout :: "event list" where
  "stale_timeout = one_active @
     [ReloadRuntime ''a'' ''/old'' 4, WorkerMessage dkey1 dreloaded, ReloadRuntime ''a'' ''/new'' 5, ReloadTimeout dkey1]"

lemma stale_reload_timeout:
  "rt_ok dkill drender stale_timeout initialRuntime \<and>
   map_of (sent (rt_exec dkill drender stale_timeout initialRuntime)) 5 = Some (ReloadReply zeroReload (Some ReloadTimedOut))"
  by code_simp

text \<open>
  A shutdown begins while a health check is under way. The answer to the check makes the
  draining worker healthy again, so its acknowledgement of the shutdown is taken as a failure.
\<close>

definition late_health :: "event list" where
  "late_health =
     [RegisterRuntime (dconfig dkey1) (dchild 11) 1, HealthRuntime dkey1 2, ShutdownRuntime 3,
      WorkerMessage dkey1 dhealthy, WorkerMessage dkey1 dshutdown_ack]"

lemma health_during_shutdown:
  "rt_ok dkill drender late_health initialRuntime \<and>
   runtime_states (rt_exec dkill drender (take 3 late_health) initialRuntime) dkey1 = Some WorkerDraining \<and>
   runtime_states (rt_exec dkill drender (take 4 late_health) initialRuntime) dkey1 = Some WorkerHealthy \<and>
   runtime_states (rt_exec dkill drender late_health initialRuntime) dkey1 = Some WorkerFailed"
  by code_simp

text \<open>
  A worker that registers after a shutdown has begun is accepted and is never asked to stop, so
  the shutdown waits for its exit.
\<close>

definition late_register :: "event list" where
  "late_register = one_active @ [ShutdownRuntime 4, RegisterRuntime (dconfig dkey2) (dchild 12) 5]"

lemma register_during_shutdown:
  "rt_ok dkill drender late_register initialRuntime \<and>
   map_of (sent (rt_exec dkill drender late_register initialRuntime)) 5 = Some (DoneReply None) \<and>
   map_option shutdownSent (mget (rworkers (rt_exec dkill drender late_register initialRuntime)) dkey2) = Some False \<and>
   status (rt_exec dkill drender late_register initialRuntime) = Running"
  by code_simp

end
