(* ===== verification/Deadlines.thy ===== *)
theory Deadlines
  imports RuntimeProps
begin

text \<open>
  What the timers and the exits of \<^verbatim>\<open>src/pkg/coordinator/runtime.go\<close> are good for: no scan waits longer
  than its timer, and a shutdown ends with the processes of the workers. The measure of a shutdown
  is \<open>live\<close>, the set of the workers whose process has not exited: a registration adds at most its
  worker, an exit removes its worker, and no other step adds to it.
\<close>

section \<open>The timer of a scan\<close>

text \<open>
  C8. No scan hangs. An open scan has a timer, and when the loop takes its event the scan is over:
  its caller gets an outcome for it, without an error, that has every answer that had arrived and
  the verdict \<^verbatim>\<open>TIMEOUT\<close> for exactly the workers that had not answered, and the request is
  closed. While no shutdown is under way, a timer that fires after the scan was answered changes
  nothing.
\<close>

theorem scan_timer:
  assumes "runtime_reach s" "status s = Running" "t = runtime_turn kill prt (ScanTimeout i) s"
  shows "case mget (rrequests s) i of
      None \<Rightarrow> stopReply s = None \<longrightarrow> t = s
    | Some r \<Rightarrow> reqTimer r \<and> mget (rrequests t) i = None \<and>
        (\<exists>out. sent t = sent s @ [(reqReply r, ScanReply out None)] \<and> soRequestID out = i \<and>
           (\<forall>k. mget (soResults out) k = map_option (\<lambda>m. if mType m = '''' then
              substitute i VerdictTimeout ''scan timed out'' else m) (mget (reqResults r) k)))"
proof (cases "mget (rrequests s) i")
  case None
  then show ?thesis using assms(3) by (simp add: runtime_turn_def timeoutScan_def stop_check_def)
next
  case (Some r)
  let ?m = "substitute i VerdictTimeout ''scan timed out''" and ?r = "fillPending (substitute i VerdictTimeout ''scan timed out'') r"
  note inv = runtime_reach_inv [OF assms(1)]
  note ok = rrequests_okD [OF rt_invD(5) [OF inv] Some]
  from ok have running: "stopReply s = None" by simp
  have m: "mget (rrequests (adjust_request i (fillPending ?m) s)) i = Some ?r"
    using Some by (simp add: adjust_request_def map_laws)
  have v: "valid_result i ?m"
    using req_okD(1) [OF ok(1)] by (simp add: valid_substitute validVerdict_def)
  have "rt_inv {} {i} (adjust_request i (fillPending ?m) s)"
    using v by (intro fill_inv [OF inv]) (auto simp: mget_mapvals fillPending_def)
  from rrequests_okD(1) [OF rt_invD(5) [OF this] m]
  have out: "requestOutcome ?r = ScanReply \<lparr>soRequestID = i,
      soVerdict = any_malicious (mVerdict ` snd ` set (reqResults ?r)), soResults = reqResults ?r\<rparr> None"
    by (rule requestOutcome_eq) (rule fillPending_answered [OF valid_result_type [OF v]])
  have h: "handle kill prt (ScanTimeout i) s = completeRequest i (adjust_request i (fillPending ?m) s)"
    using Some by (simp add: timeoutScan_def)
  have "t = completeRequest i (adjust_request i (fillPending ?m) s)"
    unfolding assms(3) runtime_turn_def h
    by (simp add: completeRequest_eq [OF m] running stop_check_def adjust_request_def)
  then have "mget (rrequests t) i = None" "sent t = sent s @ [(reqReply r, requestOutcome ?r)]"
    unfolding completeRequest_eq [OF m] by (simp_all add: map_laws adjust_request_def)
  then show ?thesis
    using req_okD(4) [OF ok(1)] unfolding Some out by (simp add: mget_mapvals)
qed

theorem scan_timer_witness:
  "\<exists>out. sent (runtime_turn dkill drender (ScanTimeout 1) dstate) = sent dstate @ [(6, ScanReply out None)] \<and>
     mget (soResults out) dkey1 = Some (substitute 1 VerdictTimeout ''scan timed out'')"
proof -
  have "map_option reqReply (mget (rrequests dstate) 1) = Some 6" by code_simp
  with dstate_request obtain r where r: "mget (rrequests dstate) 1 = Some r"
    "reqReply r = 6" "reqResults r = [(dkey1, emptyMessage)]" by auto
  have "status dstate = Running" by code_simp
  from scan_timer [OF dstate_reach this refl, of dkill drender 1] r show ?thesis by (auto simp: emptyMessage_def)
qed

section \<open>Processes that have exited\<close>

definition exited_of :: "runtimeState \<Rightarrow> WorkerKey \<Rightarrow> bool option" where
  "exited_of s k = map_option exited (mget (rworkers s) k)"

definition live :: "runtimeState \<Rightarrow> WorkerKey set" where
  "live s = {k. exited_of s k = Some False}"

lemma exited_of_adjust [simp]:
  "(\<And>w. exited (f w) = exited w) \<Longrightarrow> exited_of (adjust_runtime k f s) = exited_of s"
  by (auto simp: exited_of_def adjust_runtime_def map_laws fun_eq_iff option.map_comp comp_def)

lemma exited_of_put [simp]:
  "mget (rworkers s) k = Some w \<Longrightarrow> exited w' = exited w \<Longrightarrow> exited_of (adjust_runtime k (\<lambda>_. w') s) = exited_of s"
  by (auto simp: exited_of_def adjust_runtime_def map_laws fun_eq_iff)

lemma exited_of_updates [simp]:
  "exited_of (adjust_request i g s) = exited_of s" "exited_of (send_reply c a s) = exited_of s"
  "exited_of (panic s) = exited_of s" "exited_of (openScan path c s) = exited_of s"
  "exited_of (s\<lparr>ractive := x1\<rparr>) = exited_of s" "exited_of (s\<lparr>rrequests := x2\<rparr>) = exited_of s"
  "exited_of (s\<lparr>stopReply := x3\<rparr>) = exited_of s" "exited_of (s\<lparr>status := x4\<rparr>) = exited_of s"
  by (simp_all add: exited_of_def adjust_request_def send_reply_def panic_def openScan_def Let_def fun_eq_iff)

lemma exited_of_mapvals:
  "(\<And>k w. exited (f k w) = exited w) \<Longrightarrow> exited_of (s\<lparr>rworkers := mapvals f (rworkers s)\<rparr>) = exited_of s"
  by (simp add: exited_of_def mget_mapvals fun_eq_iff option.map_comp comp_def)

lemma exited_of_fold: "(\<And>x s. exited_of (f x s) = exited_of s) \<Longrightarrow> exited_of (fold f xs s) = exited_of s"
  by (induction xs arbitrary: s) simp_all

lemma queue_exited: "queueWorkerMessage w m = (e, w') \<Longrightarrow> exited w' = exited w"
  by (auto simp: queueWorkerMessage_def split: if_splits)

lemma exited_simps [simp]:
  "exited (requestWorkerShutdown w) = exited w" "exited (releaseWorker w) = exited w"
  "exited (drainWorker w) = exited w" "exited (supersede w) = exited w"
  by (auto simp: requestWorkerShutdown_def releaseWorker_def drainWorker_def supersede_def queueWorkerMessage_def Let_def)

text \<open>Handlers other than those of a registration and of an exit leave this alone.\<close>

lemma exited_of_completeRequest [simp]:
  "exited_of (completeRequest i s) = exited_of s" "exited_of (completeRequestIfReady i s) = exited_of s"
proof -
  show "exited_of (completeRequest i s) = exited_of s" for i s
    by (simp add: completeRequest_def Let_def exited_of_fold split: option.split)
  then show "exited_of (completeRequestIfReady i s) = exited_of s"
    by (simp add: completeRequestIfReady_def split: option.split)
qed

lemma exited_of_take_reply: 
  "(\<And>w. exited (clear w) = exited w) \<Longrightarrow> exited_of (take_reply k get clear a s) = exited_of s"
  by (simp add: take_reply_def split: option.split)

lemma exited_of_answers [simp]:
  "exited_of (answerHello k e s) = exited_of s" "exited_of (answerHealth k e s) = exited_of s"
  "exited_of (answerReload k out e s) = exited_of s"
  by (simp_all add: answerHello_def answerHealth_def answerReload_def exited_of_take_reply)

lemma exited_of_failure [simp]: "exited_of (handleWorkerFailure k reason s) = exited_of s"
proof -
  have "exited_of (failResult k reason i s) = exited_of s" for i s
    by (simp add: failResult_def split: option.split)
  then have "exited_of (fold (failResult k reason) is s) = exited_of s" for "is" s by (rule exited_of_fold)
  then show ?thesis by (simp add: handleWorkerFailure_def Let_def split: option.split)
qed

lemma exited_of_scan [simp]:
  "exited_of (assignScan i k s) = exited_of s" "exited_of (sendScan txt i path k s) = exited_of s"
  "exited_of (cancelRequest i s) = exited_of s"
  by (auto simp: assignScan_def sendScan_def cancelRequest_def queue_exited split: option.split prod.split)

lemma exited_of_message [simp]: "exited_of (handleWorkerMessage txt k m s) = exited_of s"
  by (simp add: handleWorkerMessage_def recordRuntimeScanResult_def recordReloadResult_def Let_def split: option.split)

lemma exited_of_begin [simp]:
  "exited_of (beginHello txt k c s) = exited_of s" "exited_of (beginHealth txt k c s) = exited_of s"
  "exited_of (beginReload txt scanner path c s) = exited_of s"
  by (auto simp: beginHello_def beginHealth_def beginReload_def dest!: queue_exited split: option.split prod.split)

lemma exited_of_beginScan [simp]: "exited_of (beginScan txt path c s) = exited_of s"
  by (simp add: beginScan_def Let_def exited_of_fold)

lemma exited_of_commands [simp]:
  "exited_of (snd (activateRuntimeWorker k s)) = exited_of s"
  "exited_of (snd (failRuntimeWorker kill k reason s)) = exited_of s"
  by (auto simp: activateRuntimeWorker_def failRuntimeWorker_def Let_def split: option.split)

lemma exited_of_beginShutdown [simp]: "exited_of (beginShutdown s) = exited_of s"
proof -
  have "exited_of (fold cancelRequest is s) = exited_of s" for "is" s by (rule exited_of_fold) simp
  moreover have "exited_of (s\<lparr>ractive := [], rworkers := mapvals (\<lambda>_. drainWorker) (rworkers s)\<rparr>) = exited_of s" for s
    by (simp add: exited_of_def mget_mapvals fun_eq_iff option.map_comp comp_def)
  ultimately show ?thesis by (simp add: beginShutdown_def Let_def)
qed

lemma exited_of_exit:
  "exited_of (handleWorkerExit k e s) = (if exited_of s k = None then exited_of s else (exited_of s)(k := Some True))"
proof (cases "mget (rworkers s) k")
  case None
  then show ?thesis by (simp add: handleWorkerExit_def exited_of_def)
next
  case (Some w)
  have "exited_of (adjust_runtime k (rnoteExit e) s) = (exited_of s)(k := Some True)"
    using Some by (auto simp: exited_of_def adjust_runtime_def map_laws fun_eq_iff rnoteExit_def)
  with Some show ?thesis by (simp add: handleWorkerExit_def Let_def) (simp add: exited_of_def)
qed

section \<open>Steps and the live workers\<close>

text \<open>
  The workers whose exit may still be awaited after a step, from those before it. A registration
  counts even if it is refused.
\<close>

fun awaited :: "label \<Rightarrow> WorkerKey set \<Rightarrow> WorkerKey set" where
  "awaited (Turn (RegisterRuntime w ch c)) L = insert \<lparr>ScannerID = cScannerID w, Version = cWorkerVersion w\<rparr> L"
| "awaited (Turn (WorkerExit k e)) L = L - {k}"
| "awaited _ L = L"

lemma awaited_mono: "K \<subseteq> L \<Longrightarrow> awaited l K \<subseteq> awaited l L"
  by (induction l L rule: awaited.induct) auto

lemma awaited_fold_mono: "K \<subseteq> L \<Longrightarrow> fold awaited ls K \<subseteq> fold awaited ls L"
  by (induction ls arbitrary: K L) (simp_all add: awaited_mono)

lemma register_live:
  "live (snd (registerRuntimeWorker w ch s)) \<subseteq> insert \<lparr>ScannerID = cScannerID w, Version = cWorkerVersion w\<rparr> (live s)"
  by (auto simp: registerRuntimeWorker_def live_def exited_of_def map_laws Let_def split: option.splits if_splits)

lemma handle_live: "live (handle kill txt e s) \<subseteq> awaited (Turn e) (live s)"
proof -
  have live: "live t \<subseteq> live s" if "exited_of t = exited_of s" for t using that by (simp add: live_def)
  show ?thesis
  proof (cases e)
    case (RegisterRuntime w ch c)
    then show ?thesis using register_live [of w ch s] by (simp add: send_done_def) (simp add: live_def)
  next
    case (WorkerExit k x)
    then show ?thesis by (auto simp: live_def exited_of_exit split: if_splits)
  next
    case (ActiveRuntime scanner c)
    then show ?thesis by (simp add: activeWorker_def live split: option.split)
  qed (simp_all add: live send_done_def timeoutScan_def timeoutReload_def split: option.split)
qed

lemma cleanup_exited [simp]: "exited_of (cleanup kill s) = exited_of s"
  unfolding cleanup_def by (rule exited_of_mapvals) (simp add: closeWorker_def Let_def)

lemma stop_check_live [simp]: "live (stop_check kill s) = live s" "stopReply (stop_check kill s) = stopReply s"
  by (simp_all add: stop_check_def live_def split: option.split) (simp add: cleanup_def send_reply_def split: option.split)

lemma same_runtime_live:
  assumes "same_runtime s s'" "runtime_reach s"
  shows "live s' = live s"
  using same_runtime_views(1) [OF assms(1) rt_invD(1) [OF runtime_reach_inv [OF assms(2)]]]
  by (simp add: live_def exited_of_def)

lemma worker_steps_live:
  "live (adjust_runtime k takeMessage s) = live s" "live (adjust_runtime k (fireTimer kill) s) = live s"
  by (simp_all add: live_def takeMessage_def fireTimer_def)

lemma turn_live: "live (runtime_turn kill txt e s) \<subseteq> awaited (Turn e) (live s)"
proof (cases rule: runtime_turn_cases [of e s kill "txt"])
  case (1 c x)
  then show ?thesis by (simp add: live_def)
next
  case 2
  then show ?thesis by (simp add: handle_live)
qed

lemma turn_stop:
  assumes "stopReply s = Some c"
  shows "stopReply (runtime_turn kill txt e s) = Some c"
proof (cases rule: runtime_turn_cases [of e s kill "txt"])
  case (1 d x)
  with assms show ?thesis by (simp add: send_reply_def)
next
  case 2
  then have "\<forall>d. e \<noteq> ShutdownRuntime d" using assms by auto
  from frame_handle [OF this, of kill "txt" s] assms 2(2) show ?thesis by (simp add: frame_def)
qed

lemma turn_status: "status s = Running \<Longrightarrow> status (runtime_turn kill txt e s) \<noteq> Cancelled"
proof (cases rule: runtime_turn_cases [of e s kill "txt"])
  case (1 c x)
  assume "status s = Running"
  with 1 show ?thesis by (simp add: send_reply_def)
next
  case 2
  assume "status s = Running"
  with 2(2) show ?thesis
    using handle_status [of kill "txt" e s] by (simp add: stop_check_def cleanup_def split: option.split)
qed

text \<open>
  A running core that has been told to stop has a live worker; a core that has returned has told its
  caller; and one that has stopped has closed every connection and killed what had not retired.
\<close>

definition ended :: "runtimeState \<Rightarrow> bool" where
  "ended s \<longleftrightarrow> (\<forall>w \<in> snd ` set (rworkers s). closed w \<and> (rstate w = WorkerRetired \<or> terminate (rchild w)))"

definition settled :: "runtimeState \<Rightarrow> bool" where
  "settled s \<longleftrightarrow>
     (case status s of
        Running \<Rightarrow> stopReply s \<noteq> None \<longrightarrow> live s \<noteq> {}
      | Returned \<Rightarrow> ended s \<and> (\<forall>c. stopReply s = Some c \<longrightarrow> (c, DoneReply None) \<in> set (sent s))
      | Cancelled \<Rightarrow> ended s)"

lemma allWorkersStopped_live:
  assumes "distinct (keys (rworkers s))"
  shows "allWorkersStopped s \<longleftrightarrow> live s = {}"
proof -
  have "allWorkersStopped s \<longleftrightarrow> (\<forall>k w. mget (rworkers s) k = Some w \<longrightarrow> exited w)"
    using mget_set [OF assms] by (force simp: allWorkersStopped_def)
  then show ?thesis by (auto simp: live_def exited_of_def)
qed

lemma cleanup_ended: "ended (cleanup kill s)"
  by (auto simp: ended_def cleanup_def mapvals_def closeWorker_def Let_def split: if_splits)

lemma stop_check_settled:
  assumes "status s = Running" "distinct (keys (rworkers s))"
  shows "settled (stop_check kill s)"
proof (cases "stopReply s")
  case None
  with assms(1) show ?thesis by (simp add: settled_def stop_check_def)
next
  case (Some c)
  show ?thesis
  proof (cases "live s = {}")
    case True
    then have "stop_check kill s = cleanup kill ((send_reply c (DoneReply None) s)\<lparr>status := Returned\<rparr>)"
      using Some allWorkersStopped_live [OF assms(2)] by (simp add: stop_check_def)
    moreover have "ended (cleanup kill ((send_reply c (DoneReply None) s)\<lparr>status := Returned\<rparr>))"
      by (rule cleanup_ended)
    ultimately show ?thesis using Some by (simp add: settled_def) (simp add: cleanup_def send_reply_def)
  next
    case False
    with assms(1) Some allWorkersStopped_live [OF assms(2)] show ?thesis by (simp add: settled_def stop_check_def)
  qed
qed

lemma turn_settled:
  assumes "rt_inv {} {} s" "event_ok s e" "status s = Running" "settled s"
  shows "settled (runtime_turn kill txt e s)"
proof (cases rule: runtime_turn_cases [of e s kill "txt"])
  case (1 c x)
  with assms(3,4) show ?thesis by (simp add: settled_def live_def send_reply_def exited_of_def)
next
  case 2
  have "rt_inv {} {} (handle kill txt e s)"
    by (rule handle_inv [OF assms(1,2)])
  from stop_check_settled [OF _ rt_inv_distinct [OF this]] 2(2) assms(3) show ?thesis
    by (simp add: handle_status)
qed

lemma worker_step_settled:
  assumes "settled s" "live (adjust_runtime k f s) = live s"
    and "\<And>w. closed (f w) = closed w" "\<And>w. rstate (f w) = rstate w"
    and "\<And>w. terminate (rchild w) \<Longrightarrow> terminate (rchild (f w))"
  shows "settled (adjust_runtime k f s)"
proof -
  have "ended (adjust_runtime k f s)" if "ended s"
    using that assms(3-5) by (fastforce simp: ended_def adjust_runtime_def madjust_def)
  with assms(1,2) show ?thesis
    by (simp add: settled_def split: run_status.splits)
qed

lemma trans_settled:
  assumes "runtime_trans s l t" "runtime_reach s" "settled s"
  shows "settled t"
proof -
  note inv = runtime_reach_inv [OF assms(2)]
  from assms(1) show ?thesis
  proof cases
    case (turn s' e kill "txt")
    note same = same_runtime_views [OF turn(3) rt_invD(1) [OF inv]]
    have "settled s'" using assms(3) turn(2) same_runtime_live [OF turn(3) assms(2)] same by (simp add: settled_def)
    moreover have "event_ok s' e" using turn(4) event_ok_same [OF turn(3) rt_invD(1) [OF inv]] by simp
    ultimately show ?thesis
      unfolding turn using turn_settled [OF same_runtime_inv [OF inv turn(3)]] same turn(2) by simp
  next
    case (wrote k w)
    show ?thesis unfolding wrote
      by (rule worker_step_settled [OF assms(3) worker_steps_live(1)]) (simp_all add: takeMessage_def)
  next
    case (fired k w kill)
    show ?thesis unfolding fired
      by (rule worker_step_settled [OF assms(3) worker_steps_live(2)]) (simp_all add: fireTimer_def)
  next
    case (cancelled kill)
    have "ended (cleanup kill (s\<lparr>status := Cancelled\<rparr>))" by (rule cleanup_ended)
    then show ?thesis unfolding cancelled by (simp add: settled_def) (simp add: cleanup_def)
  qed
qed

lemma runtime_settled: "runtime_reach s \<Longrightarrow> settled s"
proof (induction rule: reach_invariant)
  case (Init s)
  then show ?case by (simp add: runtime_init_def initialRuntime_def settled_def)
next
  case (Step s l t)
  from Step(2,1,3) show ?case by (rule trans_settled)
qed

section \<open>The end of a shutdown\<close>

text \<open>One step of a core that has been told to stop, and a run of them.\<close>

lemma stopping_step:
  assumes "runtime_trans s l t" "runtime_reach s" "stopReply s = Some c"
  shows "stopReply t = Some c" "live t \<subseteq> awaited l (live s)"
    "l \<noteq> Cancel \<Longrightarrow> status s \<noteq> Cancelled \<Longrightarrow> status t \<noteq> Cancelled"
proof -
  have "stopReply t = Some c \<and> live t \<subseteq> awaited l (live s) \<and>
      (l \<noteq> Cancel \<longrightarrow> status s \<noteq> Cancelled \<longrightarrow> status t \<noteq> Cancelled)"
    using assms(1)
  proof cases
    case (turn s' e kill "txt")
    note same = same_runtime_views [OF turn(3) rt_invD(1) [OF runtime_reach_inv [OF assms(2)]]]
    show ?thesis
      using turn_live [of kill "txt" e s'] turn_stop [of s' c kill "txt" e] turn_status [of s' kill "txt" e]
        same_runtime_live [OF turn(3) assms(2)] same assms(3) turn by simp
  next
    case (wrote k w)
    then show ?thesis using assms(3) worker_steps_live(1) by (simp add: adjust_runtime_def)
  next
    case (fired k w kill)
    then show ?thesis using assms(3) worker_steps_live(2) by (simp add: adjust_runtime_def)
  next
    case (cancelled kill)
    then show ?thesis using assms(3) by (simp add: live_def) (simp add: cleanup_def)
  qed
  then show "stopReply t = Some c" "live t \<subseteq> awaited l (live s)"
    "l \<noteq> Cancel \<Longrightarrow> status s \<noteq> Cancelled \<Longrightarrow> status t \<noteq> Cancelled" by simp_all
qed

lemma stopping_run:
  assumes "runtime_runs s ls t" "runtime_reach s" "stopReply s = Some c"
  shows "stopReply t = Some c \<and> live t \<subseteq> fold awaited ls (live s) \<and>
    (Cancel \<notin> set ls \<longrightarrow> status s \<noteq> Cancelled \<longrightarrow> status t \<noteq> Cancelled)"
  using assms
proof (induction rule: runs.induct)
  case (run_nil s)
  then show ?case by simp
next
  case (run_cons s l t ls u)
  note step = stopping_step [OF run_cons.hyps(1) run_cons.prems]
  from run_cons.IH [OF reach_step [OF run_cons.prems(1) run_cons.hyps(1)] step(1)] step(3)
    awaited_fold_mono [OF step(2), of ls]
  show ?case by auto
qed

lemma shutdown_step:
  assumes "runtime_trans s (Turn (ShutdownRuntime c)) t" "runtime_reach s" "stopReply s = None"
  shows "stopReply t = Some c" "live t \<subseteq> live s" "status t \<noteq> Cancelled"
proof -
  from assms(1) obtain s' kill "txt" where turn: "status s = Running" "same_runtime s s'"
    "t = runtime_turn kill txt (ShutdownRuntime c) s'" by cases
  note same = same_runtime_views [OF turn(2) rt_invD(1) [OF runtime_reach_inv [OF assms(2)]]]
  have t: "t = stop_check kill (beginShutdown (s'\<lparr>stopReply := Some c\<rparr>))"
    using turn(3) same(8) assms(3) by (simp add: runtime_turn_def)
  then show "stopReply t = Some c"
    using frame_shutdown [of "s'\<lparr>stopReply := Some c\<rparr>"] by (simp add: frame_def)
  show "live t \<subseteq> live s" using turn(3) turn_live [of kill "txt" "ShutdownRuntime c" s'] same_runtime_live [OF turn(2) assms(2)] by simp
  show "status t \<noteq> Cancelled" using turn(1,3) turn_status [of s'] same(11) by simp
qed

lemma no_open_requests:
  assumes "runtime_reach t" "stopReply t = Some c"
  shows "rrequests t = []"
proof (cases "rrequests t")
  case (Cons p rest)
  obtain i r where "p = (i, r)" by (cases p)
  with Cons have "mget (rrequests t) i = Some r" by simp
  from rrequests_okD(2) [OF rt_invD(5) [OF runtime_reach_inv [OF assms(1)]] this] assms(2) show ?thesis by simp
qed simp

text \<open>
  C9. A shutdown ends once the processes have exited. Take any run of the core, with any
  interleaving of commands, messages, timers, writes, failures and a cancelled context, that begins
  with the first shutdown command. Once every process that was there, and every one that was
  registered in the meantime, has exited, the loop has ended: every scan that was open has been
  answered, every connection is closed, and every process that had not retired has been killed. If
  the context was not cancelled, the loop has returned and the caller of the shutdown has been told
  that the core has stopped.
\<close>

theorem shutdown_ends:
  assumes "runtime_reach s" "stopReply s = None" "runtime_runs s (Turn (ShutdownRuntime c) # ls) t"
    and "fold awaited ls (live s) = {}"
  shows "status t \<noteq> Running \<and> ended t \<and>
    (\<forall>i r. mget (rrequests s) i = Some r \<longrightarrow>
      (\<exists>out. (reqReply r, ScanReply out None) \<in> set (sent t) \<and> soRequestID out = i)) \<and>
    (Cancel \<notin> set ls \<longrightarrow> status t = Returned \<and> (c, DoneReply None) \<in> set (sent t))"
proof -
  from assms(3) obtain u where step: "runtime_trans s (Turn (ShutdownRuntime c)) u" and run: "runtime_runs u ls t"
    by (rule runs_ConsE)
  note u = shutdown_step [OF step assms(1,2)]
  have reach: "runtime_reach u" "runtime_reach t"
    using reach_step [OF assms(1) step] reach_runs [OF assms(3,1)] by simp_all
  have t: "stopReply t = Some c" "live t = {}" "Cancel \<notin> set ls \<longrightarrow> status t \<noteq> Cancelled"
    using stopping_run [OF run reach(1) u(1)] awaited_fold_mono [OF u(2), of ls] u(3) assms(4) by auto
  have "\<exists>out. (reqReply r, ScanReply out None) \<in> set (sent t) \<and> soRequestID out = i"
    if "mget (rrequests s) i = Some r" for i r
    using runtime_runs_evolves [OF assms(3,1)] that no_open_requests [OF reach(2) t(1)]
    by (auto simp: evolves_def followed_def)
  moreover have "status t \<noteq> Running \<and> ended t \<and>
      (Cancel \<notin> set ls \<longrightarrow> status t = Returned \<and> (c, DoneReply None) \<in> set (sent t))"
    using runtime_settled [OF reach(2)] t by (cases "status t") (auto simp: settled_def)
  ultimately show ?thesis by blast
qed

text \<open>
  Version 2 exits, a version 3 is registered, a late answer of version 1 arrives, and both exit.
\<close>

definition dkey3 :: WorkerKey where "dkey3 = \<lparr>ScannerID = ''a'', Version = ''3''\<rparr>"

definition dstopping :: "event list" where
  "dstopping = [WorkerExit dkey2 dexit, RegisterRuntime (dconfig dkey3) (dchild 13) 10, WorkerMessage dkey1 dhealthy,
     WorkerExit dkey1 dexit, WorkerExit dkey3 dexit]"

theorem shutdown_ends_witness:
  "(9, DoneReply None) \<in> set (sent (rt_exec dkill drender (ShutdownRuntime 9 # dstopping) dstate))"
proof -
  have "rt_ok dkill drender (ShutdownRuntime 9 # dstopping) dstate" by code_simp
  from rt_exec_runs [OF this] have run: "runtime_runs dstate (Turn (ShutdownRuntime 9) # map Turn dstopping)
      (rt_exec dkill drender (ShutdownRuntime 9 # dstopping) dstate)" by (simp only: list.map)
  have "set (keys (rworkers dstate)) = {dkey1, dkey2}" by code_simp
  moreover have "live dstate \<subseteq> set (keys (rworkers dstate))"
    by (auto simp: live_def exited_of_def dest: mget_SomeD)
  moreover have "fold awaited (map Turn dstopping) {dkey1, dkey2} = {}"
    by (auto simp: dstopping_def dconfig_def dkey3_def zeroWorker_def)
  ultimately have "fold awaited (map Turn dstopping) (live dstate) = {}"
    using awaited_fold_mono [of "live dstate" "{dkey1, dkey2}" "map Turn dstopping"] by simp
  moreover have "stopReply dstate = None" by code_simp
  ultimately show ?thesis
    using shutdown_ends [OF dstate_reach _ run] by (auto simp: dstopping_def)
qed

end
