(* ===== verification/Scanning.thy ===== *)
theory Scanning
  imports Startup
begin

text \<open>
  A scan as a whole: the runtime's loop (\<open>Runtime\<close>,
  \<^verbatim>\<open>src/pkg/coordinator/runtime.go\<close>) sends it to the active workers, each worker's session
  scans the file with its signatures (\<open>Session\<close> and \<open>Signatures\<close>,
  \<^verbatim>\<open>src/pkg/worker/worker.go\<close>), and the answers are combined (\<open>Aggregator\<close>). Other events
  are not interleaved here.
\<close>

section \<open>A scan under way\<close>

text \<open>The request \<open>i\<close> of the caller \<open>c\<close> has the results \<open>rs\<close> of the workers \<open>ks\<close>.\<close>

definition under_way ::
  "runtimeState \<Rightarrow> u64 \<Rightarrow> chan \<Rightarrow> WorkerKey set \<Rightarrow> (WorkerKey, Message) gomap \<Rightarrow> runtimeState \<Rightarrow> bool" where
  "under_way s i c ks rs t \<longleftrightarrow> stopReply t = None \<and> sent t = sent s \<and>
     (\<forall>k \<in> ks. runtime_states t k = Some WorkerActive) \<and>
     (\<exists>r. mget (rrequests t) i = Some r \<and> reqID r = i \<and> reqReply r = c \<and> reqResults r = rs)"

lemma sendScan_room:
  assumes "mget (rworkers t) k = Some w" "length (outbound w) < outboundCap"
  shows "sendScan render i path k t = adjust_runtime k (\<lambda>_. w\<lparr>outbound := outbound w @ [scanMessage i path]\<rparr>) t"
  using assms by (simp add: sendScan_def queueWorkerMessage_def)

lemma sendScan_fold:
  assumes "distinct ks" "\<forall>k \<in> set ks. \<exists>w. mget (rworkers t) k = Some w \<and> length (outbound w) < outboundCap"
    and "u = fold (sendScan render i path) ks t"
  shows "rrequests u = rrequests t \<and> sent u = sent t \<and> stopReply u = stopReply t \<and>
    runtime_states u = runtime_states t \<and>
    (\<forall>k. mget (rworkers u) k = map_option (\<lambda>w. if k \<in> set ks then w\<lparr>outbound := outbound w @ [scanMessage i path]\<rparr> else w)
      (mget (rworkers t) k))"
  using assms
proof (induction ks arbitrary: t)
  case Nil
  then show ?case by (simp add: option.map_ident)
next
  case (Cons k ks)
  from Cons.prems(2) obtain w where w: "mget (rworkers t) k = Some w" "length (outbound w) < outboundCap" by auto
  let ?t = "adjust_runtime k (\<lambda>_. w\<lparr>outbound := outbound w @ [scanMessage i path]\<rparr>) t"
  have room: "\<forall>j \<in> set ks. \<exists>w. mget (rworkers ?t) j = Some w \<and> length (outbound w) < outboundCap"
    using Cons.prems(1,2) by (auto simp: adjust_runtime_def map_laws)
  have "runtime_states ?t = runtime_states t"
    using w(1) by (auto simp: runtime_states_def adjust_runtime_def map_laws)
  moreover have "mget (rworkers ?t) j = (if j = k then Some (w\<lparr>outbound := outbound w @ [scanMessage i path]\<rparr>)
      else mget (rworkers t) j)" for j
    using w(1) by (simp add: adjust_runtime_def map_laws)
  moreover note Cons.IH [OF _ room] Cons.prems(1,3)
  ultimately show ?case
    using w(1) by (auto simp: sendScan_room [OF w])
qed

lemma scan_begins:
  assumes "runtime_reach s" "stopReply s = None" "ractive s \<noteq> []" "nextRequestID s < - 1"
    and "\<forall>k \<in> set (map snd (ractive s)). \<exists>w. mget (rworkers s) k = Some w \<and> length (outbound w) < outboundCap"
    and "i = nextRequestID s + 1"
    and "t = runtime_turn kill render (ScanRuntime path c) s"
  shows "under_way s i c (set (map snd (ractive s))) (map (\<lambda>k. (k, emptyMessage)) (map snd (ractive s))) t"
    and "\<forall>k \<in> set (map snd (ractive s)).
      \<exists>w. mget (rworkers t) k = Some w \<and> outbound w \<noteq> [] \<and> last (outbound w) = scanMessage i path"
proof -
  note inv = runtime_reach_inv [OF assms(1)]
  let ?ks = "map snd (ractive s)"
  let ?a = "assignedState path c ?ks s"
  let ?u = "fold (sendScan render i path) ?ks ?a"
  have began: "beginScan render path c s = ?u"
    using assms(2,3,6) by (rule_tac beginScan_cases [OF inv assms(4), of render path c]) simp_all
  have room: "\<forall>k \<in> set ?ks. \<exists>w. mget (rworkers ?a) k = Some w \<and> length (outbound w) < outboundCap"
    using assms(5) active_workers(1) [OF inv]
    by (auto simp: assignedState_def Let_def mget_fold_madjust countScan_def)
  note u = sendScan_fold [OF active_workers(1) [OF inv] room refl, of render i path]
  have "runtime_states ?a = runtime_states s"
    using active_workers(1) [OF inv]
    by (auto simp: assignedState_def Let_def runtime_states_def mget_fold_madjust countScan_def
        option.map_comp comp_def)
  with u active_workers(2) [OF inv] assms(2,6)
  have way: "under_way s i c (set ?ks) (map (\<lambda>k. (k, emptyMessage)) ?ks) ?u"
    by (auto simp: under_way_def assignedState_def Let_def map_laws newRequest_def)
  have "stopReply ?u = None" using u assms(2) by (simp add: assignedState_def Let_def)
  then have t: "t = ?u"
    using turn_handle [OF assms(2), of kill render "ScanRuntime path c"] assms(7) by (simp add: began)
  from way show "under_way s i c (set ?ks) (map (\<lambda>k. (k, emptyMessage)) ?ks) t" unfolding t .
  show "\<forall>k \<in> set ?ks. \<exists>w. mget (rworkers t) k = Some w \<and> outbound w \<noteq> [] \<and> last (outbound w) = scanMessage i path"
  proof
    fix k assume k: "k \<in> set ?ks"
    with room obtain w where "mget (rworkers ?a) k = Some w" by auto
    with u k show "\<exists>w. mget (rworkers t) k = Some w \<and> outbound w \<noteq> [] \<and> last (outbound w) = scanMessage i path"
      unfolding t by simp
  qed
qed

section \<open>The answers\<close>

text \<open>An answer that is not the last one is noted; the last one completes the request.\<close>

lemma answer_arrives:
  assumes "under_way s i c ks rs t" "k \<in> ks" "mget rs k = Some emptyMessage" "distinct (keys rs)"
    and "mType m = TypeScanResult" "mRequestID m = i"
    and "u = runtime_turn kill render (WorkerMessage k m) t"
  shows "j \<noteq> k \<Longrightarrow> mget rs j = Some emptyMessage \<Longrightarrow> under_way s i c ks (mput k m rs) u"
    and "\<forall>x \<in> snd ` set (mput k m rs). mType x \<noteq> '''' \<Longrightarrow>
      \<exists>r. reqID r = i \<and> reqReply r = c \<and> reqResults r = mput k m rs \<and> sent u = sent s @ [(c, requestOutcome r)]"
proof -
  from assms(1) obtain r where r: "mget (rrequests t) i = Some r" "reqID r = i" "reqReply r = c" "reqResults r = rs"
    and stop: "stopReply t = None" and sent: "sent t = sent s" and act: "\<forall>k \<in> ks. runtime_states t k = Some WorkerActive"
    unfolding under_way_def by (elim conjE exE)
  let ?r = "r\<lparr>reqResults := mput k m rs\<rparr>"
  let ?t = "adjust_request i (\<lambda>r. r\<lparr>reqResults := mput k m (reqResults r)\<rparr>) t"
  from act assms(2) obtain w where w: "mget (rworkers t) k = Some w" "rstate w = WorkerActive"
    by (auto simp: runtime_states_def)
  have h: "handle kill render (WorkerMessage k m) t = completeRequestIfReady i ?t"
    using w r assms(3,5,6)
    by (simp add: handleWorkerMessage_def recordRuntimeScanResult_def emptyMessage_def)
  have rt: "mget (rrequests ?t) i = Some ?r" using r by (simp add: adjust_request_def map_laws)
  {
    assume "j \<noteq> k" "mget rs j = Some emptyMessage"
    then have "(j, emptyMessage) \<in> set (mput k m rs)" by (simp add: map_laws flip: mget_set [OF distinct_keys_mput [OF assms(4)]])
    then have "\<not> answered ?r" by (force simp: answered_def emptyMessage_def)
    then have "handle kill render (WorkerMessage k m) t = ?t"
      unfolding h using rt by (simp add: completeRequestIfReady_def)
    moreover have "stopReply ?t = None" using stop by (simp add: adjust_request_def)
    ultimately have "u = ?t" using turn_handle [OF stop] assms(7) by (simp del: handle.simps)
    moreover have "runtime_states ?t = runtime_states t" by (simp add: fun_eq_iff runtime_states_def adjust_request_def)
    ultimately show "under_way s i c ks (mput k m rs) u"
      using stop sent act rt r by (simp add: under_way_def)
  }
  {
    assume "\<forall>x \<in> snd ` set (mput k m rs). mType x \<noteq> ''''"
    then have "answered ?r" by (simp add: answered_def)
    then have "handle kill render (WorkerMessage k m) t = completeRequest i ?t"
      unfolding h using rt by (simp add: completeRequestIfReady_def)
    moreover note completeRequest_eq [OF rt]
    ultimately have "sent (handle kill render (WorkerMessage k m) t) = sent s @ [(c, requestOutcome ?r)] \<and>
        stopReply (handle kill render (WorkerMessage k m) t) = None"
      using sent stop r by (simp add: adjust_request_def)
    then have "sent u = sent s @ [(c, requestOutcome ?r)]"
      using turn_handle [OF stop] assms(7) by (simp del: handle.simps)
    with r show "\<exists>r. reqID r = i \<and> reqReply r = c \<and> reqResults r = mput k m rs \<and> sent u = sent s @ [(c, requestOutcome r)]"
      by (intro exI [of _ ?r]) simp
  }
qed

text \<open>All answers, in any order of the workers.\<close>

lemma answers_arrive:
  assumes "under_way s i c (set ks) rs t" "keys rs = ks" "distinct ks" "distinct todo" "set todo \<subseteq> set ks" "todo \<noteq> []"
    and "\<forall>k \<in> set ks. mget rs k = Some (if k \<in> set todo then emptyMessage else ans k)"
    and "\<forall>k. mType (ans k) = TypeScanResult \<and> mRequestID (ans k) = i"
  shows "\<exists>r. reqID r = i \<and> reqReply r = c \<and> keys (reqResults r) = ks \<and>
    (\<forall>k \<in> set ks. mget (reqResults r) k = Some (ans k)) \<and>
    sent (loop_run kill render (map (\<lambda>k. WorkerMessage k (ans k)) todo) t) = sent s @ [(c, requestOutcome r)]"
  using assms
proof (induction todo arbitrary: rs t)
  case Nil
  then show ?case by simp
next
  case (Cons k todo)
  let ?u = "runtime_turn kill render (WorkerMessage k (ans k)) t"
  let ?rs = "mput k (ans k) rs"
  have k: "k \<in> set ks" "mget rs k = Some emptyMessage" "k \<notin> set todo" using Cons.prems(4,5,7) by auto
  have full: "ans x \<noteq> emptyMessage" for x
    using Cons.prems(8) by (auto simp: emptyMessage_def dest: spec [of _ x])
  have keys: "keys ?rs = ks" using k(1) Cons.prems(2) by (simp only: update_keys if_True)
  have rs: "\<forall>j \<in> set ks. mget ?rs j = Some (if j \<in> set todo then emptyMessage else ans j)"
    using Cons.prems(7) k by (auto simp: map_laws)
  have dist: "distinct (keys rs)" "distinct (keys ?rs)" using Cons.prems(2,3) keys by simp_all
  have mine: "mType (ans k) = TypeScanResult" "mRequestID (ans k) = i" using Cons.prems(8) by simp_all
  note step = answer_arrives [OF Cons.prems(1) k(1,2) dist(1) mine refl, where kill = kill and render = render]
  show ?case
  proof (cases todo)
    case Nil
    have "mType x \<noteq> ''''" if x: "x \<in> snd ` set ?rs" for x
    proof -
      from x obtain j where "(j, x) \<in> set ?rs" by auto
      then have j: "mget ?rs j = Some x" by (simp add: mget_set dist(2))
      then have "j \<in> set ks" using keys mget_SomeD by metis
      with rs j Nil Cons.prems(8) show ?thesis by auto
    qed
    then have "\<forall>x \<in> snd ` set ?rs. mType x \<noteq> ''''" by blast
    from step(2) [OF this] obtain r where "reqID r = i" "reqReply r = c" "reqResults r = ?rs"
        "sent ?u = sent s @ [(c, requestOutcome r)]" by (elim exE conjE)
    with Nil keys rs show ?thesis by (intro exI [of _ r]) (simp add: loop_run_def)
  next
    case (Cons j rest)
    have "j \<noteq> k" "mget rs j = Some emptyMessage" using Cons Cons.prems(4,5,7) by auto
    then have "under_way s i c (set ks) ?rs ?u" by (rule step(1))
    from Cons.IH [OF this keys Cons.prems(3) _ _ _ rs Cons.prems(8)] Cons.prems(4,5) Cons
    show ?thesis by (simp add: loop_run_def)
  qed
qed

section \<open>What the caller is told\<close>

text \<open>A file that could be opened, is regular and was read, with a pattern in it or without.\<close>

fun infected :: "database \<Rightarrow> scan_file \<Rightarrow> bool" where
  "infected db (OpenFile (Inr True) chunks None) \<longleftrightarrow> (\<exists>p \<in> set (patterns db). sublist p (stream_content chunks))"
| "infected db _ \<longleftrightarrow> False"

fun clean :: "database \<Rightarrow> scan_file \<Rightarrow> bool" where
  "clean db (OpenFile (Inr True) chunks None) \<longleftrightarrow>
     stream_end chunks = NotFound \<and> \<not> (\<exists>p \<in> set (patterns db). sublist p (stream_content chunks))"
| "clean db _ \<longleftrightarrow> False"

lemma mget_pair: "k \<in> set ks \<Longrightarrow> mget (map (\<lambda>k. (k, v)) ks) k = Some v"
  by (induction ks) auto

lemma same_answers:
  assumes "keys m = ks" "distinct ks" "\<forall>k \<in> set ks. mget m k = Some (g k)"
  shows "m = map (\<lambda>k. (k, g k)) ks"
proof -
  have "v = g k" if "(k, v) \<in> set m" for k v
  proof -
    from that have "mget m k = Some v" using assms(1,2) by (simp add: mget_set)
    with that assms(1,3) show ?thesis by force
  qed
  then have "m = map (\<lambda>(k, _). (k, g k)) m" by (intro map_idI [symmetric]) auto
  also have "\<dots> = map (\<lambda>k. (k, g k)) (keys m)" by (simp add: comp_def case_prod_beta)
  finally show ?thesis using assms(1) by simp
qed

lemma combined_verdict:
  assumes "keys (reqResults r) = ks" "distinct ks" "ks \<noteq> []" "\<forall>k \<in> set ks. mget (reqResults r) k = Some (g k)"
    and "\<And>k. mVerdict (g k) = (if infected (db k) (f k) then VerdictMalware
      else if clean (db k) (f k) then VerdictClean else VerdictError)"
  shows "\<exists>out. requestOutcome r = ScanReply out None \<and> set (keys (soResults out)) = set ks \<and>
    (soVerdict out = CombinedMalware \<longleftrightarrow> (\<exists>k \<in> set ks. infected (db k) (f k))) \<and>
    (soVerdict out = CombinedClean \<longleftrightarrow> (\<forall>k \<in> set ks. clean (db k) (f k)))"
proof -
  let ?v = "\<lambda>k. if infected (db k) (f k) then VerdictMalware
      else if clean (db k) (f k) then VerdictClean else VerdictError"
  have "Aggregate (map (mVerdict \<circ> snd) (reqResults r)) = Aggregate (map ?v ks)"
    using same_answers [OF assms(1,2,4)] by (simp add: comp_def assms(5))
  also have "\<dots> = Inr (any_malicious (?v ` set ks))"
    using assms(3) by (subst Aggregate_valid) (auto simp: validVerdict_def)
  finally have out: "requestOutcome r = ScanReply \<lparr>soRequestID = reqID r, soVerdict = any_malicious (?v ` set ks),
      soResults = reqResults r\<rparr> None"
    by (simp add: requestOutcome_def)
  have "any_malicious (?v ` set ks) = CombinedMalware \<longleftrightarrow> (\<exists>k \<in> set ks. infected (db k) (f k))"
    by (auto simp: any_malicious_def split: if_splits)
  moreover have "\<not> infected (db k) (f k)" if "clean (db k) (f k)" for k
    using that by (cases "(db k, f k)" rule: infected.cases) auto
  then have "any_malicious (?v ` set ks) = CombinedClean \<longleftrightarrow> (\<forall>k \<in> set ks. clean (db k) (f k))"
    by (auto simp: any_malicious_def image_subset_iff split: if_splits)
  ultimately show ?thesis
    unfolding out using assms(1) by (intro exI conjI) (rule refl, simp_all only: ScanOutcome.simps)
qed

lemma handleScan_verdict:
  assumes "current st = Some db" "load fs path = Inr db"
  shows "mVerdict (handleScan texts st f d m) =
    (if infected db f then VerdictMalware else if clean db f then VerdictClean else VerdictError)"
    and "mType (handleScan texts st f d m) = TypeScanResult"
    and "mRequestID (handleScan texts st f d m) = mRequestID m"
proof -
  note exact = handleScan_exact [OF assms, of texts f d m, unfolded Let_def]
  then show "mType (handleScan texts st f d m) = TypeScanResult" "mRequestID (handleScan texts st f d m) = mRequestID m"
    by blast+
  show "mVerdict (handleScan texts st f d m) =
      (if infected db f then VerdictMalware else if clean db f then VerdictClean else VerdictError)"
    using exact by (cases "(db, f)" rule: infected.cases) (auto split: if_splits sum.splits bool.splits option.splits)
qed

text \<open>
  C1. A whole scan. From any reachable state with an active worker for some scanner and room in
  their queues, the loop queues one and the same \<^verbatim>\<open>SCAN\<close> message for each active worker. When
  each worker's session has handled it, on the file as that worker found it and with its own
  signature database, and the answers arrive in any order, the caller gets exactly one reply: the
  results name the active workers, the verdict is \<^verbatim>\<open>MALWARE\<close> exactly if the content that some
  worker read contains one of its patterns, and \<^verbatim>\<open>CLEAN\<close> exactly if every worker read
  its file to the end and found none.
\<close>

theorem scan_end_to_end:
  assumes "runtime_reach s" "stopReply s = None" "ractive s \<noteq> []" "nextRequestID s < - 1"
    and "\<forall>k \<in> set (map snd (ractive s)). \<exists>w. mget (rworkers s) k = Some w \<and> length (outbound w) < outboundCap"
    and "distinct ks" "set ks = set (map snd (ractive s))"
    and "\<forall>k. current (st k) = Some (db k) \<and> load (fs k) (sig k) = Inr (db k)"
    and "u = runtime_turn kill render (ScanRuntime path c) s"
    and "msg = scanMessage (nextRequestID s + 1) path"
    and "t = loop_run kill render (map (\<lambda>k. WorkerMessage k (handleScan texts (st k) (f k) (d k) msg)) ks) u"
  shows "(\<forall>k \<in> set ks. \<exists>w. mget (rworkers u) k = Some w \<and> outbound w \<noteq> [] \<and> last (outbound w) = msg) \<and>
    (\<exists>out. sent t = sent s @ [(c, ScanReply out None)] \<and> set (keys (soResults out)) = set ks \<and>
      (soVerdict out = CombinedMalware \<longleftrightarrow> (\<exists>k \<in> set ks. infected (db k) (f k))) \<and>
      (soVerdict out = CombinedClean \<longleftrightarrow> (\<forall>k \<in> set ks. clean (db k) (f k))))"
proof -
  let ?i = "nextRequestID s + 1" and ?ks = "map snd (ractive s)"
  let ?ans = "\<lambda>k. handleScan texts (st k) (f k) (d k) msg"
  note begins = scan_begins [OF assms(1-5) refl assms(9)]
  note scan = handleScan_verdict [OF conjunct1 [OF spec [OF assms(8)]] conjunct2 [OF spec [OF assms(8)]]]
  have active: "distinct ?ks" by (rule active_workers(1) [OF runtime_reach_inv [OF assms(1)]])
  have pending: "\<forall>k \<in> set ?ks. mget (map (\<lambda>k. (k, emptyMessage)) ?ks) k =
      Some (if k \<in> set ks then emptyMessage else ?ans k)"
    unfolding assms(7) by (simp add: mget_pair del: set_map map_map)
  have nonempty: "ks \<noteq> []" "?ks \<noteq> []" and sub: "set ks \<subseteq> set ?ks" using assms(3,7) by auto
  have mine: "\<forall>k. mType (?ans k) = TypeScanResult \<and> mRequestID (?ans k) = ?i"
    using scan(2,3) assms(10) by (simp add: scanMessage_def emptyMessage_def)
  obtain r where r: "keys (reqResults r) = ?ks" "\<forall>k \<in> set ?ks. mget (reqResults r) k = Some (?ans k)"
      "sent t = sent s @ [(c, requestOutcome r)]"
    using answers_arrive [OF begins(1) _ active assms(6) sub nonempty(1) pending mine, of kill render] assms(11)
    by (auto simp: comp_def)
  obtain out where "requestOutcome r = ScanReply out None" "set (keys (soResults out)) = set ?ks"
      "soVerdict out = CombinedMalware \<longleftrightarrow> (\<exists>k \<in> set ?ks. infected (db k) (f k))"
      "soVerdict out = CombinedClean \<longleftrightarrow> (\<forall>k \<in> set ?ks. clean (db k) (f k))"
    using combined_verdict [OF r(1) active nonempty(2) r(2) scan(1)] by (elim exE conjE)
  then show ?thesis
    unfolding assms(7) using r(3) begins(2) assms(10) by (intro conjI exI [of _ out]) simp_all
qed

theorem scan_end_to_end_witness:
  "\<exists>out. sent (loop_run dkill drender [ScanRuntime ''/f'' 9,
      WorkerMessage dkey1 (handleScan dtexts (store dsession_start)
        (OpenFile (Inr True) [(''xab'', None), (''c'', Some EOF)] None) 5 (scanMessage 1 ''/f''))] version1) =
    sent version1 @ [(9, ScanReply out None)] \<and> soVerdict out = CombinedMalware"
proof -
  let ?f = "OpenFile (Inr True) [(''xab'', None), (''c'', Some EOF)] None"
  let ?db = "\<lparr>patterns = [''abc''], patternSet = [''abc''], maxPatternLength = 3\<rparr>"
  have facts: "ractive version1 \<noteq> []" "nextRequestID version1 < - 1" "set [dkey1] = set (map snd (ractive version1))"
      "scanMessage 1 ''/f'' = scanMessage (nextRequestID version1 + 1) ''/f''"
    by code_simp+
  have "map_option (\<lambda>w. length (outbound w) < outboundCap) (mget (rworkers version1) dkey1) = Some True"
    by code_simp
  then have room: "\<forall>k \<in> set (map snd (ractive version1)). \<exists>w. mget (rworkers version1) k = Some w \<and> length (outbound w) < outboundCap"
    unfolding facts(3) [symmetric] by auto
  have store: "\<forall>k::WorkerKey. current (store dsession_start) = Some ?db \<and> load demo_files ''db'' = Inr ?db"
    using demo_load by (simp, code_simp)
  have "infected ?db ?f" by (simp add: sublist_code)
  with scan_end_to_end [OF version1_facts(1,2) facts(1,2) room _ facts(3) store refl facts(4) refl,
      of dkill drender 9 dtexts "\<lambda>_. ?f" "\<lambda>_. 5"]
  show ?thesis by (auto simp: loop_run_def)
qed

end
