(* ===== verification/Provenance.thy ===== *)
theory Provenance
  imports RuntimeProps
begin

text \<open>
  Where the answers of a scan come from, for the loop of
  \<^verbatim>\<open>src/pkg/coordinator/runtime.go\<close>: an answer in an open request or in a reply was either
  delivered by the worker it is attributed to, or made up by the loop, and then its verdict
  says that the worker timed out or was not available.
\<close>

section \<open>The answers the loop knows\<close>

definition answers_in :: "runtimeState \<Rightarrow> (WorkerKey \<times> Message) set" where
  "answers_in s = {(k, m). mType m \<noteq> '''' \<and>
     ((\<exists>i r. (i, r) \<in> set (rrequests s) \<and> (k, m) \<in> set (reqResults r)) \<or>
      (\<exists>c out e. (c, ScanReply out e) \<in> set (sent s) \<and> (k, m) \<in> set (soResults out)))}"

definition made_up :: "Message \<Rightarrow> bool" where
  "made_up m \<longleftrightarrow> mVerdict m = VerdictTimeout \<or> mVerdict m = VerdictUnavailable"

text \<open>A step adds the answers \<open>S\<close> and made-up ones only.\<close>

definition tracked :: "(WorkerKey \<times> Message) set \<Rightarrow> runtimeState \<Rightarrow> runtimeState \<Rightarrow> bool" where
  "tracked S s t \<longleftrightarrow> answers_in t \<subseteq> answers_in s \<union> S \<union> {(k, m). made_up m}"

lemma tracked_refl [simp]: "tracked S s s"
  by (auto simp: tracked_def)

lemma tracked_trans: "tracked S s t \<Longrightarrow> tracked S t u \<Longrightarrow> tracked S s u"
  unfolding tracked_def by blast

lemma answers_cong:
  "set (rrequests t) = set (rrequests s) \<Longrightarrow> sent t = sent s \<Longrightarrow> answers_in t = answers_in s"
  by (simp add: answers_in_def)

lemma tracked_cong: "set (rrequests t) = set (rrequests s) \<Longrightarrow> sent t = sent s \<Longrightarrow> tracked S s t"
  using answers_cong [of t s] by (auto simp: tracked_def)

lemma tracked_send:
  assumes "\<And>out e. a = ScanReply out e \<Longrightarrow> soResults out = []"
  shows "tracked S s (send_reply c a s)"
  using assms by (fastforce simp: tracked_def answers_in_def send_reply_def)

lemma set_madjust: "(j, y) \<in> set (madjust i f m) \<Longrightarrow> \<exists>x. (j, x) \<in> set m \<and> (y = x \<or> y = f x)"
  by (auto simp: madjust_def split: if_splits)

lemma set_mput: "(j, y) \<in> set (mput i x m) \<Longrightarrow> (j = i \<and> y = x) \<or> (j, y) \<in> set m"
  by (induction m) (auto split: if_splits)

lemma set_mdel: "(j, y) \<in> set (mdel i m) \<Longrightarrow> (j, y) \<in> set m"
  by (simp add: AList.delete_eq)

lemma tracked_adjust_request:
  assumes "\<And>r k m. (k, m) \<in> set (reqResults (f r)) \<Longrightarrow> mType m \<noteq> '''' \<Longrightarrow>
     (k, m) \<in> set (reqResults r) \<or> (k, m) \<in> S \<or> made_up m"
  shows "tracked S s (adjust_request i f s)"
proof -
  have "(k, m) \<in> answers_in s \<union> S \<union> {(k, m). made_up m}" if a: "(k, m) \<in> answers_in (adjust_request i f s)" for k m
  proof -
    from a have m: "mType m \<noteq> ''''" by (simp add: answers_in_def)
    from a consider j r where "(j, r) \<in> set (madjust i f (rrequests s))" "(k, m) \<in> set (reqResults r)"
      | c out e where "(c, ScanReply out e) \<in> set (sent s)" "(k, m) \<in> set (soResults out)"
      by (auto simp: answers_in_def adjust_request_def)
    then show ?thesis
    proof cases
      case 1
      from set_madjust [OF 1(1)] obtain x where "(j, x) \<in> set (rrequests s)" "r = x \<or> r = f x" by blast
      with 1(2) m assms [of k m x] show ?thesis unfolding answers_in_def by blast
    next
      case 2
      with m show ?thesis unfolding answers_in_def by blast
    qed
  qed
  then show ?thesis by (auto simp: tracked_def)
qed

section \<open>Every handler\<close>

lemma tracked_adjust [simp]: "tracked S s (adjust_runtime k f s)"
  by (rule tracked_cong) simp_all

lemma fold_adjust_frame:
  "rrequests (fold (\<lambda>k. adjust_runtime k f) ks s) = rrequests s \<and> sent (fold (\<lambda>k. adjust_runtime k f) ks s) = sent s"
  by (induction ks arbitrary: s) simp_all

lemma requestOutcome_results:
  "requestOutcome r = ScanReply out e \<Longrightarrow> soResults out = reqResults r"
  by (auto simp: requestOutcome_def split: sum.splits)

lemma tracked_complete: "tracked S s (completeRequest i s)"
proof (cases "mget (rrequests s) i")
  case None
  then show ?thesis by (simp add: completeRequest_def)
next
  case (Some r)
  let ?s = "fold (\<lambda>k. adjust_runtime k releaseWorker) (keys (reqResults r)) s"
  have frame: "rrequests ?s = rrequests s" "sent ?s = sent s"
    using fold_adjust_frame [of releaseWorker "keys (reqResults r)" s] by simp_all
  have t: "rrequests (completeRequest i s) = mdel i (rrequests s)"
      "sent (completeRequest i s) = sent s @ [(reqReply r, requestOutcome r)]"
    using Some frame by (simp_all add: completeRequest_def Let_def send_reply_def)
  have "(i, r) \<in> set (rrequests s)" using Some by (rule map_of_SomeD)
  note r = this
  have "(k, m) \<in> answers_in s" if a: "(k, m) \<in> answers_in (completeRequest i s)" for k m
  proof -
    from a have m: "mType m \<noteq> []" by (simp add: answers_in_def)
    from a consider j q where "(j, q) \<in> set (mdel i (rrequests s))" "(k, m) \<in> set (reqResults q)"
      | c out e where "(c, ScanReply out e) \<in> set (sent s)" "(k, m) \<in> set (soResults out)"
      | out e where "requestOutcome r = ScanReply out e" "(k, m) \<in> set (soResults out)"
      by (auto simp: answers_in_def t dest: sym)
    then show ?thesis
    proof cases
      case 1
      from set_mdel [OF 1(1)] 1(2) m show ?thesis unfolding answers_in_def by blast
    next
      case 2
      with m show ?thesis unfolding answers_in_def by blast
    next
      case 3
      with r m requestOutcome_results [OF 3(1)] show ?thesis unfolding answers_in_def by auto
    qed
  qed
  then show ?thesis by (auto simp: tracked_def)
qed

lemma tracked_ready: "tracked S s (completeRequestIfReady i s)"
  by (simp add: completeRequestIfReady_def tracked_complete split: option.split)

lemma made_up_substitute:
  "v = VerdictTimeout \<or> v = VerdictUnavailable \<Longrightarrow> made_up (substitute i v e)"
  by (auto simp: made_up_def substitute_def)

lemma tracked_fill:
  assumes "v = VerdictTimeout \<or> v = VerdictUnavailable"
  shows "tracked S s (adjust_request i (fillPending (substitute j v e)) s)"
  using made_up_substitute [OF assms]
  by (intro tracked_adjust_request) (auto simp: fillPending_def mapvals_def split: if_splits)

lemma tracked_answer:
  assumes "(k, m) \<in> S \<or> made_up m \<or> mType m = ''''"
  shows "tracked S s (adjust_request i (\<lambda>r. r\<lparr>reqResults := mput k m (reqResults r)\<rparr>) s)"
  using assms by (intro tracked_adjust_request) (auto dest!: set_mput)

lemma tracked_failResult: "tracked S s (failResult k reason i s)"
proof -
  have "tracked S s (adjust_request i (\<lambda>r. r\<lparr>reqResults :=
      mput k (substitute (reqID r) VerdictUnavailable reason) (reqResults r)\<rparr>) s)"
    using made_up_substitute by (intro tracked_adjust_request) (auto dest!: set_mput)
  from tracked_trans [OF this tracked_ready] show ?thesis
    by (simp add: failResult_def split: option.split)
qed

lemma tracked_fold: "(\<And>x t. tracked S t (f x t)) \<Longrightarrow> tracked S s (fold f xs s)"
  by (induction xs arbitrary: s) (auto intro: tracked_trans)

lemma tracked_take_reply:
  assumes "\<And>out e. a = ScanReply out e \<Longrightarrow> soResults out = []"
  shows "tracked S s (take_reply k get clear a s)"
  using tracked_trans [OF tracked_send [of a, OF assms] tracked_adjust]
  by (simp add: take_reply_def split: option.split)

lemma tracked_answers:
  "tracked S s (answerHello k err s)" "tracked S s (answerHealth k err s)" "tracked S s (answerReload k out err s)"
  unfolding answerHello_def answerHealth_def answerReload_def by (rule tracked_take_reply; simp)+

lemma tracked_failure: "tracked S s (handleWorkerFailure k reason s)"
proof (cases "mget (rworkers s) k")
  case None
  then show ?thesis by (simp add: handleWorkerFailure_def)
next
  case (Some w)
  let ?s1 = "adjust_runtime k (\<lambda>w. w\<lparr>rstate := WorkerFailed, rfailureReason := reason, killTimer := True\<rparr>) s"
  let ?s2 = "if mget (ractive ?s1) (ScannerID k) = Some k then ?s1\<lparr>ractive := mdel (ScannerID k) (ractive ?s1)\<rparr> else ?s1"
  let ?s5 = "answerReload k zeroReload (Some (WorkerDown reason)) (answerHealth k (Some (WorkerDown reason))
    (answerHello k (Some (WorkerDown reason)) ?s2))"
  have "tracked S s ?s2" by (rule tracked_cong) simp_all
  then have "tracked S s ?s5" by (meson tracked_trans tracked_answers)
  then have "tracked S s (fold (failResult k reason) (keys (rrequests ?s5)) ?s5)"
    by (rule tracked_trans) (rule tracked_fold, rule tracked_failResult)
  then show ?thesis
    by (cases "rstate w = WorkerFailed \<or> rstate w = WorkerRetired")
      (simp_all only: handleWorkerFailure_def Let_def Some option.case if_True if_False tracked_refl)
qed

lemma tracked_send_done: "tracked S s (snd p) \<Longrightarrow> tracked S s (send_done c p)"
  unfolding send_done_def by (rule tracked_trans, assumption, rule tracked_send) simp

lemma tracked_reply:
  "tracked S s (send_reply c (DoneReply e) s)" "tracked S s (send_reply c (ReloadReply out e') s)"
  "tracked S s (send_reply c (WorkersReply ws) s)" "tracked S s (send_reply c (ActiveReply w e'') s)"
  "tracked S s (send_reply c (ScanReply zeroScan e) s)"
  by (rule tracked_send; simp add: zeroScan_def)+

lemma tracked_unqueued: "tracked S s (handleWorkerFailure k reason (send_reply c (DoneReply e) (adjust_runtime k f s)))"
    "tracked S s (handleWorkerFailure k reason (send_reply c (ReloadReply out e) (adjust_runtime k f s)))"
  by (rule tracked_trans [OF tracked_trans [OF tracked_adjust] tracked_failure], rule tracked_reply)+

lemma tracked_commands:
  "tracked S s (snd (registerRuntimeWorker w ch s))" "tracked S s (beginHello txt k c s)"
  "tracked S s (beginHealth txt k c s)" "tracked S s (beginReload txt scanner path c s)"
  "tracked S s (activeWorker scanner c s)"
  by (auto simp: registerRuntimeWorker_def beginHello_def beginHealth_def beginReload_def activeWorker_def Let_def
      tracked_reply tracked_unqueued panic_def intro!: tracked_cong split: option.split prod.split)

lemma tracked_activate: "tracked S s (snd (activateRuntimeWorker k s))"
  by (auto simp: activateRuntimeWorker_def Let_def panic_def intro!: tracked_cong split: option.split)

lemma tracked_fail: "tracked S s (snd (failRuntimeWorker kill k reason s))"
  using tracked_trans [OF tracked_failure tracked_adjust]
  by (auto simp: failRuntimeWorker_def split: option.split)

lemma tracked_timeouts: "tracked S s (timeoutScan i s)" "tracked S s (cancelRequest i s)" "tracked S s (timeoutReload k s)"
proof -
  show "tracked S s (timeoutScan i s)"
    using tracked_trans [OF tracked_fill tracked_complete] by (simp add: timeoutScan_def split: option.split)
  show "tracked S s (cancelRequest i s)"
    using tracked_trans [OF tracked_fill tracked_complete] by (simp add: cancelRequest_def)
  show "tracked S s (timeoutReload k s)"
    using tracked_trans [OF tracked_answers(3) tracked_adjust] by (simp add: timeoutReload_def split: option.split)
qed

lemma tracked_open: "tracked S s (openScan path c s)"
proof -
  have "(k, m) \<in> answers_in s" if a: "(k, m) \<in> answers_in (openScan path c s)" for k m
  proof -
    from a have m: "mType m \<noteq> []" by (simp add: answers_in_def)
    from a consider i r where "(i, r) \<in> set (rrequests (openScan path c s))" "(k, m) \<in> set (reqResults r)"
      | d out e where "(d, ScanReply out e) \<in> set (sent s)" "(k, m) \<in> set (soResults out)"
      by (auto simp: answers_in_def openScan_def Let_def)
    then show ?thesis
    proof cases
      case 1
      then have "(i, r) \<in> set (rrequests s)" by (auto simp: openScan_def Let_def dest!: set_mput)
      with 1(2) m show ?thesis unfolding answers_in_def by blast
    next
      case 2
      with m show ?thesis unfolding answers_in_def by blast
    qed
  qed
  then show ?thesis by (auto simp: tracked_def)
qed

lemma tracked_assign: "tracked S s (assignScan i k s)"
  using tracked_trans [OF tracked_answer [of k emptyMessage] tracked_adjust]
  by (auto simp: assignScan_def panic_def emptyMessage_def intro: tracked_cong split: option.split)

lemma tracked_sendScan: "tracked S s (sendScan txt i path k s)"
  by (auto simp: sendScan_def panic_def tracked_failure intro: tracked_cong split: option.split prod.split)

lemma tracked_beginScan: "tracked S s (beginScan txt path c s)"
proof -
  let ?i = "nextRequestID s + 1" and ?ks = "map snd (ractive s)"
  let ?s1 = "fold (assignScan ?i) ?ks (openScan path c s)"
  let ?s2 = "adjust_request ?i (reqTimer_update (\<lambda>_. True)) ?s1"
  have "tracked S s ?s1" by (rule tracked_trans [OF tracked_open tracked_fold]) (rule tracked_assign)
  moreover have "tracked S ?s1 ?s2" by (rule tracked_adjust_request) simp
  moreover have "tracked S ?s2 (fold (sendScan txt ?i path) ?ks ?s2)" by (rule tracked_fold) (rule tracked_sendScan)
  ultimately have "tracked S s (fold (sendScan txt ?i path) ?ks ?s2)" by (blast intro: tracked_trans)
  then show ?thesis unfolding beginScan_def Let_def by (simp add: tracked_reply)
qed

lemma tracked_scan_result: "tracked {(k, m)} s (recordRuntimeScanResult k m s)"
  using tracked_trans [OF tracked_answer [of k m "{(k, m)}"] tracked_ready]
  by (simp add: recordRuntimeScanResult_def split: option.split)

lemma tracked_reload_result: "tracked S s (recordReloadResult k m s)"
  using tracked_trans [OF tracked_adjust tracked_answers(3)]
  by (auto simp: recordReloadResult_def Let_def split: option.split)

lemma tracked_message: "tracked {(k, m)} s (handleWorkerMessage txt k m s)"
  using tracked_trans [OF tracked_adjust tracked_answers(2)]
  by (simp add: handleWorkerMessage_def tracked_failure tracked_answers tracked_scan_result tracked_reload_result
      split: option.split)

lemma tracked_exit: "tracked S s (handleWorkerExit k e s)"
  using tracked_trans [OF tracked_adjust tracked_adjust] tracked_trans [OF tracked_adjust tracked_failure]
  by (auto simp: handleWorkerExit_def Let_def split: option.split)

lemma tracked_shutdown: "tracked S s (beginShutdown s)"
proof -
  let ?s = "fold cancelRequest (keys (rrequests s)) s"
  have "tracked S s ?s" by (rule tracked_fold) (rule tracked_timeouts)
  moreover have "tracked S ?s (beginShutdown s)" unfolding beginShutdown_def Let_def by (rule tracked_cong) simp_all
  ultimately show ?thesis by (rule tracked_trans)
qed

section \<open>Turns and runs\<close>

definition brings :: "event \<Rightarrow> (WorkerKey \<times> Message) set" where
  "brings e = (case e of WorkerMessage k m \<Rightarrow> {(k, m)} | _ \<Rightarrow> {})"

lemma tracked_handle: "tracked (brings e) s (handle kill txt e s)"
proof (cases e)
  case (ShutdownRuntime c)
  have "tracked S s (s\<lparr>stopReply := Some c\<rparr>)" for S by (rule tracked_cong) simp_all
  from tracked_trans [OF this tracked_shutdown] ShutdownRuntime show ?thesis by simp
qed (simp_all add: brings_def tracked_send_done tracked_commands tracked_activate tracked_fail tracked_message
    tracked_failure tracked_exit tracked_beginScan tracked_timeouts tracked_reply)

lemma tracked_stop_check: "tracked S s (stop_check kill s)"
proof -
  have "tracked S s (send_reply c (DoneReply None) s)" for c by (rule tracked_reply)
  moreover have "tracked S t (cleanup kill (t\<lparr>status := x\<rparr>))" for t x by (rule tracked_cong) (simp_all add: cleanup_def)
  ultimately show ?thesis by (auto simp: stop_check_def intro: tracked_trans split: option.split)
qed

lemma tracked_turn: "tracked (brings e) s (runtime_turn kill txt e s)"
proof (cases "runtime_turn kill txt e s = stop_check kill (handle kill txt e s)")
  case True
  then show ?thesis by (simp only: tracked_trans [OF tracked_handle tracked_stop_check])
next
  case False
  then obtain c x where "e = ShutdownRuntime c" "stopReply s = Some x"
    by (auto simp: runtime_turn_def simp del: handle.simps split: event.splits option.splits)
  then show ?thesis by (simp add: runtime_turn_def tracked_reply)
qed

text \<open>The order in which Go ranges over the maps does not matter.\<close>

lemma answers_all2:
  assumes "list_all2 (\<lambda>(i, r) (j, r'). i = j \<and> same_request r r') rs rs'"
  shows "(\<exists>q \<in> set rs'. p \<in> set (reqResults (snd q))) \<longleftrightarrow> (\<exists>q \<in> set rs. p \<in> set (reqResults (snd q)))"
  using assms
proof (induction rule: list_all2_induct)
  case Nil
  then show ?case by simp
next
  case (Cons q rs q' rs')
  then show ?case by (cases q; cases q') (auto simp: same_request_set)
qed

lemma answers_same:
  assumes "same_runtime s s'"
  shows "answers_in s' = answers_in s"
proof -
  from assms have "same_requests (rrequests s) (rrequests s')" and s': "s' = s\<lparr>rworkers := rworkers s',
      ractive := ractive s', rrequests := rrequests s'\<rparr>" by (simp_all add: same_runtime_def)
  then obtain rs where rs: "same_map (rrequests s) rs"
      "list_all2 (\<lambda>(i, r) (j, r'). i = j \<and> same_request r r') rs (rrequests s')"
    by (auto simp: same_requests_def)
  have "sent s' = sent s" by (subst s') simp
  moreover have "(\<exists>i r. (i, r) \<in> set q \<and> p \<in> set (reqResults r)) \<longleftrightarrow> (\<exists>x \<in> set q. p \<in> set (reqResults (snd x)))"
    for q :: "(u64, runtimeRequest) gomap" and p by force
  ultimately show ?thesis
    unfolding answers_in_def using answers_all2 [OF rs(2)] same_map_set [OF rs(1)] by simp
qed

definition brought :: "label list \<Rightarrow> (WorkerKey \<times> Message) set" where
  "brought ls = {(k, m). Turn (WorkerMessage k m) \<in> set ls}"

lemma brings_delivered: "brings e \<subseteq> brought (Turn e # ls)"
  by (auto simp: brings_def brought_def split: event.splits)

lemma delivered_Cons: "brought ls \<subseteq> brought (l # ls)"
  by (auto simp: brought_def)

lemma tracked_mono: "tracked S s t \<Longrightarrow> S \<subseteq> T \<Longrightarrow> tracked T s t"
  unfolding tracked_def by blast

lemma tracked_trans_label:
  assumes "runtime_trans s l t"
  shows "tracked (brought (l # ls)) s t"
  using assms
proof cases
  case (turn s' e kill render)
  from tracked_mono [OF tracked_turn brings_delivered] have "tracked (brought (l # ls)) s' t"
    unfolding turn(1) turn(5) .
  then show ?thesis using answers_same [OF turn(3)] by (simp add: tracked_def)
next
  case (cancelled kill)
  then show ?thesis by (auto simp: cleanup_def intro: tracked_cong)
qed auto

lemma tracked_runs: "runtime_runs s ls t \<Longrightarrow> tracked (brought ls) s t"
proof (induction rule: runs.induct)
  case (run_nil s)
  show ?case by simp
next
  case (run_cons s l t ls u)
  from tracked_trans [OF tracked_trans_label [OF run_cons.hyps(1)] tracked_mono [OF run_cons.IH delivered_Cons]]
  show ?case .
qed

section \<open>Verdicts come from workers\<close>

text \<open>
  C2. The core invents no verdict. Over every run from the start, each answer in the outcome of a
  scan was delivered by the very worker it is listed for, or is one the core fills in, which says
  that the worker timed out or was not available. So a scan that reports \<^verbatim>\<open>MALWARE\<close> goes back to
  a \<^verbatim>\<open>SCAN_RESULT\<close> with this verdict for this request from one of its workers, and one that
  reports \<^verbatim>\<open>CLEAN\<close> to such a message with the verdict \<^verbatim>\<open>CLEAN\<close> from every one of them.
\<close>

theorem verdicts_delivered:
  assumes "runtime_runs initialRuntime ls t" "(c, ScanReply out None) \<in> set (sent t)"
  shows "(\<forall>(k, m) \<in> set (soResults out). Turn (WorkerMessage k m) \<in> set ls \<or>
      mVerdict m = VerdictTimeout \<or> mVerdict m = VerdictUnavailable) \<and>
    (soVerdict out = CombinedMalware \<longrightarrow> (\<exists>k m. Turn (WorkerMessage k m) \<in> set ls \<and> (k, m) \<in> set (soResults out) \<and>
      mType m = TypeScanResult \<and> mRequestID m = soRequestID out \<and> mVerdict m = VerdictMalware)) \<and>
    (soVerdict out = CombinedClean \<longrightarrow> soResults out \<noteq> [] \<and>
      (\<forall>(k, m) \<in> set (soResults out). Turn (WorkerMessage k m) \<in> set ls \<and>
        mType m = TypeScanResult \<and> mRequestID m = soRequestID out \<and> mVerdict m = VerdictClean))"
proof -
  have "runtime_reach t" by (rule reach_runs [OF assms(1) runtime_start])
  from rt_invD(6) [OF runtime_reach_inv [OF this]] assms(2) have "reply_ok (ScanReply out None)"
    unfolding replies_ok_def by force
  then have ok: "soResults out \<noteq> []" "\<forall>(k, m) \<in> set (soResults out). mType m = TypeScanResult \<and> mRequestID m = soRequestID out"
      "soVerdict out = any_malicious (mVerdict ` snd ` set (soResults out))"
    by (auto simp: reply_ok_def valid_result_def)
  have "answers_in initialRuntime = {}" by (simp add: answers_in_def initialRuntime_def)
  with tracked_runs [OF assms(1)] have "answers_in t \<subseteq> brought ls \<union> {(k, m). made_up m}" by (simp add: tracked_def)
  moreover have "(k, m) \<in> answers_in t" if "(k, m) \<in> set (soResults out)" for k m
  proof -
    from that ok(2) have "mType m \<noteq> []" by auto
    with that assms(2) show ?thesis unfolding answers_in_def by blast
  qed
  ultimately have from_worker: "Turn (WorkerMessage k m) \<in> set ls \<or> mVerdict m = VerdictTimeout \<or> mVerdict m = VerdictUnavailable"
    if "(k, m) \<in> set (soResults out)" for k m
    using that by (fastforce simp: brought_def made_up_def)
  have "\<exists>k m. Turn (WorkerMessage k m) \<in> set ls \<and> (k, m) \<in> set (soResults out) \<and>
      mType m = TypeScanResult \<and> mRequestID m = soRequestID out \<and> mVerdict m = VerdictMalware"
    if "soVerdict out = CombinedMalware"
  proof -
    from that ok(3) obtain k m where m: "(k, m) \<in> set (soResults out)" "mVerdict m = VerdictMalware"
      by (auto simp: any_malicious_def split: if_splits)
    from bspec [OF ok(2) m(1)] from_worker [OF m(1)] m show ?thesis by (intro exI [of _ k] exI [of _ m]) simp
  qed
  moreover have "\<forall>(k, m) \<in> set (soResults out). Turn (WorkerMessage k m) \<in> set ls \<and>
      mType m = TypeScanResult \<and> mRequestID m = soRequestID out \<and> mVerdict m = VerdictClean"
    if "soVerdict out = CombinedClean"
  proof -
    from that ok(3) have "\<forall>(k, m) \<in> set (soResults out). mVerdict m = VerdictClean"
      by (force simp: any_malicious_def split: if_splits)
    with from_worker ok(2) show ?thesis by fastforce
  qed
  ultimately show ?thesis using from_worker ok(1) by auto
qed

text \<open>The scan of \<open>devents\<close>, answered by its worker.\<close>

definition dmalware :: Message where
  "dmalware = emptyMessage\<lparr>mVersion := 1, mType := TypeScanResult, mRequestID := 1,
     mVerdict := VerdictMalware, mSignature := ''s''\<rparr>"

theorem verdicts_delivered_witness:
  "\<exists>out. (6, ScanReply out None) \<in> set (sent (rt_exec dkill drender (devents @ [WorkerMessage dkey1 dmalware]) initialRuntime)) \<and>
     (\<forall>(k, m) \<in> set (soResults out). Turn (WorkerMessage k m) \<in> set (map Turn (devents @ [WorkerMessage dkey1 dmalware])) \<or>
        mVerdict m = VerdictTimeout \<or> mVerdict m = VerdictUnavailable)"
proof -
  let ?es = "devents @ [WorkerMessage dkey1 dmalware]"
  have "rt_ok dkill drender ?es initialRuntime" by code_simp
  note run = rt_exec_runs [OF this]
  let ?out = "\<lparr>soRequestID = 1, soVerdict = CombinedMalware, soResults = [(dkey1, dmalware)]\<rparr>"
  have "last (sent (rt_exec dkill drender ?es initialRuntime)) = (6, ScanReply ?out None)"
      "sent (rt_exec dkill drender ?es initialRuntime) \<noteq> []" by code_simp+
  then have sent: "(6, ScanReply ?out None) \<in> set (sent (rt_exec dkill drender ?es initialRuntime))"
    by (metis last_in_set)
  from conjunct1 [OF verdicts_delivered [OF run sent]] sent show ?thesis by blast
qed

end
