(* ===== verification/Cli.thy ===== *)
theory Cli
  imports Flags
begin

text \<open>
  The command line, \<^verbatim>\<open>src/cmd/miniav/cli.go\<close>: an invocation either serves a
  configuration or is a request to a running core. Serving, sending the request and the error
  texts are parameters.
\<close>

section \<open>Invocations\<close>

record commandRequest =
  Command :: string
  Args :: "string list"

record commandResponse =
  Success :: bool
  Output :: string
  Error :: string
  Shutdown :: bool

record invocation =
  serveMode :: bool
  configPath :: string
  command_request :: commandRequest

definition zeroRequest :: commandRequest where
  "zeroRequest = \<lparr>Command = '''', Args = []\<rparr>"

definition zeroResponse :: commandResponse where
  "zeroResponse = \<lparr>Success = False, Output = '''', Error = '''', Shutdown = False\<rparr>"

datatype cli_error =
    CommandRequired
  | FlagsRejected flag_error
  | NoPositional string
  | FlagRequired string string string
  | ScanWantsOnePath
  | ScanWantsPath
  | StatusWantsNothing
  | ReloadWantsTwo
  | ReloadWantsBoth
  | ShutdownWantsNothing
  | UnknownCommand string

definition requestInvocation :: "string \<Rightarrow> string list \<Rightarrow> invocation" where
  "requestInvocation command args =
     \<lparr>serveMode = False, configPath = '''', command_request = \<lparr>Command = command, Args = args\<rparr>\<rparr>"

text \<open>A command with one string flag that must not be blank and no positional argument.\<close>

definition requiredFlag :: "string list \<Rightarrow> string \<Rightarrow> string \<Rightarrow> cli_error + string" where
  "requiredFlag args name command =
     (case Parse [(name, FString '''')] args of
        Inl e \<Rightarrow> Inl (FlagsRejected e)
      | Inr (fl, rest) \<Rightarrow>
          let flag = (case map_of fl name of Some (FString s) \<Rightarrow> s | _ \<Rightarrow> '''') in
          if rest \<noteq> [] then Inl (NoPositional command)
          else if blank flag then
            Inl (FlagRequired command name
              (if command = ''update'' \<and> name = ''manifest'' then ''source'' else ''path''))
          else Inr flag)"

definition parseInvocation :: "string list \<Rightarrow> cli_error + invocation" where
  "parseInvocation args =
     (case args of [] \<Rightarrow> Inl CommandRequired | command # rest \<Rightarrow>
      if command = ''serve'' then
        (case requiredFlag rest ''config'' ''serve'' of
           Inl e \<Rightarrow> Inl e
         | Inr path \<Rightarrow> Inr \<lparr>serveMode = True, configPath = path, command_request = zeroRequest\<rparr>)
      else if command = ''scan'' then
        (case rest of
           [path] \<Rightarrow> if blank path then Inl ScanWantsPath else Inr (requestInvocation ''scan'' [path])
         | _ \<Rightarrow> Inl ScanWantsOnePath)
      else if command = ''status'' then
        if rest \<noteq> [] then Inl StatusWantsNothing else Inr (requestInvocation ''status'' [])
      else if command = ''reload'' then
        (case rest of
           [scanner, path] \<Rightarrow>
             if blank scanner \<or> blank path then Inl ReloadWantsBoth
             else Inr (requestInvocation ''reload'' [scanner, path])
         | _ \<Rightarrow> Inl ReloadWantsTwo)
      else if command = ''update'' then
        (case requiredFlag rest ''manifest'' ''update'' of
           Inl e \<Rightarrow> Inl e
         | Inr source \<Rightarrow> Inr (requestInvocation ''update'' [source]))
      else if command = ''shutdown'' then
        if rest \<noteq> [] then Inl ShutdownWantsNothing else Inr (requestInvocation ''shutdown'' [])
      else Inl (UnknownCommand command))"

section \<open>Running\<close>

text \<open>The exit code, the standard output and the standard error.\<close>

definition cli_run ::
  "(cli_error \<Rightarrow> string) \<Rightarrow> (string \<Rightarrow> string option) \<Rightarrow> (commandRequest \<Rightarrow> string + commandResponse) \<Rightarrow>
     string list \<Rightarrow> int \<times> string \<times> string" where
  "cli_run txt serve request args =
     (case parseInvocation args of
        Inl e \<Rightarrow> (2, '''', txt e @ [newline])
      | Inr i \<Rightarrow>
          if serveMode i then
            (case serve (configPath i) of Some e \<Rightarrow> (1, '''', e @ [newline]) | None \<Rightarrow> (0, '''', ''''))
          else
            (case request (command_request i) of
               Inl e \<Rightarrow> (1, '''', e @ [newline])
             | Inr response \<Rightarrow>
                 if \<not> Success response then
                   (1, '''', (if Error response = '''' then ''core returned an unsuccessful response''
                            else Error response) @ [newline])
                 else if Output response \<noteq> '''' then (0, Output response @ [newline], '''')
                 else (0, '''', '''')))"

text \<open>\<^verbatim>\<open>main\<close> prints the usage behind a usage error and exits with the code.\<close>

definition miniav_main ::
  "string \<Rightarrow> (cli_error \<Rightarrow> string) \<Rightarrow> (string \<Rightarrow> string option) \<Rightarrow>
     (commandRequest \<Rightarrow> string + commandResponse) \<Rightarrow> string list \<Rightarrow> int \<times> string \<times> string" where
  "miniav_main usage txt serve request args =
     (let (code, out, err) = cli_run txt serve request args
      in (code, out, if code = 2 then err @ usage else err))"

section \<open>What the core accepts\<close>

datatype request_error =
    UnknownRequest string
  | WrongArguments string nat nat
  | EmptyArgument string

definition wantedArguments :: "(string \<times> nat) list" where
  "wantedArguments = [(''scan'', 1), (''status'', 0), (''reload'', 2), (''update'', 1), (''shutdown'', 0)]"

definition validateCommandRequest :: "commandRequest \<Rightarrow> request_error option" where
  "validateCommandRequest r =
     (case map_of wantedArguments (Command r) of
        None \<Rightarrow> Some (UnknownRequest (Command r))
      | Some wanted \<Rightarrow>
          if length (Args r) \<noteq> wanted then Some (WrongArguments (Command r) (length (Args r)) wanted)
          else if list_ex blank (Args r) then Some (EmptyArgument (Command r))
          else None)"

section \<open>Lemmas\<close>

lemma requiredFlag_not_blank: "requiredFlag args name command = Inr s \<Longrightarrow> \<not> blank s"
  by (auto simp: requiredFlag_def Let_def split: sum.splits if_splits)

lemma requiredFlag_named:
  assumes "flag_name name" "\<not> blank s"
  shows "requiredFlag [CHR ''-'' # CHR ''-'' # name, s] name command = Inr s"
proof -
  have "parseOne [(name, FString '''')] [CHR ''-'' # CHR ''-'' # name, s] =
      Go_on (set_flag name (FString s) [(name, FString '''')]) []"
    unfolding parseOne_name(2) [OF assms(1)]
    by (rule parseNamed_value [where f = "FString ''''"]) simp_all
  then have "Parse [(name, FString '''')] [CHR ''-'' # CHR ''-'' # name, s] =
      Inr ([(name, FString s)], [])"
    by (simp add: Parse_Go_on Parse_Nil set_flag_def)
  with assms(2) show ?thesis by (simp add: requiredFlag_def)
qed

lemma flag_name_manifest: "flag_name ''manifest''" "flag_name ''config''"
  by (simp_all add: flag_name_def)

text \<open>The requests that pass the core's check.\<close>

lemma validateCommandRequest_cases:
  assumes "validateCommandRequest r = None"
  obtains (scan) path where "r = \<lparr>Command = ''scan'', Args = [path]\<rparr>" "\<not> blank path"
  | (status) "r = \<lparr>Command = ''status'', Args = []\<rparr>"
  | (reload) scanner path where "r = \<lparr>Command = ''reload'', Args = [scanner, path]\<rparr>"
      "\<not> blank scanner" "\<not> blank path"
  | (update) source where "r = \<lparr>Command = ''update'', Args = [source]\<rparr>" "\<not> blank source"
  | (shutdown) "r = \<lparr>Command = ''shutdown'', Args = []\<rparr>"
proof -
  obtain n where n: "map_of wantedArguments (Command r) = Some n" "length (Args r) = n"
    "\<not> list_ex blank (Args r)"
    using assms by (auto simp: validateCommandRequest_def split: option.splits if_splits)
  from n(1) have "(Command r, n) \<in> set wantedArguments" by (rule map_of_SomeD)
  then consider "Command r = ''scan'' \<and> n = 1" | "Command r = ''status'' \<and> n = 0"
    | "Command r = ''reload'' \<and> n = 2" | "Command r = ''update'' \<and> n = 1"
    | "Command r = ''shutdown'' \<and> n = 0"
    by (auto simp: wantedArguments_def)
  then show ?thesis
  proof cases
    case 1
    with n obtain p where "Args r = [p]" by (auto simp: length_Suc_conv)
    with 1 n(3) show ?thesis by (intro scan [of p]) simp_all
  next
    case 2
    with n show ?thesis by (intro status) simp_all
  next
    case 3
    with n obtain p q where "Args r = [p, q]" by (auto simp: length_Suc_conv numeral_2_eq_2)
    with 3 n(3) show ?thesis by (intro reload [of p q]) simp_all
  next
    case 4
    with n obtain p where "Args r = [p]" by (auto simp: length_Suc_conv)
    with 4 n(3) show ?thesis by (intro update [of p]) simp_all
  next
    case 5
    with n show ?thesis by (intro shutdown) simp_all
  qed
qed

text \<open>What parsing can have let through.\<close>

lemma parseInvocation_cases:
  assumes "parseInvocation args = Inr i"
  obtains (serve) path where "i = \<lparr>serveMode = True, configPath = path, command_request = zeroRequest\<rparr>"
      "\<not> blank path"
  | (scan) path where "i = requestInvocation ''scan'' [path]" "\<not> blank path"
  | (status) "i = requestInvocation ''status'' []"
  | (reload) scanner path where "i = requestInvocation ''reload'' [scanner, path]"
      "\<not> blank scanner" "\<not> blank path"
  | (update) source where "i = requestInvocation ''update'' [source]" "\<not> blank source"
  | (shutdown) "i = requestInvocation ''shutdown'' []"
proof -
  obtain command rest where args: "args = command # rest"
    using assms by (cases args) (simp_all add: parseInvocation_def)
  note parsed = assms [unfolded args parseInvocation_def list.case]
  consider "command = ''serve''" | "command = ''scan''" | "command = ''status''" | "command = ''reload''"
    | "command = ''update''" | "command = ''shutdown''"
    using parsed by (simp split: if_split_asm)
  then show ?thesis
  proof cases
    case 1
    with parsed obtain path where p: "requiredFlag rest ''config'' ''serve'' = Inr path"
      by (simp split: sum.split_asm)
    with parsed 1 show ?thesis using requiredFlag_not_blank [OF p] by (intro serve [of path]) simp_all
  next
    case 2
    with parsed obtain path where "rest = [path]" by (simp split: list.split_asm)
    with parsed 2 show ?thesis by (intro scan [of path]) (simp_all split: if_split_asm)
  next
    case 3
    with parsed show ?thesis by (intro status) (simp split: if_split_asm)
  next
    case 4
    with parsed obtain scanner path where "rest = [scanner, path]" by (simp split: list.split_asm)
    with parsed 4 show ?thesis by (intro reload [of scanner path]) (simp_all split: if_split_asm)
  next
    case 5
    with parsed obtain source where p: "requiredFlag rest ''manifest'' ''update'' = Inr source"
      by (simp split: sum.split_asm)
    with parsed 5 show ?thesis using requiredFlag_not_blank [OF p] by (intro update [of source]) simp_all
  next
    case 6
    with parsed show ?thesis by (intro shutdown) (simp split: if_split_asm)
  qed
qed

lemma parse_valid:
  assumes "parseInvocation args = Inr i"
  shows "if serveMode i then \<not> blank (configPath i) else validateCommandRequest (command_request i) = None"
  using assms
  by (cases rule: parseInvocation_cases)
    (simp_all add: requestInvocation_def validateCommandRequest_def wantedArguments_def)

text \<open>Each of these requests can be given on the command line.\<close>

lemma valid_given:
  assumes "validateCommandRequest r = None"
  shows "\<exists>args i. parseInvocation args = Inr i \<and> \<not> serveMode i \<and> command_request i = r"
  using assms
proof (cases rule: validateCommandRequest_cases)
  case (scan path)
  then have "parseInvocation [''scan'', path] = Inr (requestInvocation ''scan'' [path])"
    by (simp add: parseInvocation_def)
  with scan show ?thesis
    by (intro exI [of _ "[''scan'', path]"] exI [of _ "requestInvocation ''scan'' [path]"])
      (simp add: requestInvocation_def)
next
  case status
  have "parseInvocation [''status''] = Inr (requestInvocation ''status'' [])"
    by (simp add: parseInvocation_def)
  with status show ?thesis
    by (intro exI [of _ "[''status'']"] exI [of _ "requestInvocation ''status'' []"])
      (simp add: requestInvocation_def)
next
  case (reload scanner path)
  then have "parseInvocation [''reload'', scanner, path] = Inr (requestInvocation ''reload'' [scanner, path])"
    by (simp add: parseInvocation_def)
  with reload show ?thesis
    by (intro exI [of _ "[''reload'', scanner, path]"]
        exI [of _ "requestInvocation ''reload'' [scanner, path]"])
      (simp add: requestInvocation_def)
next
  case (update source)
  have "requiredFlag [''--manifest'', source] ''manifest'' ''update'' = Inr source"
    using requiredFlag_named [OF flag_name_manifest(1) update(2)] by simp
  then have "parseInvocation [''update'', ''--manifest'', source] = Inr (requestInvocation ''update'' [source])"
    by (simp add: parseInvocation_def)
  with update show ?thesis
    by (intro exI [of _ "[''update'', ''--manifest'', source]"]
        exI [of _ "requestInvocation ''update'' [source]"])
      (simp add: requestInvocation_def)
next
  case shutdown
  have "parseInvocation [''shutdown''] = Inr (requestInvocation ''shutdown'' [])"
    by (simp add: parseInvocation_def)
  with shutdown show ?thesis
    by (intro exI [of _ "[''shutdown'']"] exI [of _ "requestInvocation ''shutdown'' []"])
      (simp add: requestInvocation_def)
qed

section \<open>Properties\<close>

text \<open>
  C40. The command line sends exactly what the core accepts: every request that parsing lets
  through passes the core's validation, and every request that passes it can be given on the
  command line.
\<close>

theorem parseInvocation_exact:
  "validateCommandRequest r = None \<longleftrightarrow>
     (\<exists>args i. parseInvocation args = Inr i \<and> \<not> serveMode i \<and> command_request i = r)"
proof
  assume "validateCommandRequest r = None"
  then show "\<exists>args i. parseInvocation args = Inr i \<and> \<not> serveMode i \<and> command_request i = r"
    by (rule valid_given)
next
  assume "\<exists>args i. parseInvocation args = Inr i \<and> \<not> serveMode i \<and> command_request i = r"
  then obtain args i where "parseInvocation args = Inr i" "\<not> serveMode i" "command_request i = r"
    by (elim exE conjE)
  then show "validateCommandRequest r = None" using parse_valid [of args i] by simp
qed

end
