(* ===== verification/Control.thy ===== *)
theory Control
  imports Cli Launch Update
begin

text \<open>
  The control transport, \<^verbatim>\<open>src/cmd/miniav/transport.go\<close>: a client sends one request as a
  line of JSON to the core's loopback listener and reads one line back; the core decodes and
  checks the request, calls the runtime or the update manager, and answers. What those calls
  return, the network and the texts of errors are parameters.
\<close>

section \<open>Requests and responses on the wire\<close>

definition store_strings :: "((string list \<Rightarrow> string list) \<Rightarrow> 'a \<Rightarrow> 'a) \<Rightarrow> 'a setter" where
  "store_strings upd v x =
     (if v = JNull then Some (upd (\<lambda>_. []) x) else map_option (\<lambda>ss. upd (\<lambda>_. ss) x) (read_strings v))"

definition requestFields :: "(string \<times> commandRequest setter) list" where
  "requestFields =
     [(''command'', store_string Command_update),
      (''args'', store_strings Args_update)]"

definition responseFields :: "(string \<times> commandResponse setter) list" where
  "responseFields =
     [(''success'', store_bool Success_update),
      (''output'', store_string Output_update),
      (''error'', store_string Error_update),
      (''shutdown'', store_bool Cli.Shutdown_update)]"

definition request_json :: "commandRequest \<Rightarrow> json" where
  "request_json r = JObj
     ((''command'', JStr (Command r)) #
      (if Args r = [] then [] else [(''args'', JArr (map JStr (Args r)))]))"

definition response_json :: "commandResponse \<Rightarrow> json" where
  "response_json r = JObj
     ((''success'', JBool (Success r)) #
      omit_string ''output'' (Output r) @
      omit_string ''error'' (Error r) @
      (if Cli.Shutdown r then [(''shutdown'', JBool True)] else []))"

abbreviation maxFrameSize :: nat where
  "maxFrameSize \<equiv> 64 * 1024"

datatype frame_error = FrameTooBig | FrameNotTerminated | FrameFailed string

definition readFrame :: "reader \<Rightarrow> frame_error + bytes" where
  "readFrame rs =
     (case readLine maxFrameSize rs of
        Inl LineTooLong \<Rightarrow> Inl FrameTooBig
      | Inl (LineFailed EOF) \<Rightarrow> Inl FrameNotTerminated
      | Inl (LineFailed (ReadError e)) \<Rightarrow> Inl (FrameFailed e)
      | Inr frame \<Rightarrow> Inr frame)"

definition writeResponse :: "writer \<Rightarrow> commandResponse \<Rightarrow> string option \<times> bytes" where
  "writeResponse w r = encodeLine w (response_json r)"

section \<open>The client\<close>

datatype send_error =
    CannotConnect string
  | DeadlineNotSet string
  | RequestNotSent string
  | ResponseNotRead frame_error
  | ResponseNotDecoded

text \<open>\<^verbatim>\<open>json.Unmarshal\<close> into a struct: members without a field are skipped.\<close>

definition decodeLenient :: "(string \<times> 'a setter) list \<Rightarrow> 'a \<Rightarrow> bytes \<Rightarrow> 'a option" where
  "decodeLenient table zero frame =
     (case single_value frame of
        Some (JObj ms) \<Rightarrow> store_members table (filter (\<lambda>(name, _). find_field table name \<noteq> None) ms) zero
      | Some JNull \<Rightarrow> Some zero
      | _ \<Rightarrow> None)"

text \<open>What the client gets, and the bytes it has sent.\<close>

definition sendCommand ::
  "string option \<Rightarrow> string option \<Rightarrow> writer \<Rightarrow> reader \<Rightarrow> commandRequest \<Rightarrow> (send_error + commandResponse) \<times> bytes" where
  "sendCommand dialed deadline w rs req =
     (case dialed of Some e \<Rightarrow> (Inl (CannotConnect e), []) | None \<Rightarrow>
     (case deadline of Some e \<Rightarrow> (Inl (DeadlineNotSet e), []) | None \<Rightarrow>
     (case encodeLine w (request_json req) of
        (Some e, out) \<Rightarrow> (Inl (RequestNotSent e), out)
      | (None, out) \<Rightarrow>
          (case readFrame rs of Inl e \<Rightarrow> Inl (ResponseNotRead e) | Inr frame \<Rightarrow>
           (case decodeLenient responseFields zeroResponse frame of
              None \<Rightarrow> Inl ResponseNotDecoded
            | Some response \<Rightarrow> Inr response), out))))"

section \<open>Dispatching a request\<close>

text \<open>What the runtime and the update manager answer.\<close>

record core =
  onSnapshot :: "call_error + WorkerSnapshot list"
  onShutdown :: "call_error option"
  onScan :: "string \<Rightarrow> ScanOutcome \<times> call_error option"
  onReload :: "string \<Rightarrow> string \<Rightarrow> ReloadOutcome \<times> call_error option"
  onPrepare :: "string \<Rightarrow> string \<Rightarrow> update_error + PreparedRelease"
  onActiveWorker :: "string \<Rightarrow> Worker \<times> call_error option"
  onStartWorker :: "Worker \<Rightarrow> start_error option"

datatype core_call =
    CallSnapshot
  | CallShutdown
  | CallScan string
  | CallReload string string
  | CallPrepare string string
  | CallActiveWorker string
  | CallStartWorker Worker

text \<open>The texts of the errors.\<close>

record error_texts =
  request_text :: "request_error \<Rightarrow> string"
  call_text :: "call_error \<Rightarrow> string"
  update_text :: "update_error \<Rightarrow> string"
  start_text :: "start_error \<Rightarrow> string"
  frame_text :: "frame_error \<Rightarrow> string"
  decode_text :: "bytes \<Rightarrow> string"

primrec state_name :: "WorkerState \<Rightarrow> string" where
  "state_name WorkerStarting = ''STARTING''"
| "state_name WorkerHealthy = ''HEALTHY''"
| "state_name WorkerActive = ''ACTIVE''"
| "state_name WorkerDraining = ''DRAINING''"
| "state_name WorkerRetired = ''RETIRED''"
| "state_name WorkerFailed = ''FAILED''"

definition failure :: "string \<Rightarrow> commandResponse" where
  "failure e = zeroResponse\<lparr>Error := e\<rparr>"

definition succeed :: "string \<Rightarrow> commandResponse" where
  "succeed s = zeroResponse\<lparr>Success := True, Output := s\<rparr>"

definition status_line :: "WorkerSnapshot \<Rightarrow> string" where
  "status_line w =
     key_string (sKey w) @ '' pid='' @ dec_int (sPID w) @ '' transport='' @ sTransport w @
     '' state='' @ state_name (sState w) @
     (if sFailureReason w \<noteq> '''' then '' reason='' @ sFailureReason w else '''')"

definition status_output :: "WorkerSnapshot list \<Rightarrow> string" where
  "status_output ws =
     join_lines ([''core: running'', ''workers: '' @ dec_nat (length ws)] @ map status_line ws)"

definition scan_line :: "WorkerKey \<Rightarrow> Message \<Rightarrow> string" where
  "scan_line k m =
     key_string k @ '': '' @ mVerdict m @ (if mSignature m \<noteq> '''' then '' signature='' @ mSignature m else '''')"

definition scan_output :: "ScanOutcome \<Rightarrow> string" where
  "scan_output r =
     join_lines ([''verdict: '' @ soVerdict r, ''request_id: '' @ dec_nat (unat (soRequestID r))] @
       map (\<lambda>k. scan_line k (the (mget (soResults r) k))) (sort_key key_string (keys (soResults r))))"

definition reload_output :: "ReloadOutcome \<Rightarrow> string" where
  "reload_output r =
     ''reloaded '' @ roScannerID r @ ''@'' @ roWorkerVersion r @ '' signatures='' @
       dec_int (sint (roSignatureCount r))"

definition resolveControlPath :: "string \<Rightarrow> string \<Rightarrow> string" where
  "resolveControlPath base path = (if IsAbs path then path else Join [base, path])"

definition updateCandidate :: "PreparedRelease \<Rightarrow> Worker \<Rightarrow> Worker" where
  "updateCandidate prepared active =
     zeroWorker\<lparr>cScannerID := mfScannerID (relManifest prepared),
       cWorkerVersion := mfWorkerVersion (relManifest prepared), cTransport := cTransport active,
       cExecutable := relStagedPath prepared, cSignaturePath := cSignaturePath active\<rparr>"

text \<open>
  The response and the calls that were made, in their order; \<^term>\<open>None\<close> stands for the
  panic of an index out of range.
\<close>

definition argument :: "commandRequest \<Rightarrow> nat \<Rightarrow> string option" where
  "argument r i = (if i < length (Args r) then Some (Args r ! i) else None)"

definition dispatchCommand ::
  "core \<Rightarrow> error_texts \<Rightarrow> string \<Rightarrow> commandRequest \<Rightarrow> (commandResponse \<times> core_call list) option" where
  "dispatchCommand c tx dir r =
     (case validateCommandRequest r of Some e \<Rightarrow> Some (failure (request_text tx e), []) | None \<Rightarrow>
      if Command r = ''status'' then
        Some (case onSnapshot c of
            Inl e \<Rightarrow> failure (call_text tx e)
          | Inr ws \<Rightarrow> succeed (status_output ws), [CallSnapshot])
      else if Command r = ''shutdown'' then
        Some (case onShutdown c of
            Some e \<Rightarrow> failure (call_text tx e)
          | None \<Rightarrow> (succeed ''core: stopped'')\<lparr>Cli.Shutdown := True\<rparr>, [CallShutdown])
      else if Command r = ''scan'' then
        (case argument r 0 of None \<Rightarrow> None | Some arg \<Rightarrow>
         let path = resolveControlPath dir arg in
         Some (case onScan c path of
             (_, Some e) \<Rightarrow> failure (call_text tx e)
           | (result, None) \<Rightarrow> succeed (scan_output result), [CallScan path]))
      else if Command r = ''reload'' then
        (case argument r 0 of None \<Rightarrow> None | Some scannerID \<Rightarrow>
         (case argument r 1 of None \<Rightarrow> None | Some arg \<Rightarrow>
          let path = resolveControlPath dir arg in
          Some (case onReload c scannerID path of
              (_, Some e) \<Rightarrow> failure (call_text tx e)
            | (result, None) \<Rightarrow> succeed (reload_output result), [CallReload scannerID path])))
      else if Command r = ''update'' then
        (case argument r 0 of None \<Rightarrow> None | Some src \<Rightarrow>
         (case onPrepare c dir src of
            Inl e \<Rightarrow> Some (failure (update_text tx e), [CallPrepare dir src])
          | Inr prepared \<Rightarrow>
              let scannerID = mfScannerID (relManifest prepared) in
              (case onActiveWorker c scannerID of
                 (_, Some e) \<Rightarrow>
                   Some (failure (call_text tx e), [CallPrepare dir src, CallActiveWorker scannerID])
               | (active, None) \<Rightarrow>
                   let w = updateCandidate prepared active in
                   Some (case onStartWorker c w of
                       Some e \<Rightarrow> failure (''update rolled back: '' @ start_text tx e)
                     | None \<Rightarrow> succeed (''updated '' @ cScannerID w @ '' from '' @ cWorkerVersion active @
                         '' to '' @ cWorkerVersion w),
                     [CallPrepare dir src, CallActiveWorker scannerID, CallStartWorker w]))))
      else Some (failure (request_text tx (UnknownRequest (Command r))), []))"

text \<open>
  One connection: the calls, whether the response could be written, the bytes that went out,
  and whether the listener is told to stop.
\<close>

record handled =
  calls :: "core_call list"
  write_error :: "string option"
  sent_back :: bytes
  stop_listening :: bool

definition respond_only :: "writer \<Rightarrow> commandResponse \<Rightarrow> handled" where
  "respond_only w r =
     (let (err, out) = writeResponse w r
      in \<lparr>calls = [], write_error = err, sent_back = out, stop_listening = False\<rparr>)"

definition handleConnection ::
  "core \<Rightarrow> error_texts \<Rightarrow> string \<Rightarrow> reader \<Rightarrow> writer \<Rightarrow> handled option" where
  "handleConnection c tx dir rs w =
     (case readFrame rs of
        Inl e \<Rightarrow> Some (respond_only w (failure (''read command: '' @ frame_text tx e)))
      | Inr frame \<Rightarrow>
     (case decodeStrict requestFields zeroRequest frame of
        None \<Rightarrow> Some (respond_only w (failure (''decode command: '' @ decode_text tx frame)))
      | Some req \<Rightarrow>
     (case dispatchCommand c tx dir req of None \<Rightarrow> None | Some (response, cs) \<Rightarrow>
      let (err, out) = writeResponse w response
      in Some \<lparr>calls = cs, write_error = err, sent_back = out,
           stop_listening = (err = None \<and> Cli.Shutdown response)\<rparr>)))"

section \<open>Serving\<close>

datatype core_error =
    BadCoreAddress address_error
  | NotLoaded load_config_error
  | NoRuntime string
  | WorkerNotStarted string start_error
  | CannotListen string

datatype serve_action =
    StartConfigured Worker
  | ListenOn string
  | ShutRuntimeDown i64

fun startWorkers ::
  "(Worker \<Rightarrow> start_error option) \<Rightarrow> Worker list \<Rightarrow> (Worker \<times> start_error) option \<times> serve_action list" where
  "startWorkers start [] = (None, [])"
| "startWorkers start (w # ws) =
     (case start w of
        Some e \<Rightarrow> (Some (w, e), [StartConfigured w])
      | None \<Rightarrow> apsnd (Cons (StartConfigured w)) (startWorkers start ws))"

text \<open>
  Either an error or what \<^verbatim>\<open>serveListener\<close> is called with, the directory of the
  configuration and the time a shutdown may take; and what was done before.
\<close>

definition serve ::
  "string + string \<Rightarrow> files \<Rightarrow> (Worker \<Rightarrow> start_error option) \<Rightarrow> string option \<Rightarrow> string \<Rightarrow> string \<Rightarrow>
     (core_error + string \<times> i64) \<times> serve_action list" where
  "serve cwd fs start listened address path =
     (case validateLoopbackAddress address of Some e \<Rightarrow> (Inl (BadCoreAddress e), []) | None \<Rightarrow>
     (case Load cwd fs path of Inl e \<Rightarrow> (Inl (NotLoaded e), []) | Inr loaded \<Rightarrow>
     (case NewRuntime (StartupTimeout loaded) (ConfigLoad.ScanTimeout loaded) of
        Inl e \<Rightarrow> (Inl (NoRuntime e), [])
      | Inr _ \<Rightarrow>
     (case startWorkers start (Workers loaded) of
        (Some (w, e), acts) \<Rightarrow>
          (Inl (WorkerNotStarted (cScannerID w) e), acts @ [ShutRuntimeDown (StartupTimeout loaded)])
      | (None, acts) \<Rightarrow>
     (case listened of
        Some e \<Rightarrow> (Inl (CannotListen e), acts @ [ListenOn address, ShutRuntimeDown (StartupTimeout loaded)])
      | None \<Rightarrow> (Inr (BaseDir loaded, StartupTimeout loaded), acts @ [ListenOn address]))))))"

text \<open>
  The listener: one goroutine accepts, one waits for the context, one handles each connection.
  \<open>stopped\<close> is the closed \<^verbatim>\<open>stop\<close> channel, which precedes the closing of the
  listener; \<open>accepting\<close> says that the accepting loop has not returned, \<open>outcome\<close> what it
  returns, and \<open>shut_down\<close> that the deferred function has asked the runtime to shut down.
\<close>

record listener =
  stopped :: bool
  accepting :: bool
  connections :: nat
  outcome :: "string option"
  shut_down :: bool
  returned :: bool

definition initial_listener :: listener where
  "initial_listener = \<lparr>stopped = False, accepting = True, connections = 0, outcome = None,
     shut_down = False, returned = False\<rparr>"

datatype listener_event =
    ContextDone
  | Accepted
  | AcceptError string
  | Handled bool
  | Finish bool

text \<open>\<^term>\<open>None\<close>: the step is not possible. \<open>Finish\<close> carries whether the runtime is done.\<close>

fun serveListener :: "listener_event \<Rightarrow> listener \<Rightarrow> listener option" where
  "serveListener ContextDone s = Some (s\<lparr>stopped := True\<rparr>)"
| "serveListener Accepted s = (if accepting s then Some (s\<lparr>connections := connections s + 1\<rparr>) else None)"
| "serveListener (AcceptError e) s =
     (if accepting s
      then Some (s\<lparr>accepting := False, outcome := if stopped s then None else Some e\<rparr>) else None)"
| "serveListener (Handled stop) s =
     (if connections s = 0 then None
      else Some (s\<lparr>connections := connections s - 1, stopped := stopped s \<or> stop\<rparr>))"
| "serveListener (Finish done) s =
     (if accepting s \<or> connections s \<noteq> 0 \<or> returned s then None
      else Some (s\<lparr>shut_down := \<not> done, returned := True\<rparr>))"

fun listener_run :: "listener_event list \<Rightarrow> listener \<Rightarrow> listener option" where
  "listener_run [] s = Some s"
| "listener_run (e # es) s = (case serveListener e s of None \<Rightarrow> None | Some t \<Rightarrow> listener_run es t)"

section \<open>The lines as structs\<close>

text \<open>A struct that decodes without unknown members decodes to the same when they are skipped.\<close>

lemma store_filtered:
  "store_members table ms x = Some y \<Longrightarrow>
     store_members table (filter (\<lambda>(name, _). find_field table name \<noteq> None) ms) x = Some y"
  by (induction table ms x rule: store_members.induct) (auto split: option.splits)

lemma decodeLenient_printed:
  assumes "printable v" "coerce_json v = v" "store_struct table v zero = Some m"
  shows "decodeLenient table zero (print_json v @ [newline]) = Some m"
proof -
  have "next_value (print_json v @ [newline]) = Value v [newline]"
    using next_printed_before [OF assms(1), of "[newline]"] by (simp add: stops_def assms(2))
  moreover have "next_value [newline] = EndOfInput" by code_simp
  ultimately have "single_value (print_json v @ [newline]) = Some v" by (simp add: single_value_def)
  with assms(3) store_filtered show ?thesis
    by (auto simp: decodeLenient_def store_struct_def split: json.splits)
qed

text \<open>
  A line that was written without an error arrives as the struct at both kinds of reader.
\<close>

context struct_line
begin

lemma line_arrives:
  assumes "encodeLine w (to_json m) = (None, out)" "whole_writes w" "length out \<le> maxFrameSize"
    and "steady rs" "delivered rs = (out @ rest, e)" "faithful m"
  shows "readFrame rs = Inr out" "decodeStrict table zero out = Some m" "decodeLenient table zero out = Some m"
proof -
  let ?p = "print_json (to_json m)"
  have out: "out = ?p @ [newline]" using assms(1,2) by (simp add: encodeLine_None)
  have "takeWhile (\<lambda>x. x \<noteq> newline) (?p @ newline # rest) = ?p"
    using no_newline by (simp add: takeWhile_tail) (metis takeWhile_eq_all_conv)
  then have "readLine maxFrameSize rs = Inr out"
    using assms(3,5) by (simp add: readLine_exact [OF assms(4,5)] out)
  then show "readFrame rs = Inr out" by (simp add: readFrame_def)
  show "decodeStrict table zero out = Some m" using decodes [OF assms(6), of "[]"] by (simp add: out)
  show "decodeLenient table zero out = Some m"
    unfolding out by (rule decodeLenient_printed [OF printed survives stored]) (rule assms(6))+
qed

end

lemma ascii_members:
  "ascii ''command''" "ascii ''args''" "ascii ''success''" "ascii ''output''" "ascii ''error''" "ascii ''shutdown''"
  by (simp_all add: ascii_def)

definition faithful_request :: "commandRequest \<Rightarrow> bool" where
  "faithful_request r \<longleftrightarrow> utf8_valid (Command r) \<and> list_all utf8_valid (Args r)"

definition faithful_response :: "commandResponse \<Rightarrow> bool" where
  "faithful_response r \<longleftrightarrow> utf8_valid (Output r) \<and> utf8_valid (Error r)"

interpretation request_line: struct_line request_json requestFields zeroRequest faithful_request
proof
  fix r :: commandRequest
  show "printable (request_json r)" by (simp add: request_json_def)
  assume r: "faithful_request r"
  then have "map (coerce_json \<circ> JStr) (Args r) = map JStr (Args r)"
    by (simp add: faithful_request_def list_all_iff coerce_valid)
  with r show "coerce_json (request_json r) = request_json r"
    by (simp add: request_json_def faithful_request_def coerce_ascii ascii_members coerce_valid)
  show "store_struct requestFields (request_json r) zeroRequest = Some r"
    by (simp add: store_struct_def request_json_def requestFields_def find_field_def store_string_def
        store_strings_def read_strings_def zeroRequest_def)
qed

lemma find_response:
  "find_field responseFields ''success'' = Some (store_bool Success_update)"
  "find_field responseFields ''output'' = Some (store_string Output_update)"
  "find_field responseFields ''error'' = Some (store_string Error_update)"
  "find_field responseFields ''shutdown'' = Some (store_bool Cli.Shutdown_update)"
  by (simp_all add: find_field_def responseFields_def)

interpretation response_line: struct_line response_json responseFields zeroResponse faithful_response
proof
  fix r :: commandResponse
  show "printable (response_json r)" by (simp add: response_json_def omit_string_def)
  assume r: "faithful_response r"
  then show "coerce_json (response_json r) = response_json r"
    by (simp add: response_json_def faithful_response_def omit_string_def coerce_ascii ascii_members coerce_valid)
  show "store_struct responseFields (response_json r) zeroResponse = Some r"
    by (simp add: store_struct_def response_json_def find_response store_bool_def store_append
        store_omit_string zeroResponse_def)
qed

section \<open>Calls\<close>

text \<open>A call that returned no error.\<close>

fun call_ok :: "core \<Rightarrow> core_call \<Rightarrow> bool" where
  "call_ok c CallSnapshot \<longleftrightarrow> \<not> isl (onSnapshot c)"
| "call_ok c CallShutdown \<longleftrightarrow> onShutdown c = None"
| "call_ok c (CallScan path) \<longleftrightarrow> snd (onScan c path) = None"
| "call_ok c (CallReload scannerID path) \<longleftrightarrow> snd (onReload c scannerID path) = None"
| "call_ok c (CallPrepare dir src) \<longleftrightarrow> \<not> isl (onPrepare c dir src)"
| "call_ok c (CallActiveWorker scannerID) \<longleftrightarrow> snd (onActiveWorker c scannerID) = None"
| "call_ok c (CallStartWorker w) \<longleftrightarrow> onStartWorker c w = None"

text \<open>A response says success with an output, or failure with an error text.\<close>

lemma response_fields [simp]:
  "Success (failure e) = False" "Output (failure e) = ''''" "Cli.Shutdown (failure e) = False"
  "Error (failure e) = e"
  "Success (succeed s)" "Error (succeed s) = ''''" "Cli.Shutdown (succeed s) = False" "Output (succeed s) = s"
  by (simp_all add: failure_def succeed_def zeroResponse_def)

definition update_response ::
  "core \<Rightarrow> error_texts \<Rightarrow> string \<Rightarrow> string \<Rightarrow> commandResponse \<Rightarrow> core_call list \<Rightarrow> bool" where
  "update_response c tx dir src response cs \<longleftrightarrow>
     (case onPrepare c dir src of
        Inl e \<Rightarrow> response = failure (update_text tx e) \<and> cs = [CallPrepare dir src]
      | Inr p \<Rightarrow>
          (let s = mfScannerID (relManifest p); active = fst (onActiveWorker c s); w = updateCandidate p active in
           case snd (onActiveWorker c s) of
             Some e \<Rightarrow> response = failure (call_text tx e) \<and> cs = [CallPrepare dir src, CallActiveWorker s]
           | None \<Rightarrow> cs = [CallPrepare dir src, CallActiveWorker s, CallStartWorker w] \<and>
               Success response = (onStartWorker c w = None) \<and> \<not> Cli.Shutdown response))"

lemma dispatch_update:
  "\<not> blank src \<Longrightarrow> \<exists>response cs.
     dispatchCommand c tx dir \<lparr>Command = ''update'', Args = [src]\<rparr> = Some (response, cs) \<and>
     update_response c tx dir src response cs"
  by (cases "onPrepare c dir src")
    (auto simp: dispatchCommand_def validateCommandRequest_def wantedArguments_def argument_def
      update_response_def Let_def split: prod.split option.split)

lemma update_response_exact:
  assumes "update_response c tx dir src response cs"
  shows "cs \<noteq> [] \<and> \<not> Cli.Shutdown response \<and> (Success response \<longleftrightarrow> list_all (call_ok c) cs) \<and>
    list_all (call_ok c) (butlast cs) \<and>
    (\<forall>w. CallStartWorker w \<in> set cs \<longleftrightarrow> (\<exists>p active. onPrepare c dir src = Inr p \<and>
       onActiveWorker c (mfScannerID (relManifest p)) = (active, None) \<and> w = updateCandidate p active))"
proof (cases "onPrepare c dir src")
  case (Inl e)
  with assms have "response = failure (update_text tx e)" "cs = [CallPrepare dir src]"
    by (simp_all add: update_response_def)
  with Inl show ?thesis by simp
next
  case (Inr p)
  let ?s = "mfScannerID (relManifest p)"
  obtain active err where a: "onActiveWorker c ?s = (active, err)" by fastforce
  show ?thesis
  proof (cases err)
    case (Some e)
    with assms Inr a have "response = failure (call_text tx e)" "cs = [CallPrepare dir src, CallActiveWorker ?s]"
      by (simp_all add: update_response_def Let_def)
    with Inr a Some show ?thesis by simp
  next
    case None
    with assms Inr a have "cs = [CallPrepare dir src, CallActiveWorker ?s, CallStartWorker (updateCandidate p active)]"
      "Success response = (onStartWorker c (updateCandidate p active) = None)" "\<not> Cli.Shutdown response"
      by (simp_all add: update_response_def Let_def)
    with Inr a None show ?thesis by simp
  qed
qed

lemma dispatch_others:
  "dispatchCommand c tx dir \<lparr>Command = ''status'', Args = []\<rparr> =
     Some (case onSnapshot c of Inl e \<Rightarrow> failure (call_text tx e) | Inr ws \<Rightarrow> succeed (status_output ws),
       [CallSnapshot])"
  "dispatchCommand c tx dir \<lparr>Command = ''shutdown'', Args = []\<rparr> =
     Some (case onShutdown c of Some e \<Rightarrow> failure (call_text tx e)
       | None \<Rightarrow> (succeed ''core: stopped'')\<lparr>Cli.Shutdown := True\<rparr>, [CallShutdown])"
  "\<not> blank arg \<Longrightarrow> dispatchCommand c tx dir \<lparr>Command = ''scan'', Args = [arg]\<rparr> =
     (let path = resolveControlPath dir arg in
      Some (case onScan c path of (_, Some e) \<Rightarrow> failure (call_text tx e)
        | (r, None) \<Rightarrow> succeed (scan_output r), [CallScan path]))"
  "\<not> blank s \<Longrightarrow> \<not> blank arg \<Longrightarrow> dispatchCommand c tx dir \<lparr>Command = ''reload'', Args = [s, arg]\<rparr> =
     (let path = resolveControlPath dir arg in
      Some (case onReload c s path of (_, Some e) \<Rightarrow> failure (call_text tx e)
        | (r, None) \<Rightarrow> succeed (reload_output r), [CallReload s path]))"
  by (simp_all add: dispatchCommand_def validateCommandRequest_def wantedArguments_def argument_def)

section \<open>Properties\<close>

text \<open>
  C24. Every request is answered, with no index out of range, and the answer is honest. Calls
  are made exactly for a request that passes the check; a call is made only after those before
  it succeeded; the response is a success exactly when the request passed the check and every
  call succeeded; only a successful shutdown stops the listener. A worker is started exactly by
  an update whose release was prepared and whose scanner has an active worker, and it runs the
  staged artifact of that release with the transport and the signatures of the active worker.
\<close>

theorem dispatchCommand_exact:
  "\<exists>response cs. dispatchCommand c tx dir r = Some (response, cs) \<and>
     (cs = [] \<longleftrightarrow> validateCommandRequest r \<noteq> None) \<and>
     (Success response \<longleftrightarrow> validateCommandRequest r = None \<and> list_all (call_ok c) cs) \<and>
     list_all (call_ok c) (butlast cs) \<and>
     (Cli.Shutdown response \<longleftrightarrow> Command r = ''shutdown'' \<and> Success response) \<and>
     (\<forall>w. CallStartWorker w \<in> set cs \<longleftrightarrow>
        validateCommandRequest r = None \<and> Command r = ''update'' \<and>
        (\<exists>p active. onPrepare c dir (hd (Args r)) = Inr p \<and>
           onActiveWorker c (mfScannerID (relManifest p)) = (active, None) \<and> w = updateCandidate p active))"
proof (cases "validateCommandRequest r")
  case (Some e)
  then have "dispatchCommand c tx dir r = Some (failure (request_text tx e), [])"
    by (simp add: dispatchCommand_def)
  with Some show ?thesis by simp
next
  case valid: None
  then show ?thesis
  proof (cases rule: validateCommandRequest_cases)
    case (scan path)
    show ?thesis
      using valid unfolding scan(1) dispatch_others(3) [OF scan(2)] Let_def
      by (cases "onScan c (resolveControlPath dir path)") (simp split: option.split)
  next
    case status
    show ?thesis using valid unfolding status dispatch_others(1) by (cases "onSnapshot c") simp_all
  next
    case (reload s path)
    show ?thesis
      using valid unfolding reload(1) dispatch_others(4) [OF reload(2,3)] Let_def
      by (cases "onReload c s (resolveControlPath dir path)") (simp split: option.split)
  next
    case (update src)
    obtain response cs where d: "dispatchCommand c tx dir r = Some (response, cs)"
      "update_response c tx dir src response cs"
      using dispatch_update [OF update(2), of c tx dir] unfolding update(1) by (elim exE conjE)
    from d(1) valid update_response_exact [OF d(2)] show ?thesis
      by (intro exI [of _ response] exI [of _ cs]) (simp add: update(1))
  next
    case shutdown
    show ?thesis using valid unfolding shutdown dispatch_others(2) by (cases "onShutdown c") simp_all
  qed
qed

text \<open>
  C23. A command and its answer arrive: when the client's line and the core's line were written
  without an error and each is at most 64 KiB of valid UTF-8, the core dispatches exactly the
  request the client sent and the client gets exactly the response of the dispatch, however the
  connection cuts the bytes; the listener is stopped exactly when the response says shutdown.
\<close>

theorem command_roundtrip:
  assumes "sendCommand None None w answer_stream r = (result, sent_out)" "\<forall>e. result \<noteq> Inl (RequestNotSent e)"
    and "handleConnection c tx dir request_stream w' = Some h" "write_error h = None"
    and "whole_writes w" "whole_writes w'" "steady request_stream" "steady answer_stream"
    and "delivered request_stream = (sent_out @ rest, e)" "delivered answer_stream = (sent_back h @ rest', e')"
    and "length sent_out \<le> maxFrameSize" "length (sent_back h) \<le> maxFrameSize"
    and "faithful_request r" "faithful_response (fst (the (dispatchCommand c tx dir r)))"
  shows "\<exists>response. dispatchCommand c tx dir r = Some (response, calls h) \<and> result = Inr response \<and>
    (stop_listening h \<longleftrightarrow> Cli.Shutdown response)"
proof -
  obtain err out where enc: "encodeLine w (request_json r) = (err, out)" by fastforce
  have "err = None \<and> sent_out = out"
    using assms(1,2) by (cases err) (auto simp: sendCommand_def enc)
  then have enc: "encodeLine w (request_json r) = (None, sent_out)" using enc by simp
  note request = request_line.line_arrives [OF enc assms(5,11,7,9,13)]
  obtain response cs where d: "dispatchCommand c tx dir r = Some (response, cs)"
    using assms(3) by (cases "dispatchCommand c tx dir r") (auto simp: handleConnection_def request(1,2))
  obtain err' bytes where enc': "encodeLine w' (response_json response) = (err', bytes)" by fastforce
  have h: "calls h = cs" "sent_back h = bytes" "err' = None" "stop_listening h = Cli.Shutdown response"
    using assms(3,4) by (auto simp: handleConnection_def request(1,2) d writeResponse_def enc')
  have f: "faithful_response response" using assms(14) by (simp add: d)

  have "result = Inr response"
  proof -
    have "readFrame answer_stream = Inr bytes" "decodeLenient responseFields zeroResponse bytes = Some response"
      by (rule response_line.line_arrives [OF enc' [unfolded h(3)] assms(6) assms(12) [unfolded h(2)] assms(8)
            assms(10) [unfolded h(2)] f])+
    then show ?thesis using assms(1) by (simp add: sendCommand_def enc)
  qed
  with d h show ?thesis by simp
qed

text \<open>A runtime with one active worker, which is asked for its status in pieces.\<close>

definition demo_core :: core where
  "demo_core = \<lparr>onSnapshot = Inr [\<lparr>sKey = \<lparr>ScannerID = ''a'', Version = ''1''\<rparr>, sPID = 7,
       sTransport = ''grpc'', sState = WorkerActive, sFailureReason = '''', sExitCode = 0, sExitError = ''''\<rparr>],
     onShutdown = None, onScan = (\<lambda>_. (zeroScan, None)), onReload = (\<lambda>_ _. (zeroReload, None)),
     onPrepare = (\<lambda>_ _. Inl BadURL), onActiveWorker = (\<lambda>_. (zeroWorker, None)),
     onStartWorker = (\<lambda>_. None)\<rparr>"

definition demo_texts :: error_texts where
  "demo_texts = \<lparr>request_text = (\<lambda>_. ''request''), call_text = (\<lambda>_. ''call''), update_text = (\<lambda>_. ''update''),
     start_text = (\<lambda>_. ''start''), frame_text = (\<lambda>_. ''frame''), decode_text = (\<lambda>_. ''decode'')\<rparr>"

definition demo_request :: commandRequest where
  "demo_request = \<lparr>Command = ''status'', Args = []\<rparr>"

definition demo_sent :: bytes where
  "demo_sent = print_json (request_json demo_request) @ [newline]"

definition demo_status :: commandResponse where
  "demo_status = succeed (status_output (projr (onSnapshot demo_core)))"

definition demo_answer :: bytes where
  "demo_answer = print_json (response_json demo_status) @ [newline]"

theorem command_roundtrip_witness:
  "fst (sendCommand None None pipe_writer [(take 9 demo_answer, None), (drop 9 demo_answer, Some EOF)] demo_request) =
     Inr demo_status \<and> Output demo_status = ''core: running'' @ newline # ''workers: 1'' @
       newline # ''a@1 pid=7 transport=grpc state=ACTIVE''"
proof -
  let ?out = "[(take 5 demo_sent, None), (drop 5 demo_sent, Some EOF)]"
  let ?ans = "[(take 9 demo_answer, None), (drop 9 demo_answer, Some EOF)]"
  let ?s = "sendCommand None None pipe_writer ?ans demo_request"
  have d: "dispatchCommand demo_core demo_texts ''/etc'' demo_request = Some (demo_status, [CallSnapshot])"
    by (simp add: demo_request_def dispatch_others demo_status_def demo_core_def)
  have sent: "encodeLine pipe_writer (request_json demo_request) = (None, demo_sent)"
    by (simp add: encodeLine_def pipe_writer_def demo_sent_def)
  have len: "length demo_sent = 21" "length demo_answer = 93" by code_simp+

  define h where "h = \<lparr>calls = [CallSnapshot], write_error = None, sent_back = demo_answer, stop_listening = False\<rparr>"
  have 1: "?s = (fst ?s, demo_sent)"
    by (simp add: sendCommand_def sent split_def)
  have 2: "\<forall>e. fst ?s \<noteq> Inl (RequestNotSent e)"
    by (auto simp: sendCommand_def sent split: sum.split option.split)

  have 4: "whole_writes pipe_writer" by (simp add: whole_writes_def pipe_writer_def)
  have "take 5 demo_sent \<noteq> []" "take 9 demo_answer \<noteq> []" using len by auto
  then have 5: "steady ?out" "steady ?ans" by (simp_all add: steady_def)
  have 6: "delivered ?out = (demo_sent @ [], EOF)" "delivered ?ans = (sent_back h @ [], EOF)"
    by (simp_all add: h_def)
  have 7: "length demo_sent \<le> maxFrameSize" "length (sent_back h) \<le> maxFrameSize"
    by (simp_all add: len h_def)
  have 8: "faithful_request demo_request" "faithful_response (fst (the (dispatchCommand demo_core demo_texts ''/etc'' demo_request)))"
    unfolding d by code_simp+
  note line = request_line.line_arrives [OF sent 4 7(1) 5(1) 6(1) 8(1)]
  have 3: "handleConnection demo_core demo_texts ''/etc'' ?out pipe_writer = Some h" "write_error h = None"
    by (simp_all add: handleConnection_def line d writeResponse_def encodeLine_def pipe_writer_def demo_answer_def
        h_def) (simp add: demo_status_def)
  from command_roundtrip [OF 1 2 3 4 4 5 6 7 8] d have "fst ?s = Inr demo_status" by simp
  moreover have "Output demo_status = ''core: running'' @ newline # ''workers: 1'' @
       newline # ''a@1 pid=7 transport=grpc state=ACTIVE''" by code_simp
  ultimately show ?thesis by simp
qed

section \<open>Serving and listening\<close>

lemma startWorkers_exact:
  "startWorkers start ws = (err, acts) \<Longrightarrow>
     (\<exists>n \<le> length ws. acts = map StartConfigured (take n ws) \<and> (err = None \<longrightarrow> n = length ws)) \<and>
     (err = None \<longleftrightarrow> list_all (\<lambda>w. start w = None) ws)"
proof (induction start ws arbitrary: err acts rule: startWorkers.induct)
  case (1 start)
  then show ?case by simp
next
  case (2 start w ws)
  show ?case
  proof (cases "start w")
    case (Some e)
    with "2.prems" have "err = Some (w, e)" "acts = map StartConfigured (take 1 (w # ws))" by simp_all
    with Some show ?thesis by (intro conjI exI [of _ "1 :: nat"]) simp_all
  next
    case None
    obtain err' acts' where s: "startWorkers start ws = (err', acts')" by fastforce
    with "2.prems" None have e: "err = err'" "acts = StartConfigured w # acts'" by simp_all
    from "2.IH" [OF None s] obtain n where "n \<le> length ws" "acts' = map StartConfigured (take n ws)"
      "err' = None \<longrightarrow> n = length ws" "err' = None \<longleftrightarrow> list_all (\<lambda>w. start w = None) ws" by (elim exE conjE)
    with e None show ?thesis by (intro conjI exI [of _ "Suc n"]) simp_all
  qed
qed

lemma listener_append:
  "listener_run (es @ [e]) s = (case listener_run es s of None \<Rightarrow> None | Some t \<Rightarrow> serveListener e t)"
  by (induction es s rule: listener_run.induct) (auto split: option.splits)

definition handled_count :: "listener_event list \<Rightarrow> nat" where
  "handled_count es = length (filter (\<lambda>e. e = Handled True \<or> e = Handled False) es)"

text \<open>What a run so far says of the listener.\<close>

definition listener_inv :: "listener_event list \<Rightarrow> listener \<Rightarrow> bool" where
  "listener_inv es s \<longleftrightarrow>
     count_list es Accepted = handled_count es + connections s \<and>
     (stopped s \<longleftrightarrow> ContextDone \<in> set es \<or> Handled True \<in> set es) \<and>
     (returned s \<longrightarrow> \<not> accepting s \<and> connections s = 0) \<and>
     (\<forall>b. Finish b \<in> set es \<longleftrightarrow> returned s \<and> shut_down s = (\<not> b)) \<and>
     (accepting s \<longrightarrow> outcome s = None) \<and>
     (\<forall>e. outcome s = Some e \<longrightarrow> (\<exists>pre post. es = pre @ AcceptError e # post \<and>
        ContextDone \<notin> set pre \<and> Handled True \<notin> set pre))"

lemma listener_keeps:
  assumes "listener_inv es s" "serveListener e s = Some t"
  shows "listener_inv (es @ [e]) t"
proof -
  have old: "\<exists>pre post. es @ [x] = pre @ AcceptError y # post \<and> ContextDone \<notin> set pre \<and> Handled True \<notin> set pre"
    if "outcome s = Some y" for x y
  proof -
    have "\<forall>e. outcome s = Some e \<longrightarrow> (\<exists>pre post. es = pre @ AcceptError e # post \<and>
        ContextDone \<notin> set pre \<and> Handled True \<notin> set pre)"
      using assms(1) unfolding listener_inv_def by (elim conjE)
    from this [rule_format, OF that] obtain pre post
      where "es = pre @ AcceptError y # post \<and> ContextDone \<notin> set pre \<and> Handled True \<notin> set pre"
      by (elim exE)
    then show ?thesis by (intro exI [of _ pre] exI [of _ "post @ [x]"]) simp
  qed
  show ?thesis
  proof (cases e)
    case ContextDone
    with assms old show ?thesis by (auto simp: listener_inv_def handled_count_def)
  next
    case Accepted
    with assms old show ?thesis by (auto simp: listener_inv_def handled_count_def split: if_splits)
  next
    case (AcceptError y)
    with assms(2) have t: "accepting s" "t = s\<lparr>accepting := False, outcome := if stopped s then None else Some y\<rparr>"
      by (simp_all split: if_splits)
    have new: "\<exists>pre post. es @ [AcceptError y] = pre @ AcceptError y # post \<and> ContextDone \<notin> set pre \<and>
        Handled True \<notin> set pre" if "\<not> stopped s"
      using assms(1) that by (intro exI [of _ es] exI [of _ "[]"]) (simp add: listener_inv_def)
    have nr: "\<not> returned s" using assms(1) t(1) by (auto simp: listener_inv_def)
    show ?thesis
      using assms(1) nr new unfolding AcceptError t(2)
      by (auto simp: listener_inv_def handled_count_def simp del: ex_simps)
  next
    case (Handled b)
    with assms old show ?thesis by (cases b) (auto simp: listener_inv_def handled_count_def split: if_splits)
  next
    case (Finish b)
    with assms old show ?thesis by (auto simp: listener_inv_def handled_count_def split: if_splits)
  qed
qed

lemma listener_invariant: "listener_run es initial_listener = Some s \<Longrightarrow> listener_inv es s"
proof (induction es arbitrary: s rule: rev_induct)
  case Nil
  then show ?case by (auto simp: listener_inv_def initial_listener_def handled_count_def)
next
  case (snoc e es)
  then obtain t where "listener_run es initial_listener = Some t" "serveListener e t = Some s"
    by (auto simp: listener_append split: option.splits)
  with snoc.IH listener_keeps show ?case by blast
qed

text \<open>
  The core serves exactly when the address is a loopback address, the configuration
  loads, the runtime accepts its timeouts, every configured worker starts and the address can be
  listened on. The workers are started in the order of the configuration and nothing is listened
  on before all of them run; whatever fails after the first start, the last thing done is to shut
  the runtime down.
\<close>

theorem serve_exact:
  assumes "serve cwd fs start listened address path = (result, acts)"
  shows "(result = Inr (dir, t) \<longleftrightarrow> validateLoopbackAddress address = None \<and> listened = None \<and>
       (\<exists>c. Load cwd fs path = Inr c \<and> \<not> isl (NewRuntime (StartupTimeout c) (ConfigLoad.ScanTimeout c)) \<and>
          list_all (\<lambda>w. start w = None) (Workers c) \<and> dir = BaseDir c \<and> t = StartupTimeout c)) \<and>
    (\<forall>c. Load cwd fs path = Inr c \<longrightarrow>
       (\<exists>n. takeWhile (\<lambda>a. \<exists>w. a = StartConfigured w) acts = map StartConfigured (take n (Workers c))) \<and>
       (ListenOn address \<in> set acts \<longrightarrow> map StartConfigured (Workers c) = take (length (Workers c)) acts \<and>
          list_all (\<lambda>w. start w = None) (Workers c)) \<and>
       (isl result \<and> acts \<noteq> [] \<longrightarrow> last acts = ShutRuntimeDown (StartupTimeout c)))"
proof (cases "validateLoopbackAddress address")
  case (Some e)
  with assms have "result = Inl (BadCoreAddress e)" "acts = []" by (simp_all add: serve_def)
  with Some show ?thesis by (auto intro: exI [of _ 0])
next
  case a: None
  show ?thesis
  proof (cases "Load cwd fs path")
    case (Inl e)
    with assms a have "result = Inl (NotLoaded e)" by (simp add: serve_def)
    with Inl show ?thesis by simp
  next
    case l: (Inr c)
    show ?thesis
    proof (cases "NewRuntime (StartupTimeout c) (ConfigLoad.ScanTimeout c)")
      case (Inl e)
      with assms a l have "result = Inl (NoRuntime e)" "acts = []" by (simp_all add: serve_def)
      with Inl l show ?thesis by (auto intro: exI [of _ 0])
    next
      case n: (Inr p)
      obtain err starts where s: "startWorkers start (Workers c) = (err, starts)" by fastforce
      from startWorkers_exact [OF s] obtain k where k: "starts = map StartConfigured (take k (Workers c))"
        "err = None \<longrightarrow> k = length (Workers c)" "err = None \<longleftrightarrow> list_all (\<lambda>w. start w = None) (Workers c)"
        by (elim exE conjE)
      have tw: "takeWhile (\<lambda>a. \<exists>w. a = StartConfigured w) (starts @ b # rest) = starts"
        if "\<nexists>w. b = StartConfigured w" for b rest
        unfolding k(1) using that by (subst takeWhile_append2) auto
      have no: "ListenOn address \<notin> set starts" by (auto simp: k(1))
      show ?thesis
      proof (cases err)
        case (Some we)
        obtain w e where we: "we = (w, e)" by fastforce
        have r: "result = Inl (WorkerNotStarted (cScannerID w) e)"
          "acts = starts @ [ShutRuntimeDown (StartupTimeout c)]"
          using assms by (simp_all add: serve_def a l n s Some we)
        from k(3) Some have "\<not> list_all (\<lambda>w. start w = None) (Workers c)" by simp
        with r l no k(1) tw [of "ShutRuntimeDown (StartupTimeout c)" "[]"] show ?thesis
          by (auto intro: exI [of _ k])
      next
        case None
        with k have all: "starts = map StartConfigured (Workers c)" "list_all (\<lambda>w. start w = None) (Workers c)"
          by simp_all
        have r: "(result, acts) = (case listened of
            Some e \<Rightarrow> (Inl (CannotListen e), starts @ [ListenOn address, ShutRuntimeDown (StartupTimeout c)])
          | None \<Rightarrow> (Inr (BaseDir c, StartupTimeout c), starts @ [ListenOn address]))"
          using assms by (simp add: serve_def a l n s None)
        have pre: "\<exists>m. takeWhile (\<lambda>a. \<exists>w. a = StartConfigured w) acts = map StartConfigured (take m (Workers c))"
          using r tw [of "ListenOn address"] all(1)
          by (intro exI [of _ "length (Workers c)"]) (auto split: option.splits)
        show ?thesis
        proof (cases listened)
          case None
          with r have "result = Inr (BaseDir c, StartupTimeout c)" "acts = starts @ [ListenOn address]" by simp_all
          with None a l n all pre show ?thesis by auto
        next
          case (Some e)
          with r have "result = Inl (CannotListen e)"
            "acts = starts @ [ListenOn address, ShutRuntimeDown (StartupTimeout c)]" by simp_all
          with Some a l n all pre show ?thesis by auto
        qed
      qed
    qed
  qed
qed

theorem serve_exact_witness:
  "\<exists>n. takeWhile (\<lambda>a. \<exists>w. a = StartConfigured w)
     (snd (serve (Inr ''/etc'') (demo_config_files 100) (\<lambda>w. None) (Some ''in use'') ''127.0.0.1:7331'' ''av/c'')) =
     map StartConfigured (take n (Workers (demo_loaded 100)))"
proof -
  let ?s = "serve (Inr ''/etc'') (demo_config_files 100) (\<lambda>w. None) (Some ''in use'') ''127.0.0.1:7331'' ''av/c''"
  have 1: "?s = (fst ?s, snd ?s)" by simp
  have "Load (Inr ''/etc'') (demo_config_files 100) ''av/c'' = Inr (demo_loaded 100)"
    by (rule demo_Load) simp_all
  with serve_exact [OF 1] show ?thesis by blast
qed

text \<open>
  The listener returns clean: in every run of its goroutines, when it has returned it has
  stopped accepting, every connection it accepted has been handled, and it has told the runtime
  to shut down unless that was done; it returns an error only if \<^verbatim>\<open>Accept\<close> failed before
  the context ended or a handler asked it to stop. From every state of a run that has not
  returned, one failing \<^verbatim>\<open>Accept\<close> (when it still accepts), the open connections and the
  deferred function lead to the return, so it is never stuck.
\<close>

theorem listener_returns:
  assumes "listener_run es initial_listener = Some s"
  shows "count_list es Accepted = handled_count es + connections s \<and>
    (returned s \<longrightarrow> \<not> accepting s \<and> connections s = 0 \<and> Finish (\<not> shut_down s) \<in> set es) \<and>
    (\<forall>e. outcome s = Some e \<longrightarrow> (\<exists>pre post. es = pre @ AcceptError e # post \<and>
       ContextDone \<notin> set pre \<and> Handled True \<notin> set pre)) \<and>
    (\<not> returned s \<longrightarrow> (\<exists>t. listener_run
       ((if accepting s then [AcceptError e'] else []) @ replicate (connections s) (Handled False) @ [Finish d]) s =
         Some t \<and> returned t \<and> shut_down t = (\<not> d)))"
proof -
  note inv = listener_invariant [OF assms, unfolded listener_inv_def]
  have drain: "\<not> accepting t \<Longrightarrow> \<not> returned t \<Longrightarrow>
      listener_run (replicate (connections t) (Handled False) @ [Finish d]) t =
        Some (t\<lparr>connections := 0, shut_down := \<not> d, returned := True\<rparr>)" for t
  proof (induction "connections t" arbitrary: t)
    case 0
    then have "t\<lparr>connections := 0\<rparr> = t" by (cases t) simp
    with 0 show ?case by (cases t) simp
  next
    case (Suc n)
    let ?u = "t\<lparr>connections := n\<rparr>"
    from Suc.hyps(2) have c: "connections t = Suc n" by simp
    have step: "serveListener (Handled False) t = Some ?u" using c by simp
    have "listener_run (replicate (connections ?u) (Handled False) @ [Finish d]) ?u =
        Some (?u\<lparr>connections := 0, shut_down := \<not> d, returned := True\<rparr>)"
      by (rule Suc.hyps(1)) (use Suc.prems in simp_all)
    with c step show ?case by simp
  qed
  have "\<exists>t. listener_run ((if accepting s then [AcceptError e'] else []) @
      replicate (connections s) (Handled False) @ [Finish d]) s = Some t \<and> returned t \<and> shut_down t = (\<not> d)"
    if "\<not> returned s"
  proof (cases "accepting s")
    case False
    with drain [of s] that show ?thesis by simp
  next
    case True
    let ?t = "s\<lparr>accepting := False, outcome := if stopped s then None else Some e'\<rparr>"
    from drain [of ?t] that have "listener_run (replicate (connections s) (Handled False) @ [Finish d]) ?t =
        Some (?t\<lparr>connections := 0, shut_down := \<not> d, returned := True\<rparr>)" by simp
    with True show ?thesis by simp
  qed
  with inv show ?thesis by auto
qed

theorem listener_returns_witness:
  "count_list [Accepted, Accepted, Handled True, AcceptError ''closed''] Accepted = 2 \<and>
   (\<exists>t. listener_run ([] @ replicate 1 (Handled False) @ [Finish True])
     \<lparr>stopped = True, accepting = False, connections = 1, outcome = None, shut_down = False, returned = False\<rparr> =
       Some t \<and> returned t)"
proof -
  let ?s = "\<lparr>stopped = True, accepting = False, connections = 1, outcome = None, shut_down = False, returned = False\<rparr>"
  let ?es = "[Accepted, Accepted, Handled True, AcceptError ''closed'']"
  have 1: "listener_run ?es initial_listener = Some ?s" by (simp add: initial_listener_def)
  have 2: "handled_count ?es = 1" by (simp add: handled_count_def)
  from listener_returns [OF 1, of "''''" True, unfolded 2] show ?thesis by (simp only: listener.simps) auto
qed

end
