(* ===== verification/Upgrade.thy ===== *)
theory Upgrade
  imports Startup Control
begin

text \<open>
  An update as a whole: the request of the client (\<open>Control\<close>,
  \<^verbatim>\<open>src/cmd/miniav/transport.go\<close>), the release that is verified and staged (\<open>Update\<close>,
  \<^verbatim>\<open>src/pkg/update/update.go\<close>), the question for the active worker, and the start of the new
  one with its cutover (\<open>Startup\<close>, \<^verbatim>\<open>src/pkg/coordinator/runtime.go\<close>).
\<close>

section \<open>The active worker\<close>

definition active_answer :: "WorkerKey \<Rightarrow> runtimeWorker \<Rightarrow> Worker" where
  "active_answer k v = zeroWorker\<lparr>cScannerID := ScannerID k, cWorkerVersion := Version k,
     cTransport := rtransport v, cSignaturePath := signaturePath v\<rparr>"

lemma turn_active:
  assumes "stopReply s = None" "mget (ractive s) scanner = Some k" "mget (rworkers s) k = Some v"
  shows "runtime_turn kill prt (ActiveRuntime scanner b) s = send_reply b (ActiveReply (active_answer k v) None) s"
proof -
  have "handle kill prt (ActiveRuntime scanner b) s = send_reply b (ActiveReply (active_answer k v) None) s"
    using assms(2,3) by (simp add: activeWorker_def active_answer_def)
  then show ?thesis
    using turn_handle [OF assms(1), of kill prt "ActiveRuntime scanner b"] assms(1)
    by (simp add: send_reply_def)
qed

lemma active_reach:
  assumes "runtime_reach s" "status s = Running"
  shows "runtime_reach (runtime_turn kill prt (ActiveRuntime scanner b) s)"
proof -
  have same: "same_runtime s s" unfolding same_runtime_def same_requests_def same_request_def
    by (auto intro!: exI [of _ "rrequests s"] list_all2_refl simp: same_map_def)
  have "runtime_trans s (Turn (ActiveRuntime scanner b)) (runtime_turn kill prt (ActiveRuntime scanner b) s)"
    by (rule turn [OF assms(2) same _ refl]) (simp add: event_ok_def)
  with assms(1) show ?thesis by (rule reach_step)
qed

lemma dispatch_update_ok:
  assumes "\<not> blank src" "onPrepare c dir src = Inr rel"
    and "onActiveWorker c (mfScannerID (relManifest rel)) = (active, None)"
    and "onStartWorker c (updateCandidate rel active) = None"
  shows "dispatchCommand c tx dir \<lparr>Command = ''update'', Args = [src]\<rparr> =
    Some (succeed (''updated '' @ mfScannerID (relManifest rel) @ '' from '' @ cWorkerVersion active @
      '' to '' @ mfWorkerVersion (relManifest rel)),
      [CallPrepare dir src, CallActiveWorker (mfScannerID (relManifest rel)), CallStartWorker (updateCandidate rel active)])"
  using assms
  by (simp add: dispatchCommand_def validateCommandRequest_def wantedArguments_def argument_def Let_def
      updateCandidate_def zeroWorker_def)

section \<open>The update\<close>

text \<open>
  C5. A whole update. In a running core, a request to update a scanner with an active worker, whose
  release was prepared, whose version is not registered and which has no rival candidate, and whose
  process can be started and connected, is answered with success. The scanner's route then
  leads to the new worker, which is active; the previous one drains; no other route and no open
  scan has changed; the new worker has the transport and the signatures of the previous one; and
  its executable is a regular file below the staging directory whose SHA-256 is the digest of
  the manifest.
\<close>

theorem update_takes_over:
  assumes "runtime_reach s" "status s = Running" "stopReply s = None"
    and "mget (ractive s) (ScannerID old) = Some old" "mget (rworkers s) old = Some v"
    and "Prepare os sha web cwd dir src tr = (Inr rel, tr')" "\<forall>wd. cwd = Inr wd \<longrightarrow> IsAbs wd"
      "slash \<notin> set (random os)" "wf_tree tr" "orderly os" "Abs cwd dir = Inr base"
      "undisturbed os (temporaryNames os base (relManifest rel))" "stable os (names (relStagedPath rel))"
    and "mfScannerID (relManifest rel) = ScannerID old" "\<not> blank src" "w = updateCandidate rel active"
    and "mget (rworkers s) (worker_key w) = None"
      "\<forall>j a. runtime_states s j = Some a \<longrightarrow> Lifecycle.candidate a \<longrightarrow> ScannerID j \<noteq> ScannerID old"
    and "u = runtime_turn kill prt (ActiveRuntime (ScannerID old) b) s" "last (sent u) = (b, ActiveReply active err)"
    and "workerOptions (ScannerID old) (workerArgs w) = Inr (conf, listen)"
      "Start exec (cExecutable w) = Inr ch" "\<not> isl (connectWorker net first (cTransport w))"
    and "t = loop_run kill prt (handshake w ch conf k @ [ActivateRuntime (worker_key w) (k + 3)]) u"
    and "onPrepare c dir src = Inr rel" "onActiveWorker c (ScannerID old) = (active, map_option CallRefused err)"
      "onStartWorker c w = fst (StartWorker (answers_of (drop (length (sent u)) (sent t))) exec net first txt w k)"
  shows "(\<exists>cs. dispatchCommand c tx dir \<lparr>Command = ''update'', Args = [src]\<rparr> = Some (succeed
      (''updated '' @ ScannerID old @ '' from '' @ Version old @ '' to '' @ mfWorkerVersion (relManifest rel)), cs)) \<and>
    mget (ractive t) i = (if i = ScannerID old then Some (worker_key w) else mget (ractive s) i) \<and>
    worker_key w = \<lparr>ScannerID = ScannerID old, Version = mfWorkerVersion (relManifest rel)\<rparr> \<and>
    runtime_states t (worker_key w) = Some WorkerActive \<and> mget (rworkers t) old = Some (supersede v) \<and>
    rrequests t = rrequests s \<and> cTransport w = rtransport v \<and> cSignaturePath w = signaturePath v \<and>
    (\<exists>a mode content. release_paths base (relManifest rel) a \<and>
      names (cExecutable w) = stagedNames base (relManifest rel) a \<and> tr' (names (cExecutable w)) = Some (Regular mode content) \<and>
      hex_decode (mfSHA256 (relManifest rel)) = Some (sha content))"
proof -
  let ?k = "worker_key w"
  have u: "u = send_reply b (ActiveReply (active_answer old v) None) s"
    unfolding assms(19) by (rule turn_active [OF assms(3-5)])
  then have frame: "rworkers u = rworkers s" "ractive u = ractive s" "rrequests u = rrequests s" "stopReply u = None"
      "runtime_states u = runtime_states s"
    using assms(3) by (simp_all add: send_reply_def runtime_states_def fun_eq_iff)
  from u assms(20) have active: "active = active_answer old v" and none: "err = None"
    by (simp_all add: send_reply_def)
  have w: "cScannerID w = ScannerID old" "cWorkerVersion w = mfWorkerVersion (relManifest rel)" "\<not> cFailHealth w"
      "cTransport w = rtransport v" "cSignaturePath w = signaturePath v" "cExecutable w = relStagedPath rel"
    by (simp_all add: assms(14,16) active updateCandidate_def active_answer_def zeroWorker_def)
  then have key: "?k = \<lparr>ScannerID = ScannerID old, Version = mfWorkerVersion (relManifest rel)\<rparr>" by (simp add: worker_key_def)
  have reach: "runtime_reach u" unfolding assms(19) by (rule active_reach [OF assms(1,2)])
  obtain x acts where start: "StartWorker (answers_of (drop (length (sent u)) (sent t))) exec net first txt w k = (x, acts)"
    by fastforce
  have fresh: "mget (rworkers u) ?k = None" "\<forall>j a. runtime_states u j = Some a \<longrightarrow> Lifecycle.candidate a \<longrightarrow> ScannerID j \<noteq> cScannerID w"
    using assms(17,18) frame w(1) by simp_all
  note taken = startup_takes_over [OF reach frame(4) fresh assms(21) [folded w(1)] w(3) assms(22,23) refl assms(24) start]
  have "old \<noteq> ?k" using assms(5,17) by auto
  then have "mget (rworkers t) old = Some (supersede v)"
    using taken [of i old] assms(4,5) w(1) frame by (simp add: after_cutover_def)
  moreover have "onStartWorker c (updateCandidate rel active) = None"
    using taken start assms(27) unfolding assms(16) [symmetric] by simp
  then have "dispatchCommand c tx dir \<lparr>Command = ''update'', Args = [src]\<rparr> = Some (succeed
      (''updated '' @ ScannerID old @ '' from '' @ Version old @ '' to '' @ mfWorkerVersion (relManifest rel)),
      [CallPrepare dir src, CallActiveWorker (ScannerID old), CallStartWorker w])"
    using dispatch_update_ok [OF assms(15,25), of active] assms(14,16,26) none by (simp add: active active_answer_def)
  moreover note prepared_artifact [OF assms(6-13), folded w(6)]
  ultimately show ?thesis using taken [of i old] w frame key by simp
qed

text \<open>The core that runs version 1 of the scanner of \<open>demo_manifest\<close>.\<close>

definition served_key :: WorkerKey where "served_key = \<lparr>ScannerID = ''s'', Version = ''1''\<rparr>"

definition served :: runtimeState where
  "served = rt_exec dkill drender
     [RegisterRuntime (zeroWorker\<lparr>cScannerID := ''s'', cWorkerVersion := ''1'', cTransport := ''stdio'', cSignaturePath := ''/sig''\<rparr>)
        (dchild 11) 1,
      HealthRuntime served_key 2, WorkerMessage served_key dhealthy, ActivateRuntime served_key 3] initialRuntime"

definition demo_release :: PreparedRelease where
  "demo_release = \<lparr>relManifest = demo_manifest, relManifestPath = ''/c/m'', relSourcePath = ''/c/a'',
     relStagedPath = ''/c/staging/s/2/a''\<rparr>"

definition served_active :: Worker where
  "served_active = zeroWorker\<lparr>cScannerID := ''s'', cWorkerVersion := ''1'', cTransport := ''stdio'', cSignaturePath := ''/sig''\<rparr>"

definition new_worker :: Worker where
  "new_worker = updateCandidate demo_release served_active"

definition new_session :: session_config where
  "new_session = \<lparr>scScannerID = ''s'', scWorkerVersion = ''2'', scSignaturePath = ''/sig'', scDelay = 0,
     scCrashOnScan = False, scFailHealth = False\<rparr>"

definition asked_active :: runtimeState where
  "asked_active = runtime_turn dkill drender (ActiveRuntime ''s'' 4) served"

definition updated :: runtimeState where
  "updated = loop_run dkill drender (handshake new_worker \<lparr>pid = 77, terminate = False, terminateErr = None\<rparr> new_session 5 @
     [ActivateRuntime (worker_key new_worker) (5 + 3)]) asked_active"

definition upgrade_core :: core where
  "upgrade_core = \<lparr>onSnapshot = Inr [], onShutdown = None, onScan = \<lambda>_. (zeroScan, None), onReload = \<lambda>_ _. (zeroReload, None),
     onPrepare = \<lambda>_ _. Inr demo_release, onActiveWorker = \<lambda>_. (served_active, None),
     onStartWorker = \<lambda>w. fst (StartWorker (answers_of (drop (length (sent asked_active)) (sent updated))) launch_os demo_network
       (ContextFirst '''') (\<lambda>_. '''') w 5)\<rparr>"

lemma served_facts:
  "runtime_reach served" "\<forall>j a. runtime_states served j = Some a \<longrightarrow> Lifecycle.candidate a \<longrightarrow> ScannerID j \<noteq> i"
  "mget (rworkers served) (worker_key new_worker) = None"
  "mget (ractive served) ''s'' = Some served_key" "status served = Running" "stopReply served = None"
proof -
  have "rt_ok dkill drender
     [RegisterRuntime (zeroWorker\<lparr>cScannerID := ''s'', cWorkerVersion := ''1'', cTransport := ''stdio'', cSignaturePath := ''/sig''\<rparr>)
        (dchild 11) 1,
      HealthRuntime served_key 2, WorkerMessage served_key dhealthy, ActivateRuntime served_key 3] initialRuntime"
    by code_simp
  then show "runtime_reach served" unfolding served_def by (rule rt_exec_reach)
  have keys: "keys (rworkers served) = [served_key]" and active: "runtime_states served served_key = Some WorkerActive"
    by code_simp+
  show "mget (ractive served) ''s'' = Some served_key" "status served = Running" "stopReply served = None" by code_simp+
  have "worker_key new_worker \<noteq> served_key" by code_simp
  with keys show "mget (rworkers served) (worker_key new_worker) = None" by (simp add: mget_None_iff)
  show "\<forall>j a. runtime_states served j = Some a \<longrightarrow> Lifecycle.candidate a \<longrightarrow> ScannerID j \<noteq> i"
  proof (intro allI impI)
    fix j a assume j: "runtime_states served j = Some a" "Lifecycle.candidate a"
    then have "j \<in> set (keys (rworkers served))" by (auto simp: runtime_states_def dest: mget_SomeD)
    with keys j active show "ScannerID j \<noteq> i" by (simp add: Lifecycle.candidate_def)
  qed
qed

lemma new_worker_starts:
  "workerOptions ''s'' (workerArgs new_worker) = Inr (new_session, ''127.0.0.1:0'')"
  "Start launch_os (cExecutable new_worker) = Inr \<lparr>pid = 77, terminate = False, terminateErr = None\<rparr>"
  "\<not> isl (connectWorker demo_network (ContextFirst '''') (cTransport new_worker))"
proof -
  have "\<not> blank ''/c/staging/s/2/a''" by code_simp
  then show "workerOptions ''s'' (workerArgs new_worker) = Inr (new_session, ''127.0.0.1:0'')"
    "Start launch_os (cExecutable new_worker) = Inr \<lparr>pid = 77, terminate = False, terminateErr = None\<rparr>"
    "\<not> isl (connectWorker demo_network (ContextFirst '''') (cTransport new_worker))"
    by (simp_all add: options_given [OF Parse_workerArgs] new_session_def new_worker_def updateCandidate_def
        demo_release_def demo_manifest_def served_active_def Start_def launch_os_def connectWorker_def zeroWorker_def)
qed

theorem update_takes_over_witness:
  "mget (ractive updated) ''s'' = Some \<lparr>ScannerID = ''s'', Version = ''2''\<rparr> \<and>
   (\<exists>cs. dispatchCommand upgrade_core demo_texts ''/c'' \<lparr>Command = ''update'', Args = [''m'']\<rparr> =
     Some (succeed ''updated s from 1 to 2'', cs))"
proof -
  have prep: "Prepare demo_os demo_sha demo_net (Inr ''/'') ''/c'' ''m'' demo_tree = (Inr demo_release, snd demo_prepared)"
    using demo_prepared_result unfolding demo_prepared_def demo_release_def by (metis prod.collapse)
  have cwd: "\<forall>wd. (Inr ''/'' :: string + string) = Inr wd \<longrightarrow> IsAbs wd" by (simp add: IsAbs_def)
  have abs: "Abs (Inr ''/'') ''/c'' = Inr ''/c''" by code_simp
  have "map_option rtransport (mget (rworkers served) served_key) \<noteq> None" by code_simp
  then obtain v where v: "mget (rworkers served) served_key = Some v" by auto
  have id: "ScannerID served_key = ''s''" "Version served_key = ''1''" by (simp_all add: served_key_def)
  have route: "mget (ractive served) (ScannerID served_key) = Some served_key" unfolding id by (rule served_facts(4))
  have scanner: "mfScannerID (relManifest demo_release) = ScannerID served_key" unfolding id by code_simp
  have named: "\<not> blank ''m''" by code_simp
  have asked: "asked_active = runtime_turn dkill drender (ActiveRuntime (ScannerID served_key) 4) served"
    unfolding id by (rule asked_active_def)
  have answer: "last (sent asked_active) = (4, ActiveReply served_active None)" by code_simp
  have calls: "onPrepare upgrade_core ''/c'' ''m'' = Inr demo_release"
      "onActiveWorker upgrade_core (ScannerID served_key) = (served_active, map_option CallRefused None)"
      "onStartWorker upgrade_core new_worker = fst (StartWorker (answers_of (drop (length (sent asked_active)) (sent updated)))
         launch_os demo_network (ContextFirst '''') (\<lambda>_. '''') new_worker 5)"
    by (simp_all add: upgrade_core_def)
  have staged: "undisturbed demo_os (temporaryNames demo_os ''/c'' (relManifest demo_release))"
      "stable demo_os (names (relStagedPath demo_release))" by (rule demo_os_alone)+
  from update_takes_over [OF served_facts(1,5,6) route v prep cwd demo_os_alone(6) demo_wf demo_os_alone(1) abs staged
      scanner named new_worker_def served_facts(3,2) asked answer new_worker_starts [folded id(1)] updated_def calls, of demo_texts "''s''"]
  show ?thesis by (simp add: id demo_release_def demo_manifest_def)
qed

end
