(* ===== verification/Clients.thy ===== *)
theory Clients
  imports CoordinatorProps
begin

text \<open>
  The coordinator and those who call it, \<^verbatim>\<open>src/pkg/coordinator/coordinator.go\<close>: the exported
  methods, each of which sends one command over the unbuffered channel and waits for the reply,
  the goroutines that watch the worker processes, and the loop, as steps that interleave. The
  handlers are those of \<open>Coordinator\<close>. A \<^verbatim>\<open>select\<close> with several ready cases takes any of
  them, so there is a step for each; a context may end at any time.
\<close>

section \<open>The system\<close>

text \<open>
  A call is first at the check of \<^verbatim>\<open>ctx.Err\<close>, then at the \<^verbatim>\<open>select\<close> of \<^verbatim>\<open>send\<close>, then at the
  \<^verbatim>\<open>select\<close> of \<^verbatim>\<open>waitError\<close> with its reply channel, which holds at most one reply.
\<close>

datatype caller_error = CallerContext string | CallerStopped

datatype call_phase =
    Entered
  | Offering
  | Waiting "reply option"
  | Returned "caller_error + reply"

record call =
  asked :: command
  cphase :: call_phase

datatype monitor_phase = Watching | Reporting Exit | MonitorEnded

record monitor =
  watched :: WorkerKey
  mpid :: int
  mphase :: monitor_phase

text \<open>What the loop has received and not yet handled.\<close>

datatype work = ForCall nat | ForExit WorkerKey Exit

record system =
  sLoop :: state
  sBusy :: "work option"
  sStopped :: bool
  sCalls :: "call list"
  sMonitors :: "monitor list"

definition start_system :: system where
  "start_system = \<lparr>sLoop = initial, sBusy = None, sStopped = False, sCalls = [], sMonitors = []\<rparr>"

text \<open>The commands that have a method; the exit of a worker has none.\<close>

fun public :: "command \<Rightarrow> bool" where
  "public (WorkerExited k e) \<longleftrightarrow> False"
| "public _ \<longleftrightarrow> True"

definition in_phase :: "system \<Rightarrow> nat \<Rightarrow> call_phase \<Rightarrow> bool" where
  "in_phase s i p \<longleftrightarrow> i < length (sCalls s) \<and> cphase (sCalls s ! i) = p"

definition set_phase :: "nat \<Rightarrow> call_phase \<Rightarrow> system \<Rightarrow> system" where
  "set_phase i p s = s\<lparr>sCalls := (sCalls s)[i := (sCalls s ! i)\<lparr>cphase := p\<rparr>]\<rparr>"

definition monitor_in :: "system \<Rightarrow> nat \<Rightarrow> monitor_phase \<Rightarrow> bool" where
  "monitor_in s j p \<longleftrightarrow> j < length (sMonitors s) \<and> mphase (sMonitors s ! j) = p"

definition set_monitor :: "nat \<Rightarrow> monitor_phase \<Rightarrow> system \<Rightarrow> system" where
  "set_monitor j p s = s\<lparr>sMonitors := (sMonitors s)[j := (sMonitors s ! j)\<lparr>mphase := p\<rparr>]\<rparr>"

fun command_of :: "system \<Rightarrow> work \<Rightarrow> command" where
  "command_of s (ForCall i) = asked (sCalls s ! i)"
| "command_of s (ForExit k e) = WorkerExited k e"

text \<open>The reply goes to the buffer of its call, which may have given up.\<close>

fun deliver :: "work \<Rightarrow> reply \<Rightarrow> system \<Rightarrow> system" where
  "deliver (ForCall i) r s = (if in_phase s i (Waiting None) then set_phase i (Waiting (Some r)) s else s)"
| "deliver (ForExit k e) r s = s"

text \<open>A successful registration starts a monitor.\<close>

fun spawned :: "command \<Rightarrow> reply \<Rightarrow> monitor list" where
  "spawned (RegisterWorker k (Some ch)) (ErrorReply None) = [\<lparr>watched = k, mpid = pid ch, mphase = Watching\<rparr>]"
| "spawned _ _ = []"

section \<open>Steps\<close>

datatype client_label =
    Invoke nat command
  | Checked nat
  | Handoff nat
  | Execute work command reply
  | Return nat "caller_error + reply"
  | ExitSeen nat Exit
  | Reported nat
  | MonitorLeft nat
  | Stop

inductive call_trans :: "system \<Rightarrow> client_label \<Rightarrow> system \<Rightarrow> bool" where
  invoke: "public c \<Longrightarrow> call_trans s (Invoke (length (sCalls s)) c)
     (s\<lparr>sCalls := sCalls s @ [\<lparr>asked = c, cphase = Entered\<rparr>]\<rparr>)"
| checked: "in_phase s i Entered \<Longrightarrow> call_trans s (Checked i) (set_phase i Offering s)"
| ended: "in_phase s i p \<Longrightarrow> p = Entered \<or> p = Offering \<or> (\<exists>b. p = Waiting b) \<Longrightarrow>
     call_trans s (Return i (Inl (CallerContext e))) (set_phase i (Returned (Inl (CallerContext e))) s)"
| gone: "in_phase s i p \<Longrightarrow> p = Offering \<or> (\<exists>b. p = Waiting b) \<Longrightarrow> sStopped s \<Longrightarrow>
     call_trans s (Return i (Inl CallerStopped)) (set_phase i (Returned (Inl CallerStopped)) s)"
| replied: "in_phase s i (Waiting (Some r)) \<Longrightarrow>
     call_trans s (Return i (Inr r)) (set_phase i (Returned (Inr r)) s)"

inductive monitor_trans :: "system \<Rightarrow> client_label \<Rightarrow> system \<Rightarrow> bool" where
  seen: "monitor_in s j Watching \<Longrightarrow> ePID e = mpid (sMonitors s ! j) \<Longrightarrow>
     monitor_trans s (ExitSeen j e) (set_monitor j (Reporting e) s)"
| closed: "monitor_in s j Watching \<Longrightarrow> monitor_trans s (MonitorLeft j) (set_monitor j MonitorEnded s)"
| left: "monitor_in s j p \<Longrightarrow> p = Watching \<or> (\<exists>e. p = Reporting e) \<Longrightarrow> sStopped s \<Longrightarrow>
     monitor_trans s (MonitorLeft j) (set_monitor j MonitorEnded s)"
| reported: "monitor_in s j (Reporting e) \<Longrightarrow> sBusy s = None \<Longrightarrow> \<not> sStopped s \<Longrightarrow>
     monitor_trans s (Reported j)
       ((set_monitor j MonitorEnded s)\<lparr>sBusy := Some (ForExit (watched (sMonitors s ! j)) e)\<rparr>)"

inductive loop_trans :: "system \<Rightarrow> client_label \<Rightarrow> system \<Rightarrow> bool" where
  handoff: "in_phase s i Offering \<Longrightarrow> sBusy s = None \<Longrightarrow> \<not> sStopped s \<Longrightarrow>
     loop_trans s (Handoff i) ((set_phase i (Waiting None) s)\<lparr>sBusy := Some (ForCall i)\<rparr>)"
| execute: "sBusy s = Some w \<Longrightarrow> coord_trans (sLoop s) (command_of s w, r) t \<Longrightarrow>
     loop_trans s (Execute w (command_of s w) r)
       ((deliver w r s)\<lparr>sLoop := t, sBusy := None, sMonitors := sMonitors s @ spawned (command_of s w) r\<rparr>)"
| stop: "sBusy s = None \<Longrightarrow> \<not> sStopped s \<Longrightarrow> loop_trans s Stop (s\<lparr>sStopped := True\<rparr>)"

inductive clients_trans :: "system \<Rightarrow> client_label \<Rightarrow> system \<Rightarrow> bool" where
  by_caller: "call_trans s l t \<Longrightarrow> clients_trans s l t"
| by_monitor: "monitor_trans s l t \<Longrightarrow> clients_trans s l t"
| by_loop: "loop_trans s l t \<Longrightarrow> clients_trans s l t"

text \<open>A history: the labels from the start, in their order.\<close>

inductive clients_run :: "client_label list \<Rightarrow> system \<Rightarrow> bool" where
  run_start: "clients_run [] start_system"
| run_more: "clients_run es s \<Longrightarrow> clients_trans s l t \<Longrightarrow> clients_run (es @ [l]) t"

text \<open>The commands that the loop has handled, with their replies, in the order of the loop.\<close>

fun executed :: "client_label list \<Rightarrow> (command \<times> reply) list" where
  "executed [] = []"
| "executed (Execute w c r # es) = (c, r) # executed es"
| "executed (_ # es) = executed es"

section \<open>Lemmas\<close>

lemmas client_steps = clients_trans.intros call_trans.intros monitor_trans.intros loop_trans.intros

inductive_cases clients_transE: "clients_trans s l t"

definition phase_of :: "system \<Rightarrow> nat \<Rightarrow> call_phase option" where
  "phase_of s i = (if i < length (sCalls s) then Some (cphase (sCalls s ! i)) else None)"

definition asked_of :: "system \<Rightarrow> nat \<Rightarrow> command option" where
  "asked_of s i = (if i < length (sCalls s) then Some (asked (sCalls s ! i)) else None)"

lemma in_phase_view: "in_phase s i p \<longleftrightarrow> phase_of s i = Some p"
  by (simp add: in_phase_def phase_of_def)

lemma set_phase_simps [simp]:
  "sLoop (set_phase i p s) = sLoop s" "sBusy (set_phase i p s) = sBusy s"
  "sStopped (set_phase i p s) = sStopped s" "sMonitors (set_phase i p s) = sMonitors s"
  "asked_of (set_phase i p s) = asked_of s" "length (sCalls (set_phase i p s)) = length (sCalls s)"
  proof -
  have "asked ((sCalls s)[i := (sCalls s ! i)\<lparr>cphase := p\<rparr>] ! j) = asked (sCalls s ! j)" if "j < length (sCalls s)" for j
    using that by (cases "j = i") simp_all
  then show "asked_of (set_phase i p s) = asked_of s" by (simp add: asked_of_def fun_eq_iff set_phase_def)
qed (simp_all add: set_phase_def)

lemma set_monitor_simps [simp]:
  "sLoop (set_monitor j p s) = sLoop s" "sBusy (set_monitor j p s) = sBusy s"
  "sStopped (set_monitor j p s) = sStopped s" "sCalls (set_monitor j p s) = sCalls s"
  by (simp_all add: set_monitor_def)

lemma phase_set_phase: "phase_of s i = Some q \<Longrightarrow> phase_of (set_phase i p s) = (phase_of s)(i := Some p)"
  by (auto simp: phase_of_def set_phase_def fun_eq_iff split: if_splits)

lemma view_cong: "sCalls s = sCalls t \<Longrightarrow> phase_of s = phase_of t \<and> asked_of s = asked_of t"
  by (simp add: phase_of_def asked_of_def fun_eq_iff)

lemma view_updates [simp]:
  "phase_of (s\<lparr>sBusy := b\<rparr>) = phase_of s" "asked_of (s\<lparr>sBusy := b\<rparr>) = asked_of s"
  "phase_of (s\<lparr>sStopped := x\<rparr>) = phase_of s" "asked_of (s\<lparr>sStopped := x\<rparr>) = asked_of s"
  "phase_of (s\<lparr>sLoop := l\<rparr>) = phase_of s" "asked_of (s\<lparr>sLoop := l\<rparr>) = asked_of s"
  "phase_of (s\<lparr>sMonitors := m\<rparr>) = phase_of s" "asked_of (s\<lparr>sMonitors := m\<rparr>) = asked_of s"
  "phase_of (set_monitor j p s) = phase_of s" "asked_of (set_monitor j p s) = asked_of s"
  by (rule conjunct1 [OF view_cong] conjunct2 [OF view_cong], simp)+

lemma view_invoke:
  "phase_of (s\<lparr>sCalls := sCalls s @ [x]\<rparr>) = (phase_of s)(length (sCalls s) := Some (cphase x))"
  "asked_of (s\<lparr>sCalls := sCalls s @ [x]\<rparr>) = (asked_of s)(length (sCalls s) := Some (asked x))"
  by (auto simp: phase_of_def asked_of_def fun_eq_iff nth_append)

lemma view_fresh [simp]: "phase_of s (length (sCalls s)) = None" "asked_of s (length (sCalls s)) = None"
  by (simp_all add: phase_of_def asked_of_def)

lemma deliver_simps [simp]:
  "sLoop (deliver w r s) = sLoop s" "sStopped (deliver w r s) = sStopped s"
  "asked_of (deliver w r s) = asked_of s"
  by (cases w; simp)+

lemma phase_deliver:
  "phase_of (deliver w r s) = (case w of ForExit k e \<Rightarrow> phase_of s
     | ForCall i \<Rightarrow> if phase_of s i = Some (Waiting None) then (phase_of s)(i := Some (Waiting (Some r))) else phase_of s)"
  by (cases w) (simp_all add: in_phase_view phase_set_phase)

lemma executed_append [simp]: "executed (es @ fs) = executed es @ executed fs"
  by (induction es rule: executed.induct) auto

lemma clients_run_split:
  assumes "clients_run es s" "es = us @ l # vs"
  obtains t u where "clients_run us t" "clients_trans t l u" "clients_run (us @ [l]) u"
  using assms
proof (induction arbitrary: vs thesis rule: clients_run.induct)
  case run_start
  then show ?case by simp
next
  case (run_more es s l' t)
  show ?case
  proof (cases vs rule: rev_cases)
    case Nil
    with run_more show ?thesis by (auto intro: clients_run.run_more)
  next
    case (snoc ws l'')
    with run_more show ?thesis by auto
  qed
qed

section \<open>What the labels say of a state\<close>

definition executed_call :: "client_label list \<Rightarrow> nat \<Rightarrow> bool" where
  "executed_call es i \<longleftrightarrow> (\<exists>c r. Execute (ForCall i) c r \<in> set es)"

definition labels_ok :: "client_label list \<Rightarrow> system \<Rightarrow> bool" where
  "labels_ok es s \<longleftrightarrow>
     (\<forall>i c. Invoke i c \<in> set es \<longleftrightarrow> asked_of s i = Some c) \<and>
     (\<forall>i. Handoff i \<in> set es \<longrightarrow> phase_of s i \<noteq> None \<and> phase_of s i \<noteq> Some Entered \<and> phase_of s i \<noteq> Some Offering) \<and>
     (\<forall>i. executed_call es i \<longrightarrow> Handoff i \<in> set es) \<and>
     (\<forall>i. sBusy s = Some (ForCall i) \<longrightarrow> Handoff i \<in> set es \<and> \<not> executed_call es i) \<and>
     (\<forall>i. phase_of s i = Some (Waiting None) \<longrightarrow> sBusy s = Some (ForCall i)) \<and>
     (\<forall>i r. phase_of s i = Some (Waiting (Some r)) \<or> phase_of s i = Some (Returned (Inr r)) \<longrightarrow>
        (\<exists>c. Execute (ForCall i) c r \<in> set es)) \<and>
     (\<forall>i x. Return i x \<in> set es \<longrightarrow> phase_of s i = Some (Returned x)) \<and>
     (sStopped s \<longleftrightarrow> Stop \<in> set es)"

lemma labels_okD:
  assumes "labels_ok es s"
  shows "Invoke i c \<in> set es \<longleftrightarrow> asked_of s i = Some c"
    and "Handoff i \<in> set es \<Longrightarrow> phase_of s i \<noteq> None \<and> phase_of s i \<noteq> Some Entered \<and> phase_of s i \<noteq> Some Offering"
    and "executed_call es i \<Longrightarrow> Handoff i \<in> set es"
    and "sBusy s = Some (ForCall i) \<Longrightarrow> Handoff i \<in> set es \<and> \<not> executed_call es i"
    and "phase_of s i = Some (Waiting None) \<Longrightarrow> sBusy s = Some (ForCall i)"
    and "phase_of s i = Some (Waiting (Some r)) \<or> phase_of s i = Some (Returned (Inr r)) \<Longrightarrow>
        \<exists>c. Execute (ForCall i) c r \<in> set es"
    and "Return i x \<in> set es \<Longrightarrow> phase_of s i = Some (Returned x)"
    and "sStopped s \<longleftrightarrow> Stop \<in> set es"
  using assms unfolding labels_ok_def by blast+

lemma executed_call_snoc [simp]:
  "executed_call (es @ [l]) i \<longleftrightarrow> executed_call es i \<or> (\<exists>c r. l = Execute (ForCall i) c r)"
  by (auto simp: executed_call_def)

lemma call_trans_labels:
  assumes "call_trans s l t" "labels_ok es s"
  shows "labels_ok (es @ [l]) t"
  using assms(1)
proof cases
  case (invoke c)
  note ok = labels_okD [OF assms(2)]
  have "\<not> executed_call es (length (sCalls s))" "Handoff (length (sCalls s)) \<notin> set es"
      "Return (length (sCalls s)) x \<notin> set es" for x
    using ok(2,3,7) [of "length (sCalls s)"] by auto
  with ok show ?thesis
    unfolding labels_ok_def invoke by (simp add: view_invoke) blast
next
  case (checked i)
  from checked(3) have p: "phase_of s i = Some Entered" by (simp add: in_phase_view)
  with labels_okD [OF assms(2)] show ?thesis
    unfolding labels_ok_def checked(1,2) phase_set_phase [OF p] by auto
next
  case (ended i p e)
  from ended(3) have p: "phase_of s i = Some p" by (simp add: in_phase_view)
  with labels_okD [OF assms(2)] ended(4) show ?thesis
    unfolding labels_ok_def ended(1,2) phase_set_phase [OF p] by auto
next
  case (gone i p)
  from gone(3) have p: "phase_of s i = Some p" by (simp add: in_phase_view)
  with labels_okD [OF assms(2)] gone(4) show ?thesis
    unfolding labels_ok_def gone(1,2) phase_set_phase [OF p] by auto
next
  case (replied i r)
  from replied(3) have p: "phase_of s i = Some (Waiting (Some r))" by (simp add: in_phase_view)
  with labels_okD [OF assms(2)] show ?thesis
    unfolding labels_ok_def replied(1,2) phase_set_phase [OF p] by auto
qed

lemma monitor_trans_labels:
  assumes "monitor_trans s l t" "labels_ok es s"
  shows "labels_ok (es @ [l]) t"
  using assms(1)
proof cases
  case (seen j e)
  with labels_okD [OF assms(2)] show ?thesis unfolding labels_ok_def seen by auto
next
  case (closed j)
  with labels_okD [OF assms(2)] show ?thesis unfolding labels_ok_def closed by auto
next
  case (left j p)
  with labels_okD [OF assms(2)] show ?thesis unfolding labels_ok_def left by auto
next
  case (reported j e)
  with labels_okD [OF assms(2)] show ?thesis unfolding labels_ok_def reported by auto
qed

lemma loop_trans_labels:
  assumes "loop_trans s l t" "labels_ok es s"
  shows "labels_ok (es @ [l]) t"
  using assms(1)
proof cases
  case (handoff i)
  from handoff(3) have p: "phase_of s i = Some Offering" by (simp add: in_phase_view)
  with labels_okD [OF assms(2)] handoff(4) show ?thesis
    unfolding labels_ok_def handoff(1,2) phase_set_phase [OF p] view_updates by auto
next
  case (execute w r u)
  note ok = labels_okD [OF assms(2)]
  have t: "asked_of t = asked_of s" "sBusy t = None" "sStopped t = sStopped s" unfolding execute(2) by simp_all
  have ph: "phase_of t = phase_of (deliver w r s)" unfolding execute(2) by simp
  show ?thesis
  proof (cases w)
    case (ForExit k e)
    have "phase_of t = phase_of s" using ph ForExit by simp
    with ok execute(3) [unfolded ForExit] show ?thesis
      unfolding labels_ok_def t execute(1) ForExit by (intro conjI allI) (simp_all, blast+)
  next
    case (ForCall i)
    note busy = ok(4) [OF execute(3) [unfolded ForCall]]
    have ph: "phase_of t j = (if j = i \<and> phase_of s i = Some (Waiting None) then Some (Waiting (Some r)) else phase_of s j)" for j
      using ph ForCall by (simp add: phase_deliver del: deliver.simps)
    have "Handoff j \<in> set es \<Longrightarrow> phase_of t j \<noteq> None \<and> phase_of t j \<noteq> Some Entered \<and> phase_of t j \<noteq> Some Offering" for j
      using ok(2) [of j] by (simp add: ph)
    moreover have "executed_call (es @ [l]) j \<Longrightarrow> Handoff j \<in> set es" for j
      using ok(3) [of j] busy by (auto simp: execute(1) ForCall)
    moreover have "phase_of t j \<noteq> Some (Waiting None)" for j
      using ok(5) [of j] execute(3) by (auto simp: ph ForCall)
    moreover have "\<exists>c. Execute (ForCall j) c r' \<in> set (es @ [l])"
      if "phase_of t j = Some (Waiting (Some r')) \<or> phase_of t j = Some (Returned (Inr r'))" for j r'
    proof (cases "j = i \<and> phase_of s i = Some (Waiting None)")
      case True
      with that show ?thesis by (auto simp: ph execute(1) ForCall)
    next
      case False
      with that have "phase_of s j = Some (Waiting (Some r')) \<or> phase_of s j = Some (Returned (Inr r'))" by (simp only: ph if_False)
      from ok(6) [OF this] show ?thesis by auto
    qed
    moreover have "Return j x \<in> set es \<Longrightarrow> phase_of t j = Some (Returned x)" for j x
      using ok(7) [of j x] by (auto simp: ph)
    ultimately show ?thesis
      using ok(1,8) unfolding labels_ok_def t execute(1) ForCall by (simp del: command_of.simps)
  qed
next
  case stop
  with labels_okD [OF assms(2)] show ?thesis unfolding labels_ok_def stop(1,2) by auto
qed

lemma clients_run_labels: "clients_run es s \<Longrightarrow> labels_ok es s"
proof (induction rule: clients_run.induct)
  case run_start
  show ?case by (simp add: labels_ok_def start_system_def phase_of_def asked_of_def executed_call_def)
next
  case (run_more es s l t)
  from run_more.hyps(2) show ?case
    by (rule clients_transE)
      (rule call_trans_labels monitor_trans_labels loop_trans_labels; assumption?; rule run_more.IH)+
qed

lemma coord_runs_snoc: "coord_runs s es t \<Longrightarrow> coord_trans t e u \<Longrightarrow> coord_runs s (es @ [e]) u"
  by (induction rule: runs.induct) (auto simp: runs_Cons_iff)

text \<open>Only the execution of a command changes the state of the coordinator.\<close>

lemma clients_trans_loop:
  assumes "clients_trans s l t"
  shows "(executed [l] = [] \<and> sLoop t = sLoop s) \<or> (\<exists>c r. executed [l] = [(c, r)] \<and> coord_trans (sLoop s) (c, r) (sLoop t))"
  using assms by (auto elim!: clients_transE call_trans.cases monitor_trans.cases loop_trans.cases)

lemma clients_run_executed: "clients_run es s \<Longrightarrow> coord_runs initial (executed es) (sLoop s)"
proof (induction rule: clients_run.induct)
  case run_start
  show ?case by (simp add: start_system_def)
next
  case (run_more es s l t)
  from clients_trans_loop [OF run_more.hyps(2)] run_more.IH show ?case
    by (auto intro: coord_runs_snoc)
qed

lemma clients_run_idle: "clients_run es s \<Longrightarrow> sStopped s \<Longrightarrow> sBusy s = None"
proof (induction rule: clients_run.induct)
  case run_start
  then show ?case by (simp add: start_system_def)
next
  case (run_more es s l t)
  from run_more.hyps(2) run_more.prems run_more.IH show ?case
    by (auto elim!: clients_transE call_trans.cases monitor_trans.cases loop_trans.cases)
qed

lemma handoff_phase: "clients_trans s (Handoff i) t \<Longrightarrow> phase_of s i = Some Offering"
  by (auto elim!: clients_transE elim: call_trans.cases monitor_trans.cases loop_trans.cases simp: in_phase_view)

lemma execute_busy:
  "clients_trans s (Execute w c r) t \<Longrightarrow> sBusy s = Some w \<and> c = command_of s w \<and>
    coord_trans (sLoop s) (c, r) (sLoop t)"
  by (auto elim!: clients_transE elim: call_trans.cases monitor_trans.cases loop_trans.cases)

lemma return_phase:
  "clients_trans s (Return i x) t \<Longrightarrow>
    case x of Inr r \<Rightarrow> phase_of s i = Some (Waiting (Some r))
     | Inl CallerStopped \<Rightarrow> sStopped s | Inl _ \<Rightarrow> True"
  by (auto elim!: clients_transE elim: call_trans.cases monitor_trans.cases loop_trans.cases simp: in_phase_view)

lemma returned_executed:
  assumes "labels_ok es s" "Return i (Inr r) \<in> set es"
  shows "executed_call es i"
  using labels_okD(6) [OF assms(1), of i r] labels_okD(7) [OF assms(1) assms(2)] by (auto simp: executed_call_def)

section \<open>A run of concrete labels\<close>

fun next_system :: "kill \<Rightarrow> system \<Rightarrow> client_label \<Rightarrow> system option" where
  "next_system kill s (Invoke i c) = (if public c \<and> i = length (sCalls s)
     then Some (s\<lparr>sCalls := sCalls s @ [\<lparr>asked = c, cphase = Entered\<rparr>]\<rparr>) else None)"
| "next_system kill s (Checked i) = (if in_phase s i Entered then Some (set_phase i Offering s) else None)"
| "next_system kill s (Handoff i) = (if in_phase s i Offering \<and> sBusy s = None \<and> \<not> sStopped s
     then Some ((set_phase i (Waiting None) s)\<lparr>sBusy := Some (ForCall i)\<rparr>) else None)"
| "next_system kill s (Execute w c r) = (let (r', t) = coord_step kill c (sLoop s) in
     if sBusy s = Some w \<and> c = command_of s w \<and> r' = r
     then Some ((deliver w r s)\<lparr>sLoop := t, sBusy := None, sMonitors := sMonitors s @ spawned c r\<rparr>) else None)"
| "next_system kill s (Return i (Inr r)) =
     (if in_phase s i (Waiting (Some r)) then Some (set_phase i (Returned (Inr r)) s) else None)"
| "next_system kill s (Return i (Inl (CallerContext e))) =
     (if in_phase s i Entered \<or> in_phase s i Offering \<or> in_phase s i (Waiting None)
      then Some (set_phase i (Returned (Inl (CallerContext e))) s) else None)"
| "next_system kill s (Return i (Inl CallerStopped)) =
     (if sStopped s \<and> (in_phase s i Offering \<or> in_phase s i (Waiting None))
      then Some (set_phase i (Returned (Inl CallerStopped)) s) else None)"
| "next_system kill s (ExitSeen j e) = (if monitor_in s j Watching \<and> ePID e = mpid (sMonitors s ! j)
     then Some (set_monitor j (Reporting e) s) else None)"
| "next_system kill s (Reported j) = (case mphase (sMonitors s ! j) of
     Reporting e \<Rightarrow> if j < length (sMonitors s) \<and> sBusy s = None \<and> \<not> sStopped s
       then Some ((set_monitor j MonitorEnded s)\<lparr>sBusy := Some (ForExit (watched (sMonitors s ! j)) e)\<rparr>) else None
   | _ \<Rightarrow> None)"
| "next_system kill s (MonitorLeft j) = (if monitor_in s j Watching then Some (set_monitor j MonitorEnded s) else None)"
| "next_system kill s Stop = (if sBusy s = None \<and> \<not> sStopped s then Some (s\<lparr>sStopped := True\<rparr>) else None)"

lemma next_system_trans: "next_system kill s l = Some t \<Longrightarrow> clients_trans s l t"
proof (induction kill s l rule: next_system.induct)
  case (4 kill s w c r)
  obtain r' u where step: "coord_step kill c (sLoop s) = (r', u)" by (cases "coord_step kill c (sLoop s)")
  then have "coord_trans (sLoop s) (c, r') u" by (rule turn [OF same_state_refl])
  with 4 step show ?case by (auto intro: client_steps split: if_splits)
next
  case (9 kill s j)
  then show ?case by (auto simp: monitor_in_def intro!: by_monitor reported split: monitor_phase.splits if_splits)
qed (auto intro: client_steps split: if_splits)

fun run_system :: "kill \<Rightarrow> client_label list \<Rightarrow> system \<Rightarrow> system option" where
  "run_system kill [] s = Some s"
| "run_system kill (l # ls) s = (case next_system kill s l of None \<Rightarrow> None | Some t \<Rightarrow> run_system kill ls t)"

lemma run_system_run: "run_system kill ls s = Some t \<Longrightarrow> clients_run es s \<Longrightarrow> clients_run (es @ ls) t"
proof (induction ls arbitrary: es s)
  case Nil
  then show ?case by simp
next
  case (Cons l ls)
  then obtain u where "next_system kill s l = Some u" "run_system kill ls u = Some t" by (auto split: option.splits)
  with Cons.IH [of u "es @ [l]"] Cons.prems(2) show ?case by (simp add: next_system_trans run_more)
qed

text \<open>
  One caller registers a worker and another one gives up while its command is handled; the
  process exits, and after the stop of the loop a third caller is turned away.
\<close>

definition demo_labels :: "client_label list" where
  "demo_labels = (let reg = RegisterWorker demo_old (Some (demo_child 11)) in
     [Invoke 0 reg, Invoke 1 (MarkHealthy demo_old), Checked 1, Checked 0, Handoff 0,
      Execute (ForCall 0) reg (ErrorReply None), Handoff 1, Return 1 (Inl (CallerContext ''deadline'')),
      Return 0 (Inr (ErrorReply None)), Execute (ForCall 1) (MarkHealthy demo_old) (ErrorReply None),
      ExitSeen 0 demo_exit, Reported 0, Execute (ForExit demo_old demo_exit) (WorkerExited demo_old demo_exit) NoReply,
      Invoke 2 TakeSnapshot, Checked 2, Stop, Return 2 (Inl CallerStopped)])"

definition demo_system :: system where
  "demo_system = the (run_system demo_kill demo_labels start_system)"

lemma demo_clients: "clients_run demo_labels demo_system"
proof -
  have "run_system demo_kill demo_labels start_system \<noteq> None" by code_simp
  then have "run_system demo_kill demo_labels start_system = Some demo_system" by (auto simp: demo_system_def)
  from run_system_run [OF this run_start] show ?thesis by simp
qed

section \<open>Calls are atomic\<close>

text \<open>
  C10. The coordinator is linearizable. Whatever the callers, the monitors and the contexts do,
  the state of the loop is the result of handling the executed commands one after the other from
  the empty state, with exactly the replies they had; a method that returns a reply has been
  executed, with that reply, before it returns; and a command is executed for a call only after
  that call began with that command, at most once, and before the call returns a reply. So each
  answered call takes effect at one moment between its beginning and its return.
\<close>

theorem calls_linearizable:
  assumes "clients_run es s"
  shows "coord_runs initial (executed es) (sLoop s) \<and>
    (\<forall>us vs i r. es = us @ Return i (Inr r) # vs \<longrightarrow> (\<exists>c. Execute (ForCall i) c r \<in> set us)) \<and>
    (\<forall>us vs i c r. es = us @ Execute (ForCall i) c r # vs \<longrightarrow> Invoke i c \<in> set us \<and>
      (\<forall>c' r'. Execute (ForCall i) c' r' \<notin> set us) \<and> (\<forall>r'. Return i (Inr r') \<notin> set us))"
proof (intro conjI allI impI)
  show "coord_runs initial (executed es) (sLoop s)" by (rule clients_run_executed [OF assms])
next
  fix us vs i r assume "es = us @ Return i (Inr r) # vs"
  from clients_run_split [OF assms this] obtain t u where
    "clients_run us t" "clients_trans t (Return i (Inr r)) u" .
  then show "\<exists>c. Execute (ForCall i) c r \<in> set us"
    using labels_okD(6) [OF clients_run_labels, of us t i r] return_phase by fastforce
next
  fix us vs i c r assume "es = us @ Execute (ForCall i) c r # vs"
  from clients_run_split [OF assms this] obtain t u where
    t: "clients_run us t" and u: "clients_trans t (Execute (ForCall i) c r) u" .
  note ok = clients_run_labels [OF t]
  from execute_busy [OF u] have busy: "sBusy t = Some (ForCall i)" and c: "c = asked (sCalls t ! i)" by simp_all
  note handed = labels_okD(4) [OF ok busy]
  from labels_okD(2) [OF ok conjunct1 [OF handed]] have "asked_of t i = Some c"
    by (auto simp: c phase_of_def asked_of_def split: if_splits)
  then show "Invoke i c \<in> set us" by (simp add: labels_okD(1) [OF ok])
  show "Execute (ForCall i) c' r' \<notin> set us" for c' r'
    using handed by (auto simp: executed_call_def)
  show "Return i (Inr r') \<notin> set us" for r'
    using handed returned_executed [OF ok] by blast
qed

theorem calls_linearizable_witness:
  "coord_runs initial [(RegisterWorker demo_old (Some (demo_child 11)), ErrorReply None),
     (MarkHealthy demo_old, ErrorReply None), (WorkerExited demo_old demo_exit, NoReply)] (sLoop demo_system) \<and>
   coord_states (sLoop demo_system) demo_old = Some WorkerFailed"
proof -
  have "coord_states (sLoop demo_system) demo_old = Some WorkerFailed" by code_simp
  moreover have "executed demo_labels = [(RegisterWorker demo_old (Some (demo_child 11)), ErrorReply None),
      (MarkHealthy demo_old, ErrorReply None), (WorkerExited demo_old demo_exit, NoReply)]"
    by (simp add: demo_labels_def Let_def)
  ultimately show ?thesis using calls_linearizable [OF demo_clients] by simp
qed

text \<open>
  C13. What an error of a method says. A call that returned an error before the loop took its
  command is never executed; \<^verbatim>\<open>ErrStopped\<close> is returned only after the loop has stopped; and
  after that no command is executed any more, so a call that it finds waiting without a reply has
  no effect later.
\<close>

theorem failed_calls:
  assumes "clients_run es s"
  shows "(\<forall>us vs i e. es = us @ Return i (Inl e) # vs \<longrightarrow>
      (Handoff i \<notin> set us \<longrightarrow> (\<forall>c r. Execute (ForCall i) c r \<notin> set es)) \<and> (e = CallerStopped \<longrightarrow> Stop \<in> set us)) \<and>
    (\<forall>us vs. es = us @ Stop # vs \<longrightarrow> (\<forall>w c r. Execute w c r \<notin> set vs))"
proof (intro conjI allI impI)
  fix us vs i e assume es: "es = us @ Return i (Inl e) # vs"
  from clients_run_split [OF assms es] obtain t u where
    t: "clients_run us t" and u: "clients_trans t (Return i (Inl e)) u" .
  {
    assume "e = CallerStopped"
    with return_phase [OF u] labels_okD(8) [OF clients_run_labels [OF t]] show "Stop \<in> set us" by simp
  }
  fix c r assume fresh: "Handoff i \<notin> set us"
  have "Handoff i \<notin> set vs"
  proof
    assume "Handoff i \<in> set vs"
    then obtain as bs where "vs = as @ Handoff i # bs" by (auto simp: in_set_conv_decomp)
    with es have "es = (us @ Return i (Inl e) # as) @ Handoff i # bs" by simp
    from clients_run_split [OF assms this] obtain t' u' where
      "clients_run (us @ Return i (Inl e) # as) t'" "clients_trans t' (Handoff i) u'" .
    from handoff_phase [OF this(2)] labels_okD(7) [OF clients_run_labels [OF this(1)], of i "Inl e"]
    show False by simp
  qed
  with fresh es have "Handoff i \<notin> set es" by simp
  then show "Execute (ForCall i) c r \<notin> set es"
    using labels_okD(3) [OF clients_run_labels [OF assms], of i] by (auto simp: executed_call_def)
next
  fix us vs w c r assume es: "es = us @ Stop # vs"
  show "Execute w c r \<notin> set vs"
  proof
    assume "Execute w c r \<in> set vs"
    then obtain as bs where "vs = as @ Execute w c r # bs" by (auto simp: in_set_conv_decomp)
    with es have "es = (us @ Stop # as) @ Execute w c r # bs" by simp
    from clients_run_split [OF assms this] obtain t u where
      t: "clients_run (us @ Stop # as) t" and u: "clients_trans t (Execute w c r) u" .
    from labels_okD(8) [OF clients_run_labels [OF t]] have "sStopped t" by simp
    with clients_run_idle [OF t] execute_busy [OF u] show False by simp
  qed
qed

theorem failed_calls_witness:
  "Execute (ForCall 2) TakeSnapshot (SnapshotReply (makeSnapshot (sLoop demo_system))) \<notin> set demo_labels"
proof -
  have "demo_labels = take 16 demo_labels @ Return 2 (Inl CallerStopped) # []"
      "Handoff 2 \<notin> set (take 16 demo_labels)"
    by (simp_all add: demo_labels_def Let_def)
  with failed_calls [OF demo_clients] show ?thesis by blast
qed

section \<open>No call is stuck\<close>

text \<open>What moves the call \<open>i\<close> forward: its own steps without its context, and the loop.\<close>

fun own_label :: "nat \<Rightarrow> client_label \<Rightarrow> bool" where
  "own_label i (Checked j) \<longleftrightarrow> j = i"
| "own_label i (Handoff j) \<longleftrightarrow> j = i"
| "own_label i (Return j x) \<longleftrightarrow> j = i \<and> (x = Inl CallerStopped \<or> \<not> isl x)"
| "own_label i (Execute w c r) \<longleftrightarrow> True"
| "own_label i _ \<longleftrightarrow> False"

definition returns :: "system \<Rightarrow> nat \<Rightarrow> nat \<Rightarrow> caller_error + reply \<Rightarrow> bool" where
  "returns s i n x \<longleftrightarrow> (\<exists>ls t. length ls \<le> n \<and> runs clients_trans s ls t \<and>
     phase_of t i = Some (Returned x) \<and> (\<forall>l \<in> set ls. own_label i l))"

lemma returns_now: "phase_of s i = Some (Returned x) \<Longrightarrow> returns s i n x"
  unfolding returns_def by (intro exI [of _ "[]"] exI [of _ s]) simp

lemma returns_mono: "returns s i m x \<Longrightarrow> m \<le> n \<Longrightarrow> returns s i n x"
  unfolding returns_def by (metis le_trans)

lemma returns_step: "clients_trans s l t \<Longrightarrow> own_label i l \<Longrightarrow> returns t i n x \<Longrightarrow> returns s i (Suc n) x"
  unfolding returns_def
proof (elim exE conjE)
  fix ls u
  assume "clients_trans s l t" "own_label i l" "length ls \<le> n" "runs clients_trans t ls u"
    "phase_of u i = Some (Returned x)" "\<forall>l \<in> set ls. own_label i l"
  then show "\<exists>ls u. length ls \<le> Suc n \<and> runs clients_trans s ls u \<and>
      phase_of u i = Some (Returned x) \<and> (\<forall>l \<in> set ls. own_label i l)"
    by (intro exI [of _ "l # ls"] exI [of _ u]) (auto intro: run_cons)
qed

lemma returns_answered: "phase_of s i = Some (Waiting (Some r)) \<Longrightarrow> returns s i 1 (Inr r)"
  using returns_step [OF by_caller [OF replied [of s i r]], of i 0 "Inr r"]
  by (simp add: in_phase_view returns_now phase_set_phase)

lemma returns_gone: "phase_of s i = Some Offering \<Longrightarrow> sStopped s \<Longrightarrow> returns s i 1 (Inl CallerStopped)"
  using returns_step [OF by_caller [OF gone [of s i Offering]], of i 0 "Inl CallerStopped"]
  by (simp add: in_phase_view returns_now phase_set_phase)

text \<open>Every command has an answer, so a busy loop can go on; there is room for every reply.\<close>

lemma execute_step:
  assumes "sBusy s = Some w"
  obtains r t where "clients_trans s (Execute w (command_of s w) r) t" "sBusy t = None"
    "sStopped t = sStopped s" "phase_of t = phase_of (deliver w r s)"
proof -
  obtain r u where "coord_step demo_kill (command_of s w) (sLoop s) = (r, u)"
    by (cases "coord_step demo_kill (command_of s w) (sLoop s)")
  then have "coord_trans (sLoop s) (command_of s w, r) u" by (rule turn [OF same_state_refl])
  from that [OF by_loop [OF execute [OF assms this]]] show thesis by simp
qed

lemma returns_served:
  assumes "sBusy s = Some (ForCall i)" "phase_of s i = Some (Waiting None)"
  shows "\<exists>r. returns s i 2 (Inr r)"
proof -
  obtain r t where t: "clients_trans s (Execute (ForCall i) (command_of s (ForCall i)) r) t"
      "phase_of t = phase_of (deliver (ForCall i) r s)" using execute_step [OF assms(1)] by metis
  from t(2) assms(2) have "phase_of t i = Some (Waiting (Some r))" by (simp add: phase_deliver del: deliver.simps)
  from returns_step [OF t(1) _ returns_answered [OF this]] show ?thesis by (auto simp: numeral_2_eq_2)
qed

lemma returns_idle:
  assumes "phase_of s i = Some Offering" "sBusy s = None" "\<not> sStopped s"
  shows "\<exists>r. returns s i 3 (Inr r)"
proof -
  let ?t = "(set_phase i (Waiting None) s)\<lparr>sBusy := Some (ForCall i)\<rparr>"
  have "clients_trans s (Handoff i) ?t"
    using assms by (intro by_loop handoff) (simp_all add: in_phase_view)
  moreover have "\<exists>r. returns ?t i 2 (Inr r)"
    using assms(1) by (intro returns_served) (simp_all add: phase_set_phase)
  ultimately show ?thesis using returns_step [of s "Handoff i" ?t i 2] by (auto simp: numeral_3_eq_3 numeral_2_eq_2)
qed

lemma returns_offering:
  assumes "phase_of s i = Some Offering"
  shows "\<exists>x. returns s i 4 x \<and> (if sStopped s then x = Inl CallerStopped else \<not> isl x)"
proof (cases "sStopped s")
  case True
  have "returns s i 4 (Inl CallerStopped)" by (rule returns_mono [OF returns_gone [OF assms True]]) simp
  with True show ?thesis by simp
next
  case running: False
  show ?thesis
  proof (cases "sBusy s")
    case None
    from returns_idle [OF assms None running] obtain r where "returns s i 3 (Inr r)" ..
    then have "returns s i 4 (Inr r)" by (rule returns_mono) simp
    with running show ?thesis by auto
  next
    case (Some w)
    obtain r t where t: "clients_trans s (Execute w (command_of s w) r) t" "sBusy t = None"
        "sStopped t = sStopped s" "phase_of t = phase_of (deliver w r s)"
      using execute_step [OF Some] by metis
    from t(4) assms have "phase_of t i = Some Offering"
      by (auto simp: phase_deliver simp del: deliver.simps split: work.split)
    from returns_idle [OF this t(2)] t(3) running obtain r' where "returns t i 3 (Inr r')" by auto
    from returns_step [OF t(1) _ this] running show ?thesis by (auto simp: numeral_eq_Suc)
  qed
qed

text \<open>
  C12. No call is stuck. From every state of every run, a method that has not returned can do so
  within five steps of its own and of the loop, without its context ending: with a reply while
  the loop runs, and with \<^verbatim>\<open>ErrStopped\<close>, or with the reply that is already there, after it has
  stopped. The loop never waits for a caller, for each reply channel has room for its one reply.
\<close>

theorem calls_return:
  assumes "clients_run es s" "phase_of s i = Some p" "\<forall>x. p \<noteq> Returned x"
  shows "\<exists>ls t x. length ls \<le> 5 \<and> runs clients_trans s ls t \<and> (\<forall>l \<in> set ls. own_label i l) \<and>
    phase_of t i = Some (Returned x) \<and>
    (if sStopped s \<and> (p = Entered \<or> p = Offering) then x = Inl CallerStopped else \<not> isl x)"
proof -
  have "\<exists>x. returns s i 5 x \<and> (if sStopped s \<and> (p = Entered \<or> p = Offering) then x = Inl CallerStopped else \<not> isl x)"
  proof (cases p)
    case Entered
    let ?t = "set_phase i Offering s"
    have "clients_trans s (Checked i) ?t" using assms(2) Entered by (intro by_caller checked) (simp add: in_phase_view)
    moreover obtain x where x: "returns ?t i 4 x" "if sStopped s then x = Inl CallerStopped else \<not> isl x"
      using returns_offering [of ?t i] assms(2) by (auto simp: phase_set_phase)
    ultimately have "returns s i 5 x" using returns_step [of s "Checked i" ?t i 4 x] by (simp add: numeral_eq_Suc)
    with x(2) Entered show ?thesis by (intro exI [of _ x]) simp
  next
    case Offering
    with returns_offering [of s i] assms(2) obtain x where
      "returns s i 4 x" "if sStopped s then x = Inl CallerStopped else \<not> isl x" by auto
    with Offering returns_mono [of s i 4 x 5] show ?thesis by (intro exI [of _ x]) simp
  next
    case (Waiting b)
    show ?thesis
    proof (cases b)
      case None
      with Waiting assms(2) labels_okD(5) [OF clients_run_labels [OF assms(1)], of i]
      obtain r where "returns s i 2 (Inr r)" using returns_served [of s i] by auto
      with Waiting returns_mono [of s i 2 "Inr r" 5] show ?thesis by (intro exI [of _ "Inr r"]) simp
    next
      case (Some r)
      with Waiting assms(2) have "returns s i 1 (Inr r)" by (intro returns_answered) simp
      with Waiting returns_mono [of s i 1 "Inr r" 5] show ?thesis by (intro exI [of _ "Inr r"]) simp
    qed
  next
    case (Returned x)
    with assms(3) show ?thesis by blast
  qed
  then show ?thesis unfolding returns_def by blast
qed

theorem calls_return_witness:
  "\<exists>ls t. length ls \<le> 5 \<and> runs clients_trans (the (run_system demo_kill (take 2 demo_labels) start_system)) ls t \<and>
     (\<exists>r. phase_of t 0 = Some (Returned (Inr r)))"
proof -
  let ?s = "the (run_system demo_kill (take 2 demo_labels) start_system)"
  have "run_system demo_kill (take 2 demo_labels) start_system = Some ?s" "phase_of ?s 0 = Some Entered" "\<not> sStopped ?s"
    by code_simp+
  from calls_return [OF run_system_run [OF this(1) run_start] this(2)] this(3)
  show ?thesis by (auto simp: isl_def) (metis obj_sumE)
qed

section \<open>Exits\<close>

text \<open>A worker that is registered stays registered with the id of its process.\<close>

definition worker_pid :: "state \<Rightarrow> WorkerKey \<Rightarrow> int option" where
  "worker_pid s k = map_option wpid (mget (workers s) k)"

definition pids_kept :: "state \<Rightarrow> state \<Rightarrow> bool" where
  "pids_kept s t \<longleftrightarrow> (\<forall>k p. worker_pid s k = Some p \<longrightarrow> worker_pid t k = Some p)"

lemma pids_kept_refl [simp]: "pids_kept s s"
  by (simp add: pids_kept_def)

lemma pids_kept_adjust: "(\<And>w. wpid (f w) = wpid w) \<Longrightarrow> pids_kept s (adjust_worker k f s)"
  by (auto simp: pids_kept_def worker_pid_def map_laws)

lemma pids_kept_other [simp]:
  "pids_kept s (t\<lparr>active := x\<rparr>) = pids_kept s t" "pids_kept s (t\<lparr>requests := y\<rparr>) = pids_kept s t"
  by (simp_all add: pids_kept_def worker_pid_def)

lemma coord_step_pids:
  assumes "coord_inv s" "coord_step kill c s = (r, t)"
  shows "pids_kept s t"
proof (cases c)
  case (RegisterWorker k ch)
  with assms(2) obtain err where "registerWorker k ch s = (err, t)" by (auto elim: apfstE)
  then show ?thesis by (auto dest!: registerWorker_cases simp: pids_kept_def worker_pid_def map_laws)
next
  case (MarkHealthy k)
  with assms(2) obtain err where "markHealthy k s = (err, t)" by (auto elim: apfstE)
  then show ?thesis by (auto simp: markHealthy_def intro!: pids_kept_adjust split: option.splits if_splits)
next
  case (FailWorker k reason)
  with assms(2) obtain err where "failWorker kill k reason s = (err, t)" by (auto elim: apfstE)
  then show ?thesis by (auto dest!: failWorker_cases intro!: pids_kept_adjust)
next
  case (ActivateWorker k)
  with assms(2) obtain err where "activateWorker k s = (err, t)" by (auto elim: apfstE)
  then show ?thesis
    by (auto dest!: activateWorker_cases [OF _ assms(1)] simp: pids_kept_def worker_pid_def)
next
  case (RetireWorker k)
  with assms(2) obtain err where "retireWorker k s = (err, t)" by (auto elim: apfstE)
  then show ?thesis by (auto dest!: retireWorker_cases intro!: pids_kept_adjust)
next
  case (TrackRequest i ks)
  with assms(2) obtain err where "trackRequest i ks s = (err, t)" by (auto elim: apfstE)
  then show ?thesis by (auto dest!: trackRequest_cases)
next
  case (RecordResult i k v)
  with assms(2) obtain err where "recordResult i k v s = (err, t)" by (auto elim: apfstE)
  then show ?thesis by (auto dest!: recordResult_cases)
next
  case TakeSnapshot
  with assms(2) show ?thesis by simp
next
  case (WorkerExited k e)
  with assms(2) have t: "t = recordWorkerExit k e s" by simp
  show ?thesis
    using recordWorkerExit_cases [OF refl, of k e s]
    unfolding t by (elim disjE exE conjE) (auto intro!: pids_kept_adjust)
qed

lemma coord_trans_pids:
  assumes "coord_trans s e t" "coord_inv s"
  shows "pids_kept s t"
  using assms(1)
proof cases
  case (turn s' kill c r)
  with assms(2) have "pids_kept s' t" by (blast intro: coord_step_pids coord_inv_same)
  moreover have "worker_pid s' = worker_pid s"
    using same_state_views(1) [OF turn(2)] assms(2) by (simp add: coord_inv_def worker_pid_def fun_eq_iff)
  ultimately show ?thesis by (simp add: pids_kept_def)
qed

definition monitor_ok :: "state \<Rightarrow> monitor \<Rightarrow> bool" where
  "monitor_ok s m \<longleftrightarrow> worker_pid s (watched m) = Some (mpid m) \<and> (\<forall>e. mphase m = Reporting e \<longrightarrow> ePID e = mpid m)"

definition monitors_ok :: "system \<Rightarrow> bool" where
  "monitors_ok s \<longleftrightarrow> (\<forall>m \<in> set (sMonitors s). monitor_ok (sLoop s) m) \<and>
     (\<forall>k e. sBusy s = Some (ForExit k e) \<longrightarrow> worker_pid (sLoop s) k = Some (ePID e))"

lemma monitors_okD:
  "monitors_ok s \<Longrightarrow> monitor_in s j p \<Longrightarrow> monitor_ok (sLoop s) (sMonitors s ! j)"
  by (simp add: monitors_ok_def monitor_in_def)

lemma monitor_ok_kept: "monitor_ok s m \<Longrightarrow> pids_kept s t \<Longrightarrow> monitor_ok t m"
  by (auto simp: monitor_ok_def pids_kept_def)

lemma monitors_set:
  assumes "monitors_ok s" "monitor_in s j q" "\<And>e. p = Reporting e \<Longrightarrow> ePID e = mpid (sMonitors s ! j)"
  shows "monitors_ok (set_monitor j p s)"
proof -
  have "monitor_ok (sLoop s) ((sMonitors s ! j)\<lparr>mphase := p\<rparr>)"
    using monitors_okD [OF assms(1,2)] assms(3) by (auto simp: monitor_ok_def)
  then show ?thesis
    using assms(1) set_update_subset_insert [of "sMonitors s" j] by (auto simp: monitors_ok_def set_monitor_def)
qed

lemma spawned_ok:
  assumes "coord_trans s (c, r) t" "coord_inv s" "m \<in> set (spawned c r)"
  shows "monitor_ok t m"
proof -
  obtain k ch where c: "c = RegisterWorker k (Some ch)" "r = ErrorReply None"
      and m: "m = \<lparr>watched = k, mpid = pid ch, mphase = Watching\<rparr>"
    using assms(3) by (cases "(c, r)" rule: spawned.cases) auto
  from assms(1) obtain s' where "registerWorker k (Some ch) s' = (None, t)"
    by (auto simp: c elim!: coord_transE apfstE)
  then show ?thesis by (auto dest!: registerWorker_cases simp: m monitor_ok_def worker_pid_def map_laws)
qed

lemma coord_run_inv:
  assumes "clients_run es s"
  shows "coord_inv (sLoop s)"
proof -
  have "coord_reach initial" by (rule reach_init) (simp add: coord_init_def)
  from reach_runs [OF clients_run_executed [OF assms] this] show ?thesis by (rule coord_reach_inv)
qed

lemma clients_run_monitors: "clients_run es s \<Longrightarrow> monitors_ok s"
proof (induction rule: clients_run.induct)
  case run_start
  show ?case by (simp add: monitors_ok_def start_system_def)
next
  case (run_more es s l t)
  note ok = run_more.IH and inv = coord_run_inv [OF run_more.hyps(1)]
  from run_more.hyps(2) show ?case
  proof cases
    case by_caller
    then have "sMonitors t = sMonitors s \<and> sLoop t = sLoop s \<and> sBusy t = sBusy s" by (auto elim: call_trans.cases)
    with ok show ?thesis by (simp add: monitors_ok_def)
  next
    case by_monitor
    then show ?thesis
    proof cases
      case (reported j e)
      then have "monitors_ok (set_monitor j MonitorEnded s)" by (intro monitors_set [OF ok]) auto
      then show ?thesis
        using monitors_okD [OF ok reported(3)] reported(3) unfolding reported(2)
        by (auto simp: monitors_ok_def monitor_ok_def monitor_in_def)
    qed (auto intro!: monitors_set [OF ok])
  next
    case by_loop
    then show ?thesis
    proof cases
      case (handoff i)
      with ok show ?thesis by (simp add: monitors_ok_def)
    next
      case (execute w r u)
      have "pids_kept (sLoop s) u" by (rule coord_trans_pids [OF execute(4) inv])
      then have "\<forall>m \<in> set (sMonitors s). monitor_ok u m" using ok by (auto simp: monitors_ok_def intro: monitor_ok_kept)
      with spawned_ok [OF execute(4) inv] show ?thesis by (auto simp: monitors_ok_def execute(2))
    next
      case stop
      with ok show ?thesis by (simp add: monitors_ok_def)
    qed
  qed
qed

text \<open>
  C11. The exit of a worker process is never taken for that of another one. Every exit that the
  loop handles belongs to a registered worker with that process id, so the check of the process
  id always passes, whatever callers do meanwhile; afterwards the worker has the exit code, is
  failed or was retired before, and is not the route of its scanner.
\<close>

theorem exits_noted:
  assumes "clients_run (es @ [Execute (ForExit k e) c r]) s"
  shows "\<exists>w. mget (workers (sLoop s)) k = Some w \<and> wpid w = ePID e \<and> exitCode w = eCode e \<and>
    (wstate w = WorkerFailed \<or> wstate w = WorkerRetired) \<and> mget (active (sLoop s)) (ScannerID k) \<noteq> Some k"
proof -
  obtain t where t: "clients_run es t" "clients_trans t (Execute (ForExit k e) c r) s"
    using assms by (auto elim: clients_run.cases)
  from execute_busy [OF t(2)] have busy: "sBusy t = Some (ForExit k e)"
      and step: "coord_trans (sLoop t) (WorkerExited k e, r) (sLoop s)" by auto
  from step obtain u where same: "same_state (sLoop t) u" and s: "sLoop s = recordWorkerExit k e u"
    by (auto elim!: coord_transE)
  have inv: "coord_inv (sLoop t)" "coord_inv (sLoop s)" by (rule coord_run_inv [OF t(1)], rule coord_run_inv [OF assms])
  have "worker_pid (sLoop t) k = Some (ePID e)" using clients_run_monitors [OF t(1)] busy by (simp add: monitors_ok_def)
  then obtain w where w: "mget (workers u) k = Some w" "wpid w = ePID e"
    using same_state_views(1) [OF same] inv(1) by (auto simp: worker_pid_def coord_inv_def)
  then obtain w' where w': "mget (workers (sLoop s)) k = Some w'" "wpid w' = ePID e" "exitCode w' = eCode e"
      "wstate w' = WorkerFailed \<or> wstate w' = WorkerRetired"
    using recordWorkerExit_cases [OF refl, of k e u] by (auto simp: s map_laws noteExit_def noteFailure_def)
  moreover have "mget (active (sLoop s)) (ScannerID k) \<noteq> Some k"
    using routes_okD [OF coord_invD(3) [OF inv(2)], of "ScannerID k" k] w'(1,4) by (auto simp: coord_states_def)
  ultimately show ?thesis by blast
qed

theorem exits_noted_witness:
  "\<exists>w. mget (workers (sLoop (the (run_system demo_kill (take 13 demo_labels) start_system)))) demo_old = Some w \<and>
     exitCode w = 7"
proof -
  let ?s = "the (run_system demo_kill (take 13 demo_labels) start_system)"
  have "run_system demo_kill (take 13 demo_labels) start_system = Some ?s" by code_simp
  from run_system_run [OF this run_start]
  have "clients_run (take 12 demo_labels @ [Execute (ForExit demo_old demo_exit) (WorkerExited demo_old demo_exit) NoReply]) ?s"
    by (simp add: demo_labels_def Let_def)
  from exits_noted [OF this] show ?thesis by (auto simp: demo_exit_def)
qed

end
