(* ===== verification/Spec2Isabelle.thy ===== *)
theory Spec2Isabelle
  imports Protocol Aggregator Signatures Process Coordinator CoordinatorInv CoordinatorProps
    Config Runtime RuntimeInv RuntimeSteps RuntimeReplies RuntimeProps
    Json Wire Ipc Transport Session Paths ConfigLoad Manifest Staging Update
    Flags WorkerMain Address Frames Bootstrap Launch Startup Races Deadlines Scanning Provenance Cli Control Upgrade Clients
begin

text \<open>
  Mini AV (\<^verbatim>\<open>src/\<close>, a Go program): a core process (\<^verbatim>\<open>cmd/miniav\<close>) starts scanner
  workers as child processes (\<^verbatim>\<open>cmd/scanner-a\<close>, \<^verbatim>\<open>scanner-b\<close>, \<^verbatim>\<open>scanner-c\<close>), checks
  their health, sends every scan to the active worker of each scanner, combines the verdicts, and
  replaces workers without losing requests. A command line client talks to the core over a
  loopback socket. This development models the packages of both sides, and what lies between them,
  and proves what makes each correct.

  \<^bold>\<open>How the parts interact.\<close> The client (\<open>Cli\<close>) sends one line (\<open>Frames\<close>,
  \<open>Control\<close>) to the core, whose dispatcher calls the runtime (\<open>Launch\<close>) or the update
  manager (\<open>Update\<close>). The runtime's loop (\<open>Runtime\<close>) owns the workers, the routes and the
  open scans; its callers send it events and wait on a reply channel each (\<open>Launch\<close>). A worker
  is reached over its standard streams, a socket or gRPC (\<open>Bootstrap\<close>, \<open>Transport\<close>,
  \<open>Ipc\<close>) with the messages of \<open>Protocol\<close> and their JSON (\<open>Wire\<close>, \<open>Json\<close>); inside it
  a session (\<open>Session\<close>) answers with the signature store (\<open>Signatures\<close>). Answers are
  combined by \<open>Aggregator\<close>.

  \<^bold>\<open>Theories and the code they model.\<close>
  \<^item> \<open>Prelude\<close>: Go strings and UTF-8, \<^verbatim>\<open>strings.TrimSpace\<close>, Go maps with their laws
    (\<open>map_laws\<close>), readers, files, chains of early returns (\<open>guards\<close>).
  \<^item> \<open>Protocol\<close>, \<open>Wire\<close>: \<^verbatim>\<open>pkg/protocol/protocol.go\<close>. \<open>Validate\<close> against the ten
    message forms; \<open>Marshal\<close> and \<open>Unmarshal\<close> on bytes and their round trip.
  \<^item> \<open>Json\<close>: the part of \<^verbatim>\<open>encoding/json\<close> the program uses, from bytes to values and
    structs, and the locale \<open>line_codec\<close>; \<open>Flags\<close>: package \<^verbatim>\<open>flag\<close> and its number
    readers; \<open>Paths\<close>: \<^verbatim>\<open>path/filepath\<close>.
  \<^item> \<open>Ipc\<close>: \<^verbatim>\<open>pkg/ipc/ipc.go\<close>, over \<^verbatim>\<open>bufio\<close>, any reader and any writer;
    \<open>Frames\<close>: bounded lines over \<^verbatim>\<open>io.LimitReader\<close>, and the locale \<open>struct_line\<close> of a
    struct sent as a line, interpreted for the bootstrap line, the requests and the responses.
  \<^item> \<open>Transport\<close>: \<^verbatim>\<open>pkg/workertransport/protobuf.go\<close>; \<open>Address\<close>, \<open>Bootstrap\<close>:
    \<^verbatim>\<open>pkg/workertransport/transport.go\<close> and \<^verbatim>\<open>pkg/worker/server.go\<close>.
  \<^item> \<open>Signatures\<close>: \<^verbatim>\<open>pkg/signatures/signatures.go\<close>. The streaming matcher against
    substring search on the whole content; loading and reloading.
  \<^item> \<open>Session\<close>, \<open>WorkerMain\<close>: \<^verbatim>\<open>pkg/worker/worker.go\<close> as a step relation with
    concurrent scans, \<^verbatim>\<open>pkg/worker/main.go\<close> and the scanner executables.
  \<^item> \<open>Aggregator\<close>: \<^verbatim>\<open>pkg/aggregator/aggregator.go\<close>; \<open>Process\<close>:
    \<^verbatim>\<open>pkg/process/process.go\<close>.
  \<^item> \<open>Lifecycle\<close>: the states of a worker, the documented edges between them, runs and
    reachability, and the locale that both loops interpret. \<open>Coordinator\<close>,
    \<open>CoordinatorInv\<close>, \<open>CoordinatorProps\<close>: \<^verbatim>\<open>pkg/coordinator/coordinator.go\<close>;
    \<open>Clients\<close>: the exported methods and the monitors of the same file around that loop.
  \<^item> \<open>Runtime\<close>: the event loop of \<^verbatim>\<open>pkg/coordinator/runtime.go\<close>, one function for each
    handler; \<open>RuntimeInv\<close> and \<open>RuntimeSteps\<close>: its invariant and the preservation by every
    handler; \<open>RuntimeReplies\<close>: the ledger of reply channels; \<open>RuntimeProps\<close>: the
    properties; \<open>Deadlines\<close>: what a scan's timer does, and the end of a shutdown by the set of the
    workers that are still alive; \<open>Provenance\<close>: where the answers of a scan come from;
    \<open>Races\<close>: evaluated runs with late events. \<open>Launch\<close>: the methods of the same file that
    callers use, and the goroutines between the loop and a worker. \<open>Startup\<close>: a
    whole start, callers, loop and session together; \<open>Scanning\<close>: a whole scan, from the caller
    over the loop, the workers' sessions and their signatures to the combined verdict;
    \<open>Upgrade\<close>: a whole update, from the request over the staged release to the cutover.
  \<^item> \<open>Config\<close>, \<open>ConfigLoad\<close>: \<^verbatim>\<open>pkg/config/config.go\<close>. \<open>Manifest\<close>, \<open>Staging\<close>,
    \<open>Update\<close>: \<^verbatim>\<open>pkg/update/update.go\<close>, over a tree of files that others may change.
  \<^item> \<open>Cli\<close>: \<^verbatim>\<open>cmd/miniav/cli.go\<close> and \<^verbatim>\<open>main.go\<close>; \<open>Control\<close>:
    \<^verbatim>\<open>cmd/miniav/transport.go\<close>.

  \<^bold>\<open>How state and operations correspond.\<close> A struct is a record, a map an association list
  with distinct keys, a machine integer a word, an error a value of a sum or an option; a function
  that takes a pointer returns the updated record. One goroutine's loop is a step function and its
  interleaving with others an inductive relation; before every turn the maps may be permuted,
  since Go ranges over them in any order. What comes from outside (the operating system, the
  network, the clock, SHA-256, URL parsing, the texts of \<^verbatim>\<open>fmt\<close>) is an argument, and what is
  needed of it is a hypothesis of the theorem that needs it: a writer that takes less than it is
  given says so (\<open>whole_writes\<close>), a reader never returns nothing without an error
  (\<open>steady\<close>), readers hand the loop only messages that validate (\<open>event_ok\<close>; proved of the
  decoder).

  \<^bold>\<open>What the properties show.\<close> The runtime: every command is answered once, a scan is
  followed to its outcome, a worker that drains is stopped when its last scan ends, routes lead to
  the one active worker, a cutover is one step, and a candidate that fails leaves the active worker
  alone; a start with real flags and session answers takes over, or is rolled back; a scan waits no longer
  than its timer, and a shutdown ends once every process, a late one included, has exited. The coordinator:
  the same for its simpler loop, which follows the documented lifecycle. Messages, frames, both
  transports, the bootstrap line, the flags of a worker and the control commands: valid UTF-8 that
  is sent arrives; the one valid message that cannot, with an empty list of capabilities, is refused
  by the reader. The coordinator's methods: called from any number of goroutines they are atomic, a
  call that failed early has no effect, none is stuck, and an exit that the loop handles is that of
  the worker with this process id. A scan: the caller is told what the contents and the signatures
  call for, and no verdict is invented. An update: the worker that takes over runs the artifact the
  manifest describes. Updates: what is staged has the digest of its manifest and nothing else is
  touched.
  Parsers and validators accept exactly what they should; the matcher finds exactly what is there.

  \<^bold>\<open>Bounds and fuel.\<close> The JSON parser's fuel is twice the length of its text, proved enough
  by the lengths of what its parts leave over. \<^verbatim>\<open>bufio\<close> gives up after 100 empty reads, of
  which a steady reader makes none, and buffers 4096 bytes where the code asks for no size. A frame
  has at most \<open>MaxFrameSize\<close> bytes, a control line 64 KiB with its newline, a worker's queue 64
  messages. The 64-bit request counter is assumed not to be exhausted, and
  the in-flight counters, which the open requests bound, are unbounded integers. All other recursion is
  structural or ends by a measure.

  \<^bold>\<open>Not modelled.\<close> The generated gRPC code; deadlines of contexts, signals and the
  scheduling of ready channels, whose outcome is an argument or, in the step relations, any; pipes and the waiting goroutine of a
  child process; log output and usage texts; the nesting limit of \<^verbatim>\<open>encoding/json\<close>, and its
  reuse of slice elements when a duplicate member holds \<^verbatim>\<open>null\<close> elements; symbolic links and
  Windows paths. A session takes a message, acts on it and queues its reply in one step, so a scan
  that starts between a reload and its reply is not interleaved there; a file is read or copied at
  one instant. Loopback addresses follow Go 1.22.4 and later. Locks are the atomicity of the
  operations they guard.
\<close>

end
